(* ===== verification/Prelude.thy ===== *)
theory Prelude
  imports Main "HOL-Library.Word" "HOL-Library.Multiset" "HOL-Library.Char_ord" "HOL-Library.List_Lexorder"
    "HOL-Library.Product_Lexorder" "HOL-Library.Code_Target_Nat"
begin

text \<open>
  Shared base of the development: the result type of fallible Rust code with its
  \<open>?\<close> operator, the machine types, checked \<open>usize\<close> arithmetic, UTF-8
  validation as in \<open>std::str::from_utf8\<close>, and the lemmas on adjacent pairs and
  sorted lists that every component uses.

  A byte is HOL's 8-bit \<open>char\<close> and \<open>of_char\<close> reads it as an unsigned number; a
  Rust \<open>String\<close> is its UTF-8 byte list. The order on byte lists is the bytewise
  lexicographic order of \<open>List_Lexorder\<close>, which is Rust's \<open>Ord\<close> on \<open>str\<close> and
  \<open>[u8]\<close>. \<open>usize\<close> is \<open>nat\<close> below \<open>2 ^ 64\<close>.
\<close>

type_synonym byte = char
type_synonym bytes = "byte list"
type_synonym i64 = "64 word"
type_synonym u64 = "64 word"
type_synonym f64 = "64 word" \<comment> \<open>the IEEE binary64 bit pattern\<close>

named_theorems result_simps \<open>equations of the result monad\<close>
named_theorems wf_intros \<open>introduction rules of the well-formedness invariants\<close>

section \<open>Results\<close>

text \<open>\<open>Panic\<close> is a Rust panic: a failed \<open>expect\<close>, \<open>unreachable!\<close> or overflow.\<close>

datatype ('e, 'a) result = Ok 'a | Err 'e | Panic

definition attempt :: "('e, 'a) result \<Rightarrow> ('a \<Rightarrow> ('e, 'b) result) \<Rightarrow> ('e, 'b) result" where
  "attempt m f = (case m of Ok x \<Rightarrow> f x | Err e \<Rightarrow> Err e | Panic \<Rightarrow> Panic)"

text \<open>Evaluation takes \<open>attempt\<close> as the case distinction it is, so that a continuation is only
  looked at once its argument is known.\<close>

declare attempt_def [code_unfold]

definition map_err :: "('e \<Rightarrow> 'f) \<Rightarrow> ('e, 'a) result \<Rightarrow> ('f, 'a) result" where
  "map_err g m = (case m of Ok x \<Rightarrow> Ok x | Err e \<Rightarrow> Err (g e) | Panic \<Rightarrow> Panic)"

definition ok_or :: "'e \<Rightarrow> 'a option \<Rightarrow> ('e, 'a) result" where
  "ok_or e m = (case m of None \<Rightarrow> Err e | Some x \<Rightarrow> Ok x)"

definition expect :: "'a option \<Rightarrow> ('e, 'a) result" where
  "expect m = (case m of None \<Rightarrow> Panic | Some x \<Rightarrow> Ok x)"

definition guard :: "bool \<Rightarrow> 'e \<Rightarrow> ('e, unit) result" where
  "guard ok e = (if ok then Ok () else Err e)"

fun map_result :: "('a \<Rightarrow> ('e, 'b) result) \<Rightarrow> 'a list \<Rightarrow> ('e, 'b list) result" where
  "map_result f [] = Ok []"
| "map_result f (x # xs) =
     attempt (f x) (\<lambda>y. attempt (map_result f xs) (\<lambda>ys. Ok (y # ys)))"

fun fold_result :: "('a \<Rightarrow> 's \<Rightarrow> ('e, 's) result) \<Rightarrow> 'a list \<Rightarrow> 's \<Rightarrow> ('e, 's) result" where
  "fold_result f [] s = Ok s"
| "fold_result f (x # xs) s = attempt (f x s) (fold_result f xs)"

text \<open>A loop that pushes a result per element and threads a state.\<close>

fun fold_collect :: "('a \<Rightarrow> 's \<Rightarrow> ('e, 'b \<times> 's) result) \<Rightarrow> 'a list \<Rightarrow> 's \<Rightarrow> ('e, 'b list \<times> 's) result" where
  "fold_collect f [] s = Ok ([], s)"
| "fold_collect f (x # xs) s =
     attempt (f x s) (\<lambda>(y, s1). attempt (fold_collect f xs s1) (\<lambda>(ys, s2). Ok (y # ys, s2)))"

lemma attempt_simps [simp, result_simps]:
  "attempt (Ok x) f = f x" "attempt (Err e) f = Err e" "attempt Panic f = Panic"
  by (simp_all add: attempt_def)

lemma map_err_simps [simp, result_simps]:
  "map_err g (Ok x) = Ok x" "map_err g (Err e) = Err (g e)" "map_err g Panic = Panic"
  by (simp_all add: map_err_def)

lemma attempt_eq_Ok [simp]:
  "attempt m f = Ok y \<longleftrightarrow> (\<exists>x. m = Ok x \<and> f x = Ok y)"
  by (cases m) auto

lemma attempt_eq_Err:
  "attempt m f = Err e \<longleftrightarrow> m = Err e \<or> (\<exists>x. m = Ok x \<and> f x = Err e)"
  by (cases m) auto

lemma attempt_eq_Panic:
  "attempt m f = Panic \<longleftrightarrow> m = Panic \<or> (\<exists>x. m = Ok x \<and> f x = Panic)"
  by (cases m) auto

lemma map_err_eq_Ok [simp]: "map_err g m = Ok y \<longleftrightarrow> m = Ok y"
  by (cases m) auto

lemma map_err_eq_Panic [simp]: "map_err g m = Panic \<longleftrightarrow> m = Panic"
  by (cases m) auto

lemma map_err_eq_Err: "map_err g m = Err e \<longleftrightarrow> (\<exists>e'. m = Err e' \<and> e = g e')"
  by (cases m) auto

lemma ok_or_simps [simp, result_simps]: "ok_or e None = Err e" "ok_or e (Some x) = Ok x"
  by (simp_all add: ok_or_def)

lemma ok_or_eq_Ok [simp]: "ok_or e m = Ok x \<longleftrightarrow> m = Some x"
  by (cases m) auto

lemma ok_or_not_Panic [simp]: "ok_or e m \<noteq> Panic"
  by (cases m) auto

lemma expect_simps [simp, result_simps]: "expect None = Panic" "expect (Some x) = Ok x"
  by (simp_all add: expect_def)

lemma expect_eq_Ok [simp]: "expect m = Ok x \<longleftrightarrow> m = Some x"
  by (cases m) auto

lemma guard_simps [simp, result_simps]: "guard True e = Ok ()" "guard False e = Err e"
  by (simp_all add: guard_def)

lemma guard_eq_Ok [simp]: "guard P e = Ok u \<longleftrightarrow> P"
  by (cases P) auto

lemma guard_not_Panic [simp]: "guard P e \<noteq> Panic"
  by (cases P) auto

lemma guard_eq_Err [simp]: "guard P e = Err e' \<longleftrightarrow> \<not> P \<and> e' = e"
  by (cases P) auto

lemma attempt_cong [fundef_cong]:
  assumes "m = n" and "\<And>x. n = Ok x \<Longrightarrow> f x = g x"
  shows "attempt m f = attempt n g"
  using assms by (cases n) auto

lemma map_result_cong [fundef_cong]:
  assumes "xs = ys" and "\<And>x. x \<in> set ys \<Longrightarrow> f x = g x"
  shows "map_result f xs = map_result g ys"
  using assms by (induction ys arbitrary: xs) auto

lemma fold_result_cong [fundef_cong]:
  assumes "xs = ys" "s = t" and "\<And>x u. x \<in> set ys \<Longrightarrow> f x u = g x u"
  shows "fold_result f xs s = fold_result g ys t"
  unfolding assms(1,2) using assms(3)
proof (induction ys arbitrary: t)
  case (Cons x xs)
  then show ?case by (cases "g x t") auto
qed simp

lemma fold_collect_cong [fundef_cong]:
  assumes "xs = ys" "s = t" and "\<And>x u. x \<in> set ys \<Longrightarrow> f x u = g x u"
  shows "fold_collect f xs s = fold_collect g ys t"
  unfolding assms(1,2) using assms(3)
proof (induction ys arbitrary: t)
  case (Cons x xs)
  then show ?case by (cases "g x t") auto
qed simp

text \<open>The successful runs of a loop whose steps each add a cost to a bounded counter.\<close>

lemma fold_collect_Ok:
  fixes m :: nat
  assumes step: "\<And>x k r. x \<in> set xs \<Longrightarrow> f x k = Ok r \<longleftrightarrow> P x \<and> r = (g x, k + c x) \<and> k + c x \<le> m"
    and n: "n \<le> m"
  shows "fold_collect f xs n = Ok r \<longleftrightarrow>
    (\<forall>x \<in> set xs. P x) \<and> r = (map g xs, n + sum_list (map c xs)) \<and> n + sum_list (map c xs) \<le> m"
  using assms
proof (induction xs arbitrary: n r)
  case (Cons x xs)
  have s: "f x n = Ok q \<longleftrightarrow> P x \<and> q = (g x, n + c x) \<and> n + c x \<le> m" for q
    by (rule Cons.prems(1)) simp
  show ?case
  proof (cases "P x \<and> n + c x \<le> m")
    case True
    then have "fold_collect f (x # xs) n =
        attempt (fold_collect f xs (n + c x)) (\<lambda>(ys, s2). Ok (g x # ys, s2))"
      using s [of "(g x, n + c x)"] by simp
    moreover have "fold_collect f xs (n + c x) = Ok q \<longleftrightarrow> (\<forall>x \<in> set xs. P x) \<and>
        q = (map g xs, n + c x + sum_list (map c xs)) \<and> n + c x + sum_list (map c xs) \<le> m" for q
      by (rule Cons.IH) (use Cons.prems True in auto)
    ultimately show ?thesis using True by (auto simp: add.assoc)
  next
    case False
    then have "\<nexists>q. f x n = Ok q" using s by auto
    then show ?thesis using False by auto
  qed
qed auto

lemma map_result_Ok_iff:
  "map_result f xs = Ok ys \<longleftrightarrow> list_all2 (\<lambda>x y. f x = Ok y) xs ys"
  by (induction xs arbitrary: ys) (auto simp: list_all2_Cons1)

lemma map_result_Ok_map:
  "(\<And>x. x \<in> set xs \<Longrightarrow> f x = Ok (g x)) \<Longrightarrow> map_result f xs = Ok (map g xs)"
  by (induction xs) auto

section \<open>Checked arithmetic on \<open>usize\<close>\<close>

definition usize_bound :: nat where
  "usize_bound = 2 ^ 64"

lemma usize_bound_code [code]: "usize_bound = 18446744073709551616"
  by (simp add: usize_bound_def)

definition checked_add :: "nat \<Rightarrow> nat \<Rightarrow> nat option" where
  "checked_add a b = (if a + b < usize_bound then Some (a + b) else None)"

definition i64_try_from :: "u64 \<Rightarrow> i64 option" where
  "i64_try_from n = (if unat n < 2 ^ 63 then Some n else None)"

lemma unat_word_of_nat [simp]:
  "n < 2 ^ LENGTH('a) \<Longrightarrow> unat (word_of_nat n :: 'a::len word) = n"
  by (simp add: unat_of_nat take_bit_nat_eq_self)

lemma unat_u64_less: "unat (a :: u64) < 2 ^ 64"
  using unsigned_less [of a] by simp

lemma bit_63_iff: "bit (n :: u64) 63 \<longleftrightarrow> 2 ^ 63 \<le> unat n"
proof -
  have "bit n 63 \<longleftrightarrow> bit (unat n) 63"
    by (simp add: bit_unsigned_iff)
  also have "\<dots> \<longleftrightarrow> odd (unat n div 2 ^ 63)"
    by (rule bit_iff_odd)
  also have "\<dots> \<longleftrightarrow> 2 ^ 63 \<le> unat n"
  proof -
    have "unat n div 2 ^ 63 < 2" using unat_u64_less [of n] by simp
    moreover have "odd k \<longleftrightarrow> 0 < k" if "k < 2" for k :: nat
      using that by (cases k) auto
    ultimately show ?thesis by (simp add: div_greater_zero_iff)
  qed
  finally show ?thesis .
qed

lemma sless_zero_iff: "(n :: i64) <s 0 \<longleftrightarrow> bit n 63"
  by (simp add: word_sless_alt sint_uint signed_take_bit_negative_iff bit_uint_iff)

lemma checked_add_eq_Some [simp]:
  "checked_add a b = Some c \<longleftrightarrow> c = a + b \<and> a + b < usize_bound"
  by (auto simp: checked_add_def)

lemma checked_add_comm: "checked_add a b = checked_add b a"
  by (simp add: checked_add_def add.commute)

section \<open>Orderings and binary search\<close>

text \<open>\<open>std::cmp::Ordering\<close>, \<open>Ord::cmp\<close>, \<open>then_with\<close> and the search loop of
  \<open>slice::binary_search_by\<close> over indices \<open>lo..hi\<close>.\<close>

datatype ordering = Less | Equal | Greater

definition cmp :: "'a::linorder \<Rightarrow> 'a \<Rightarrow> ordering" where
  "cmp a b = (if a < b then Less else if a = b then Equal else Greater)"

definition then_with :: "ordering \<Rightarrow> ordering \<Rightarrow> ordering" where
  "then_with a b = (if a = Equal then b else a)"

function bsearch :: "(nat \<Rightarrow> ordering) \<Rightarrow> nat \<Rightarrow> nat \<Rightarrow> nat option" where
  "bsearch c lo hi =
     (if lo < hi then
        (let mid = lo + (hi - lo) div 2 in
         case c mid of
           Equal \<Rightarrow> Some mid
         | Less \<Rightarrow> bsearch c (Suc mid) hi
         | Greater \<Rightarrow> bsearch c lo mid)
      else None)"
  by pat_completeness auto
termination
  by (relation "measure (\<lambda>(c, lo, hi). hi - lo)") auto

declare bsearch.simps [simp del]

lemma cmp_eq_iff [simp]:
  "cmp a b = Equal \<longleftrightarrow> a = b" "cmp a b = Less \<longleftrightarrow> a < b" "cmp a b = Greater \<longleftrightarrow> b < a"
  by (auto simp: cmp_def)

lemma then_with_cmp_prod:
  "then_with (cmp a b) (cmp c d) = cmp (a, c) (b, d)"
  by (auto simp: then_with_def cmp_def)

lemma bsearch_Some:
  "bsearch c lo hi = Some i \<Longrightarrow> c i = Equal \<and> lo \<le> i \<and> i < hi"
proof (induction c lo hi rule: bsearch.induct)
  case (1 c lo hi)
  define mid where "mid = lo + (hi - lo) div 2"
  have lt: "lo < hi"
    using "1.prems" by (simp add: bsearch.simps [of c lo hi] split: if_splits)
  then have mid: "lo \<le> mid" "mid < hi" unfolding mid_def by linarith+
  have eq: "bsearch c lo hi = (case c mid of Equal \<Rightarrow> Some mid
      | Less \<Rightarrow> bsearch c (Suc mid) hi | Greater \<Rightarrow> bsearch c lo mid)"
    using lt by (simp add: bsearch.simps [of c lo hi] Let_def flip: mid_def)
  show ?case
  proof (cases "c mid")
    case Less
    with "1.prems" eq have "bsearch c (Suc mid) hi = Some i" by simp
    from "1.IH"(1) [OF lt mid_def Less this] mid show ?thesis by simp
  next
    case Equal
    with "1.prems" eq mid show ?thesis by simp
  next
    case Greater
    with "1.prems" eq have "bsearch c lo mid = Some i" by simp
    from "1.IH"(2) [OF lt mid_def Greater this] mid show ?thesis by simp
  qed
qed

lemma bsearch_None:
  assumes "\<And>i j. lo \<le> i \<Longrightarrow> i < j \<Longrightarrow> j < hi \<Longrightarrow> c j = Less \<Longrightarrow> c i = Less"
    and "\<And>i j. lo \<le> i \<Longrightarrow> i < j \<Longrightarrow> j < hi \<Longrightarrow> c i = Greater \<Longrightarrow> c j = Greater"
    and "bsearch c lo hi = None" "lo \<le> k" "k < hi"
  shows "c k \<noteq> Equal"
  using assms
proof (induction c lo hi rule: bsearch.induct)
  case (1 c lo hi)
  define mid where "mid = lo + (hi - lo) div 2"
  have lt: "lo < hi" using "1.prems" by simp
  then have mid: "lo \<le> mid" "mid < hi" unfolding mid_def by linarith+
  show ?case
  proof (cases "c mid")
    case Less
    have n: "bsearch c (Suc mid) hi = None"
      using "1.prems"(3) lt Less by (simp add: bsearch.simps [of c lo hi] Let_def flip: mid_def)
    show ?thesis
    proof (cases "k \<le> mid")
      case True
      then show ?thesis using "1.prems"(1) [of k mid] Less mid "1.prems"(4)
        by (cases "k = mid") auto
    next
      case False
      show ?thesis
      proof (rule "1.IH"(1) [OF lt mid_def Less _ _ n])
        show "c i = Less" if "Suc mid \<le> i" "i < j" "j < hi" "c j = Less" for i j
          by (rule "1.prems"(1) [of i j]) (use that mid in simp_all)
        show "c j = Greater" if "Suc mid \<le> i" "i < j" "j < hi" "c i = Greater" for i j
          by (rule "1.prems"(2) [of i j]) (use that mid in simp_all)
      qed (use False "1.prems"(5) in simp_all)
    qed
  next
    case Equal
    then show ?thesis
      using "1.prems"(3) lt by (simp add: bsearch.simps [of c lo hi] Let_def flip: mid_def)
  next
    case Greater
    have n: "bsearch c lo mid = None"
      using "1.prems"(3) lt Greater by (simp add: bsearch.simps [of c lo hi] Let_def flip: mid_def)
    show ?thesis
    proof (cases "mid \<le> k")
      case True
      then show ?thesis using "1.prems"(2) [of mid k] Greater mid "1.prems"(5)
        by (cases "k = mid") auto
    next
      case False
      show ?thesis
      proof (rule "1.IH"(2) [OF lt mid_def Greater _ _ n])
        show "c i = Less" if "lo \<le> i" "i < j" "j < mid" "c j = Less" for i j
          by (rule "1.prems"(1) [of i j]) (use that mid in simp_all)
        show "c j = Greater" if "lo \<le> i" "i < j" "j < mid" "c i = Greater" for i j
          by (rule "1.prems"(2) [of i j]) (use that mid in simp_all)
      qed (use False "1.prems"(4) in simp_all)
    qed
  qed
qed

section \<open>Adjacent pairs: \<open>windows(2)\<close>\<close>

fun any_pair :: "('a \<Rightarrow> 'a \<Rightarrow> bool) \<Rightarrow> 'a list \<Rightarrow> bool" where
  "any_pair P (x # y # zs) = (P x y \<or> any_pair P (y # zs))"
| "any_pair P xs = False"

abbreviation strictly_sorted :: "'a::linorder list \<Rightarrow> bool" where
  "strictly_sorted xs \<equiv> sorted_wrt (<) xs"

lemma any_pair_Cons:
  "any_pair P (x # xs) \<longleftrightarrow> (case xs of [] \<Rightarrow> False | y # _ \<Rightarrow> P x y) \<or> any_pair P xs"
  by (cases xs) auto

lemma no_pair_ge_iff:
  fixes xs :: "'a::linorder list"
  shows "\<not> any_pair (\<lambda>a b. b \<le> a) xs \<longleftrightarrow> strictly_sorted xs"
  by (induction "\<lambda>a b::'a. b \<le> a" xs rule: any_pair.induct)
    (auto simp: not_le dest: order.strict_trans)

lemma strictly_sorted_iff:
  fixes xs :: "'a::linorder list"
  shows "strictly_sorted xs \<longleftrightarrow> sorted xs \<and> distinct xs"
  by (rule strict_sorted_iff)

lemma sorted_no_pair_eq_iff:
  fixes xs :: "'a::linorder list"
  shows "sorted xs \<Longrightarrow> \<not> any_pair (=) xs \<longleftrightarrow> distinct xs"
proof (induction xs)
  case (Cons x xs)
  then show ?case
    by (cases xs) (auto simp: order.antisym)
qed simp

lemma any_pair_map: "any_pair P (map f xs) = any_pair (\<lambda>a b. P (f a) (f b)) xs"
  by (induction "\<lambda>a b. P (f a) (f b)" xs rule: any_pair.induct) auto

lemma strictly_sorted_unique:
  fixes xs ys :: "'a::linorder list"
  assumes "strictly_sorted xs" "strictly_sorted ys" "set xs = set ys"
  shows "xs = ys"
  using assms by (metis sorted_distinct_set_unique strictly_sorted_iff)

lemma map_of_Some_strict:
  assumes "distinct (map fst xs)" "(k, v) \<in> set xs"
  shows "map_of xs k = Some v"
  using assms by simp

section \<open>UTF-8\<close>

text \<open>
  \<open>utf8_error_at\<close> is \<open>std::str::from_utf8\<close>: \<open>None\<close> for well-formed input, and
  otherwise the error's \<open>valid_up_to\<close>, the length of the longest well-formed prefix.
\<close>

definition continuation :: "byte \<Rightarrow> bool" where
  "continuation b \<longleftrightarrow> 0x80 \<le> (of_char b :: nat) \<and> (of_char b :: nat) \<le> 0xBF"

definition second_of_three :: "nat \<Rightarrow> byte \<Rightarrow> bool" where
  "second_of_three lead b \<longleftrightarrow> continuation b \<and>
     (lead = 0xE0 \<longrightarrow> 0xA0 \<le> (of_char b :: nat)) \<and> (lead = 0xED \<longrightarrow> (of_char b :: nat) \<le> 0x9F)"

definition second_of_four :: "nat \<Rightarrow> byte \<Rightarrow> bool" where
  "second_of_four lead b \<longleftrightarrow> continuation b \<and>
     (lead = 0xF0 \<longrightarrow> 0x90 \<le> (of_char b :: nat)) \<and> (lead = 0xF4 \<longrightarrow> (of_char b :: nat) \<le> 0x8F)"

fun utf8_error_at :: "bytes \<Rightarrow> nat option" where
  "utf8_error_at [] = None"
| "utf8_error_at (a # r) =
     (let n = (of_char a :: nat) in
      if n < 0x80 then map_option Suc (utf8_error_at r)
      else if 0xC2 \<le> n \<and> n \<le> 0xDF then
        (case r of
           b # r' \<Rightarrow> if continuation b then map_option (\<lambda>k. k + 2) (utf8_error_at r') else Some 0
         | _ \<Rightarrow> Some 0)
      else if 0xE0 \<le> n \<and> n \<le> 0xEF then
        (case r of
           b # c # r' \<Rightarrow> if second_of_three n b \<and> continuation c
             then map_option (\<lambda>k. k + 3) (utf8_error_at r') else Some 0
         | _ \<Rightarrow> Some 0)
      else if 0xF0 \<le> n \<and> n \<le> 0xF4 then
        (case r of
           b # c # d # r' \<Rightarrow> if second_of_four n b \<and> continuation c \<and> continuation d
             then map_option (\<lambda>k. k + 4) (utf8_error_at r') else Some 0
         | _ \<Rightarrow> Some 0)
      else Some 0)"

abbreviation utf8_valid :: "bytes \<Rightarrow> bool" where
  "utf8_valid bs \<equiv> utf8_error_at bs = None"

lemma utf8_error_at_ascii [simp]:
  "(of_char a :: nat) < 0x80 \<Longrightarrow> utf8_error_at (a # r) = map_option Suc (utf8_error_at r)"
  by simp

declare utf8_error_at.simps(2) [simp del]

lemma utf8_valid_ascii:
  "(\<forall>b \<in> set bs. (of_char b :: nat) < 0x80) \<Longrightarrow> utf8_valid bs"
  by (induction bs) auto

section \<open>Bytes\<close>

unbundle bit_operations_syntax

lemma or_push_bit: "a < 2 ^ k \<Longrightarrow> a OR push_bit k m = 2 ^ k * m + (a::nat)"
proof -
  assume "a < 2 ^ k"
  then have "take_bit k a = a" by (simp add: take_bit_nat_eq_self_iff)
  then have "\<not> bit a n \<or> \<not> bit (push_bit k m) n" for n
    by (metis bit_push_bit_iff bit_take_bit_iff not_le)
  then have "a + push_bit k m = a OR push_bit k m" by (rule disjunctive_add)
  then show ?thesis by (simp add: push_bit_eq_mult mult.commute)
qed

lemma of_char_less_256: "(of_char c :: nat) < 256"
  using nat_of_char_less_256 by simp

lemma of_char_eq_iff: "(of_char a :: nat) = of_char b \<longleftrightarrow> a = b"
  by simp

lemma take_drop_split:
  "p + n \<le> length xs \<Longrightarrow> take (p + n) xs = take p xs @ take n (drop p xs)"
  by (simp add: take_add)

lemma char_less_iff: "(a::char) < b \<longleftrightarrow> (of_char a :: nat) < of_char b"
  by (simp add: less_char_def)

lemma char_le_iff: "(a::char) \<le> b \<longleftrightarrow> (of_char a :: nat) \<le> of_char b"
  by (simp add: less_eq_char_def)

lemma list_less_append_same [simp]:
  fixes xs ys zs :: "'a::linorder list"
  shows "xs @ ys < xs @ zs \<longleftrightarrow> ys < zs"
  by (induction xs) auto

lemma list_less_same_length_append:
  fixes xs ys :: "'a::linorder list"
  assumes "length xs = length ys" "xs < ys"
  shows "xs @ us < ys @ vs"
  using assms by (induction xs ys rule: list_induct2) auto

lemma strictly_sorted_remdups_adj:
  fixes xs :: "'a::linorder list"
  shows "sorted xs \<Longrightarrow> strictly_sorted (remdups_adj xs)"
  by (induction xs rule: remdups_adj.induct) (auto simp: less_le)

lemma remdups_adj_sort: "remdups_adj (sort xs) = sorted_list_of_set (set xs)"
  by (rule strict_sorted_equal) (use strictly_sorted_remdups_adj [of "sort xs"] in simp_all)

end
