(* ===== verification/Cbor_Model.thy ===== *)
theory Cbor_Model
  imports Prelude
begin

text \<open>
  The CBOR data model of \<open>htlk-executable/src/cbor\<close>: limits and their checked
  accounting (\<open>limits.rs\<close>, \<open>accounting.rs\<close>), codec errors (\<open>error.rs\<close>), values,
  finite floats and canonical maps (\<open>value.rs\<close>), and the interface of the
  \<open>cbor2\<close> crate the codec calls, which is a parameter.
\<close>

unbundle bit_operations_syntax

section \<open>Errors and limits\<close>

datatype limit_kind = DocumentBytes | Depth

datatype canonicality_reason =
  NonminimalHeader | IndefiniteLength | WideFloat | NegativeZero | WideSimple

datatype error_kind =
  UnexpectedEnd
| TrailingData
| InvalidUtf8
| UnsupportedType
| IntegerOutOfRange
| NonFiniteFloat
| NonCanonicalEncoding
| DuplicateMapKey
| MapKeyOutOfOrder
| LimitExceeded limit_kind nat
| InvalidLimits
| AllocationFailed

record cbor_error =
  err_kind :: error_kind
  err_offset :: nat
  has_offset :: bool
  err_reason :: "canonicality_reason option"

definition new_error :: "error_kind \<Rightarrow> cbor_error" where
  "new_error k = \<lparr>err_kind = k, err_offset = 0, has_offset = False, err_reason = None\<rparr>"

definition noncanonical :: "canonicality_reason \<Rightarrow> cbor_error" where
  "noncanonical r = (new_error NonCanonicalEncoding)\<lparr>err_reason := Some r\<rparr>"

definition at_offset :: "nat \<Rightarrow> cbor_error \<Rightarrow> cbor_error" where
  "at_offset n e = (if has_offset e then e else e\<lparr>err_offset := n, has_offset := True\<rparr>)"

definition error_offset :: "cbor_error \<Rightarrow> nat option" where
  "error_offset e = (if has_offset e then Some (err_offset e) else None)"

text \<open>\<open>impl PartialEq for Error\<close>: category and offset only.\<close>

definition error_eq :: "cbor_error \<Rightarrow> cbor_error \<Rightarrow> bool" where
  "error_eq a b \<longleftrightarrow> err_kind a = err_kind b \<and> error_offset a = error_offset b"

record limits =
  max_document_bytes :: nat
  max_depth :: nat

definition max_supported_depth :: nat where
  "max_supported_depth = 128"

definition default_limits :: limits where
  "default_limits = \<lparr>max_document_bytes = 16 * 1024 * 1024, max_depth = 64\<rparr>"

lemma default_limits_code [code]: "default_limits = \<lparr>max_document_bytes = 16777216, max_depth = 64\<rparr>"
  by (simp add: default_limits_def)

definition limits_validate :: "limits \<Rightarrow> (cbor_error, unit) result" where
  "limits_validate l =
     (if max_depth l > max_supported_depth then Err (new_error InvalidLimits) else Ok ())"

text \<open>Both fields are \<open>usize\<close>.\<close>

definition usize_limits :: "limits \<Rightarrow> bool" where
  "usize_limits l \<longleftrightarrow> max_document_bytes l < usize_bound \<and> max_depth l < usize_bound"

definition exceeded :: "limit_kind \<Rightarrow> nat \<Rightarrow> cbor_error" where
  "exceeded k m = new_error (LimitExceeded k m)"

definition check :: "nat \<Rightarrow> nat \<Rightarrow> limit_kind \<Rightarrow> (cbor_error, unit) result" where
  "check v m k = (if v > m then Err (exceeded k m) else Ok ())"

definition add :: "nat \<Rightarrow> nat \<Rightarrow> nat \<Rightarrow> limit_kind \<Rightarrow> (cbor_error, nat) result" where
  "add current amount m k =
     attempt (ok_or (exceeded k m) (checked_add current amount)) (\<lambda>total.
     attempt (check total m k) (\<lambda>_. Ok total))"

lemma check_eq_Ok [simp]: "check v m k = Ok u \<longleftrightarrow> v \<le> m"
  by (auto simp: check_def)

lemma check_not_Panic [simp]: "check v m k \<noteq> Panic"
  by (auto simp: check_def)

lemma add_eq_Ok: "add a b m k = Ok t \<longleftrightarrow> t = a + b \<and> t \<le> m \<and> t < usize_bound"
  by (auto simp: add_def)

lemma add_eq_Ok_usize [simp]:
  "m < usize_bound \<Longrightarrow> add a b m k = Ok t \<longleftrightarrow> t = a + b \<and> t \<le> m"
  by (auto simp: add_eq_Ok)

lemma add_not_Panic [simp]: "add a b m k \<noteq> Panic"
  by (auto simp: add_def attempt_eq_Panic)

lemma add_error: "add a b m k = Err e \<Longrightarrow> e = exceeded k m"
  by (auto simp: add_def attempt_eq_Err check_def ok_or_def split: option.splits if_splits)

lemma limits_validate_eq_Ok [simp]: "limits_validate l = Ok u \<longleftrightarrow> max_depth l \<le> 128"
  by (auto simp: limits_validate_def max_supported_depth_def)

lemma limits_validate_not_Panic [simp]: "limits_validate l \<noteq> Panic"
  by (auto simp: limits_validate_def)

lemma at_offset_at_offset [simp]: "at_offset m (at_offset n e) = at_offset n e"
  by (simp add: at_offset_def)

lemma error_offset_at_offset:
  "error_offset (at_offset n e) = (case error_offset e of None \<Rightarrow> Some n | Some m \<Rightarrow> Some m)"
  by (simp add: error_offset_def at_offset_def)

section \<open>Values\<close>

definition f64_exponent :: "f64 \<Rightarrow> nat" where
  "f64_exponent x = unat (take_bit 11 (drop_bit 52 x))"

definition f64_is_finite :: "f64 \<Rightarrow> bool" where
  "f64_is_finite x \<longleftrightarrow> f64_exponent x \<noteq> 0x7FF"

text \<open>\<open>x == 0.0\<close> holds for both zeros; \<open>is_sign_negative\<close> reads the sign bit.\<close>

definition f64_is_zero :: "f64 \<Rightarrow> bool" where
  "f64_is_zero x \<longleftrightarrow> take_bit 63 x = 0"

definition f64_is_sign_negative :: "f64 \<Rightarrow> bool" where
  "f64_is_sign_negative x \<longleftrightarrow> bit x 63"

datatype finite_float = FiniteFloat (float_get: f64)

definition finite_float_new :: "f64 \<Rightarrow> (cbor_error, finite_float) result" where
  "finite_float_new v =
     (if \<not> f64_is_finite v then Err (new_error NonFiniteFloat)
      else Ok (FiniteFloat (if f64_is_zero v then 0 else v)))"

definition wf_float :: "finite_float \<Rightarrow> bool" where
  "wf_float f \<longleftrightarrow> f64_is_finite (float_get f) \<and> (f64_is_zero (float_get f) \<longrightarrow> float_get f = 0)"

lemma f64_zero_facts [simp]: "f64_is_finite 0" "f64_is_zero 0" "\<not> f64_is_sign_negative 0"
  by (simp_all add: f64_is_finite_def f64_exponent_def f64_is_zero_def f64_is_sign_negative_def)

lemma positive_zero_iff:
  "f64_is_zero x \<and> \<not> f64_is_sign_negative x \<longleftrightarrow> x = 0"
proof
  assume a: "f64_is_zero x \<and> \<not> f64_is_sign_negative x"
  show "x = 0"
  proof (rule bit_word_eqI)
    fix n assume "n < LENGTH(64)"
    moreover have "\<not> bit x n" if "n < 63" for n
      using a that by (metis bit_0_eq bit_take_bit_iff bot_apply bot_bool_def f64_is_zero_def)
    ultimately show "bit x n \<longleftrightarrow> bit (0::f64) n"
      using a by (cases "n = 63") (auto simp: f64_is_sign_negative_def)
  qed
qed simp

lemma finite_float_new_wf [wf_intros]: "finite_float_new x = Ok f \<Longrightarrow> wf_float f"
  by (auto simp: finite_float_new_def wf_float_def split: if_splits)

text \<open>
  \<open>enum Value\<close>. The struct \<open>Map\<close> is its entry list; \<open>map_canonical\<close> is the
  invariant its constructors establish.
\<close>

datatype cbor_value =
  VNull
| VBool bool
| VInteger i64
| VFloat finite_float
| VText bytes
| VBytes bytes
| VArray "cbor_value list"
| VMap "(bytes \<times> cbor_value) list"

type_synonym "value" = cbor_value

lemmas value_splits = cbor_value.splits

type_synonym cbor_map = "(bytes \<times> value) list"

section \<open>Maps\<close>

definition canon_key :: "bytes \<Rightarrow> nat \<times> bytes" where
  "canon_key k = (length k, k)"

definition map_try_from_entries :: "cbor_map \<Rightarrow> (cbor_error, cbor_map) result" where
  "map_try_from_entries entries =
     (let collected = sort_key (\<lambda>p. canon_key (fst p)) entries in
      if any_pair (\<lambda>a b. fst a = fst b) collected then Err (new_error DuplicateMapKey)
      else Ok collected)"

definition map_get :: "cbor_map \<Rightarrow> bytes \<Rightarrow> value option" where
  "map_get m key =
     map_option (\<lambda>i. snd (m ! i))
       (bsearch (\<lambda>i. let candidate = fst (m ! i) in
          then_with (cmp (length candidate) (length key)) (cmp candidate key)) 0 (length m))"

definition map_canonical :: "(bytes \<times> 'v) list \<Rightarrow> bool" where
  "map_canonical m \<longleftrightarrow> strictly_sorted (map (\<lambda>p. canon_key (fst p)) m)"

fun wf_value :: "value \<Rightarrow> bool" where
  "wf_value (VFloat f) = wf_float f"
| "wf_value (VText s) = utf8_valid s"
| "wf_value (VArray vs) = (\<forall>v \<in> set vs. wf_value v)"
| "wf_value (VMap m) = (map_canonical m \<and> (\<forall>p \<in> set m. utf8_valid (fst p) \<and> wf_value (snd p)))"
| "wf_value _ = True"

lemma inj_canon_key: "inj canon_key"
  by (auto simp: inj_def canon_key_def)

lemma canon_key_eq [simp]: "canon_key a = canon_key b \<longleftrightarrow> a = b"
  by (auto simp: canon_key_def)

lemma map_canonical_distinct: "map_canonical m \<Longrightarrow> distinct (map fst m)"
proof -
  assume "map_canonical m"
  then have "distinct (map canon_key (map fst m))"
    by (simp add: map_canonical_def strictly_sorted_iff comp_def)
  then show ?thesis by (simp only: distinct_map [of canon_key])
qed

lemma map_canonical_Nil [simp]: "map_canonical []"
  by (simp add: map_canonical_def)

lemma map_canonical_singleton [simp]: "map_canonical [p]"
  by (simp add: map_canonical_def)

lemma map_canonical_tl: "map_canonical (p # m) \<Longrightarrow> map_canonical m"
  by (simp add: map_canonical_def)

lemma map_canonical_snoc:
  "map_canonical (m @ [p]) \<longleftrightarrow>
     map_canonical m \<and> (\<forall>q \<in> set m. canon_key (fst q) < canon_key (fst p))"
  by (auto simp: map_canonical_def sorted_wrt_append)

lemma map_get_map_of:
  assumes "map_canonical m"
  shows "map_get m key = map_of m key"
proof -
  let ?c = "\<lambda>i. cmp (canon_key (fst (m ! i))) (canon_key key)"
  have mono: "canon_key (fst (m ! i)) < canon_key (fst (m ! j))" if "i < j" "j < length m" for i j
    using assms that unfolding map_canonical_def by (auto simp: sorted_wrt_iff_nth_less)
  have eq: "map_get m key = map_option (\<lambda>i. snd (m ! i)) (bsearch ?c 0 (length m))"
    by (simp add: map_get_def then_with_cmp_prod canon_key_def Let_def)
  show ?thesis
  proof (cases "bsearch ?c 0 (length m)")
    case None
    have "?c k \<noteq> Equal" if "k < length m" for k
      by (rule bsearch_None [OF _ _ None]) (use that in \<open>auto dest: mono order.strict_trans\<close>)
    then have "key \<notin> fst ` set m"
      by (fastforce simp: in_set_conv_nth)
    then have "map_of m key = None" by (simp add: map_of_eq_None_iff)
    then show ?thesis by (simp add: eq None)
  next
    case (Some i)
    then have "fst (m ! i) = key" "i < length m"
      using bsearch_Some [of ?c 0 "length m" i] by auto
    then have "(key, snd (m ! i)) \<in> set m" by (metis nth_mem prod.collapse)
    then show ?thesis
      using map_canonical_distinct [OF assms] by (simp add: eq Some)
  qed
qed

lemma map_try_from_entries_Ok:
  "map_try_from_entries es = Ok m \<longleftrightarrow> distinct (map fst es) \<and> m = sort_key (\<lambda>p. canon_key (fst p)) es"
proof -
  let ?m = "sort_key (\<lambda>p. canon_key (fst p)) es"
  have s: "sorted (map (\<lambda>p. canon_key (fst p)) ?m)" by simp
  have "any_pair (\<lambda>a b. fst a = fst b) ?m = any_pair (=) (map (\<lambda>p. canon_key (fst p)) ?m)"
    by (simp add: any_pair_map)
  moreover have "distinct (map (\<lambda>p. canon_key (fst p)) ?m) \<longleftrightarrow> distinct (map fst es)"
  proof -
    have "distinct (map (\<lambda>p. canon_key (fst p)) ?m) \<longleftrightarrow> distinct (map canon_key (map fst ?m))"
      by (simp add: comp_def)
    also have "\<dots> \<longleftrightarrow> distinct (map fst ?m)"
      by (subst distinct_map) (auto intro: inj_on_subset [OF inj_canon_key])
    also have "\<dots> \<longleftrightarrow> distinct (map fst es)"
      by (metis mset_map mset_sort mset_eq_imp_distinct_iff)
    finally show ?thesis .
  qed
  ultimately show ?thesis
    using sorted_no_pair_eq_iff [OF s] by (auto simp: map_try_from_entries_def Let_def)
qed

lemma map_try_from_entries_not_Panic [simp]: "map_try_from_entries es \<noteq> Panic"
  by (simp add: map_try_from_entries_def Let_def)

lemma map_try_from_entries_canonical [wf_intros]:
  assumes "map_try_from_entries es = Ok m"
  shows "map_canonical m"
proof -
  have m: "m = sort_key (\<lambda>p. canon_key (fst p)) es" and d: "distinct (map fst es)"
    using assms by (auto simp: map_try_from_entries_Ok)
  have "distinct (map canon_key (map fst m))"
    using d unfolding m distinct_map [of canon_key]
    by (metis inj_on_subset [OF inj_canon_key subset_UNIV] mset_map mset_sort
        mset_eq_imp_distinct_iff)
  then show ?thesis
    by (simp add: map_canonical_def strictly_sorted_iff m comp_def)
qed

lemma map_try_from_entries_set: "map_try_from_entries es = Ok m \<Longrightarrow> set m = set es"
  by (auto simp: map_try_from_entries_Ok)

lemma map_try_from_entries_lookup:
  assumes "map_try_from_entries es = Ok m"
  shows "map_get m k = map_of es k"
proof -
  have "map_of m = map_of es"
    using assms
    by (metis map_canonical_distinct map_of_inject_set map_try_from_entries_Ok
        map_try_from_entries_canonical map_try_from_entries_set)
  then show ?thesis
    using map_try_from_entries_canonical [OF assms] by (simp add: map_get_map_of)
qed

lemma map_try_from_entries_id:
  assumes "map_canonical m"
  shows "map_try_from_entries m = Ok m"
proof -
  have "sort_key (\<lambda>p. canon_key (fst p)) m = m"
    using assms by (intro sort_key_id_if_sorted) (simp add: map_canonical_def strictly_sorted_iff)
  then show ?thesis
    using map_canonical_distinct [OF assms] by (simp add: map_try_from_entries_Ok)
qed

end
