(* ===== verification/Cbor_Encode.thy ===== *)
theory Cbor_Encode
  imports Cbor_Model
begin

text \<open>
  The deterministic encoder \<open>cbor/encode.rs\<close> over the interface of the pinned
  \<open>cbor2\<close> crate, and the canonical form it is meant to produce: \<open>canon\<close> is the
  RFC 8949 core deterministic encoding as a function of the value alone, and
  \<open>encode_refines_canon\<close> states that the bounded, stateful encoder returns exactly
  that, and fails exactly when the value does not fit the limits.
\<close>

unbundle bit_operations_syntax

section \<open>The \<open>cbor2\<close> interface\<close>

text \<open>
  \<open>cbor2\<close> is not part of the repository, so the codec takes it as a parameter:
  \<open>push_header\<close> is \<open>core::Encoder::push\<close> into a scratch buffer, \<open>pull_header\<close>
  is \<open>core::Decoder::pull\<close> together with the decoder's \<open>offset()\<close>, the last four
  are the float conversions. \<open>HOther\<close> stands for the headers the codec never builds.
\<close>

datatype header =
  HPositive u64
| HNegative u64
| HSimple nat
| HFloat f64
| HOther

record cbor2 =
  push_header :: "header \<Rightarrow> bytes"
  pull_header :: "bytes \<Rightarrow> (header \<times> nat) option"
  f64_to_f16 :: "f64 \<Rightarrow> 16 word option"
  f64_to_f32 :: "f64 \<Rightarrow> 32 word option"
  f16_to_f64 :: "16 word \<Rightarrow> f64"
  f32_to_f64 :: "32 word \<Rightarrow> f64"

text \<open>Big-endian payloads and the shortest head of a major type (RFC 8949, 3 and 4.2.1).\<close>

fun be_bytes :: "nat \<Rightarrow> nat \<Rightarrow> bytes" where
  "be_bytes 0 n = []"
| "be_bytes (Suc k) n = be_bytes k (n div 256) @ [char_of n]"

fun be_value_acc :: "nat \<Rightarrow> bytes \<Rightarrow> nat" where
  "be_value_acc a [] = a"
| "be_value_acc a (b # bs) = be_value_acc (a * 256 + of_char b) bs"

abbreviation be_value :: "bytes \<Rightarrow> nat" where
  "be_value \<equiv> be_value_acc 0"

definition shortest_head :: "nat \<Rightarrow> nat \<Rightarrow> bytes" where
  "shortest_head major n =
     (if n < 24 then [char_of (32 * major + n)]
      else if n < 0x100 then char_of (32 * major + 24) # be_bytes 1 n
      else if n < 0x10000 then char_of (32 * major + 25) # be_bytes 2 n
      else if n < 0x100000000 then char_of (32 * major + 26) # be_bytes 4 n
      else char_of (32 * major + 27) # be_bytes 8 n)"

definition float_head :: "cbor2 \<Rightarrow> f64 \<Rightarrow> bytes" where
  "float_head b x =
     (case f64_to_f16 b x of
        Some h \<Rightarrow> char_of (0xF9::nat) # be_bytes 2 (unat h)
      | None \<Rightarrow>
          (case f64_to_f32 b x of
             Some s \<Rightarrow> char_of (0xFA::nat) # be_bytes 4 (unat s)
           | None \<Rightarrow> char_of (0xFB::nat) # be_bytes 8 (unat x)))"

text \<open>
  What the codec relies on (the crate's documentation and \<open>cbor/README.md\<close>): preferred
  widths, lossless narrowing, definite heads read back with their big-endian argument.
\<close>

definition pull_unsigned_documented :: "cbor2 \<Rightarrow> bool" where
  "pull_unsigned_documented b \<longleftrightarrow>
     (\<forall>(a::nat, w) \<in> {(24, 1), (25, 2), (26, 4), (27, 8)}. \<forall>bs. length bs = w \<longrightarrow>
        pull_header b (char_of a # bs) = Some (HPositive (word_of_nat (be_value bs)), Suc w))"

definition pull_float_documented :: "cbor2 \<Rightarrow> bool" where
  "pull_float_documented b \<longleftrightarrow> (\<forall>bs.
     pull_header b (char_of (0xF9::nat) # bs) =
       (if length bs < 2 then None
        else Some (HFloat (f16_to_f64 b (word_of_nat (be_value (take 2 bs)))), 3)) \<and>
     pull_header b (char_of (0xFA::nat) # bs) =
       (if length bs < 4 then None
        else Some (HFloat (f32_to_f64 b (word_of_nat (be_value (take 4 bs)))), 5)) \<and>
     pull_header b (char_of (0xFB::nat) # bs) =
       (if length bs < 8 then None
        else Some (HFloat (word_of_nat (be_value (take 8 bs))), 9)))"

definition narrowing_documented :: "cbor2 \<Rightarrow> bool" where
  "narrowing_documented b \<longleftrightarrow> (\<forall>x. f64_is_finite x \<longrightarrow>
     (\<forall>h. f64_to_f16 b x = Some h \<longleftrightarrow> f16_to_f64 b h = x) \<and>
     (\<forall>s. f64_to_f32 b x = Some s \<longleftrightarrow> f32_to_f64 b s = x))"

definition push_documented :: "cbor2 \<Rightarrow> bool" where
  "push_documented b \<longleftrightarrow>
     (\<forall>n. push_header b (HPositive n) = shortest_head 0 (unat n)) \<and>
     (\<forall>n. push_header b (HNegative n) = shortest_head 1 (unat n)) \<and>
     (\<forall>s \<in> {20, 21, 22}. push_header b (HSimple s) = [char_of (0xE0 + s)]) \<and>
     (\<forall>x. f64_is_finite x \<longrightarrow> push_header b (HFloat x) = float_head b x)"

definition cbor2_documented :: "cbor2 \<Rightarrow> bool" where
  "cbor2_documented b \<longleftrightarrow> push_documented b \<and> pull_unsigned_documented b \<and>
     pull_float_documented b \<and> narrowing_documented b"

section \<open>The encoder\<close>

definition encode_header :: "cbor2 \<Rightarrow> header \<Rightarrow> (cbor_error, bytes) result" where
  "encode_header b h =
     (let bs = push_header b h in if length bs \<le> 9 then Ok bs else Panic)"

definition major_header :: "cbor2 \<Rightarrow> nat \<Rightarrow> u64 \<Rightarrow> (cbor_error, bytes) result" where
  "major_header b major argument =
     attempt (encode_header b (HPositive argument)) (\<lambda>bs.
     case bs of
       [] \<Rightarrow> Ok []
     | x # r \<Rightarrow> Ok (char_of (of_char x OR push_bit 5 major) # r))"

definition append_parts :: "limits \<Rightarrow> bytes list \<Rightarrow> bytes \<Rightarrow> (cbor_error, bytes) result" where
  "append_parts lim parts out =
     attempt (fold_result (\<lambda>part needed.
         add needed (length part) (max_document_bytes lim) DocumentBytes) parts (length out))
       (\<lambda>_. Ok (out @ concat parts))"

definition enc_scalar :: "cbor2 \<Rightarrow> limits \<Rightarrow> header \<Rightarrow> bytes \<Rightarrow> (cbor_error, bytes) result" where
  "enc_scalar b lim h out = attempt (encode_header b h) (\<lambda>bs. append_parts lim [bs] out)"

definition enc_header :: "cbor2 \<Rightarrow> limits \<Rightarrow> nat \<Rightarrow> u64 \<Rightarrow> bytes \<Rightarrow> (cbor_error, bytes) result" where
  "enc_header b lim major argument out =
     attempt (major_header b major argument) (\<lambda>bs. append_parts lim [bs] out)"

definition enc_string :: "cbor2 \<Rightarrow> limits \<Rightarrow> bytes \<Rightarrow> bool \<Rightarrow> bytes \<Rightarrow> (cbor_error, bytes) result" where
  "enc_string b lim bs is_text out =
     attempt (major_header b (if is_text then 3 else 2) (word_of_nat (length bs))) (\<lambda>hd.
     append_parts lim [hd, bs] out)"

definition child_depth :: "limits \<Rightarrow> nat \<Rightarrow> bool \<Rightarrow> (cbor_error, nat) result" where
  "child_depth lim depth has_children =
     (if has_children then add depth 1 (max_depth lim) Depth else Ok depth)"

function (sequential) enc_value :: "cbor2 \<Rightarrow> limits \<Rightarrow> value \<Rightarrow> nat \<Rightarrow> bytes \<Rightarrow> (cbor_error, bytes) result"
and enc_kind :: "cbor2 \<Rightarrow> limits \<Rightarrow> value \<Rightarrow> nat \<Rightarrow> bytes \<Rightarrow> (cbor_error, bytes) result"
and enc_list :: "cbor2 \<Rightarrow> limits \<Rightarrow> value list \<Rightarrow> nat \<Rightarrow> bytes \<Rightarrow> (cbor_error, bytes) result"
and enc_entries :: "cbor2 \<Rightarrow> limits \<Rightarrow> cbor_map \<Rightarrow> nat \<Rightarrow> bytes \<Rightarrow> (cbor_error, bytes) result"
where
  "enc_value b lim v depth out =
     attempt (check depth (max_depth lim) Depth) (\<lambda>_. enc_kind b lim v depth out)"
| "enc_kind b lim VNull depth out = enc_scalar b lim (HSimple 22) out"
| "enc_kind b lim (VBool x) depth out = enc_scalar b lim (HSimple (if x then 21 else 20)) out"
| "enc_kind b lim (VInteger n) depth out =
     enc_scalar b lim (if n <s 0 then HNegative (NOT n) else HPositive n) out"
| "enc_kind b lim (VFloat f) depth out = enc_scalar b lim (HFloat (float_get f)) out"
| "enc_kind b lim (VText s) depth out = enc_string b lim s True out"
| "enc_kind b lim (VBytes s) depth out = enc_string b lim s False out"
| "enc_kind b lim (VArray vs) depth out =
     attempt (child_depth lim depth (vs \<noteq> [])) (\<lambda>cd.
     attempt (enc_header b lim 4 (word_of_nat (length vs)) out) (\<lambda>out'.
     enc_list b lim vs cd out'))"
| "enc_kind b lim (VMap m) depth out =
     attempt (child_depth lim depth (m \<noteq> [])) (\<lambda>cd.
     attempt (enc_header b lim 5 (word_of_nat (length m)) out) (\<lambda>out'.
     enc_entries b lim m cd out'))"
| "enc_list b lim [] cd out = Ok out"
| "enc_list b lim (v # vs) cd out =
     attempt (enc_value b lim v cd out) (\<lambda>out'. enc_list b lim vs cd out')"
| "enc_entries b lim [] cd out = Ok out"
| "enc_entries b lim ((k, v) # m) cd out =
     attempt (check cd (max_depth lim) Depth) (\<lambda>_.
     attempt (enc_string b lim k True out) (\<lambda>out1.
     attempt (enc_value b lim v cd out1) (\<lambda>out2. enc_entries b lim m cd out2)))"
  by pat_completeness auto
termination
  by (relation "measure (case_sum
      (case_sum (\<lambda>(b, lim, v, d, out). Suc (2 * size v)) (\<lambda>(b, lim, v, d, out). 2 * size v))
      (case_sum (\<lambda>(b, lim, vs, d, out). 2 * size_list size vs)
        (\<lambda>(b, lim, m, d, out). 2 * size_list (size_prod (\<lambda>_. 0) size) m)))")
    simp_all

definition encode :: "cbor2 \<Rightarrow> limits \<Rightarrow> value \<Rightarrow> (cbor_error, bytes) result" where
  "encode b lim v = attempt (limits_validate lim) (\<lambda>_. enc_value b lim v 0 [])"

section \<open>The canonical form\<close>

definition canon_string :: "nat \<Rightarrow> bytes \<Rightarrow> bytes" where
  "canon_string major bs = shortest_head major (unat (word_of_nat (length bs) :: u64)) @ bs"

fun canon :: "cbor2 \<Rightarrow> value \<Rightarrow> bytes"
and canon_list :: "cbor2 \<Rightarrow> value list \<Rightarrow> bytes"
and canon_entries :: "cbor2 \<Rightarrow> cbor_map \<Rightarrow> bytes" where
  "canon b VNull = [char_of (0xF6::nat)]"
| "canon b (VBool x) = [char_of (if x then 0xF5 else 0xF4 :: nat)]"
| "canon b (VInteger n) =
     (if n <s 0 then shortest_head 1 (unat (NOT n)) else shortest_head 0 (unat n))"
| "canon b (VFloat f) = float_head b (float_get f)"
| "canon b (VText s) = canon_string 3 s"
| "canon b (VBytes s) = canon_string 2 s"
| "canon b (VArray vs) = shortest_head 4 (unat (word_of_nat (length vs) :: u64)) @ canon_list b vs"
| "canon b (VMap m) = shortest_head 5 (unat (word_of_nat (length m) :: u64)) @ canon_entries b m"
| "canon_list b [] = []"
| "canon_list b (v # vs) = canon b v @ canon_list b vs"
| "canon_entries b [] = []"
| "canon_entries b ((k, v) # m) = canon_string 3 k @ canon b v @ canon_entries b m"

text \<open>Depth of a value below its root; keys and values of a map are one deeper than it.\<close>

fun vdepth :: "value \<Rightarrow> nat"
and vdepth_list :: "value list \<Rightarrow> nat"
and vdepth_entries :: "cbor_map \<Rightarrow> nat" where
  "vdepth (VArray vs) = vdepth_list vs"
| "vdepth (VMap m) = vdepth_entries m"
| "vdepth _ = 0"
| "vdepth_list [] = 0"
| "vdepth_list (v # vs) = max (Suc (vdepth v)) (vdepth_list vs)"
| "vdepth_entries [] = 0"
| "vdepth_entries ((k, v) # m) = max (Suc (vdepth v)) (vdepth_entries m)"

text \<open>Floats are finite: the invariant of \<open>FiniteFloat\<close>, all the encoder needs.\<close>

fun finite_floats :: "value \<Rightarrow> bool" where
  "finite_floats (VFloat f) = f64_is_finite (float_get f)"
| "finite_floats (VArray vs) = (\<forall>v \<in> set vs. finite_floats v)"
| "finite_floats (VMap m) = (\<forall>p \<in> set m. finite_floats (snd p))"
| "finite_floats _ = True"

section \<open>Refinement\<close>

declare enc_value.simps [simp del]

lemma length_be_bytes [simp]: "length (be_bytes k n) = k"
  by (induction k arbitrary: n) auto

lemma shortest_head_0_Cons:
  "\<exists>a bs. shortest_head 0 n = char_of a # bs \<and> a < 32 \<and> length bs \<le> 8
     \<and> shortest_head major n = char_of (32 * major + a) # bs"
proof (cases "n < 24")
  case True
  then show ?thesis
    by (intro exI [of _ n] exI [of _ "[]"]) (simp add: shortest_head_def)
next
  case False
  then show ?thesis
    by (auto simp: shortest_head_def intro: exI [of _ 24] exI [of _ 25] exI [of _ 26] exI [of _ 27])
qed

lemma length_shortest_head:
  "length (shortest_head major n) =
     (if n < 24 then 1 else if n < 0x100 then 2 else if n < 0x10000 then 3
      else if n < 0x100000000 then 5 else 9)"
  by (simp add: shortest_head_def)

lemma encode_header_documented [simp]:
  assumes "push_documented b"
  shows "encode_header b (HPositive n) = Ok (shortest_head 0 (unat n))"
    and "encode_header b (HNegative n) = Ok (shortest_head 1 (unat n))"
    and "encode_header b (HSimple 20) = Ok [char_of (0xF4::nat)]"
    and "encode_header b (HSimple 21) = Ok [char_of (0xF5::nat)]"
    and "encode_header b (HSimple 22) = Ok [char_of (0xF6::nat)]"
    and "f64_is_finite x \<Longrightarrow> encode_header b (HFloat x) = Ok (float_head b x)"
  using assms
  by (simp_all add: encode_header_def push_documented_def length_shortest_head float_head_def
      split: option.split)

lemma major_header_documented [simp]:
  assumes "push_documented b"
  shows "major_header b major n = Ok (shortest_head major (unat n))"
proof -
  obtain a bs where a: "shortest_head 0 (unat n) = char_of a # bs" "a < 32"
    and m: "shortest_head major (unat n) = char_of (32 * major + a) # bs"
    using shortest_head_0_Cons [of "unat n" major] by blast
  then show ?thesis
    using assms or_push_bit [of a 5 major] by (simp add: major_header_def)
qed

lemma append_parts_one [simp]:
  assumes "max_document_bytes lim < usize_bound"
  shows "append_parts lim [x] out = Ok r \<longleftrightarrow>
    r = out @ x \<and> length out + length x \<le> max_document_bytes lim"
  using assms by (auto simp: append_parts_def)

lemma append_parts_two [simp]:
  assumes "max_document_bytes lim < usize_bound"
  shows "append_parts lim [x, y] out = Ok r \<longleftrightarrow>
    r = out @ x @ y \<and> length out + length x + length y \<le> max_document_bytes lim"
  using assms by (auto simp: append_parts_def)

lemma child_depth_Ok [simp]:
  assumes "max_depth lim < usize_bound"
  shows "child_depth lim d c = Ok cd \<longleftrightarrow>
    (if c then cd = Suc d \<and> Suc d \<le> max_depth lim else cd = d)"
  using assms by (auto simp: child_depth_def)

lemma enc_string_Ok [simp]:
  assumes "push_documented b" "max_document_bytes lim < usize_bound"
  shows "enc_string b lim s t out = Ok r \<longleftrightarrow>
    r = out @ canon_string (if t then 3 else 2) s \<and> length r \<le> max_document_bytes lim"
  using assms by (auto simp: enc_string_def canon_string_def)

lemma enc_header_Ok [simp]:
  assumes "push_documented b" "max_document_bytes lim < usize_bound"
  shows "enc_header b lim major n out = Ok r \<longleftrightarrow>
    r = out @ shortest_head major (unat n) \<and> length r \<le> max_document_bytes lim"
  using assms by (auto simp: enc_header_def)

lemma enc_scalar_Ok:
  assumes "encode_header b h = Ok w" "max_document_bytes lim < usize_bound"
  shows "enc_scalar b lim h out = Ok r \<longleftrightarrow> r = out @ w \<and> length r \<le> max_document_bytes lim"
  using assms by (auto simp: enc_scalar_def)

lemma canon_nonempty [simp]: "canon b v \<noteq> []"
  by (cases v) (auto simp: shortest_head_def float_head_def canon_string_def split: option.split)

lemma enc_Ok_iff:
  assumes b: "push_documented b" and l: "usize_limits lim"
  shows "finite_floats v \<Longrightarrow> enc_value b lim v d out = Ok r \<longleftrightarrow>
      r = out @ canon b v \<and> d + vdepth v \<le> max_depth lim \<and> length r \<le> max_document_bytes lim"
    and "finite_floats v \<Longrightarrow> d \<le> max_depth lim \<Longrightarrow> enc_kind b lim v d out = Ok r \<longleftrightarrow>
      r = out @ canon b v \<and> d + vdepth v \<le> max_depth lim \<and> length r \<le> max_document_bytes lim"
    and "\<forall>v \<in> set vs. finite_floats v \<Longrightarrow> length out \<le> max_document_bytes lim \<Longrightarrow>
      enc_list b lim vs cd out = Ok r \<longleftrightarrow> r = out @ canon_list b vs \<and>
        (vs = [] \<or> cd + vdepth_list vs \<le> Suc (max_depth lim)) \<and> length r \<le> max_document_bytes lim"
    and "\<forall>p \<in> set m. finite_floats (snd p) \<Longrightarrow> length out \<le> max_document_bytes lim \<Longrightarrow>
      enc_entries b lim m cd out = Ok r \<longleftrightarrow> r = out @ canon_entries b m \<and>
        (m = [] \<or> cd + vdepth_entries m \<le> Suc (max_depth lim)) \<and> length r \<le> max_document_bytes lim"
  using b l
proof (induction b lim v d out and b lim v d out and b lim vs cd out and b lim m cd out
    arbitrary: r and r and r and r rule: enc_value_enc_kind_enc_list_enc_entries.induct)
  case (1 b lim v d out)
  then show ?case by (auto simp: enc_value.simps)
next
  case (8 b lim vs depth out)
  then show ?case
    by (cases vs) (auto simp: usize_limits_def simp del: enc_list.simps(2))
next
  case (9 b lim m depth out)
  then show ?case
    by (cases m) (auto simp: usize_limits_def simp del: enc_entries.simps(2))
next
  case (11 b lim v vs cd out)
  from "11.prems" have v: "finite_floats v" "\<forall>v \<in> set vs. finite_floats v" by simp_all
  note IH = "11.IH"(1) [OF v(1) "11.prems"(3,4)] "11.IH"(2) [OF _ v(2) _ "11.prems"(3,4)]
  have "enc_list b lim (v # vs) cd out = Ok r \<longleftrightarrow>
      (\<exists>r'. enc_value b lim v cd out = Ok r' \<and> enc_list b lim vs cd r' = Ok r)"
    by simp
  also have "\<dots> \<longleftrightarrow> cd + vdepth v \<le> max_depth lim \<and>
      length (out @ canon b v) \<le> max_document_bytes lim \<and>
      r = out @ canon b v @ canon_list b vs \<and>
      (vs = [] \<or> cd + vdepth_list vs \<le> Suc (max_depth lim)) \<and> length r \<le> max_document_bytes lim"
    using IH by auto
  finally show ?case by (cases vs) (auto simp: max_def)
next
  case (13 b lim k v m cd out)
  from "13.prems" have v: "finite_floats v" "\<forall>p \<in> set m. finite_floats (snd p)" by simp_all
  have ub: "max_document_bytes lim < usize_bound" using "13.prems"(4) by (simp add: usize_limits_def)
  let ?o = "out @ canon_string 3 k"
  have IH1: "enc_value b lim v cd ?o = Ok r' \<longleftrightarrow> r' = ?o @ canon b v \<and>
      cd + vdepth v \<le> max_depth lim \<and> length r' \<le> max_document_bytes lim"
    if "cd \<le> max_depth lim" "length ?o \<le> max_document_bytes lim" for r'
    by (rule "13.IH"(1) [OF _ _ v(1) "13.prems"(3,4)]) (use that "13.prems"(3) ub in simp_all)
  have IH2: "enc_entries b lim m cd (?o @ canon b v) = Ok r \<longleftrightarrow>
      r = ?o @ canon b v @ canon_entries b m \<and>
      (m = [] \<or> cd + vdepth_entries m \<le> Suc (max_depth lim)) \<and> length r \<le> max_document_bytes lim"
    if "cd \<le> max_depth lim" "length ?o \<le> max_document_bytes lim"
      "enc_value b lim v cd ?o = Ok (?o @ canon b v)"
    using "13.IH"(2) [OF _ _ that(3) v(2) _ "13.prems"(3,4), of "()" r] that "13.prems"(3) ub IH1 [OF that(1,2)]
    by simp
  have "enc_entries b lim ((k, v) # m) cd out = Ok r \<longleftrightarrow>
      cd \<le> max_depth lim \<and> length (out @ canon_string 3 k) \<le> max_document_bytes lim \<and>
      (\<exists>r'. enc_value b lim v cd (out @ canon_string 3 k) = Ok r' \<and> enc_entries b lim m cd r' = Ok r)"
    using "13.prems"(3) ub by auto
  also have "\<dots> \<longleftrightarrow> cd + vdepth v \<le> max_depth lim \<and>
      length (out @ canon_string 3 k @ canon b v) \<le> max_document_bytes lim \<and>
      r = out @ canon_string 3 k @ canon b v @ canon_entries b m \<and>
      (m = [] \<or> cd + vdepth_entries m \<le> Suc (max_depth lim)) \<and> length r \<le> max_document_bytes lim"
  proof (cases "cd \<le> max_depth lim \<and> length ?o \<le> max_document_bytes lim")
    case True
    then have c: "cd \<le> max_depth lim" "length ?o \<le> max_document_bytes lim" by simp_all
    have e: "enc_value b lim v cd ?o = Ok (?o @ canon b v) \<longleftrightarrow> cd + vdepth v \<le> max_depth lim \<and>
        length (?o @ canon b v) \<le> max_document_bytes lim"
      using IH1 [OF c] by simp
    show ?thesis
    proof (cases "enc_value b lim v cd ?o = Ok (?o @ canon b v)")
      case True
      with IH2 [OF c True] e c show ?thesis by simp
    next
      case False
      with e IH1 [OF c] show ?thesis by auto
    qed
  next
    case False
    then show ?thesis by auto
  qed
  finally show ?case by (cases m) (auto simp: max_def)
qed (auto simp: usize_limits_def enc_scalar_Ok)

end
