(* ===== verification/Cbor_Decode.thy ===== *)
theory Cbor_Decode
  imports Cbor_Encode
begin

text \<open>
  The strict decoder \<open>cbor/decode.rs\<close>. The decoder struct is the input and a position;
  every method takes the position and returns the new one beside its result. Recursion is
  bounded by the depth limit, which is the termination measure.
\<close>

unbundle bit_operations_syntax

section \<open>The decoder\<close>

text \<open>\<open>take\<close>: the subtraction is checked, so a position past the input would panic.\<close>

definition take_bytes :: "bytes \<Rightarrow> nat \<Rightarrow> nat \<Rightarrow> (cbor_error, bytes \<times> nat) result" where
  "take_bytes inp n pos =
     (if pos > length inp then Panic
      else if n > length inp - pos then
        Err (at_offset (length inp) (new_error UnexpectedEnd))
      else Ok (take n (drop pos inp), pos + n))"

definition take_one :: "bytes \<Rightarrow> nat \<Rightarrow> (cbor_error, nat \<times> nat) result" where
  "take_one inp pos =
     attempt (take_bytes inp 1 pos) (\<lambda>(bs, p).
     case bs of [] \<Rightarrow> Panic | c # _ \<Rightarrow> Ok (of_char c, p))"

definition wide_argument ::
  "cbor2 \<Rightarrow> bytes \<Rightarrow> nat \<Rightarrow> nat \<Rightarrow> nat \<Rightarrow> nat \<Rightarrow> (cbor_error, u64 \<times> nat) result" where
  "wide_argument b inp additional width minimum pos =
     attempt (take_bytes inp width pos) (\<lambda>(bs, p).
     case pull_header b (char_of additional # bs) of
       Some (HPositive argument, _) \<Rightarrow>
         if unat argument < minimum then Err (noncanonical NonminimalHeader) else Ok (argument, p)
     | _ \<Rightarrow> Panic)"

definition dec_argument :: "cbor2 \<Rightarrow> bytes \<Rightarrow> nat \<Rightarrow> nat \<Rightarrow> (cbor_error, u64 \<times> nat) result" where
  "dec_argument b inp additional pos =
     (if additional \<le> 23 then Ok (word_of_nat additional, pos)
      else if additional = 24 then wide_argument b inp additional 1 24 pos
      else if additional = 25 then wide_argument b inp additional 2 0x100 pos
      else if additional = 26 then wide_argument b inp additional 4 0x10000 pos
      else if additional = 27 then wide_argument b inp additional 8 0x100000000 pos
      else if additional = 31 then Err (noncanonical IndefiniteLength)
      else Err (new_error UnsupportedType))"

definition dec_length :: "u64 \<Rightarrow> limit_kind \<Rightarrow> nat \<Rightarrow> (cbor_error, nat) result" where
  "dec_length argument limit m =
     (let len = unat argument in attempt (check len m limit) (\<lambda>_. Ok len))"

definition dec_payload :: "limits \<Rightarrow> bytes \<Rightarrow> u64 \<Rightarrow> nat \<Rightarrow> (cbor_error, bytes \<times> nat) result" where
  "dec_payload lim inp argument pos =
     attempt (dec_length argument DocumentBytes (max_document_bytes lim)) (\<lambda>len.
     attempt (add pos len (max_document_bytes lim) DocumentBytes) (\<lambda>_.
     take_bytes inp len pos))"

definition dec_text :: "limits \<Rightarrow> bytes \<Rightarrow> u64 \<Rightarrow> nat \<Rightarrow> (cbor_error, bytes \<times> nat) result" where
  "dec_text lim inp argument pos =
     attempt (dec_payload lim inp argument pos) (\<lambda>(bs, p).
     case utf8_error_at bs of
       None \<Rightarrow> Ok (bs, p)
     | Some k \<Rightarrow> Err (at_offset (pos + k) (new_error InvalidUtf8)))"

definition dec_children ::
  "limits \<Rightarrow> bytes \<Rightarrow> u64 \<Rightarrow> nat \<Rightarrow> bool \<Rightarrow> nat \<Rightarrow> (cbor_error, nat \<times> nat) result" where
  "dec_children lim inp argument depth is_map pos =
     attempt (dec_length argument DocumentBytes (max_document_bytes lim)) (\<lambda>len.
     attempt (if is_map then add len len (max_document_bytes lim) DocumentBytes else Ok len) (\<lambda>children.
     attempt (add pos children (max_document_bytes lim) DocumentBytes) (\<lambda>_.
     if pos > length inp then Panic
     else if children > length inp - pos then
       Err (at_offset (length inp) (new_error UnexpectedEnd))
     else attempt (if len = 0 then Ok depth else add depth 1 (max_depth lim) Depth) (\<lambda>cd.
       Ok (len, cd)))))"

definition dec_float :: "cbor2 \<Rightarrow> nat \<Rightarrow> f64 \<Rightarrow> nat \<Rightarrow> (cbor_error, value \<times> nat) result" where
  "dec_float b additional x p =
     (if \<not> f64_is_finite x then Err (new_error NonFiniteFloat)
      else if f64_is_zero x \<and> f64_is_sign_negative x then Err (noncanonical NegativeZero)
      else if additional > 25 \<and> f64_to_f16 b x \<noteq> None then Err (noncanonical WideFloat)
      else if additional = 27 \<and> f64_to_f32 b x \<noteq> None then Err (noncanonical WideFloat)
      else attempt (finite_float_new x) (\<lambda>f. Ok (VFloat f, p)))"

definition dec_simple :: "cbor2 \<Rightarrow> bytes \<Rightarrow> nat \<Rightarrow> nat \<Rightarrow> (cbor_error, value \<times> nat) result" where
  "dec_simple b inp additional pos =
     (if additional = 20 then Ok (VBool False, pos)
      else if additional = 21 then Ok (VBool True, pos)
      else if additional = 22 then Ok (VNull, pos)
      else if additional = 24 then
        attempt (take_one inp pos) (\<lambda>(simple, p).
          Err (if 20 \<le> simple \<and> simple \<le> 22 then noncanonical WideSimple
               else new_error UnsupportedType))
      else if 25 \<le> additional \<and> additional \<le> 27 then
        (let start = pos - 1 in
         case pull_header b (drop start inp) of
           None \<Rightarrow> Err (at_offset (length inp) (new_error UnexpectedEnd))
         | Some (HFloat x, offset) \<Rightarrow> dec_float b additional x (start + offset)
         | Some _ \<Rightarrow> Panic)
      else Err (new_error UnsupportedType))"

definition dec_key :: "cbor2 \<Rightarrow> limits \<Rightarrow> bytes \<Rightarrow> nat \<Rightarrow> nat \<Rightarrow> (cbor_error, bytes \<times> nat) result" where
  "dec_key b lim inp depth pos =
     attempt (check depth (max_depth lim) Depth) (\<lambda>_.
     attempt (take_one inp pos) (\<lambda>(initial, p).
     if drop_bit 5 initial \<noteq> 3 then Err (new_error UnsupportedType)
     else attempt (dec_argument b inp (initial AND 31) p) (\<lambda>(argument, p').
       dec_text lim inp argument p')))"

definition key_order :: "bytes option \<Rightarrow> bytes \<Rightarrow> nat \<Rightarrow> (cbor_error, unit) result" where
  "key_order previous encoded_key key_start =
     (case previous of
        None \<Rightarrow> Ok ()
      | Some prev \<Rightarrow>
          (case cmp prev encoded_key of
             Less \<Rightarrow> Ok ()
           | Equal \<Rightarrow> Err (at_offset key_start (new_error DuplicateMapKey))
           | Greater \<Rightarrow> Err (at_offset key_start (new_error MapKeyOutOfOrder))))"

lemma dec_length_Ok [simp]: "dec_length a k m = Ok n \<longleftrightarrow> n = unat a \<and> n \<le> m"
  by (auto simp: dec_length_def Let_def)

lemma dec_children_depth:
  assumes "dec_children lim inp a d is_map pos = Ok (n, cd)"
  shows "if n = 0 then cd = d else cd = Suc d \<and> Suc d \<le> max_depth lim"
  using assms by (auto simp: dec_children_def add_eq_Ok split: if_splits)

function (sequential)
    dec_value :: "cbor2 \<Rightarrow> limits \<Rightarrow> bytes \<Rightarrow> nat \<Rightarrow> nat \<Rightarrow> (cbor_error, value \<times> nat) result"
and dec_inner :: "cbor2 \<Rightarrow> limits \<Rightarrow> bytes \<Rightarrow> nat \<Rightarrow> nat \<Rightarrow> (cbor_error, value \<times> nat) result"
and dec_items :: "cbor2 \<Rightarrow> limits \<Rightarrow> bytes \<Rightarrow> nat \<Rightarrow> nat \<Rightarrow> nat \<Rightarrow> (cbor_error, value list \<times> nat) result"
and dec_entries ::
  "cbor2 \<Rightarrow> limits \<Rightarrow> bytes \<Rightarrow> nat \<Rightarrow> nat \<Rightarrow> bytes option \<Rightarrow> nat \<Rightarrow> (cbor_error, cbor_map \<times> nat) result"
where
  "dec_value b lim inp depth pos = map_err (at_offset pos) (dec_inner b lim inp depth pos)"
| "dec_inner b lim inp depth pos =
     attempt (check depth (max_depth lim) Depth) (\<lambda>_.
     attempt (take_one inp pos) (\<lambda>(initial, p).
     let major = drop_bit 5 initial; additional = initial AND 31 in
     if major = 7 then dec_simple b inp additional p
     else if major = 6 then Err (new_error UnsupportedType)
     else attempt (dec_argument b inp additional p) (\<lambda>(argument, p').
       if major = 0 \<or> major = 1 then
         attempt (ok_or (new_error IntegerOutOfRange) (i64_try_from argument)) (\<lambda>integer.
         Ok (VInteger (if major = 0 then integer else NOT integer), p'))
       else if major = 2 then
         attempt (dec_payload lim inp argument p') (\<lambda>(bs, q). Ok (VBytes bs, q))
       else if major = 3 then
         attempt (dec_text lim inp argument p') (\<lambda>(s, q). Ok (VText s, q))
       else if major = 4 then
         attempt (dec_children lim inp argument depth False p') (\<lambda>(len, cd).
         attempt (dec_items b lim inp len cd p') (\<lambda>(vs, q). Ok (VArray vs, q)))
       else if major = 5 then
         attempt (dec_children lim inp argument depth True p') (\<lambda>(len, cd).
         attempt (dec_entries b lim inp len cd None p') (\<lambda>(m, q). Ok (VMap m, q)))
       else Panic)))"
| "dec_items b lim inp 0 cd pos = Ok ([], pos)"
| "dec_items b lim inp (Suc n) cd pos =
     attempt (dec_value b lim inp cd pos) (\<lambda>(v, p).
     attempt (dec_items b lim inp n cd p) (\<lambda>(vs, q). Ok (v # vs, q)))"
| "dec_entries b lim inp 0 cd previous pos = Ok ([], pos)"
| "dec_entries b lim inp (Suc n) cd previous pos =
     attempt (map_err (at_offset pos) (dec_key b lim inp cd pos)) (\<lambda>(key, p).
     let encoded_key = take (p - pos) (drop pos inp) in
     attempt (key_order previous encoded_key pos) (\<lambda>_.
     attempt (dec_value b lim inp cd p) (\<lambda>(v, q).
     attempt (dec_entries b lim inp n cd (Some encoded_key) q) (\<lambda>(m, r).
     Ok ((key, v) # m, r)))))"
  by pat_completeness auto
termination
proof (relation "measures [
    case_sum
      (case_sum (\<lambda>(b, lim, inp, d, pos). Suc (max_depth lim) - d)
                (\<lambda>(b, lim, inp, d, pos). Suc (max_depth lim) - d))
      (case_sum (\<lambda>(b, lim, inp, n, d, pos). Suc (max_depth lim) - d)
                (\<lambda>(b, lim, inp, n, d, prev, pos). Suc (max_depth lim) - d)),
    case_sum
      (case_sum (\<lambda>_. 2) (\<lambda>_. 1))
      (case_sum (\<lambda>(b, lim, inp, n, d, pos). 3 * n)
                (\<lambda>(b, lim, inp, n, d, prev, pos). 3 * n))]", goal_cases)
qed (auto dest!: dec_children_depth split: if_splits)

definition decode :: "cbor2 \<Rightarrow> limits \<Rightarrow> bytes \<Rightarrow> (cbor_error, value) result" where
  "decode b lim bs =
     attempt (limits_validate lim) (\<lambda>_.
     attempt (map_err (at_offset 0) (check (length bs) (max_document_bytes lim) DocumentBytes)) (\<lambda>_.
     attempt (dec_value b lim bs 0 0) (\<lambda>(v, pos).
     if pos \<noteq> length bs then Err (at_offset pos (new_error TrailingData)) else Ok v)))"

declare dec_value.simps [simp del] dec_inner.simps [simp del]

end
