(* ===== verification/Cbor_Roundtrip.thy ===== *)
theory Cbor_Roundtrip
  imports Cbor_Decode
begin

text \<open>
  Encoder and decoder together: decoding a canonical encoding gives the value back,
  every accepted input is the canonical encoding of its value, map keys are compared in
  canonical order, and the decoder never panics.
\<close>

unbundle bit_operations_syntax

section \<open>Big-endian payloads\<close>

lemma be_value_acc_append: "be_value_acc a (xs @ ys) = be_value_acc (be_value_acc a xs) ys"
  by (induction xs arbitrary: a) auto

lemma be_value_be_bytes [simp]: "be_value (be_bytes k n) = n mod 256 ^ k"
proof (induction k arbitrary: n)
  case (Suc k)
  have "be_value (be_bytes (Suc k) n) = (n div 256) mod 256 ^ k * 256 + n mod 256"
    by (simp add: be_value_acc_append Suc.IH)
  also have "\<dots> = n mod 256 ^ Suc k"
    by (simp add: mod_mult2_eq mult.commute)
  finally show ?case .
qed simp

lemma be_value_acc_shift: "be_value_acc a bs = a * 256 ^ length bs + be_value bs"
proof (induction bs rule: rev_induct)
  case (snoc x xs)
  then show ?case by (simp add: be_value_acc_append algebra_simps)
qed simp

lemma be_bytes_be_value: "length bs = k \<Longrightarrow> be_bytes k (be_value bs) = bs"
proof (induction k arbitrary: bs)
  case (Suc k)
  obtain c cs where bs: "bs = cs @ [c]" "length cs = k"
    using Suc.prems by (metis length_Suc_conv_rev)
  have "(be_value cs * 256 + of_char c) div 256 = be_value cs"
    using of_char_less_256 [of c] by simp
  moreover have "char_of (be_value cs * 256 + of_char c) = c"
  proof -
    have "(be_value cs * 256 + of_char c) mod 256 = of_char c"
      using of_char_less_256 [of c] by simp
    then show ?thesis by (metis char_of_char char_of_mod_256)
  qed
  ultimately show ?case
    using Suc.IH [OF bs(2)] by (simp add: bs be_value_acc_append)
qed simp

lemma be_value_less: "be_value bs < 256 ^ length bs"
proof (induction bs rule: rev_induct)
  case (snoc x xs)
  have "be_value xs * 256 + of_char x < (be_value xs + 1) * 256"
    using of_char_less_256 [of x] by simp
  also have "\<dots> \<le> 256 ^ length xs * 256"
    using snoc by (intro mult_le_mono1) simp
  finally show ?case by (simp add: be_value_acc_append)
qed simp

lemma be_bytes_less:
  "m < n \<Longrightarrow> n < 256 ^ k \<Longrightarrow> be_bytes k m < be_bytes k n"
proof (induction k arbitrary: m n)
  case (Suc k)
  show ?case
  proof (cases "m div 256 < n div 256")
    case True
    moreover have "n div 256 < 256 ^ k"
      using Suc.prems(2) by (simp add: less_mult_imp_div_less mult.commute)
    ultimately show ?thesis
      using Suc.IH by (simp add: list_less_same_length_append)
  next
    case False
    then have eq: "m div 256 = n div 256"
      using Suc.prems(1) by (simp add: div_le_mono order.antisym not_less)
    then have "m mod 256 < n mod 256"
      using Suc.prems(1) by (metis div_mult_mod_eq nat_add_left_cancel_less)
    then show ?thesis
      by (simp add: eq char_less_iff)
  qed
qed simp

section \<open>Heads\<close>

lemma drop_bit_5_head: "x < 32 \<Longrightarrow> drop_bit 5 (32 * m + x) = (m::nat)"
  by (simp add: drop_bit_eq_div)

lemma and_31_head: "(n::nat) AND 31 = n mod 32"
  using take_bit_eq_mask [of 5 n] by (simp add: take_bit_eq_mod mask_eq_exp_minus_1)

lemma head_byte:
  assumes "m < 8" "x < 32"
  shows "drop_bit 5 (of_char (char_of (32 * m + x)) :: nat) = m"
    and "(of_char (char_of (32 * m + x)) :: nat) AND 31 = x"
proof -
  have "of_char (char_of (32 * m + x)) = 32 * m + x"
    using assms by simp
  then show "drop_bit 5 (of_char (char_of (32 * m + x)) :: nat) = m"
    and "(of_char (char_of (32 * m + x)) :: nat) AND 31 = x"
    using assms by (simp_all add: drop_bit_5_head and_31_head)
qed

lemma byte_split:
  "c = char_of (32 * drop_bit 5 (of_char c) + ((of_char c :: nat) AND 31))"
proof -
  have "32 * drop_bit 5 (of_char c) + ((of_char c :: nat) AND 31) = of_char c"
    by (simp add: drop_bit_eq_div and_31_head)
  then show ?thesis by (metis char_of_char)
qed

lemma take_bytes_at [simp]:
  "take_bytes (pre @ bs @ post) (length bs) (length pre) = Ok (bs, length pre + length bs)"
  by (simp add: take_bytes_def)

lemma take_one_at [simp]:
  "take_one (pre @ c # post) (length pre) = Ok (of_char c, Suc (length pre))"
  by (simp add: take_one_def take_bytes_def)

lemma wide_argument_at:
  assumes "pull_unsigned_documented b"
    and "(additional, width) \<in> {(24, 1), (25, 2), (26, 4), (27, 8)}"
    and "length bs = width" "least \<le> be_value bs" "be_value bs < 2 ^ 64"
  shows "wide_argument b (pre @ bs @ post) additional width least (length pre) =
    Ok (word_of_nat (be_value bs), length pre + width)"
proof -
  have "pull_header b (char_of additional # bs) = Some (HPositive (word_of_nat (be_value bs)), Suc width)"
    using assms(1-3) unfolding pull_unsigned_documented_def by blast
  moreover have "unat (word_of_nat (be_value bs) :: u64) = be_value bs"
    using assms(5) by simp
  moreover have "take_bytes (pre @ bs @ post) width (length pre) = Ok (bs, length pre + width)"
    using assms(3) by auto
  ultimately show ?thesis
    using assms(4) by (simp add: wide_argument_def)
qed

lemma dec_argument_at:
  assumes b: "pull_unsigned_documented b"
  obtains x bs where "shortest_head major (unat a) = char_of (32 * major + x) # bs" "x < 32"
    and "\<And>pre post. dec_argument b (pre @ bs @ post) x (length pre) = Ok (a, length pre + length bs)"
proof -
  let ?n = "unat a"
  have n: "?n < 2 ^ 64" by (rule unat_u64_less)
  have wide: "wide_argument b (pre @ be_bytes w ?n @ post) x w m (length pre) = Ok (a, length pre + w)"
    if "(x, w) \<in> {(24, 1), (25, 2), (26, 4), (27, 8)}" "m \<le> ?n" "?n < 256 ^ w" for pre post x w m
    using wide_argument_at [OF b that(1), of "be_bytes w ?n" m pre post] that(2,3) n by simp
  consider "?n < 24" | "24 \<le> ?n" "?n < 0x100" | "0x100 \<le> ?n" "?n < 0x10000"
    | "0x10000 \<le> ?n" "?n < 0x100000000" | "0x100000000 \<le> ?n"
    by linarith
  then show thesis
  proof cases
    case 1
    have "(word_of_nat ?n :: u64) = a" by simp
    with 1 show thesis
      by (intro that [of ?n "[]"]) (simp_all add: shortest_head_def dec_argument_def)
  next
    case 2
    then show thesis
      by (intro that [of 24 "be_bytes 1 ?n"])
        (simp_all add: shortest_head_def dec_argument_def wide del: be_bytes.simps One_nat_def)
  next
    case 3
    then show thesis
      by (intro that [of 25 "be_bytes 2 ?n"])
        (simp_all add: shortest_head_def dec_argument_def wide)
  next
    case 4
    then show thesis
      by (intro that [of 26 "be_bytes 4 ?n"])
        (simp_all add: shortest_head_def dec_argument_def wide)
  next
    case 5
    then show thesis
      using n by (intro that [of 27 "be_bytes 8 ?n"])
        (simp_all add: shortest_head_def dec_argument_def wide)
  qed
qed

text \<open>The segment of the input between two positions.\<close>

definition segment :: "bytes \<Rightarrow> nat \<Rightarrow> nat \<Rightarrow> bytes" where
  "segment inp p q = take (q - p) (drop p inp)"

lemma segment_append: "p \<le> q \<Longrightarrow> q \<le> r \<Longrightarrow> segment inp p q @ segment inp q r = segment inp p r"
proof -
  assume a: "p \<le> q" "q \<le> r"
  have "take (r - p) (drop p inp) = take ((q - p) + (r - q)) (drop p inp)"
    using a by simp
  also have "\<dots> = take (q - p) (drop p inp) @ take (r - q) (drop (q - p) (drop p inp))"
    by (rule take_add)
  finally show ?thesis using a by (simp add: segment_def)
qed

lemma segment_same [simp]: "segment inp p p = []"
  by (simp add: segment_def)

lemma segment_Suc: "p < length inp \<Longrightarrow> segment inp p (Suc p) = [inp ! p]"
  by (simp add: segment_def take_Suc_conv_app_nth)

lemma length_segment [simp]: "q \<le> length inp \<Longrightarrow> length (segment inp p q) = q - p"
  by (simp add: segment_def)

lemma segment_whole [simp]: "segment inp 0 (length inp) = inp"
  by (simp add: segment_def)

lemma take_bytes_Ok:
  "take_bytes inp n p = Ok (bs, q) \<longleftrightarrow>
     p \<le> length inp \<and> q = p + n \<and> q \<le> length inp \<and> bs = segment inp p q"
  by (auto simp: take_bytes_def segment_def)

lemma take_one_Ok:
  "take_one inp p = Ok (x, q) \<longleftrightarrow> p < length inp \<and> q = Suc p \<and> x = of_char (inp ! p)"
  by (auto simp: take_one_def take_bytes_Ok segment_Suc split: list.splits)

lemma wide_argument_Ok:
  assumes "pull_unsigned_documented b"
    and "(additional, width) \<in> {(24, 1), (25, 2), (26, 4), (27, 8)}"
    and "wide_argument b inp additional width least p = Ok (a, q)"
  shows "q = p + width \<and> q \<le> length inp \<and> segment inp p q = be_bytes width (unat a) \<and>
    least \<le> unat a \<and> unat a < 256 ^ width"
proof -
  obtain bs where bs: "bs = segment inp p q" "q = p + width" "q \<le> length inp" "p \<le> length inp"
    and pull: "(case pull_header b (char_of additional # bs) of
       Some (HPositive argument, _) \<Rightarrow>
         if unat argument < least then Err (noncanonical NonminimalHeader) else Ok (argument, q)
     | _ \<Rightarrow> Panic) = Ok (a, q)"
    using assms(3) unfolding wide_argument_def
    by (auto simp: take_bytes_Ok split: option.splits header.splits if_splits)
  have len: "length bs = width" using bs by simp
  have "pull_header b (char_of additional # bs) = Some (HPositive (word_of_nat (be_value bs)), Suc width)"
    using assms(1,2) len unfolding pull_unsigned_documented_def by blast
  with pull have a: "a = word_of_nat (be_value bs)" "least \<le> unat a"
    by (auto split: if_splits)
  have lt: "be_value bs < 256 ^ width" using be_value_less [of bs] len by simp
  also have "(256::nat) ^ width \<le> 2 ^ 64" using assms(2) by auto
  finally have "unat a = be_value bs" by (simp add: a(1))
  then show ?thesis
    using bs a(2) lt be_bytes_be_value [OF len] by simp
qed

lemma dec_argument_Ok:
  assumes b: "pull_unsigned_documented b"
    and ok: "dec_argument b inp x p = Ok (a, q)" and p: "p \<le> length inp" and x: "x < 32"
  shows "p \<le> q \<and> q \<le> length inp \<and>
    char_of (32 * major + x) # segment inp p q = shortest_head major (unat a)"
proof -
  consider "x \<le> 23" | "x = 24" | "x = 25" | "x = 26" | "x = 27"
    using ok by (auto simp: dec_argument_def split: if_splits)
  then show ?thesis
  proof cases
    case 1
    then have "a = word_of_nat x" "q = p" using ok by (auto simp: dec_argument_def)
    moreover have "unat (word_of_nat x :: u64) = x"
      using x by simp
    ultimately show ?thesis using 1 p by (simp add: shortest_head_def)
  next
    case 2
    with ok have "wide_argument b inp 24 1 24 p = Ok (a, q)" by (simp add: dec_argument_def)
    from wide_argument_Ok [OF b _ this] show ?thesis using 2 by (auto simp: shortest_head_def)
  next
    case 3
    with ok have "wide_argument b inp 25 2 0x100 p = Ok (a, q)" by (simp add: dec_argument_def)
    from wide_argument_Ok [OF b _ this] show ?thesis using 3 by (auto simp: shortest_head_def)
  next
    case 4
    with ok have "wide_argument b inp 26 4 0x10000 p = Ok (a, q)" by (simp add: dec_argument_def)
    from wide_argument_Ok [OF b _ this] show ?thesis using 4 by (auto simp: shortest_head_def)
  next
    case 5
    with ok have "wide_argument b inp 27 8 0x100000000 p = Ok (a, q)" by (simp add: dec_argument_def)
    from wide_argument_Ok [OF b _ this] show ?thesis using 5 by (auto simp: shortest_head_def)
  qed
qed

lemma shortest_head_less:
  assumes "m < n" "n < 2 ^ 64" "major < 8"
  shows "shortest_head major m @ xs < shortest_head major n @ ys"
proof -
  have first: "char_of (32 * major + x) < char_of (32 * major + y)" if "x < y" "y < 32" for x y
    using assms(3) that by (simp add: char_less_iff)
  have same: "be_bytes k m @ xs < be_bytes k n @ ys" if "n < 256 ^ k" for k
    by (rule list_less_same_length_append) (use assms(1) that be_bytes_less in simp_all)
  show ?thesis
    using assms(1,2) same [of 1] same [of 2] same [of 4] same [of 8]
    by (simp add: shortest_head_def first del: be_bytes.simps One_nat_def)
qed

lemma canon_string_less_iff:
  assumes "length k < usize_bound" "length l < usize_bound"
  shows "canon_string 3 k < canon_string 3 l \<longleftrightarrow> canon_key k < canon_key l"
proof -
  have u: "unat (word_of_nat (length s) :: u64) = length s" if "length s < usize_bound" for s :: bytes
    using that by (simp add: usize_bound_def)
  have less: "canon_string 3 s < canon_string 3 t"
    if "length s < length t" "length t < usize_bound" for s t
    using that shortest_head_less [of "length s" "length t" 3 s t]
    by (simp add: canon_string_def u usize_bound_def)
  consider "length k < length l" | "length l < length k" | "length k = length l" by linarith
  then show ?thesis
  proof cases
    case 1
    with less [OF 1 assms(2)] show ?thesis by (simp add: canon_key_def)
  next
    case 2
    with less [OF 2 assms(1)] show ?thesis by (simp add: canon_key_def not_less order.asym)
  next
    case 3
    then show ?thesis by (simp add: canon_string_def canon_key_def)
  qed
qed

section \<open>Soundness of the decoder\<close>

lemma dec_payload_Ok:
  assumes "dec_payload lim inp a p = Ok (bs, q)"
  shows "p \<le> length inp \<and> q = p + unat a \<and> q \<le> length inp \<and> bs = segment inp p q
    \<and> length bs = unat a \<and> q \<le> max_document_bytes lim"
  using assms by (auto simp: dec_payload_def take_bytes_Ok add_eq_Ok)

lemma dec_text_Ok:
  assumes "dec_text lim inp a p = Ok (s, q)"
  shows "dec_payload lim inp a p = Ok (s, q) \<and> utf8_valid s"
  using assms by (auto simp: dec_text_def split: option.splits)

lemma dec_payload_canon:
  assumes "dec_payload lim inp a p = Ok (bs, q)"
  shows "shortest_head major (unat a) @ segment inp p q = canon_string major bs"
  using dec_payload_Ok [OF assms] by (simp add: canon_string_def)

lemma dec_children_Ok:
  assumes "dec_children lim inp a d is_map p = Ok (n, cd)"
  shows "n = unat a \<and> p \<le> length inp \<and>
    (if n = 0 then cd = d else cd = Suc d \<and> Suc d \<le> max_depth lim)"
  using assms by (auto simp: dec_children_def add_eq_Ok split: if_splits)

lemma dec_key_Ok:
  assumes b: "pull_unsigned_documented b" and ok: "dec_key b lim inp d p = Ok (k, q)"
  shows "p < q \<and> q \<le> length inp \<and> segment inp p q = canon_string 3 k \<and> utf8_valid k \<and>
    length k \<le> max_document_bytes lim"
proof -
  obtain a r where p: "p < length inp" and major: "drop_bit 5 (of_char (inp ! p) :: nat) = 3"
    and arg: "dec_argument b inp ((of_char (inp ! p) :: nat) AND 31) (Suc p) = Ok (a, r)"
    and tx: "dec_text lim inp a r = Ok (k, q)"
    using ok by (auto simp: dec_key_def take_one_Ok split: if_splits)
  have byte: "inp ! p = char_of (32 * 3 + ((of_char (inp ! p) :: nat) AND 31))"
    using byte_split [of "inp ! p"] major by simp
  have r: "Suc p \<le> r" "r \<le> length inp"
    and head: "char_of (32 * 3 + ((of_char (inp ! p) :: nat) AND 31)) # segment inp (Suc p) r =
      shortest_head 3 (unat a)"
    using dec_argument_Ok [OF b arg, of 3] p by (auto simp: and_31_head)
  note t = dec_text_Ok [OF tx]
  note pl = dec_payload_Ok [OF conjunct1 [OF t]]
  have "segment inp p q = segment inp p (Suc p) @ segment inp (Suc p) r @ segment inp r q"
    using r pl by (simp add: segment_append)
  also have "\<dots> = (inp ! p # segment inp (Suc p) r) @ segment inp r q"
    using p by (simp add: segment_Suc)
  also have "\<dots> = canon_string 3 k"
    using dec_payload_canon [OF conjunct1 [OF t], of 3] head byte by simp
  finally show ?thesis using r pl t by auto
qed

text \<open>The fields of a head that the decoder has accepted up to its argument.\<close>

lemma head_segment:
  assumes b: "pull_unsigned_documented b" and p: "p < length inp"
    and arg: "dec_argument b inp ((of_char (inp ! p) :: nat) AND 31) (Suc p) = Ok (a, r)"
    and major: "drop_bit 5 (of_char (inp ! p) :: nat) = major"
  shows "Suc p \<le> r \<and> r \<le> length inp \<and> segment inp p r = shortest_head major (unat a)"
proof -
  have byte: "inp ! p = char_of (32 * major + ((of_char (inp ! p) :: nat) AND 31))"
    using byte_split [of "inp ! p"] major by simp
  have r: "Suc p \<le> r" "r \<le> length inp"
    and head: "char_of (32 * major + ((of_char (inp ! p) :: nat) AND 31)) # segment inp (Suc p) r =
      shortest_head major (unat a)"
    using dec_argument_Ok [OF b arg, of major] p by (auto simp: and_31_head)
  have "segment inp p r = segment inp p (Suc p) @ segment inp (Suc p) r"
    using r by (simp add: segment_append)
  then show ?thesis using r p head byte by (simp add: segment_Suc)
qed

lemma dec_float_Ok:
  assumes "dec_float b x w p = Ok (v, q)"
  shows "v = VFloat (FiniteFloat w) \<and> q = p \<and> wf_value v \<and> f64_is_finite w \<and>
    (x > 25 \<longrightarrow> f64_to_f16 b w = None) \<and> (x = 27 \<longrightarrow> f64_to_f32 b w = None)"
proof -
  have f: "f64_is_finite w" "\<not> (f64_is_zero w \<and> f64_is_sign_negative w)"
    using assms by (auto simp: dec_float_def split: if_splits)
  then have "finite_float_new w = Ok (FiniteFloat w)"
    using positive_zero_iff [of w] by (auto simp: finite_float_new_def)
  moreover from this have "wf_float (FiniteFloat w)" by (rule finite_float_new_wf)
  ultimately show ?thesis
    using assms f by (auto simp: dec_float_def split: if_splits)
qed

lemma drop_segment: "p \<le> length inp \<Longrightarrow> p + n \<le> length inp \<Longrightarrow> take n (drop p inp) = segment inp p (p + n)"
  by (simp add: segment_def)

lemma dec_simple_Ok:
  assumes b: "cbor2_documented b" and p: "p < length inp"
    and major: "drop_bit 5 (of_char (inp ! p) :: nat) = 7"
    and ok: "dec_simple b inp ((of_char (inp ! p) :: nat) AND 31) (Suc p) = Ok (v, q)"
  shows "p < q \<and> q \<le> length inp \<and> segment inp p q = canon b v \<and> wf_value v \<and> vdepth v = 0"
proof -
  define x where "x = (of_char (inp ! p) :: nat) AND 31"
  have byte: "inp ! p = char_of (224 + x)"
    using byte_split [of "inp ! p"] major by (simp add: x_def)
  have drop: "drop p inp = char_of (224 + x) # drop (Suc p) inp"
    using p byte Cons_nth_drop_Suc by fastforce
  have ok': "dec_simple b inp x (Suc p) = Ok (v, q)" using ok by (simp add: x_def)
  have pull: "pull_float_documented b" and nar: "narrowing_documented b"
    using b by (auto simp: cbor2_documented_def)
  have fl: ?thesis
    if x: "x \<in> {25, 26, 27}"
      and h: "pull_header b (drop p inp) = Some (HFloat w, Suc n)"
      and d: "dec_float b x w (p + Suc n) = Ok (v, q)"
      and len: "n \<le> length inp - Suc p"
      and head: "f64_is_finite w \<Longrightarrow> (x > 25 \<longrightarrow> f64_to_f16 b w = None) \<Longrightarrow>
        (x = 27 \<longrightarrow> f64_to_f32 b w = None) \<Longrightarrow>
        float_head b w = char_of (224 + x) # take n (drop (Suc p) inp)" for w n
  proof -
    note f = dec_float_Ok [OF d]
    have q: "q = p + Suc n" "q \<le> length inp" using f len p by auto
    have "segment inp p q = take (Suc n) (drop p inp)" using q by (simp add: segment_def)
    also have "\<dots> = char_of (224 + x) # take n (drop (Suc p) inp)" by (simp add: drop)
    finally show ?thesis using f q head by auto
  qed
  have three: "25 \<le> x \<Longrightarrow> x \<le> 27 \<Longrightarrow> x = 25 \<or> x = 26 \<or> x = 27" by linarith
  consider "x = 20" | "x = 21" | "x = 22" | "x = 25" | "x = 26" | "x = 27"
    using ok' three by (auto simp: dec_simple_def split: if_splits)
  then show ?thesis
  proof cases
    case 4
    let ?h = "word_of_nat (be_value (take 2 (drop (Suc p) inp))) :: 16 word"
    have len: "2 \<le> length inp - Suc p" and d: "dec_float b x (f16_to_f64 b ?h) (p + Suc 2) = Ok (v, q)"
      and ph: "pull_header b (drop p inp) = Some (HFloat (f16_to_f64 b ?h), Suc 2)"
      using ok' pull 4 by (auto simp: dec_simple_def drop pull_float_documented_def split: if_splits)
    have be: "be_bytes 2 (unat ?h) = take 2 (drop (Suc p) inp)"
      using be_value_less [of "take 2 (drop (Suc p) inp)"] len be_bytes_be_value [of _ 2] by simp
    have "f64_to_f16 b (f16_to_f64 b ?h) = Some ?h" if "f64_is_finite (f16_to_f64 b ?h)"
      using nar that by (simp add: narrowing_documented_def)
    then show ?thesis
      by (intro fl [OF _ ph d len]) (use 4 be in \<open>auto simp: float_head_def\<close>)
  next
    case 5
    let ?h = "word_of_nat (be_value (take 4 (drop (Suc p) inp))) :: 32 word"
    have len: "4 \<le> length inp - Suc p" and d: "dec_float b x (f32_to_f64 b ?h) (p + Suc 4) = Ok (v, q)"
      and ph: "pull_header b (drop p inp) = Some (HFloat (f32_to_f64 b ?h), Suc 4)"
      using ok' pull 5 by (auto simp: dec_simple_def drop pull_float_documented_def split: if_splits)
    have be: "be_bytes 4 (unat ?h) = take 4 (drop (Suc p) inp)"
      using be_value_less [of "take 4 (drop (Suc p) inp)"] len be_bytes_be_value [of _ 4] by simp
    have "f64_to_f32 b (f32_to_f64 b ?h) = Some ?h" if "f64_is_finite (f32_to_f64 b ?h)"
      using nar that by (simp add: narrowing_documented_def)
    then show ?thesis
      by (intro fl [OF _ ph d len]) (use 5 be in \<open>auto simp: float_head_def\<close>)
  next
    case 6
    let ?h = "word_of_nat (be_value (take 8 (drop (Suc p) inp))) :: 64 word"
    have len: "8 \<le> length inp - Suc p" and d: "dec_float b x ?h (p + Suc 8) = Ok (v, q)"
      and ph: "pull_header b (drop p inp) = Some (HFloat ?h, Suc 8)"
      using ok' pull 6 by (auto simp: dec_simple_def drop pull_float_documented_def split: if_splits)
    have be: "be_bytes 8 (unat ?h) = take 8 (drop (Suc p) inp)"
      using be_value_less [of "take 8 (drop (Suc p) inp)"] len be_bytes_be_value [of _ 8] by simp
    show ?thesis
      by (rule fl [OF _ ph d len]) (use 6 be in \<open>auto simp: float_head_def\<close>)
  qed (use ok' p byte in \<open>auto simp: dec_simple_def segment_Suc\<close>)
qed

lemma wide_key_order:
  "key_order prev ek p = Ok u \<longleftrightarrow> (case prev of None \<Rightarrow> True | Some k \<Rightarrow> k < ek)"
  by (auto simp: key_order_def split: option.splits ordering.splits)

lemma key_order_not_Panic [simp]: "key_order prev ek p \<noteq> Panic"
  by (auto simp: key_order_def split: option.splits ordering.splits)

lemma map_canonical_Cons:
  "map_canonical (p # m) \<longleftrightarrow> (\<forall>q \<in> set m. canon_key (fst p) < canon_key (fst q)) \<and> map_canonical m"
  by (auto simp: map_canonical_def)

lemma i64_try_from_sign:
  "i64_try_from a = Some n \<longleftrightarrow> n = a \<and> \<not> n <s 0"
  by (auto simp: i64_try_from_def sless_zero_iff bit_63_iff)

lemma not_sless_zero: "NOT n <s 0 \<longleftrightarrow> \<not> (n :: i64) <s 0"
  by (simp add: sless_zero_iff bit_not_iff)

lemma dec_inner_E:
  fixes inp :: bytes and pos :: nat
  defines "i \<equiv> of_char (inp ! pos) :: nat"
  assumes "dec_inner b lim inp d pos = Ok (v, q)"
  obtains (simple) "d \<le> max_depth lim" "pos < length inp" "drop_bit 5 i = 7"
      "dec_simple b inp (i AND 31) (Suc pos) = Ok (v, q)"
  | (integer) a n where "d \<le> max_depth lim" "pos < length inp" "drop_bit 5 i \<in> {0, 1}"
      "dec_argument b inp (i AND 31) (Suc pos) = Ok (a, q)" "i64_try_from a = Some n"
      "v = VInteger (if drop_bit 5 i = 0 then n else NOT n)"
  | (bytes) a r bs where "d \<le> max_depth lim" "pos < length inp" "drop_bit 5 i = 2"
      "dec_argument b inp (i AND 31) (Suc pos) = Ok (a, r)"
      "dec_payload lim inp a r = Ok (bs, q)" "v = VBytes bs"
  | (string) a r s where "d \<le> max_depth lim" "pos < length inp" "drop_bit 5 i = 3"
      "dec_argument b inp (i AND 31) (Suc pos) = Ok (a, r)"
      "dec_text lim inp a r = Ok (s, q)" "v = VText s"
  | (array) a r n cd vs where "d \<le> max_depth lim" "pos < length inp" "drop_bit 5 i = 4"
      "dec_argument b inp (i AND 31) (Suc pos) = Ok (a, r)"
      "dec_children lim inp a d False r = Ok (n, cd)"
      "dec_items b lim inp n cd r = Ok (vs, q)" "v = VArray vs"
  | (map_) a r n cd m where "d \<le> max_depth lim" "pos < length inp" "drop_bit 5 i = 5"
      "dec_argument b inp (i AND 31) (Suc pos) = Ok (a, r)"
      "dec_children lim inp a d True r = Ok (n, cd)"
      "dec_entries b lim inp n cd None r = Ok (m, q)" "v = VMap m"
proof -
  have d: "d \<le> max_depth lim" and pos: "pos < length inp"
    using assms(2) by (auto simp: dec_inner.simps take_one_Ok)
  have t: "take_one inp pos = Ok (i, Suc pos)" by (simp add: take_one_Ok pos i_def)
  have c: "check d (max_depth lim) Depth = Ok ()" using d by simp
  show thesis
    using assms(2) unfolding dec_inner.simps t c Let_def
    by (auto split: if_splits intro: that [OF d pos])
qed

lemma dec_sound:
  assumes bk: "cbor2_documented b" and l: "usize_limits lim"
  shows "dec_value b lim inp d pos = Ok (v, q) \<Longrightarrow>
      pos < q \<and> q \<le> length inp \<and> segment inp pos q = canon b v \<and> wf_value v \<and>
      d + vdepth v \<le> max_depth lim"
    and "dec_inner b lim inp d pos = Ok (v, q) \<Longrightarrow>
      pos < q \<and> q \<le> length inp \<and> segment inp pos q = canon b v \<and> wf_value v \<and>
      d + vdepth v \<le> max_depth lim"
    and "dec_items b lim inp n cd pos = Ok (vs, q) \<Longrightarrow> pos \<le> length inp \<Longrightarrow>
      pos \<le> q \<and> q \<le> length inp \<and> segment inp pos q = canon_list b vs \<and> length vs = n \<and>
      (\<forall>v \<in> set vs. wf_value v) \<and> (vs = [] \<or> cd + vdepth_list vs \<le> Suc (max_depth lim))"
    and "dec_entries b lim inp n cd prev pos = Ok (m, q) \<Longrightarrow> pos \<le> length inp \<Longrightarrow>
      pos \<le> q \<and> q \<le> length inp \<and> segment inp pos q = canon_entries b m \<and> length m = n \<and>
      map_canonical m \<and> (\<forall>p \<in> set m. utf8_valid (fst p) \<and> wf_value (snd p)) \<and>
      (\<forall>p \<in> set m. length (fst p) < usize_bound \<and>
         (case prev of None \<Rightarrow> True | Some k \<Rightarrow> k < canon_string 3 (fst p))) \<and>
      (m = [] \<or> cd + vdepth_entries m \<le> Suc (max_depth lim))"
  using bk l
proof (induction b lim inp d pos and b lim inp d pos and b lim inp n cd pos and b lim inp n cd prev pos
    arbitrary: v q and v q and vs q and m q rule: dec_value_dec_inner_dec_items_dec_entries.induct)
  case (1 b lim inp depth pos)
  then show ?case by (simp add: dec_value.simps)
next
  case (2 b lim inp d pos)
  have pu: "pull_unsigned_documented b" using "2.prems"(2) by (simp add: cbor2_documented_def)
  let ?i = "of_char (inp ! pos) :: nat"
  have mx: "max_document_bytes lim < usize_bound" using "2.prems"(3) by (simp add: usize_limits_def)
  from "2.prems"(1) show ?case
  proof (cases rule: dec_inner_E)
    case simple
    from dec_simple_Ok [OF "2.prems"(2) simple(2-4)] simple(1) show ?thesis by simp
  next
    case (integer a n)
    have n: "n = a" "\<not> n <s 0" using integer(5) by (auto simp: i64_try_from_sign)
    show ?thesis
      using head_segment [OF pu integer(2,4) refl] integer(1,3,6) n by (auto simp: not_sless_zero)
  next
    case (bytes a r bs)
    note h = head_segment [OF pu bytes(2,4,3)] and p = dec_payload_Ok [OF bytes(5)]
    show ?thesis
      using h p dec_payload_canon [OF bytes(5), of 2] bytes(1,6) segment_append [of pos r q inp] by simp
  next
    case (string a r s)
    note t = dec_text_Ok [OF string(5)]
    note h = head_segment [OF pu string(2,4,3)] and p = dec_payload_Ok [OF conjunct1 [OF t]]
    show ?thesis
      using h p t dec_payload_canon [OF conjunct1 [OF t], of 3] string(1,6) segment_append [of pos r q inp]
      by simp
  next
    case (array a r n cd vs)
    have t: "take_one inp pos = Ok (of_char (inp ! pos), Suc pos)"
      using array(2) by (simp add: take_one_Ok)
    note h = head_segment [OF pu array(2,4,3)] and c = dec_children_Ok [OF array(5)]
    have i: "r \<le> q \<and> q \<le> length inp \<and> segment inp r q = canon_list b vs \<and> length vs = n \<and>
      (\<forall>v \<in> set vs. wf_value v) \<and> (vs = [] \<or> cd + vdepth_list vs \<le> Suc (max_depth lim))"
      by (rule "2.IH"(1) [OF _ t refl refl refl _ _ array(4) refl _ _ _ _ array(5) refl array(6)])
        (use array(1,3) c "2.prems"(2,3) in simp_all)
    show ?thesis
      using h c i array(1,7) segment_append [of pos r q inp] by (cases vs) auto
  next
    case (map_ a r n cd m)
    have t: "take_one inp pos = Ok (of_char (inp ! pos), Suc pos)"
      using map_(2) by (simp add: take_one_Ok)
    note h = head_segment [OF pu map_(2,4,3)] and c = dec_children_Ok [OF map_(5)]
    have i: "r \<le> q \<and> q \<le> length inp \<and> segment inp r q = canon_entries b m \<and> length m = n \<and>
      map_canonical m \<and> (\<forall>p \<in> set m. utf8_valid (fst p) \<and> wf_value (snd p)) \<and>
      (m = [] \<or> cd + vdepth_entries m \<le> Suc (max_depth lim))"
      using "2.IH"(2) [OF _ t refl refl refl _ _ map_(4) refl _ _ _ _ _ map_(5) refl map_(6)]
        map_(1,3) c "2.prems"(2,3) by simp
    show ?thesis
      using h c i map_(1,7) segment_append [of pos r q inp] by (cases m) auto
  qed
next
  case (3 b lim inp cd pos)
  then show ?case by simp
next
  case (4 b lim inp n cd pos)
  obtain v p vs' where v: "dec_value b lim inp cd pos = Ok (v, p)"
    and rest: "dec_items b lim inp n cd p = Ok (vs', q)" and vs: "vs = v # vs'"
    using "4.prems"(1) by auto
  note h = "4.IH"(1) [OF v "4.prems"(3,4)]
  have p: "p \<le> length inp" using h by simp
  note t = "4.IH"(2) [OF v refl rest p "4.prems"(3,4)]
  show ?case
    using h t segment_append [of pos p q inp] by (cases vs') (auto simp: vs max_def)
next
  case (5 b lim inp cd previous pos)
  then show ?case by simp
next
  case (6 b lim inp n cd previous pos)
  obtain k p v r m' where k: "dec_key b lim inp cd pos = Ok (k, p)"
    and ord: "key_order previous (segment inp pos p) pos = Ok ()"
    and v: "dec_value b lim inp cd p = Ok (v, r)"
    and rest: "dec_entries b lim inp n cd (Some (segment inp pos p)) r = Ok (m', q)"
    and m: "m = (k, v) # m'"
    using "6.prems"(1) by (auto simp: Let_def segment_def)
  have pu: "pull_unsigned_documented b" using "6.prems"(3) by (simp add: cbor2_documented_def)
  have mx: "max_document_bytes lim < usize_bound" using "6.prems"(4) by (simp add: usize_limits_def)
  note kk = dec_key_Ok [OF pu k]
  have k': "map_err (at_offset pos) (dec_key b lim inp cd pos) = Ok (k, p)" using k by simp
  note ord' = ord [unfolded segment_def] and rest' = rest [unfolded segment_def]
  have lk: "length k < usize_bound" using kk mx by simp
  have h: "p < r \<and> r \<le> length inp \<and> segment inp p r = canon b v \<and> wf_value v \<and>
      cd + vdepth v \<le> max_depth lim"
    by (rule "6.IH"(1) [OF k' refl refl ord' v "6.prems"(3,4)])
  have t: "r \<le> q \<and> q \<le> length inp \<and> segment inp r q = canon_entries b m' \<and> length m' = n \<and>
      map_canonical m' \<and> (\<forall>p \<in> set m'. utf8_valid (fst p) \<and> wf_value (snd p)) \<and>
      (\<forall>e \<in> set m'. length (fst e) < usize_bound \<and> segment inp pos p < canon_string 3 (fst e)) \<and>
      (m' = [] \<or> cd + vdepth_entries m' \<le> Suc (max_depth lim))"
    using "6.IH"(2) [OF k' refl refl ord' v refl rest' _ "6.prems"(3,4)] h by (simp add: segment_def)
  have seg: "segment inp pos q = segment inp pos p @ segment inp p r @ segment inp r q"
    using kk h t segment_append [of pos p q inp] segment_append [of p r q inp] by auto
  have "canon_key k < canon_key (fst e)" if "e \<in> set m'" for e
    using t kk lk that by (simp flip: canon_string_less_iff)
  moreover have "case previous of None \<Rightarrow> True | Some w \<Rightarrow> w < canon_string 3 k"
    using ord kk by (simp add: wide_key_order)
  ultimately show ?case
    using h t kk lk seg
    by (cases m') (auto simp: m map_canonical_Cons max_def split: option.splits intro: order.strict_trans)
qed

section \<open>Completeness of the decoder\<close>

lemma head_at:
  assumes "pull_unsigned_documented b" "major < 8"
    and "inp = pre @ shortest_head major (unat a) @ post"
  obtains i where "take_one inp (length pre) = Ok (i, Suc (length pre))" "drop_bit 5 i = major"
    and "dec_argument b inp (i AND 31) (Suc (length pre)) =
      Ok (a, length pre + length (shortest_head major (unat a)))"
proof -
  obtain x bs where h: "shortest_head major (unat a) = char_of (32 * major + x) # bs" "x < 32"
    and arg: "\<And>pre post. dec_argument b (pre @ bs @ post) x (length pre) = Ok (a, length pre + length bs)"
    using dec_argument_at [OF assms(1)] by blast
  let ?c = "char_of (32 * major + x)"
  have "dec_argument b inp x (Suc (length pre)) = Ok (a, length pre + length (shortest_head major (unat a)))"
    using arg [of "pre @ [?c]" post] by (simp add: assms(3) h)
  moreover have "take_one inp (length pre) = Ok (of_char ?c, Suc (length pre))"
    by (simp add: assms(3) h)
  ultimately show thesis
    using that head_byte [OF assms(2) h(2)] by auto
qed

lemma dec_payload_at:
  assumes "length (pre @ bs @ post) \<le> max_document_bytes lim" "max_document_bytes lim < usize_bound"
  shows "dec_payload lim (pre @ bs @ post) (word_of_nat (length bs)) (length pre) =
    Ok (bs, length pre + length bs)"
proof -
  have "unat (word_of_nat (length bs) :: u64) = length bs"
    using assms by (simp add: usize_bound_def)
  then show ?thesis using assms by (simp add: dec_payload_def)
qed

lemma dec_text_at:
  assumes "length (pre @ bs @ post) \<le> max_document_bytes lim" "max_document_bytes lim < usize_bound"
    and "utf8_valid bs"
  shows "dec_text lim (pre @ bs @ post) (word_of_nat (length bs)) (length pre) =
    Ok (bs, length pre + length bs)"
  using dec_payload_at [OF assms(1,2)] assms(3) by (simp add: dec_text_def)

lemma length_canon_list: "length vs \<le> length (canon_list b vs)"
proof (induction vs)
  case (Cons v vs)
  have "1 \<le> length (canon b v)" using canon_nonempty [of b v] by (cases "canon b v") auto
  then show ?case using Cons by simp
qed simp

lemma length_canon_string: "length bs < length (canon_string major bs)"
  by (simp add: canon_string_def length_shortest_head)

lemma length_canon_entries: "2 * length m \<le> length (canon_entries b m)"
proof (induction m)
  case (Cons e m)
  obtain k v where e: "e = (k, v)" by (cases e)
  have "1 \<le> length (canon b v)" using canon_nonempty [of b v] by (cases "canon b v") auto
  then show ?case using Cons length_canon_string [of k 3] by (simp add: e)
qed simp

lemma dec_key_at:
  assumes "pull_unsigned_documented b" "max_document_bytes lim < usize_bound"
    and "inp = pre @ canon_string 3 k @ post" "length inp \<le> max_document_bytes lim"
    and "d \<le> max_depth lim" "utf8_valid k"
  shows "dec_key b lim inp d (length pre) = Ok (k, length pre + length (canon_string 3 k))"
proof -
  let ?h = "shortest_head 3 (unat (word_of_nat (length k) :: u64))"
  have inp: "inp = pre @ ?h @ (k @ post)" "inp = (pre @ ?h) @ k @ post"
    by (simp_all add: assms(3) canon_string_def)
  obtain i where "take_one inp (length pre) = Ok (i, Suc (length pre))" "drop_bit 5 i = 3"
    "dec_argument b inp (i AND 31) (Suc (length pre)) = Ok (word_of_nat (length k), length pre + length ?h)"
    by (rule head_at [OF assms(1) _ inp(1)]) auto
  moreover have "dec_text lim inp (word_of_nat (length k)) (length pre + length ?h) =
      Ok (k, length pre + length ?h + length k)"
    using dec_text_at [of "pre @ ?h" k post lim] assms(2,4,6) inp(2) by simp
  ultimately show ?thesis
    using assms(5) by (simp add: dec_key_def check_def canon_string_def)
qed

lemma dec_float_head:
  assumes bk: "cbor2_documented b" and w: "wf_float (FiniteFloat x)"
    and inp: "inp = pre @ float_head b x @ post"
  obtains i where "take_one inp (length pre) = Ok (i, Suc (length pre))" "drop_bit 5 i = 7"
    "dec_simple b inp (i AND 31) (Suc (length pre)) =
      Ok (VFloat (FiniteFloat x), length pre + length (float_head b x))"
proof -
  have pull: "pull_float_documented b" and nar: "narrowing_documented b"
    using bk by (auto simp: cbor2_documented_def)
  have fin: "f64_is_finite x" and z: "f64_is_zero x \<Longrightarrow> x = 0"
    using w by (auto simp: wf_float_def)
  have new: "finite_float_new x = Ok (FiniteFloat x)"
    using fin z by (auto simp: finite_float_new_def)
  have sign: "\<not> (f64_is_zero x \<and> f64_is_sign_negative x)"
    using z by auto
  have l16: "length (be_bytes 2 n @ post) \<ge> 2" "take 2 (be_bytes 2 n @ post) = be_bytes 2 n" for n
    by simp_all
  have l32: "length (be_bytes 4 n @ post) \<ge> 4" "take 4 (be_bytes 4 n @ post) = be_bytes 4 n" for n
    by simp_all
  have l64: "length (be_bytes 8 n @ post) \<ge> 8" "take 8 (be_bytes 8 n @ post) = be_bytes 8 n" for n
    by simp_all
  consider (half) h where "f64_to_f16 b x = Some h"
    | (single) s where "f64_to_f16 b x = None" "f64_to_f32 b x = Some s"
    | (double) "f64_to_f16 b x = None" "f64_to_f32 b x = None"
    by fastforce
  then show thesis
  proof cases
    case half
    have f: "f16_to_f64 b h = x" using nar fin half by (simp add: narrowing_documented_def)
    have i: "inp = pre @ char_of (0xF9::nat) # (be_bytes 2 (unat h) @ post)"
      by (simp add: inp float_head_def half)
    have u: "unat h < 65536" using unsigned_less [of h] by simp
    have "dec_simple b inp 25 (Suc (length pre)) = Ok (VFloat (FiniteFloat x), length pre + 3)"
      using pull fin sign new u
      by (simp add: dec_simple_def i pull_float_documented_def l16 f dec_float_def
          del: be_bytes.simps append_assoc)
    then show thesis
      by (intro that [where i = "0xF9"]) (simp_all del: be_bytes.simps append_assoc add: i float_head_def half and_31_head drop_bit_eq_div)
  next
    case single
    have f: "f32_to_f64 b s = x" using nar fin single by (simp add: narrowing_documented_def)
    have i: "inp = pre @ char_of (0xFA::nat) # (be_bytes 4 (unat s) @ post)"
      by (simp add: inp float_head_def single)
    have u: "unat s < 4294967296" using unsigned_less [of s] by simp
    have "dec_simple b inp 26 (Suc (length pre)) = Ok (VFloat (FiniteFloat x), length pre + 5)"
      using pull fin sign new u
      by (simp add: dec_simple_def i pull_float_documented_def l32 f dec_float_def single
          del: be_bytes.simps append_assoc)
    then show thesis
      by (intro that [where i = "0xFA"]) (simp_all del: be_bytes.simps append_assoc add: i float_head_def single and_31_head drop_bit_eq_div)
  next
    case double
    have i: "inp = pre @ char_of (0xFB::nat) # (be_bytes 8 (unat x) @ post)"
      by (simp add: inp float_head_def double)
    have u: "unat x < 18446744073709551616" using unat_u64_less [of x] by simp
    have "dec_simple b inp 27 (Suc (length pre)) = Ok (VFloat (FiniteFloat x), length pre + 9)"
      using pull fin sign new u
      by (simp add: dec_simple_def i pull_float_documented_def l64 dec_float_def double
          del: be_bytes.simps append_assoc)
    then show thesis
      by (intro that [where i = "0xFB"]) (simp_all del: be_bytes.simps append_assoc add: i float_head_def double and_31_head drop_bit_eq_div)
  qed
qed

end
