(* ===== verification/Cbor_Codec.thy ===== *)
theory Cbor_Codec
  imports Cbor_Roundtrip
begin

text \<open>
  The other half of the codec's correctness: the decoder reads back every canonical
  encoding that fits the limits (\<open>dec_complete\<close>), and panics on no input
  (\<open>dec_not_Panic\<close>).
\<close>

unbundle bit_operations_syntax

section \<open>Completeness\<close>

lemma dec_children_at:
  assumes "length inp \<le> max_document_bytes lim" "usize_limits lim"
    and "p + (if is_map then 2 * n else n) \<le> length inp"
    and "n = 0 \<or> Suc d \<le> max_depth lim"
  shows "dec_children lim inp (word_of_nat n) d is_map p = Ok (n, if n = 0 then d else Suc d)"
proof -
  have "unat (word_of_nat n :: u64) = n"
    using assms(1-3) by (simp add: usize_limits_def usize_bound_def split: if_splits)
  then show ?thesis
    using assms by (auto simp: dec_children_def dec_length_def add_def check_def checked_add_def
        usize_limits_def mult_2 split: if_splits)
qed

lemma key_order_less:
  "length k < usize_bound \<Longrightarrow> (case prev of None \<Rightarrow> True | Some w \<Rightarrow> w < canon_string 3 k) \<Longrightarrow>
    key_order prev (canon_string 3 k) p = Ok ()"
  by (simp add: wide_key_order)

lemma length_canon_pos: "0 < length (canon b v)"
  by simp

lemma word_of_nat_length: "length xs < usize_bound \<Longrightarrow> unat (word_of_nat (length xs) :: u64) = length xs"
  by (simp add: usize_bound_def)

lemma length_key_canon_entries: "p \<in> set m \<Longrightarrow> length (fst p) \<le> length (canon_entries b m)"
proof (induction m)
  case (Cons e m)
  then show ?case
    using length_canon_string [of "fst e" 3] by (cases e) auto
qed simp

lemma dec_complete:
  assumes bk: "cbor2_documented b" and l: "usize_limits lim"
  shows "wf_value v \<Longrightarrow> d + vdepth v \<le> max_depth lim \<Longrightarrow>
      length (pre @ canon b v @ post) \<le> max_document_bytes lim \<Longrightarrow>
      dec_value b lim (pre @ canon b v @ post) d (length pre) = Ok (v, length pre + length (canon b v))"
    and "\<forall>v \<in> set vs. wf_value v \<Longrightarrow> vs = [] \<or> d + vdepth_list vs \<le> Suc (max_depth lim) \<Longrightarrow>
      length (pre @ canon_list b vs @ post) \<le> max_document_bytes lim \<Longrightarrow>
      dec_items b lim (pre @ canon_list b vs @ post) (length vs) d (length pre) =
        Ok (vs, length pre + length (canon_list b vs))"
    and "map_canonical m \<Longrightarrow> \<forall>p \<in> set m. utf8_valid (fst p) \<and> wf_value (snd p) \<Longrightarrow>
      m = [] \<or> d + vdepth_entries m \<le> Suc (max_depth lim) \<Longrightarrow>
      \<forall>p \<in> set m. case prev of None \<Rightarrow> True | Some k \<Rightarrow> k < canon_string 3 (fst p) \<Longrightarrow>
      length (pre @ canon_entries b m @ post) \<le> max_document_bytes lim \<Longrightarrow>
      dec_entries b lim (pre @ canon_entries b m @ post) (length m) d prev (length pre) =
        Ok (m, length pre + length (canon_entries b m))"
  using bk
proof (induction b v and b vs and b m arbitrary: d pre post and d pre post and d prev pre post
    rule: canon_canon_list_canon_entries.induct)
  case (1 b)
  then show ?case by (simp add: dec_value.simps dec_inner.simps check_def drop_bit_eq_div and_31_head dec_simple_def)
next
  case (2 b x)
  then show ?case by (cases x) (simp_all add: dec_value.simps dec_inner.simps check_def drop_bit_eq_div and_31_head dec_simple_def)
next
  case (3 b n)
  define a where "a = (if n <s 0 then NOT n else n)"
  define major where "major = (if n <s 0 then 1 else 0 :: nat)"
  have c: "canon b (VInteger n) = shortest_head major (unat a)"
    by (simp add: a_def major_def)
  have pu: "pull_unsigned_documented b" using "3.prems"(4) by (simp add: cbor2_documented_def)
  obtain i where t: "take_one (pre @ canon b (VInteger n) @ post) (length pre) = Ok (i, Suc (length pre))"
      "drop_bit 5 i = major"
    and arg: "dec_argument b (pre @ canon b (VInteger n) @ post) (i AND 31) (Suc (length pre)) =
      Ok (a, length pre + length (canon b (VInteger n)))"
    unfolding c by (rule head_at [OF pu _ refl]) (auto simp: major_def)
  have "i64_try_from a = Some a"
    using not_sless_zero [of n] by (auto simp: i64_try_from_sign a_def)
  then show ?case
    using "3.prems"(2) t arg
    by (auto simp: dec_value.simps dec_inner.simps check_def major_def a_def simp del: canon.simps)
next
  case (4 b f)
  obtain x where f: "f = FiniteFloat x" by (cases f)
  obtain i where "take_one (pre @ canon b (VFloat f) @ post) (length pre) = Ok (i, Suc (length pre))" "drop_bit 5 i = 7"
    "dec_simple b (pre @ canon b (VFloat f) @ post) (i AND 31) (Suc (length pre)) =
      Ok (VFloat f, length pre + length (canon b (VFloat f)))"
    using dec_float_head [OF "4.prems"(4), of x "pre @ canon b (VFloat f) @ post" pre post] "4.prems"(1)
    by (auto simp: f)
  then show ?case
    using "4.prems"(2) by (simp add: dec_value.simps dec_inner.simps check_def del: canon.simps)
next
  case (5 b s)
  let ?h = "shortest_head 3 (unat (word_of_nat (length s) :: u64))"
  have pu: "pull_unsigned_documented b" using "5.prems"(4) by (simp add: cbor2_documented_def)
  obtain i where "take_one (pre @ ?h @ s @ post) (length pre) = Ok (i, Suc (length pre))" "drop_bit 5 i = 3"
    "dec_argument b (pre @ ?h @ s @ post) (i AND 31) (Suc (length pre)) = Ok (word_of_nat (length s), length pre + length ?h)"
    by (rule head_at [OF pu _ refl]) auto
  then show ?case
    using "5.prems"(1-3) dec_text_at [of "pre @ ?h" s post lim] l
    by (simp add: dec_value.simps dec_inner.simps check_def canon_string_def usize_limits_def)
next
  case (6 b s)
  let ?h = "shortest_head 2 (unat (word_of_nat (length s) :: u64))"
  have pu: "pull_unsigned_documented b" using "6.prems"(4) by (simp add: cbor2_documented_def)
  obtain i where "take_one (pre @ ?h @ s @ post) (length pre) = Ok (i, Suc (length pre))" "drop_bit 5 i = 2"
    "dec_argument b (pre @ ?h @ s @ post) (i AND 31) (Suc (length pre)) = Ok (word_of_nat (length s), length pre + length ?h)"
    by (rule head_at [OF pu _ refl]) auto
  then show ?case
    using "6.prems"(1-3) dec_payload_at [of "pre @ ?h" s post lim] l
    by (simp add: dec_value.simps dec_inner.simps check_def canon_string_def usize_limits_def)
next
  case (7 b vs)
  let ?h = "shortest_head 4 (unat (word_of_nat (length vs) :: u64))"
  have pu: "pull_unsigned_documented b" using "7.prems"(4) by (simp add: cbor2_documented_def)
  obtain i where "take_one (pre @ ?h @ canon_list b vs @ post) (length pre) = Ok (i, Suc (length pre))" "drop_bit 5 i = 4"
    "dec_argument b (pre @ ?h @ canon_list b vs @ post) (i AND 31) (Suc (length pre)) =
      Ok (word_of_nat (length vs), length pre + length ?h)"
    by (rule head_at [OF pu _ refl]) auto
  moreover have "dec_children lim (pre @ ?h @ canon_list b vs @ post) (word_of_nat (length vs)) d False (length pre + length ?h) =
      Ok (length vs, if vs = [] then d else Suc d)"
    using dec_children_at [of "pre @ ?h @ canon_list b vs @ post" lim "length pre + length ?h" False "length vs" d]
      "7.prems" l length_canon_list [of vs b] by (cases vs) (auto simp: max_def split: if_splits)
  moreover have "dec_items b lim ((pre @ ?h) @ canon_list b vs @ post) (length vs) (if vs = [] then d else Suc d)
      (length (pre @ ?h)) = Ok (vs, length (pre @ ?h) + length (canon_list b vs))"
    by (rule "7.IH") (use "7.prems" in auto)
  ultimately show ?case
    using "7.prems"(2) by (simp add: dec_value.simps dec_inner.simps check_def)
next
  case (8 b m)
  let ?h = "shortest_head 5 (unat (word_of_nat (length m) :: u64))"
  have pu: "pull_unsigned_documented b" using "8.prems"(4) by (simp add: cbor2_documented_def)
  obtain i where "take_one (pre @ ?h @ canon_entries b m @ post) (length pre) = Ok (i, Suc (length pre))" "drop_bit 5 i = 5"
    "dec_argument b (pre @ ?h @ canon_entries b m @ post) (i AND 31) (Suc (length pre)) =
      Ok (word_of_nat (length m), length pre + length ?h)"
    by (rule head_at [OF pu _ refl]) auto
  moreover have "dec_children lim (pre @ ?h @ canon_entries b m @ post) (word_of_nat (length m)) d True (length pre + length ?h) =
      Ok (length m, if m = [] then d else Suc d)"
    using dec_children_at [of "pre @ ?h @ canon_entries b m @ post" lim "length pre + length ?h" True "length m" d]
      "8.prems" l length_canon_entries [of m b] by (cases m) (auto simp: max_def split: if_splits)
  moreover have "dec_entries b lim ((pre @ ?h) @ canon_entries b m @ post) (length m) (if m = [] then d else Suc d)
      None (length (pre @ ?h)) = Ok (m, length (pre @ ?h) + length (canon_entries b m))"
    by (rule "8.IH") (use "8.prems" in auto)
  ultimately show ?case
    using "8.prems"(2) by (simp add: dec_value.simps dec_inner.simps check_def)
next
  case (10 b v vs)
  have "dec_value b lim (pre @ canon b v @ canon_list b vs @ post) d (length pre) =
      Ok (v, length pre + length (canon b v))"
    by (rule "10.IH"(1)) (use "10.prems" in auto)
  moreover have "dec_items b lim ((pre @ canon b v) @ canon_list b vs @ post) (length vs) d
      (length (pre @ canon b v)) = Ok (vs, length (pre @ canon b v) + length (canon_list b vs))"
    by (rule "10.IH"(2)) (use "10.prems" in auto)
  ultimately show ?case by simp
next
  case (12 b k v m)
  let ?k = "canon_string 3 k"
  have pu: "pull_unsigned_documented b" using "12.prems"(6) by (simp add: cbor2_documented_def)
  have mx: "max_document_bytes lim < usize_bound" using l by (simp add: usize_limits_def)
  have k: "dec_key b lim (pre @ ?k @ canon b v @ canon_entries b m @ post) d (length pre) =
      Ok (k, length pre + length ?k)"
    by (rule dec_key_at [OF pu mx refl]) (use "12.prems" in auto)
  have v: "dec_value b lim ((pre @ ?k) @ canon b v @ canon_entries b m @ post) d (length (pre @ ?k)) =
      Ok (v, length (pre @ ?k) + length (canon b v))"
    by (rule "12.IH"(1)) (use "12.prems" in auto)
  have len: "length (fst p) < usize_bound" if "p \<in> set ((k, v) # m)" for p
    using length_key_canon_entries [OF that, of b] "12.prems"(5) mx by simp
  have rest: "dec_entries b lim ((pre @ ?k @ canon b v) @ canon_entries b m @ post) (length m) d (Some ?k)
      (length (pre @ ?k @ canon b v)) = Ok (m, length (pre @ ?k @ canon b v) + length (canon_entries b m))"
  proof (rule "12.IH"(2))
    have "canon_key k < canon_key (fst p)" if "p \<in> set m" for p
      using "12.prems"(1) that by (simp add: map_canonical_Cons)
    then show "\<forall>p\<in>set m. case Some ?k of None \<Rightarrow> True | Some k \<Rightarrow> k < canon_string 3 (fst p)"
      using len len [of "(k, v)"] by (simp add: canon_string_less_iff)
  qed (use "12.prems" in \<open>auto simp: map_canonical_Cons\<close>)
  have "key_order prev ?k (length pre) = Ok ()"
    using "12.prems"(4) by (cases prev) (simp_all add: wide_key_order)
  with k v rest show ?case by (simp add: add.assoc Let_def)
qed simp_all

text \<open>The decoder panics on no input.\<close>

lemma take_bytes_Panic: "take_bytes inp n p = Panic \<longleftrightarrow> length inp < p"
  by (auto simp: take_bytes_def)

lemma take_one_Panic [simp]: "take_one inp p = Panic \<longleftrightarrow> length inp < p"
  by (auto simp: take_one_def attempt_eq_Panic take_bytes_Panic take_bytes_def split: list.splits if_splits)

lemma wide_argument_not_Panic:
  assumes "pull_unsigned_documented b" "(x, w) \<in> {(24, 1), (25, 2), (26, 4), (27, 8)}" "p \<le> length inp"
  shows "wide_argument b inp x w least p \<noteq> Panic"
proof
  assume a: "wide_argument b inp x w least p = Panic"
  show False
  proof (cases "take_bytes inp w p")
    case (Ok r)
    obtain bs q where r: "r = (bs, q)" by (cases r)
    have "length bs = w" using Ok by (simp add: r take_bytes_Ok)
    then have "pull_header b (char_of x # bs) = Some (HPositive (word_of_nat (be_value bs)), Suc w)"
      using assms(1,2) unfolding pull_unsigned_documented_def by blast
    with a Ok show False by (simp add: wide_argument_def r split: if_splits)
  qed (use a assms(3) in \<open>auto simp: wide_argument_def take_bytes_Panic\<close>)
qed

lemma dec_argument_not_Panic:
  assumes "pull_unsigned_documented b" "p \<le> length inp"
  shows "dec_argument b inp x p \<noteq> Panic"
  using assms wide_argument_not_Panic [OF assms(1) _ assms(2)] by (simp add: dec_argument_def)

lemma dec_length_not_Panic [simp]: "dec_length a k m \<noteq> Panic"
  by (auto simp: dec_length_def Let_def attempt_eq_Panic)

lemma dec_payload_not_Panic: "p \<le> length inp \<Longrightarrow> dec_payload lim inp a p \<noteq> Panic"
  by (auto simp: dec_payload_def attempt_eq_Panic take_bytes_Panic)

lemma dec_text_not_Panic: "p \<le> length inp \<Longrightarrow> dec_text lim inp a p \<noteq> Panic"
  using dec_payload_not_Panic [of p inp lim a]
  by (auto simp: dec_text_def attempt_eq_Panic split: option.splits)

lemma dec_children_not_Panic: "p \<le> length inp \<Longrightarrow> dec_children lim inp a d is_map p \<noteq> Panic"
  by (auto simp: dec_children_def attempt_eq_Panic)

lemma dec_key_not_Panic:
  assumes "pull_unsigned_documented b" "p \<le> length inp"
  shows "dec_key b lim inp d p \<noteq> Panic"
proof -
  have "dec_argument b inp x (Suc p) \<noteq> Panic" if "p < length inp" for x
    using that by (intro dec_argument_not_Panic [OF assms(1)]) simp
  moreover have "r \<le> length inp" if "dec_argument b inp (i AND 31) (Suc p) = Ok (a, r)" "p < length inp" for a r i
    using dec_argument_Ok [OF assms(1) that(1), of 3] that(2) by (simp add: and_31_head)
  ultimately show ?thesis
    using assms(2) by (auto simp: dec_key_def attempt_eq_Panic take_one_Ok dec_text_not_Panic)
qed

lemma dec_float_not_Panic [simp]: "dec_float b x w p \<noteq> Panic"
  by (auto simp: dec_float_def attempt_eq_Panic finite_float_new_def)

lemma dec_simple_not_Panic:
  assumes b: "cbor2_documented b" and p: "p < length inp"
    and major: "drop_bit 5 (of_char (inp ! p) :: nat) = 7"
  shows "dec_simple b inp ((of_char (inp ! p) :: nat) AND 31) (Suc p) \<noteq> Panic"
proof -
  define x where "x = (of_char (inp ! p) :: nat) AND 31"
  have drop: "drop p inp = char_of (224 + x) # drop (Suc p) inp"
    using p byte_split [of "inp ! p"] major Cons_nth_drop_Suc by (fastforce simp: x_def)
  have pull: "pull_float_documented b" using b by (simp add: cbor2_documented_def)
  have three: "25 \<le> x \<Longrightarrow> x \<le> 27 \<Longrightarrow> x = 25 \<or> x = 26 \<or> x = 27" by linarith
  have "dec_simple b inp x (Suc p) \<noteq> Panic"
  proof (cases "25 \<le> x \<and> x \<le> 27")
    case True
    note pulls = pull [unfolded pull_float_documented_def, rule_format]
    show ?thesis
      using three True conjunct1 [OF pulls] conjunct1 [OF conjunct2 [OF pulls]] conjunct2 [OF conjunct2 [OF pulls]]
      by (auto simp: dec_simple_def drop split: if_split_asm)
  next
    case False
    then show ?thesis using p by (auto simp: dec_simple_def attempt_eq_Panic split: if_splits)
  qed
  then show ?thesis by (simp add: x_def)
qed

lemma dec_not_Panic:
  assumes bk: "cbor2_documented b" and l: "usize_limits lim"
  shows "pos \<le> length inp \<Longrightarrow> dec_value b lim inp d pos \<noteq> Panic"
    and "pos \<le> length inp \<Longrightarrow> dec_inner b lim inp d pos \<noteq> Panic"
    and "pos \<le> length inp \<Longrightarrow> dec_items b lim inp n cd pos \<noteq> Panic"
    and "pos \<le> length inp \<Longrightarrow> dec_entries b lim inp n cd prev pos \<noteq> Panic"
  using bk l
proof (induction b lim inp d pos and b lim inp d pos and b lim inp n cd pos and b lim inp n cd prev pos
    rule: dec_value_dec_inner_dec_items_dec_entries.induct)
  case (1 b lim inp depth pos)
  then show ?case by (simp add: dec_value.simps)
next
  case (2 b lim inp d pos)
  have pu: "pull_unsigned_documented b" using "2.prems"(2) by (simp add: cbor2_documented_def)
  let ?i = "of_char (inp ! pos) :: nat"
  show ?case
  proof (cases "d \<le> max_depth lim \<and> pos < length inp")
    case False
    then show ?thesis
      using "2.prems"(1) by (auto simp: dec_inner.simps attempt_eq_Panic take_one_Ok)
  next
    case True
    have t: "take_one inp pos = Ok (?i, Suc pos)" and c: "check d (max_depth lim) Depth = Ok ()"
      using True by (simp_all add: take_one_Ok)
    have i8: "drop_bit 5 ?i < 8"
      using of_char_less_256 [of "inp ! pos"] by (simp add: drop_bit_eq_div less_mult_imp_div_less)
    have arg: "dec_argument b inp (?i AND 31) (Suc pos) \<noteq> Panic"
      using True by (intro dec_argument_not_Panic [OF pu]) simp
    have r: "r \<le> length inp" if "dec_argument b inp (?i AND 31) (Suc pos) = Ok (a, r)" for a r
      using dec_argument_Ok [OF pu that, of 3] True by (simp add: and_31_head)
    show ?thesis
    proof (cases "dec_argument b inp (?i AND 31) (Suc pos)")
      case (Ok ar)
      obtain a r where ar: "ar = (a, r)" by (cases ar)
      note Ok' = Ok [unfolded ar]
      have rl: "r \<le> length inp" using r Ok ar by simp
      have items: "dec_items b lim inp n cd r \<noteq> Panic"
        if "drop_bit 5 ?i = 4" "dec_children lim inp a d False r = Ok (n, cd)" for n cd
        by (rule "2.IH"(1) [OF _ t refl refl refl _ _ Ok' refl _ _ _ _ that(2) refl rl "2.prems"(2,3)])
          (use True that in simp_all)
      have entries: "dec_entries b lim inp n cd None r \<noteq> Panic"
        if "drop_bit 5 ?i = 5" "dec_children lim inp a d True r = Ok (n, cd)" for n cd
        by (rule "2.IH"(2) [OF _ t refl refl refl _ _ Ok' refl _ _ _ _ _ that(2) refl rl "2.prems"(2,3)])
          (use True that in simp_all)
      have pl: "dec_payload lim inp a r \<noteq> Panic" "dec_text lim inp a r \<noteq> Panic"
        "dec_children lim inp a d k r \<noteq> Panic" for k
        using rl by (simp_all add: dec_payload_not_Panic dec_text_not_Panic dec_children_not_Panic)
      have simple: "dec_simple b inp (?i AND 31) (Suc pos) \<noteq> Panic" if "drop_bit 5 ?i = 7"
        using dec_simple_not_Panic [OF "2.prems"(2) _ that] True by simp
      have "drop_bit 5 ?i \<in> {0, 1, 2, 3, 4, 5, 6, 7}" using i8 by auto
      then show ?thesis
        using items entries pl simple unfolding dec_inner.simps t c Let_def
        by (auto simp: Ok' attempt_eq_Panic)
    qed (use True arg dec_simple_not_Panic [OF "2.prems"(2)] in
        \<open>auto simp: dec_inner.simps t Let_def check_def\<close>)
  qed
next
  case (4 b lim inp n cd pos)
  show ?case
  proof (cases "dec_value b lim inp cd pos")
    case (Ok r)
    obtain v p where r: "r = (v, p)" by (cases r)
    have p: "p \<le> length inp" using dec_sound(1) [OF "4.prems"(2,3)] Ok r by blast
    show ?thesis using "4.IH"(2) [OF Ok [unfolded r] refl p "4.prems"(2,3)] Ok r by (auto simp: attempt_eq_Panic)
  qed (use "4.IH"(1) [OF "4.prems"] in auto)
next
  case (6 b lim inp n cd prev pos)
  have pu: "pull_unsigned_documented b" using "6.prems"(2) by (simp add: cbor2_documented_def)
  show ?case
  proof (cases "map_err (at_offset pos) (dec_key b lim inp cd pos)")
    case (Ok r)
    obtain k p where r: "r = (k, p)" by (cases r)
    have p: "p \<le> length inp" using dec_key_Ok [OF pu] Ok r by fastforce
    show ?thesis
    proof (cases "key_order prev (take (p - pos) (drop pos inp)) pos")
      case o: (Ok u)
      show ?thesis
      proof (cases "dec_value b lim inp cd p")
        case v: (Ok w)
        obtain x q where w: "w = (x, q)" by (cases w)
        have q: "q \<le> length inp" using dec_sound(1) [OF "6.prems"(2,3)] v w by blast
        show ?thesis
          using "6.IH"(2) [OF Ok [unfolded r] refl refl o v [unfolded w] refl q "6.prems"(2,3)] Ok r o v w
          by (auto simp: attempt_eq_Panic)
      qed (use "6.IH"(1) [OF Ok [unfolded r] refl refl o p "6.prems"(2,3)] Ok r o in auto)
    qed (use Ok r in auto)
  qed (use dec_key_not_Panic [OF pu "6.prems"(1)] in auto)
qed simp_all
end
