(* ===== verification/Floats.thy ===== *)
theory Floats
  imports Cbor_Model
begin

text \<open>
  IEEE 754 conversions on bit patterns: exact widening of binary16 and binary32 to
  binary64 (\<open>f64::from(f32)\<close>), its inverse on the numbers that fit, and the
  rounding cast \<open>f64 as f32\<close> of the language, to nearest with ties to even.
\<close>

section \<open>Floats by their fields\<close>

text \<open>Sign, exponent field and mantissa of a float of \<open>eb\<close> and \<open>mb\<close> bits.\<close>

definition pack :: "nat \<Rightarrow> nat \<Rightarrow> nat \<times> nat \<times> nat \<Rightarrow> nat" where
  "pack eb mb = (\<lambda>(s, e, m). s * 2 ^ (eb + mb) + e * 2 ^ mb + m)"

definition unpack :: "nat \<Rightarrow> nat \<Rightarrow> nat \<Rightarrow> nat \<times> nat \<times> nat" where
  "unpack eb mb n = (n div 2 ^ (eb + mb), n div 2 ^ mb mod 2 ^ eb, n mod 2 ^ mb)"

fun top_bit :: "nat \<Rightarrow> nat" where
  "top_bit n = (if n \<le> 1 then 0 else Suc (top_bit (n div 2)))"

declare top_bit.simps [simp del]

definition bias :: "nat \<Rightarrow> nat" where
  "bias eb = 2 ^ (eb - 1) - 1"

text \<open>Fields of the binary64 with the value of a narrow float; subnormals are normalised.\<close>

definition widen :: "nat \<Rightarrow> nat \<Rightarrow> nat \<times> nat \<times> nat \<Rightarrow> nat \<times> nat \<times> nat" where
  "widen eb mb = (\<lambda>(s, e, m).
     if e = 2 ^ eb - 1 then (s, 2047, m * 2 ^ (52 - mb))
     else if e > 0 then (s, e + 1023 - bias eb, m * 2 ^ (52 - mb))
     else if m = 0 then (s, 0, 0)
     else (s, top_bit m + 1024 - bias eb - mb, (m - 2 ^ top_bit m) * 2 ^ (52 - top_bit m)))"

text \<open>The fields that widening could have come from.\<close>

definition narrow :: "nat \<Rightarrow> nat \<Rightarrow> nat \<times> nat \<times> nat \<Rightarrow> nat \<times> nat \<times> nat" where
  "narrow eb mb = (\<lambda>(s, e, m).
     if e = 0 then (s, 0, 0)
     else if e + bias eb > 1023 then
       (s, (e + bias eb - 1023) mod 2 ^ eb, m div 2 ^ (52 - mb))
     else (s, 0, (2 ^ 52 + m) div 2 ^ (52 - mb + 1024 - bias eb - e) mod 2 ^ mb))"

lemma top_bit_bounds: "0 < n \<Longrightarrow> 2 ^ top_bit n \<le> n \<and> n < 2 * 2 ^ top_bit n"
proof (induction n rule: top_bit.induct)
  case (1 n)
  show ?case
  proof (cases "n \<le> 1")
    case False
    then have "2 ^ top_bit (n div 2) \<le> n div 2 \<and> n div 2 < 2 * 2 ^ top_bit (n div 2)"
      using 1 by simp
    then show ?thesis using False by (simp add: top_bit.simps [of n]) linarith
  qed (use "1.prems" in \<open>simp add: top_bit.simps\<close>)
qed

lemma top_bit_less: "0 < n \<Longrightarrow> n < 2 ^ k \<Longrightarrow> top_bit n < k"
  using top_bit_bounds [of n] by (metis le_less_trans nat_power_less_imp_less zero_less_numeral)

text \<open>The two narrow formats satisfy these bounds; \<open>bias\<close> is 15 and 127.\<close>

definition narrow_format :: "nat \<Rightarrow> nat \<Rightarrow> bool" where
  "narrow_format eb mb \<longleftrightarrow> 1 < eb \<and> 0 < mb \<and> mb < 52 \<and> bias eb + mb < 1023 \<and> 2 ^ eb = 2 * bias eb + 2"

lemma narrow_widen:
  assumes f: "narrow_format eb mb" and e: "e < 2 ^ eb - 1" and m: "m < 2 ^ mb"
  shows "narrow eb mb (widen eb mb (s, e, m)) = (s, e, m)"
proof -
  have F: "mb < 52" "0 < mb" "bias eb + mb < 1023" "2 ^ eb = 2 * bias eb + 2"
    using f by (auto simp: narrow_format_def)
  consider "0 < e" | "e = 0" "m = 0" | "e = 0" "0 < m" by linarith
  then show ?thesis
  proof cases
    case 1
    then show ?thesis using e F by (simp add: widen_def narrow_def)
  next
    case 2
    then show ?thesis using e by (simp add: widen_def narrow_def)
  next
    case 3
    define k where "k = top_bit m"
    have k: "k < mb" "2 ^ k \<le> m" using top_bit_less [OF 3(2) m] top_bit_bounds [OF 3(2)] by (auto simp: k_def)
    define E where "E = k + 1024 - bias eb - mb"
    have E: "E + bias eb + mb = k + 1024" using F by (simp add: E_def)
    have w: "widen eb mb (s, e, m) = (s, E, (m - 2 ^ k) * 2 ^ (52 - k))"
      using 3 e by (simp add: widen_def k_def E_def)
    have p: "(2::nat) ^ 52 = 2 ^ k * 2 ^ (52 - k)"
      using k F by (simp flip: power_add)
    have "2 ^ 52 + (m - 2 ^ k) * 2 ^ (52 - k) = m * 2 ^ (52 - k)"
      unfolding p using k by (simp flip: distrib_right)
    moreover have "52 - mb + 1024 - bias eb - E = 52 - k" "E \<noteq> 0" "\<not> E + bias eb > 1023"
      using E k F by linarith+
    moreover have "(m * 2 ^ (52 - k)) div 2 ^ (52 - k) = m" by simp
    ultimately show ?thesis
      using m 3 unfolding w narrow_def by simp
  qed
qed

lemma widen_infinite: "widen eb mb (s, 2 ^ eb - 1, m) = (s, 2047, m * 2 ^ (52 - mb))"
  by (simp add: widen_def)

lemma unpack_bounds:
  assumes "unpack eb mb n = (s, e, m)" "n < 2 ^ (1 + eb + mb)"
  shows "s < 2" "e < 2 ^ eb" "m < 2 ^ mb"
  using assms by (auto simp: unpack_def power_add less_mult_imp_div_less)

lemma pack_unpack: "pack eb mb (unpack eb mb n) = n"
proof -
  have "n div 2 ^ (eb + mb) = n div 2 ^ mb div 2 ^ eb"
    by (simp add: div_mult2_eq [symmetric] power_add mult.commute)
  then have "n div 2 ^ (eb + mb) * 2 ^ eb + n div 2 ^ mb mod 2 ^ eb = n div 2 ^ mb"
    by (simp only: div_mult_mod_eq)
  then have "(n div 2 ^ (eb + mb) * 2 ^ eb + n div 2 ^ mb mod 2 ^ eb) * 2 ^ mb + n mod 2 ^ mb = n"
    by (simp only: div_mult_mod_eq)
  then show ?thesis
    by (simp add: pack_def unpack_def power_add algebra_simps)
qed

lemma unpack_pack:
  assumes "e < 2 ^ eb" "m < 2 ^ mb"
  shows "unpack eb mb (pack eb mb (s, e, m)) = (s, e, m)"
proof -
  let ?n = "pack eb mb (s, e, m)"
  have n: "?n = (s * 2 ^ eb + e) * 2 ^ mb + m"
    by (simp add: pack_def power_add algebra_simps)
  have d: "?n div 2 ^ mb = s * 2 ^ eb + e" and r: "?n mod 2 ^ mb = m"
    using assms(2) by (simp_all add: n)
  have "?n div 2 ^ (eb + mb) = ?n div 2 ^ mb div 2 ^ eb"
    by (simp add: div_mult2_eq [symmetric] power_add mult.commute)
  then show ?thesis using assms(1) by (simp add: unpack_def d r)
qed

lemma widen_bounds:
  assumes f: "narrow_format eb mb" and e: "e < 2 ^ eb" and m: "m < 2 ^ mb"
    and w: "widen eb mb (s, e, m) = (s', e', m')"
  shows "s' = s" "e' < 2 ^ 11" "m' < 2 ^ 52" "e = 2 ^ eb - 1 \<Longrightarrow> e' = 2047"
proof -
  have F: "mb < 52" "0 < mb" "bias eb + mb < 1023" "2 ^ eb = 2 * bias eb + 2"
    using f by (auto simp: narrow_format_def)
  show "s' = s" "e = 2 ^ eb - 1 \<Longrightarrow> e' = 2047" using w by (auto simp: widen_def split: if_splits)
  have "top_bit m < mb" if "0 < m" using top_bit_less [OF that m] .
  then show "e' < 2 ^ 11" using w e F by (auto simp: widen_def split: if_splits)
  have "m * 2 ^ (52 - mb) < 2 ^ mb * 2 ^ (52 - mb)" using m by simp
  also have "(2::nat) ^ mb * 2 ^ (52 - mb) = 2 ^ 52" using F by (simp flip: power_add)
  finally have a: "m * 2 ^ (52 - mb) < 2 ^ 52" .
  have b: "(m - 2 ^ top_bit m) * 2 ^ (52 - top_bit m) < 2 ^ 52" if "0 < m"
  proof -
    have t: "top_bit m < mb" "m - 2 ^ top_bit m < 2 ^ top_bit m"
      using top_bit_less [OF that m] top_bit_bounds [OF that] by auto
    then have "(m - 2 ^ top_bit m) * 2 ^ (52 - top_bit m) < 2 ^ top_bit m * 2 ^ (52 - top_bit m)"
      by simp
    also have "(2::nat) ^ top_bit m * 2 ^ (52 - top_bit m) = 2 ^ 52" using F t by (simp flip: power_add)
    finally show ?thesis .
  qed
  show "m' < 2 ^ 52" using w a b by (auto simp: widen_def split: if_splits)
qed

lemma pack_less: "s < 2 \<Longrightarrow> e < 2 ^ eb \<Longrightarrow> m < 2 ^ mb \<Longrightarrow> pack eb mb (s, e, m) < 2 ^ (1 + eb + mb)"
proof -
  assume a: "s < 2" "e < 2 ^ eb" "m < 2 ^ mb"
  have "e * 2 ^ mb + m < (e + 1) * 2 ^ mb" using a(3) by simp
  also have "\<dots> \<le> 2 ^ eb * 2 ^ mb" using a(2) by (intro mult_le_mono1) simp
  finally have "e * 2 ^ mb + m < 2 ^ (eb + mb)" by (simp add: power_add)
  moreover have "s = 0 \<or> s = 1" using a(1) by linarith
  ultimately show ?thesis by (auto simp: pack_def power_add)
qed

section \<open>The conversions on bit patterns\<close>

definition widen_bits :: "nat \<Rightarrow> nat \<Rightarrow> nat \<Rightarrow> f64" where
  "widen_bits eb mb n = word_of_nat (pack 11 52 (widen eb mb (unpack eb mb n)))"

definition narrow_bits :: "nat \<Rightarrow> nat \<Rightarrow> f64 \<Rightarrow> nat" where
  "narrow_bits eb mb x = pack eb mb (narrow eb mb (unpack 11 52 (unat x)))"

lemma f64_exponent_unpack: "f64_exponent x = fst (snd (unpack 11 52 (unat x)))"
proof -
  have "f64_exponent x = take_bit 11 (drop_bit 52 (unat x))"
    unfolding f64_exponent_def by (simp only: unsigned_take_bit_eq unat_drop_bit_eq)
  then show ?thesis by (simp add: unpack_def take_bit_eq_mod drop_bit_eq_div)
qed

lemma narrow_widen_bits:
  assumes f: "narrow_format eb mb" and n: "n < 2 ^ (1 + eb + mb)" and fin: "f64_is_finite (widen_bits eb mb n)"
  shows "narrow_bits eb mb (widen_bits eb mb n) = n"
proof -
  obtain s e m where u: "unpack eb mb n = (s, e, m)" by (cases "unpack eb mb n")
  obtain s' e' m' where w: "widen eb mb (s, e, m) = (s', e', m')" by (cases "widen eb mb (s, e, m)")
  note b = unpack_bounds [OF u n]
  note wb = widen_bounds [OF f b(2,3) w]
  have "s' < 2" using wb(1) b(1) by simp
  from pack_less [OF this wb(2,3)] have "pack 11 52 (s', e', m') < 2 ^ 64" by simp
  then have x: "unpack 11 52 (unat (widen_bits eb mb n)) = (s', e', m')"
    using wb by (simp add: widen_bits_def u w unpack_pack)
  then have "e' \<noteq> 2047" using fin by (simp add: f64_is_finite_def f64_exponent_unpack)
  then have e: "e < 2 ^ eb - 1" using wb(4) b(2) by linarith
  show ?thesis
    using narrow_widen [OF f e b(3), of s] pack_unpack [of eb mb n] by (simp add: narrow_bits_def x u w)
qed

definition f64_from_f32 :: "32 word \<Rightarrow> f64" where
  "f64_from_f32 h = widen_bits 8 23 (unat h)"

text \<open>\<open>x as f32\<close>: the significand shifted into place and rounded; a carry out of the
  mantissa moves to the exponent, and an exponent past the largest gives infinity.\<close>

definition round_shift :: "nat \<Rightarrow> nat \<Rightarrow> nat" where
  "round_shift n k =
     (let q = n div 2 ^ k; r = 2 * (n mod 2 ^ k) in
      if r > 2 ^ k \<or> (r = 2 ^ k \<and> odd q) then q + 1 else q)"

definition f64_as_f32 :: "f64 \<Rightarrow> 32 word" where
  "f64_as_f32 x =
     (let (s, e, m) = unpack 11 52 (unat x);
          magnitude =
            (if e = 2047 then 255 * 2 ^ 23 + m div 2 ^ 29
             else if e = 0 then 0
             else if e > 896 then (e - 897) * 2 ^ 23 + round_shift (2 ^ 52 + m) 29
             else round_shift (2 ^ 52 + m) (926 - e))
      in word_of_nat (s * 2 ^ 31 + (if e < 2047 then min magnitude (255 * 2 ^ 23) else magnitude)))"

lemma round_shift_exact: "round_shift (q * 2 ^ k) k = q"
  by (simp add: round_shift_def)

lemma unpack_widen_bits:
  assumes f: "narrow_format eb mb" and n: "n < 2 ^ (1 + eb + mb)" and u: "unpack eb mb n = (s, e, m)"
  shows "unpack 11 52 (unat (widen_bits eb mb n)) = widen eb mb (s, e, m)"
proof -
  obtain s' e' m' where w: "widen eb mb (s, e, m) = (s', e', m')" by (cases "widen eb mb (s, e, m)")
  note b = unpack_bounds [OF u n]
  note wb = widen_bounds [OF f b(2,3) w]
  have "s' < 2" using wb(1) b(1) by simp
  from pack_less [OF this wb(2,3)] have "pack 11 52 (s', e', m') < 2 ^ 64" by simp
  then show ?thesis using wb by (simp add: widen_bits_def u w unpack_pack)
qed

lemma narrow_format_8_23: "narrow_format 8 23"
  by (simp add: narrow_format_def bias_def)

lemma f64_as_f32_exact:
  assumes fin: "f64_is_finite (f64_from_f32 h)"
  shows "f64_as_f32 (f64_from_f32 h) = h"
proof -
  have n: "unat h < 2 ^ (1 + 8 + 23)" using unsigned_less [of h] by simp
  obtain s e m where u: "unpack 8 23 (unat h) = (s, e, m)" by (cases "unpack 8 23 (unat h)")
  note b = unpack_bounds [OF u n]
  note U = unpack_widen_bits [OF narrow_format_8_23 n u, folded f64_from_f32_def]
  obtain s' e' m' where w: "widen 8 23 (s, e, m) = (s', e', m')" by (cases "widen 8 23 (s, e, m)")
  have "e' \<noteq> 2047" using fin by (simp add: f64_is_finite_def f64_exponent_unpack U w)
  with widen_bounds [OF narrow_format_8_23 b(2,3) w] have e: "e < 255"
    using b(2) by (cases "e = 255") auto
  have p: "s * 2 ^ 31 + e * 2 ^ 23 + m = unat h"
    using pack_unpack [of 8 23 "unat h"] by (simp add: u pack_def)
  consider "0 < e" | "e = 0" "m = 0" | "e = 0" "0 < m" by linarith
  then show ?thesis
  proof cases
    case 1
    have "2 ^ 52 + m * 2 ^ 29 = (2 ^ 23 + m) * 2 ^ (29::nat)" by simp
    then have "round_shift (2 ^ 52 + m * 2 ^ 29) 29 = 2 ^ 23 + m" by (metis round_shift_exact)
    moreover have "(e - 1) * 2 ^ 23 + (2 ^ 23 + m) = e * 2 ^ 23 + m" using 1 by (cases e) simp_all
    moreover have "e * 2 ^ 23 + m < 255 * 2 ^ 23"
    proof -
      have "e * 2 ^ 23 \<le> 254 * 2 ^ 23" using e by (intro mult_le_mono1) simp
      with b(3) show ?thesis by simp
    qed
    moreover have "widen 8 23 (s, e, m) = (s, e + 896, m * 2 ^ 29)"
      using 1 e by (simp add: widen_def bias_def)
    ultimately have "f64_as_f32 (f64_from_f32 h) = word_of_nat (s * 2 ^ 31 + (e * 2 ^ 23 + m))"
      using e 1 unfolding f64_as_f32_def U by (simp add: Let_def)
    then show ?thesis unfolding add.assoc [symmetric] p by simp
  next
    case 2
    then have "f64_as_f32 (f64_from_f32 h) = word_of_nat (s * 2 ^ 31 + e * 2 ^ 23 + m)"
      unfolding f64_as_f32_def U by (simp add: widen_def)
    then show ?thesis unfolding p by simp
  next
    case 3
    define k where "k = top_bit m"
    have k: "k < 23" "2 ^ k \<le> m" using top_bit_less [OF 3(2) b(3)] top_bit_bounds [OF 3(2)] by (auto simp: k_def)
    have wk: "widen 8 23 (s, e, m) = (s, k + 874, (m - 2 ^ k) * 2 ^ (52 - k))"
      using 3 k by (simp add: widen_def bias_def flip: k_def)
    have p52: "(2::nat) ^ 52 = 2 ^ k * 2 ^ (52 - k)" using k by (simp flip: power_add)
    have "2 ^ 52 + (m - 2 ^ k) * 2 ^ (52 - k) = m * 2 ^ (52 - k)"
      unfolding p52 using k by (simp flip: distrib_right)
    then have "round_shift (2 ^ 52 + (m - 2 ^ k) * 2 ^ (52 - k)) (52 - k) = m"
      by (simp only: round_shift_exact)
    moreover have "926 - (k + 874) = 52 - k" by simp
    ultimately have "f64_as_f32 (f64_from_f32 h) = word_of_nat (s * 2 ^ 31 + e * 2 ^ 23 + m)"
      using k b(3) 3 unfolding f64_as_f32_def U wk by (simp add: Let_def)
    then show ?thesis unfolding p by simp
  qed
qed

lemma f64_as_f32_iff:
  "f64_is_finite x \<Longrightarrow> f64_from_f32 (f64_as_f32 x) = x \<longleftrightarrow> (\<exists>h. f64_from_f32 h = x)"
  using f64_as_f32_exact by metis

end
