(* ===== verification/Cbor_Reference.thy ===== *)
theory Cbor_Reference
  imports Cbor_Codec Floats
begin

text \<open>
  A reference instance of the \<open>cbor2\<close> parameter: IEEE 754 widening and lossless
  narrowing between binary16, binary32 and binary64 on bit patterns, and the headers of
  RFC 8949. \<open>reference_documented\<close> shows that it has the documented behaviour, so the
  codec's properties are about something that exists; the witnesses run on it.
\<close>

definition ref_f16_to_f64 :: "16 word \<Rightarrow> f64" where
  "ref_f16_to_f64 h = widen_bits 5 10 (unat h)"

definition ref_f32_to_f64 :: "32 word \<Rightarrow> f64" where
  "ref_f32_to_f64 h = widen_bits 8 23 (unat h)"

definition ref_f64_to_f16 :: "f64 \<Rightarrow> 16 word option" where
  "ref_f64_to_f16 x = (let h = word_of_nat (narrow_bits 5 10 x) in if ref_f16_to_f64 h = x then Some h else None)"

definition ref_f64_to_f32 :: "f64 \<Rightarrow> 32 word option" where
  "ref_f64_to_f32 x = (let h = word_of_nat (narrow_bits 8 23 x) in if ref_f32_to_f64 h = x then Some h else None)"

lemma ref_f64_to_f16: "f64_is_finite x \<Longrightarrow> ref_f64_to_f16 x = Some h \<longleftrightarrow> ref_f16_to_f64 h = x"
proof -
  assume fin: "f64_is_finite x"
  have "narrow_format 5 10" by (simp add: narrow_format_def bias_def)
  moreover have "unat h < 2 ^ (1 + 5 + 10)" using unsigned_less [of h] by simp
  ultimately have "word_of_nat (narrow_bits 5 10 x) = h" if "ref_f16_to_f64 h = x"
    using narrow_widen_bits [of 5 10 "unat h"] fin that by (auto simp: ref_f16_to_f64_def)
  then show ?thesis by (auto simp: ref_f64_to_f16_def Let_def)
qed

lemma ref_f64_to_f32: "f64_is_finite x \<Longrightarrow> ref_f64_to_f32 x = Some h \<longleftrightarrow> ref_f32_to_f64 h = x"
proof -
  assume fin: "f64_is_finite x"
  have "narrow_format 8 23" by (simp add: narrow_format_def bias_def)
  moreover have "unat h < 2 ^ (1 + 8 + 23)" using unsigned_less [of h] by simp
  ultimately have "word_of_nat (narrow_bits 8 23 x) = h" if "ref_f32_to_f64 h = x"
    using narrow_widen_bits [of 8 23 "unat h"] fin that by (auto simp: ref_f32_to_f64_def)
  then show ?thesis by (auto simp: ref_f64_to_f32_def Let_def)
qed

section \<open>Headers\<close>

definition ref_push :: "header \<Rightarrow> bytes" where
  "ref_push h =
     (case h of
        HPositive n \<Rightarrow> shortest_head 0 (unat n)
      | HNegative n \<Rightarrow> shortest_head 1 (unat n)
      | HSimple s \<Rightarrow> if s < 24 then [char_of (0xE0 + s)] else [char_of (0xF8::nat), char_of s]
      | HFloat x \<Rightarrow>
          (case ref_f64_to_f16 x of
             Some h \<Rightarrow> char_of (0xF9::nat) # be_bytes 2 (unat h)
           | None \<Rightarrow>
               (case ref_f64_to_f32 x of
                  Some s \<Rightarrow> char_of (0xFA::nat) # be_bytes 4 (unat s)
                | None \<Rightarrow> char_of (0xFB::nat) # be_bytes 8 (unat x)))
      | HOther \<Rightarrow> [])"

definition payload :: "bytes \<Rightarrow> nat \<Rightarrow> (nat \<Rightarrow> header) \<Rightarrow> (header \<times> nat) option" where
  "payload bs w f = (if length bs < w then None else Some (f (be_value (take w bs)), Suc w))"

definition ref_pull :: "bytes \<Rightarrow> (header \<times> nat) option" where
  "ref_pull inp =
     (case inp of
        [] \<Rightarrow> None
      | c # bs \<Rightarrow>
          (let a = of_char c :: nat in
           if a < 24 then Some (HPositive (word_of_nat a), 1)
           else if a = 24 then payload bs 1 (\<lambda>n. HPositive (word_of_nat n))
           else if a = 25 then payload bs 2 (\<lambda>n. HPositive (word_of_nat n))
           else if a = 26 then payload bs 4 (\<lambda>n. HPositive (word_of_nat n))
           else if a = 27 then payload bs 8 (\<lambda>n. HPositive (word_of_nat n))
           else if a = 0xF9 then payload bs 2 (\<lambda>n. HFloat (ref_f16_to_f64 (word_of_nat n)))
           else if a = 0xFA then payload bs 4 (\<lambda>n. HFloat (ref_f32_to_f64 (word_of_nat n)))
           else if a = 0xFB then payload bs 8 (\<lambda>n. HFloat (word_of_nat n))
           else Some (HOther, 1)))"

definition reference :: cbor2 where
  "reference = \<lparr>push_header = ref_push, pull_header = ref_pull,
     f64_to_f16 = ref_f64_to_f16, f64_to_f32 = ref_f64_to_f32,
     f16_to_f64 = ref_f16_to_f64, f32_to_f64 = ref_f32_to_f64\<rparr>"

lemma reference_documented [simp]: "cbor2_documented reference"
proof -
  have "push_documented reference"
    by (simp add: push_documented_def reference_def ref_push_def float_head_def split: option.split)
  moreover have "pull_unsigned_documented reference"
    by (simp add: pull_unsigned_documented_def reference_def ref_pull_def payload_def)
  moreover have "pull_float_documented reference"
    by (simp add: pull_float_documented_def reference_def ref_pull_def payload_def)
  moreover have "narrowing_documented reference"
    by (simp add: narrowing_documented_def reference_def ref_f64_to_f16 ref_f64_to_f32)
  ultimately show ?thesis by (simp add: cbor2_documented_def)
qed

end
