(* ===== verification/Cbor_Properties.thy ===== *)
theory Cbor_Properties
  imports Cbor_Reference
begin

text \<open>
  The properties of the CBOR codec: refinement of the canonical form, the two round
  trips, totality, and the map operations. Each witness runs on the reference backend.
\<close>

section \<open>The public functions\<close>

lemma encode_Ok_iff:
  assumes "push_documented b" "usize_limits lim" "finite_floats v"
  shows "encode b lim v = Ok bs \<longleftrightarrow> max_depth lim \<le> max_supported_depth \<and> bs = canon b v \<and>
    vdepth v \<le> max_depth lim \<and> length bs \<le> max_document_bytes lim"
  using enc_Ok_iff(1) [OF assms(1,2,3), of 0 "[]" bs] by (auto simp: encode_def max_supported_depth_def)

lemma wf_value_finite_floats: "wf_value v \<Longrightarrow> finite_floats v"
  by (induction v rule: wf_value.induct) (auto simp: wf_float_def)

lemma decode_Ok_sound:
  assumes bk: "cbor2_documented b" and l: "usize_limits lim" and ok: "decode b lim bs = Ok v"
  shows "max_depth lim \<le> max_supported_depth \<and> bs = canon b v \<and> wf_value v \<and>
    vdepth v \<le> max_depth lim \<and> length bs \<le> max_document_bytes lim"
proof -
  have d: "dec_value b lim bs 0 0 = Ok (v, length bs)" and m: "max_depth lim \<le> max_supported_depth"
    "length bs \<le> max_document_bytes lim"
    using ok by (auto simp: decode_def max_supported_depth_def split: if_splits)
  show ?thesis using dec_sound(1) [OF bk l d] m by simp
qed

lemma decode_canon:
  assumes bk: "cbor2_documented b" and l: "usize_limits lim" and "wf_value v"
    and "max_depth lim \<le> max_supported_depth" "vdepth v \<le> max_depth lim"
    and "length (canon b v) \<le> max_document_bytes lim"
  shows "decode b lim (canon b v) = Ok v"
  using dec_complete(1) [OF bk l assms(3), of 0 "[]" "[]"] assms(4-6)
  by (simp add: decode_def check_def limits_validate_def)

lemma decode_of_encode:
  assumes "cbor2_documented b" "usize_limits lim" "wf_value v" "encode b lim v = Ok bs"
  shows "decode b lim bs = Ok v"
proof -
  have "push_documented b" using assms(1) by (simp add: cbor2_documented_def)
  then show ?thesis
    using assms decode_canon [OF assms(1-3)] wf_value_finite_floats [OF assms(3)]
    by (auto simp: encode_Ok_iff)
qed

lemma encode_of_decode:
  assumes "cbor2_documented b" "usize_limits lim" "decode b lim bs = Ok v"
  shows "wf_value v \<and> encode b lim v = Ok bs"
proof -
  have "push_documented b" using assms(1) by (simp add: cbor2_documented_def)
  then show ?thesis
    using decode_Ok_sound [OF assms] wf_value_finite_floats [of v] by (auto simp: encode_Ok_iff assms(2))
qed

lemma canon_inject:
  assumes bk: "cbor2_documented b" and "wf_value v" "wf_value w" "canon b v = canon b w"
    and "vdepth v \<le> max_supported_depth" "vdepth w \<le> max_supported_depth"
    and "length (canon b v) < usize_bound"
  shows "v = w"
proof -
  let ?l = "\<lparr>max_document_bytes = length (canon b v), max_depth = max_supported_depth\<rparr>"
  have l: "usize_limits ?l"
    using assms(7) by (simp add: usize_limits_def max_supported_depth_def usize_bound_def)
  have "decode b ?l (canon b v) = Ok v" "decode b ?l (canon b v) = Ok w"
    using decode_canon [OF bk l assms(2)] decode_canon [OF bk l assms(3)] assms(4-6) by simp_all
  then show ?thesis by simp
qed

lemma fold_add_not_Panic: "fold_result (\<lambda>part needed. add needed (length part) m k) parts n \<noteq> Panic"
  by (induction parts arbitrary: n) (auto simp: attempt_eq_Panic)

lemma append_parts_not_Panic [simp]: "append_parts lim parts out \<noteq> Panic"
  by (simp add: append_parts_def attempt_eq_Panic fold_add_not_Panic)

lemma child_depth_not_Panic [simp]: "child_depth lim d c \<noteq> Panic"
  by (simp add: child_depth_def)

lemma enc_not_Panic:
  assumes "push_documented b"
  shows "finite_floats v \<Longrightarrow> enc_value b lim v d out \<noteq> Panic"
    and "finite_floats v \<Longrightarrow> enc_kind b lim v d out \<noteq> Panic"
    and "\<forall>v \<in> set vs. finite_floats v \<Longrightarrow> enc_list b lim vs cd out \<noteq> Panic"
    and "\<forall>p \<in> set m. finite_floats (snd p) \<Longrightarrow> enc_entries b lim m cd out \<noteq> Panic"
  using assms
  by (induction b lim v d out and b lim v d out and b lim vs cd out and b lim m cd out
      rule: enc_value_enc_kind_enc_list_enc_entries.induct)
    (auto simp: enc_value.simps attempt_eq_Panic enc_scalar_def enc_header_def enc_string_def)

lemma encode_not_Panic: "push_documented b \<Longrightarrow> finite_floats v \<Longrightarrow> encode b lim v \<noteq> Panic"
  by (simp add: encode_def attempt_eq_Panic enc_not_Panic(1))

lemma decode_not_Panic: "cbor2_documented b \<Longrightarrow> usize_limits lim \<Longrightarrow> decode b lim bs \<noteq> Panic"
  using dec_not_Panic(1) by (auto simp: decode_def attempt_eq_Panic)

lemma usize_default_limits [simp]: "usize_limits default_limits"
  by (simp add: usize_limits_def default_limits_def usize_bound_def)

section \<open>Properties\<close>

definition sample_value :: "value" where
  "sample_value = VMap [(''k'', VNull), (''ab'', VArray [VInteger (- 300), VFloat (FiniteFloat 0x3FF8000000000000)])]"

definition sample_bytes :: bytes where
  "sample_bytes = map char_of [0xA2, 0x61, 0x6B, 0xF6, 0x62, 0x61, 0x62, 0x82, 0x39, 0x01, 0x2B, 0xF9, 0x3E, 0x00 :: nat]"

text \<open>C3. Decoding what the encoder produced gives the value back: for every value of the
  model and every limits, the bytes of \<open>encode\<close> are accepted by \<open>decode\<close> under the
  same limits and read as the same value.\<close>

theorem decode_encode:
  assumes "cbor2_documented b" "usize_limits lim" "wf_value v" "encode b lim v = Ok bs"
  shows "decode b lim bs = Ok v"
  using assms by (rule decode_of_encode)

theorem decode_encode_witness:
  "wf_value sample_value \<and> encode reference default_limits sample_value = Ok sample_bytes \<and>
    decode reference default_limits sample_bytes = Ok sample_value"
proof -
  have w: "wf_value sample_value" by code_simp
  have e: "encode reference default_limits sample_value = Ok sample_bytes" by code_simp
  show ?thesis
    using w e decode_encode [OF reference_documented usize_default_limits w e] by simp
qed

text \<open>C2. Canonical uniqueness: every accepted document is the one the encoder writes for its
  value, so no two byte strings decode to the same value, and a decoded value satisfies
  the invariants of the data model (UTF-8 text, normalised finite floats, maps sorted by
  canonical key without duplicates).\<close>

theorem decode_canonical:
  assumes "cbor2_documented b" "usize_limits lim" "decode b lim bs = Ok v"
  shows "wf_value v \<and> encode b lim v = Ok bs"
  using assms by (rule encode_of_decode)

theorem decode_canonical_witness:
  "decode reference default_limits sample_bytes = Ok sample_value \<and>
    encode reference default_limits sample_value = Ok sample_bytes"
proof -
  have d: "decode reference default_limits sample_bytes = Ok sample_value" by code_simp
  show ?thesis
    using d decode_canonical [OF reference_documented usize_default_limits d] by simp
qed

text \<open>C7. The bounded, stateful encoder refines the canonical form: it returns exactly the
  RFC 8949 deterministic encoding of the value, and it returns it exactly when the limits
  are valid and the value's depth and encoded size are within them.\<close>

theorem encode_refines_canon:
  assumes "cbor2_documented b" "usize_limits lim" "wf_value v"
  shows "encode b lim v = Ok bs \<longleftrightarrow> max_depth lim \<le> max_supported_depth \<and> bs = canon b v \<and>
    vdepth v \<le> max_depth lim \<and> length bs \<le> max_document_bytes lim"
proof -
  have "push_documented b" using assms(1) by (simp add: cbor2_documented_def)
  then show ?thesis using assms(2) wf_value_finite_floats [OF assms(3)] by (rule encode_Ok_iff)
qed

theorem encode_refines_canon_witness:
  "canon reference sample_value = sample_bytes \<and>
    encode reference \<lparr>max_document_bytes = 14, max_depth = 2\<rparr> sample_value = Ok sample_bytes \<and>
    encode reference \<lparr>max_document_bytes = 13, max_depth = 2\<rparr> sample_value \<noteq> Ok sample_bytes"
proof -
  have w: "wf_value sample_value" by code_simp
  have c: "canon reference sample_value = sample_bytes" "vdepth sample_value = 2" "length sample_bytes = 14"
    by code_simp+
  have l: "usize_limits \<lparr>max_document_bytes = n, max_depth = 2\<rparr>" if "n < 2 ^ 64" for n
    using that by (simp add: usize_limits_def usize_bound_def)
  show ?thesis
    using c encode_refines_canon [OF reference_documented l w] by (simp add: max_supported_depth_def)
qed

text \<open>C24. The codec is total: on every input the decoder, and on every value the encoder,
  returns a result or an error, never a panic (no failed \<open>expect\<close>, no unreachable
  branch, no overflow of a position).\<close>

theorem codec_never_panics:
  assumes "cbor2_documented b" "usize_limits lim" "wf_value v"
  shows "decode b lim bs \<noteq> Panic \<and> encode b lim v \<noteq> Panic"
proof -
  have "push_documented b" using assms(1) by (simp add: cbor2_documented_def)
  then show ?thesis
    using assms decode_not_Panic encode_not_Panic wf_value_finite_floats by blast
qed

theorem codec_never_panics_witness:
  "decode reference default_limits [char_of (0x9F::nat)] \<noteq> Panic \<and>
    encode reference default_limits VNull \<noteq> Panic"
proof -
  have w: "wf_value VNull" by simp
  show ?thesis using codec_never_panics [OF reference_documented usize_default_limits w] by simp
qed

text \<open>C31. Maps: \<open>Map::try_from_entries\<close> accepts exactly the entry lists without a repeated
  key, sorts them into canonical order, and the binary search of \<open>Map::get\<close> then finds
  for every key what the entry list associates with it.\<close>

theorem map_from_entries_get:
  "((\<exists>m. map_try_from_entries es = Ok m) = distinct (map fst es)) \<and>
   (map_try_from_entries es = Ok m \<longrightarrow>
     map_canonical m \<and> mset m = mset es \<and> (\<forall>k. map_get m k = map_of es k))"
  using map_try_from_entries_canonical map_try_from_entries_lookup
  by (auto simp: map_try_from_entries_Ok)

theorem map_from_entries_get_witness:
  "map_get [(''k'', VNull), (''ab'', VBool True)] ''k'' = Some VNull"
proof -
  have e: "map_try_from_entries [(''ab'', VBool True), (''k'', VNull)] = Ok [(''k'', VNull), (''ab'', VBool True)]"
    by code_simp
  show ?thesis
    using e map_from_entries_get [of "[(''ab'', VBool True), (''k'', VNull)]" "[(''k'', VNull), (''ab'', VBool True)]"]
    by simp
qed

end
