(* ===== verification/Record_Accounting.thy ===== *)
theory Record_Accounting
  imports Cbor_Properties
begin

text \<open>
  \<open>record_accounting.rs\<close>: the incremental cost of a record's canonical encoding,
  computed without encoding it. The object's state is the running byte count, which every
  charge takes and returns. \<open>acc_value_Ok_iff\<close> shows that a charge is accepted exactly
  when the encoder would produce the bytes, and costs exactly their number.
\<close>

record encoding_limit_error =
  acc_limit :: limit_kind
  acc_maximum :: nat

text \<open>The crate \<open>half\<close> is a parameter: \<open>f16::from_f64_const\<close> and \<open>to_f64_const\<close>.\<close>

record half =
  f16_from_f64 :: "f64 \<Rightarrow> 16 word"
  f16_to_f64_const :: "16 word \<Rightarrow> f64"

definition acc_check :: "nat \<Rightarrow> nat \<Rightarrow> limit_kind \<Rightarrow> (encoding_limit_error, unit) result" where
  "acc_check v m k = (if v > m then Err \<lparr>acc_limit = k, acc_maximum = m\<rparr> else Ok ())"

definition acc_add :: "nat \<Rightarrow> nat \<Rightarrow> nat \<Rightarrow> limit_kind \<Rightarrow> (encoding_limit_error, nat) result" where
  "acc_add current amount m k =
     attempt (ok_or \<lparr>acc_limit = k, acc_maximum = m\<rparr> (checked_add current amount)) (\<lambda>total.
     attempt (acc_check total m k) (\<lambda>_. Ok total))"

definition header_size :: "u64 \<Rightarrow> nat" where
  "header_size argument =
     (let n = unat argument in
      if n \<le> 23 then 1 else if n \<le> 255 then 2 else if n \<le> 65535 then 3
      else if n \<le> 0xFFFFFFFF then 5 else 9)"

definition acc_new :: "limits \<Rightarrow> (cbor_error, nat) result" where
  "acc_new lim = attempt (limits_validate lim) (\<lambda>_. Ok 0)"

definition acc_enter :: "limits \<Rightarrow> nat \<Rightarrow> (encoding_limit_error, unit) result" where
  "acc_enter lim depth = attempt (acc_check depth (max_depth lim) Depth) (\<lambda>_. Ok ())"

definition acc_bytes :: "limits \<Rightarrow> nat \<Rightarrow> nat \<Rightarrow> (encoding_limit_error, nat) result" where
  "acc_bytes lim amount n = acc_add n amount (max_document_bytes lim) DocumentBytes"

definition acc_collection :: "limits \<Rightarrow> nat \<Rightarrow> nat \<Rightarrow> nat \<Rightarrow> (encoding_limit_error, nat) result" where
  "acc_collection lim len depth n =
     attempt (acc_enter lim depth) (\<lambda>_.
     attempt (acc_bytes lim (header_size (word_of_nat len)) n) (\<lambda>n'.
     attempt (acc_add n' len (max_document_bytes lim) DocumentBytes) (\<lambda>_. Ok n')))"

definition acc_text :: "limits \<Rightarrow> bytes \<Rightarrow> nat \<Rightarrow> nat \<Rightarrow> (encoding_limit_error, nat) result" where
  "acc_text lim s depth n =
     attempt (acc_enter lim depth) (\<lambda>_.
     attempt (acc_bytes lim (header_size (word_of_nat (length s))) n) (acc_bytes lim (length s)))"

definition acc_boolean :: "limits \<Rightarrow> nat \<Rightarrow> nat \<Rightarrow> (encoding_limit_error, nat) result" where
  "acc_boolean lim depth n = attempt (acc_enter lim depth) (\<lambda>_. acc_bytes lim 1 n)"

definition acc_null :: "limits \<Rightarrow> nat \<Rightarrow> nat \<Rightarrow> (encoding_limit_error, nat) result" where
  "acc_null lim depth n = acc_boolean lim depth n"

definition acc_byte_string :: "limits \<Rightarrow> bytes \<Rightarrow> nat \<Rightarrow> nat \<Rightarrow> (encoding_limit_error, nat) result" where
  "acc_byte_string lim s depth n =
     attempt (acc_enter lim depth) (\<lambda>_.
     attempt (acc_bytes lim (header_size (word_of_nat (length s))) n) (acc_bytes lim (length s)))"

definition acc_float :: "half \<Rightarrow> limits \<Rightarrow> finite_float \<Rightarrow> nat \<Rightarrow> nat \<Rightarrow> (encoding_limit_error, nat) result" where
  "acc_float h lim f depth n =
     attempt (acc_enter lim depth) (\<lambda>_.
     let x = float_get f;
         len = (if f16_to_f64_const h (f16_from_f64 h x) = x then 3
                 else if f64_from_f32 (f64_as_f32 x) = x then 5 else 9)
     in acc_bytes lim len n)"

definition acc_integer :: "limits \<Rightarrow> i64 \<Rightarrow> nat \<Rightarrow> nat \<Rightarrow> (encoding_limit_error, nat) result" where
  "acc_integer lim i depth n =
     attempt (acc_enter lim depth) (\<lambda>_.
     let argument = (if 0 \<le>s i then i else NOT i) in acc_bytes lim (header_size argument) n)"

fun acc_value :: "half \<Rightarrow> limits \<Rightarrow> value \<Rightarrow> nat \<Rightarrow> nat \<Rightarrow> (encoding_limit_error, nat) result" where
  "acc_value h lim (VText s) depth n = acc_text lim s depth n"
| "acc_value h lim (VBytes s) depth n = acc_byte_string lim s depth n"
| "acc_value h lim (VInteger i) depth n = acc_integer lim i depth n"
| "acc_value h lim (VFloat f) depth n = acc_float h lim f depth n"
| "acc_value h lim (VBool b) depth n = acc_boolean lim depth n"
| "acc_value h lim VNull depth n = acc_null lim depth n"
| "acc_value h lim (VArray vs) depth n =
     attempt (acc_collection lim (length vs) depth n) (\<lambda>n'.
     fold_result (\<lambda>v k. acc_value h lim v (depth + 1) k) vs n')"
| "acc_value h lim (VMap m) depth n =
     attempt (acc_collection lim (length m) depth n) (\<lambda>n'.
     fold_result (\<lambda>(key, v) k.
       attempt (acc_text lim key (depth + 1) k) (\<lambda>k'. acc_value h lim v (depth + 1) k')) m n')"

section \<open>Evaluation\<close>

text \<open>The charges as single comparisons, by which witnesses compute.\<close>

definition head_length :: "nat \<Rightarrow> nat" where
  "head_length n =
     (if n \<le> 23 then 1 else if n \<le> 255 then 2 else if n \<le> 65535 then 3 else if n \<le> 4294967295 then 5
      else header_size (word_of_nat n))"

lemma head_length_eq: "head_length n = header_size (word_of_nat n)"
  by (auto simp: head_length_def header_size_def)

definition within :: "limits \<Rightarrow> nat \<Rightarrow> (encoding_limit_error, nat) result" where
  "within lim t =
     (if t \<le> max_document_bytes lim \<and> t < 18446744073709551616 then Ok t
      else Err \<lparr>acc_limit = DocumentBytes, acc_maximum = max_document_bytes lim\<rparr>)"

lemma acc_bytes_code [code]: "acc_bytes lim amount n = within lim (n + amount)"
  by (auto simp: acc_bytes_def acc_add_def acc_check_def checked_add_def ok_or_def usize_bound_def within_def)

lemma acc_text_code [code]:
  "acc_text lim s d n =
     (if d > max_depth lim then Err \<lparr>acc_limit = Depth, acc_maximum = max_depth lim\<rparr>
      else let k = length s in within lim (n + head_length k + k))"
  by (auto simp: acc_text_def acc_enter_def acc_check_def acc_bytes_code within_def Let_def head_length_eq)

lemma acc_collection_code [code]:
  "acc_collection lim len d n =
     (if d > max_depth lim then Err \<lparr>acc_limit = Depth, acc_maximum = max_depth lim\<rparr>
      else let k = n + head_length len in attempt (within lim (k + len)) (\<lambda>_. Ok k))"
  by (auto simp: acc_collection_def acc_enter_def acc_check_def acc_bytes_code acc_add_def checked_add_def ok_or_def
      usize_bound_def within_def Let_def head_length_eq)

section \<open>Charges are encoded sizes\<close>

text \<open>What the accounting relies on: the crate widens binary16 like the codec's backend, which
  widens binary32 like the language, and rounds a representable number to itself.\<close>

definition half_documented :: "half \<Rightarrow> cbor2 \<Rightarrow> bool" where
  "half_documented h b \<longleftrightarrow>
     (\<forall>n. f16_to_f64_const h n = f16_to_f64 b n) \<and> (\<forall>s. f32_to_f64 b s = f64_from_f32 s) \<and>
     (\<forall>n. f64_is_finite (f16_to_f64_const h n) \<longrightarrow> f16_from_f64 h (f16_to_f64_const h n) = n)"

lemma acc_check_Ok [simp]: "acc_check v m k = Ok u \<longleftrightarrow> v \<le> m"
  by (auto simp: acc_check_def)

lemma acc_add_Ok [simp]:
  "m < usize_bound \<Longrightarrow> acc_add a c m k = Ok t \<longleftrightarrow> t = a + c \<and> t \<le> m"
  by (auto simp: acc_add_def)

lemma header_size_length: "header_size a = length (shortest_head major (unat a))"
  by (simp add: header_size_def length_shortest_head Let_def)

lemma acc_enter_Ok [simp]: "acc_enter lim d = Ok u \<longleftrightarrow> d \<le> max_depth lim"
  by (auto simp: acc_enter_def)

lemma acc_text_Ok [simp]:
  "max_document_bytes lim < usize_bound \<Longrightarrow> acc_text lim s d n = Ok n' \<longleftrightarrow>
     n' = n + length (canon_string 3 s) \<and> d \<le> max_depth lim \<and> n' \<le> max_document_bytes lim"
  by (auto simp: acc_text_def acc_bytes_def canon_string_def header_size_length [of _ 3])

lemma acc_byte_string_Ok [simp]:
  "max_document_bytes lim < usize_bound \<Longrightarrow> acc_byte_string lim s d n = Ok n' \<longleftrightarrow>
     n' = n + length (canon_string 2 s) \<and> d \<le> max_depth lim \<and> n' \<le> max_document_bytes lim"
  by (auto simp: acc_byte_string_def acc_bytes_def canon_string_def header_size_length [of _ 2])

lemma acc_boolean_Ok [simp]:
  "max_document_bytes lim < usize_bound \<Longrightarrow> acc_boolean lim d n = Ok n' \<longleftrightarrow>
     n' = n + 1 \<and> d \<le> max_depth lim \<and> n' \<le> max_document_bytes lim"
  by (auto simp: acc_boolean_def acc_bytes_def)

lemma acc_integer_Ok [simp]:
  "max_document_bytes lim < usize_bound \<Longrightarrow> acc_integer lim i d n = Ok n' \<longleftrightarrow>
     n' = n + length (canon b (VInteger i)) \<and> d \<le> max_depth lim \<and> n' \<le> max_document_bytes lim"
  by (auto simp: acc_integer_def acc_bytes_def Let_def header_size_length [of _ 0]
      length_shortest_head word_sless_alt word_sle_eq)

lemma acc_collection_Ok [simp]:
  "max_document_bytes lim < usize_bound \<Longrightarrow> acc_collection lim k d n = Ok n' \<longleftrightarrow>
     n' = n + length (shortest_head major (unat (word_of_nat k :: u64))) \<and> d \<le> max_depth lim \<and>
     n' + k \<le> max_document_bytes lim"
  by (auto simp: acc_collection_def acc_bytes_def header_size_length [of _ major])

lemma float_size:
  assumes hb: "half_documented h b" and nar: "narrowing_documented b" and fin: "f64_is_finite x"
  shows "length (float_head b x) =
    (if f16_to_f64_const h (f16_from_f64 h x) = x then 3 else if f64_from_f32 (f64_as_f32 x) = x then 5 else 9)"
proof -
  have 16: "(f64_to_f16 b x \<noteq> None) = (f16_to_f64_const h (f16_from_f64 h x) = x)"
  proof
    assume "f64_to_f16 b x \<noteq> None"
    then obtain n where "f64_to_f16 b x = Some n" by blast
    then have "f16_to_f64_const h n = x"
      using nar fin hb by (simp add: narrowing_documented_def half_documented_def)
    then show "f16_to_f64_const h (f16_from_f64 h x) = x"
      using hb fin by (auto simp: half_documented_def)
  next
    assume "f16_to_f64_const h (f16_from_f64 h x) = x"
    then have "f64_to_f16 b x = Some (f16_from_f64 h x)"
      using nar fin hb by (simp add: narrowing_documented_def half_documented_def)
    then show "f64_to_f16 b x \<noteq> None" by simp
  qed
  have 32: "(f64_to_f32 b x \<noteq> None) = (f64_from_f32 (f64_as_f32 x) = x)"
    unfolding f64_as_f32_iff [OF fin]
    using nar fin hb by (auto simp: narrowing_documented_def half_documented_def)
  show ?thesis using 16 32 by (auto simp: float_head_def split: option.splits)
qed

lemma acc_float_Ok:
  assumes "half_documented h b" "narrowing_documented b" "f64_is_finite (float_get f)"
    and "max_document_bytes lim < usize_bound"
  shows "acc_float h lim f d n = Ok n' \<longleftrightarrow>
     n' = n + length (canon b (VFloat f)) \<and> d \<le> max_depth lim \<and> n' \<le> max_document_bytes lim"
  using assms(4) by (auto simp: acc_float_def Let_def acc_bytes_def float_size [OF assms(1-3)])

lemma acc_fold_Ok:
  fixes m :: nat
  assumes step: "\<And>x k k'. x \<in> set xs \<Longrightarrow> f x k = Ok k' \<longleftrightarrow> k' = k + c x \<and> P x \<and> k' \<le> m"
    and n: "n \<le> m"
  shows "fold_result f xs n = Ok n' \<longleftrightarrow> n' = n + sum_list (map c xs) \<and> (\<forall>x \<in> set xs. P x) \<and> n' \<le> m"
  using assms
proof (induction xs arbitrary: n)
  case (Cons x xs)
  have s: "f x n = Ok k' \<longleftrightarrow> k' = n + c x \<and> P x \<and> k' \<le> m" for k'
    by (rule Cons.prems(1)) simp
  show ?case
  proof (cases "P x \<and> n + c x \<le> m")
    case True
    then have "fold_result f (x # xs) n = fold_result f xs (n + c x)"
      using s [of "n + c x"] by simp
    then show ?thesis using Cons.IH [of "n + c x"] Cons.prems(1) True by (auto simp: add.assoc)
  next
    case False
    then have "\<nexists>k'. f x n = Ok k'" using s by auto
    then show ?thesis using False by auto
  qed
qed auto

lemma canon_list_length: "length (canon_list b vs) = sum_list (map (\<lambda>v. length (canon b v)) vs)"
  by (induction vs) auto

lemma canon_entries_length:
  "length (canon_entries b m) = sum_list (map (\<lambda>p. length (canon_string 3 (fst p)) + length (canon b (snd p))) m)"
  by (induction m) auto

lemma vdepth_list_le: "d + vdepth_list vs \<le> k \<longleftrightarrow> d \<le> k \<and> (\<forall>v \<in> set vs. Suc d + vdepth v \<le> k)"
  by (induction vs) (auto simp: max_def)

lemma vdepth_entries_le: "d + vdepth_entries m \<le> k \<longleftrightarrow> d \<le> k \<and> (\<forall>p \<in> set m. Suc d + vdepth (snd p) \<le> k)"
proof (induction m)
  case (Cons p m)
  have "vdepth_entries (p # m) = max (Suc (vdepth (snd p))) (vdepth_entries m)" by (cases p) simp
  then show ?case using Cons by auto
qed simp

lemma acc_value_Ok_iff:
  assumes hb: "half_documented h b" and nar: "narrowing_documented b" and l: "max_document_bytes lim < usize_bound"
  shows "finite_floats v \<Longrightarrow> acc_value h lim v d n = Ok n' \<longleftrightarrow>
    n' = n + length (canon b v) \<and> d + vdepth v \<le> max_depth lim \<and> n' \<le> max_document_bytes lim"
  using hb l
proof (induction h lim v d n arbitrary: n' rule: acc_value.induct)
  case (7 h lim vs d n)
  let ?h = "length (shortest_head 4 (unat (word_of_nat (length vs) :: u64)))"
  have fold: "fold_result (\<lambda>v. acc_value h lim v (d + 1)) vs n1 = Ok n' \<longleftrightarrow>
      n' = n1 + length (canon_list b vs) \<and> (\<forall>v \<in> set vs. d + 1 + vdepth v \<le> max_depth lim) \<and>
      n' \<le> max_document_bytes lim"
    if c: "acc_collection lim (length vs) d n = Ok n1" for n1
    unfolding canon_list_length
  proof (rule acc_fold_Ok)
    show "n1 \<le> max_document_bytes lim"
      using c "7.prems"(3) acc_collection_Ok [of lim "length vs" d n n1 4] by simp
    show "acc_value h lim v (d + 1) k = Ok k' \<longleftrightarrow> k' = k + length (canon b v) \<and>
        d + 1 + vdepth v \<le> max_depth lim \<and> k' \<le> max_document_bytes lim" if "v \<in> set vs" for v k k'
      by (rule "7.IH" [OF c that]) (use "7.prems" that in auto)
  qed
  have "acc_value h lim (VArray vs) d n = Ok n' \<longleftrightarrow>
      (\<exists>n1. acc_collection lim (length vs) d n = Ok n1 \<and> n' = n1 + length (canon_list b vs) \<and>
       (\<forall>v \<in> set vs. d + 1 + vdepth v \<le> max_depth lim) \<and> n' \<le> max_document_bytes lim)"
    using fold by auto
  then show ?case
    using length_canon_list [of vs b] "7.prems"(3)
    by (auto simp: acc_collection_Ok [of lim _ _ _ _ 4] vdepth_list_le)
next
  case (8 h lim m d n)
  let ?f = "\<lambda>(key, v) k. attempt (acc_text lim key (d + 1) k) (\<lambda>k'. acc_value h lim v (d + 1) k')"
  have fold: "fold_result ?f m n1 = Ok n' \<longleftrightarrow>
      n' = n1 + length (canon_entries b m) \<and> (\<forall>p \<in> set m. d + 1 + vdepth (snd p) \<le> max_depth lim) \<and>
      n' \<le> max_document_bytes lim"
    if c: "acc_collection lim (length m) d n = Ok n1" for n1
    unfolding canon_entries_length
  proof (rule acc_fold_Ok)
    show "n1 \<le> max_document_bytes lim"
      using c "8.prems"(3) acc_collection_Ok [of lim "length m" d n n1 5] by simp
    show "?f p k = Ok k' \<longleftrightarrow> k' = k + (length (canon_string 3 (fst p)) + length (canon b (snd p))) \<and>
        d + 1 + vdepth (snd p) \<le> max_depth lim \<and> k' \<le> max_document_bytes lim" if "p \<in> set m" for p k k'
    proof -
      obtain key v where p: "p = (key, v)" by (cases p)
      have "acc_value h lim v (d + 1) k1 = Ok k' \<longleftrightarrow> k' = k1 + length (canon b v) \<and>
        d + 1 + vdepth v \<le> max_depth lim \<and> k' \<le> max_document_bytes lim" if "acc_text lim key (d + 1) k = Ok k1" for k1
        by (rule "8.IH" [OF c \<open>p \<in> set m\<close> p [symmetric] that]) (use "8.prems" \<open>p \<in> set m\<close> p in auto)
      then show ?thesis using "8.prems"(3) by (auto simp: p)
    qed
  qed
  have "acc_value h lim (VMap m) d n = Ok n' \<longleftrightarrow>
      (\<exists>n1. acc_collection lim (length m) d n = Ok n1 \<and> n' = n1 + length (canon_entries b m) \<and>
       (\<forall>p \<in> set m. d + 1 + vdepth (snd p) \<le> max_depth lim) \<and> n' \<le> max_document_bytes lim)"
    using fold by auto
  then show ?case
    using length_canon_entries [of m b] "8.prems"(3)
    by (auto simp: acc_collection_Ok [of lim _ _ _ _ 5] vdepth_entries_le)
qed (use nar in \<open>auto simp: acc_null_def acc_float_Ok acc_integer_Ok [of _ _ _ _ _ b]\<close>)
section \<open>Properties\<close>

text \<open>An instance of the crate, exact on representable numbers and truncating otherwise.\<close>

definition ref_half :: half where
  "ref_half = \<lparr>f16_from_f64 = (\<lambda>x. word_of_nat (narrow_bits 5 10 x)), f16_to_f64_const = ref_f16_to_f64\<rparr>"

lemma ref_half_documented: "half_documented ref_half reference"
proof -
  have "f16_from_f64 ref_half (ref_f16_to_f64 n) = n" if "f64_is_finite (ref_f16_to_f64 n)" for n
    using ref_f64_to_f16 [OF that, of n] that
    by (simp add: ref_half_def ref_f64_to_f16_def Let_def split: if_splits)
  then show ?thesis
    by (simp add: half_documented_def ref_half_def reference_def ref_f32_to_f64_def f64_from_f32_def)
qed

text \<open>C23. The accounting of a record agrees with the encoder without running it: charging a
  value is accepted exactly when encoding it under the same limits succeeds, and the charge
  is the number of encoded bytes.\<close>

theorem charge_is_encoded_size:
  assumes "cbor2_documented b" "half_documented h b" "usize_limits lim" "acc_new lim = Ok start" "wf_value v"
  shows "acc_value h lim v 0 start = Ok n \<longleftrightarrow> (\<exists>bs. encode b lim v = Ok bs \<and> n = length bs)"
proof -
  have f: "finite_floats v" using assms(5) by (rule wf_value_finite_floats)
  have b: "push_documented b" "narrowing_documented b" using assms(1) by (auto simp: cbor2_documented_def)
  have l: "max_document_bytes lim < usize_bound" using assms(3) by (simp add: usize_limits_def)
  have s: "start = 0" "max_depth lim \<le> max_supported_depth"
    using assms(4) by (auto simp: acc_new_def max_supported_depth_def)
  show ?thesis
    using s unfolding acc_value_Ok_iff [OF assms(2) b(2) l f] encode_Ok_iff [OF b(1) assms(3) f] by auto
qed

theorem charge_is_encoded_size_witness:
  "acc_value ref_half default_limits sample_value 0 0 = Ok 14 \<and>
    (\<exists>bs. encode reference default_limits sample_value = Ok bs \<and> length bs = 14)"
proof -
  have w: "wf_value sample_value" by code_simp
  have n: "acc_new default_limits = Ok 0" by code_simp
  have c: "acc_value ref_half default_limits sample_value 0 0 = Ok 14" by code_simp
  show ?thesis
    using c charge_is_encoded_size [OF reference_documented ref_half_documented usize_default_limits n w, of 14]
    by auto
qed

end
