(* ===== verification/Record_Codec.thy ===== *)
theory Record_Codec
  imports Record_Accounting
begin

text \<open>
  The shape every canonical record of the repository shares: \<open>to_value\<close> builds a CBOR
  value under the limits, \<open>parse\<close> reads one back, and \<open>encode\<close>, \<open>decode\<close> and
  \<open>from_value\<close> put the codec around them. The locale \<open>record_codec\<close> states the laws a
  record owes and proves once what they give: the byte round trip, the uniqueness of the
  encoding and the acceptance of re-encoded records. Each record's theory interprets it.
\<close>

section \<open>The operations\<close>

definition record_encode ::
  "cbor2 \<Rightarrow> (cbor_error \<Rightarrow> 'e) \<Rightarrow> (limits \<Rightarrow> 'r \<Rightarrow> ('e, value) result) \<Rightarrow> limits \<Rightarrow> 'r \<Rightarrow> ('e, bytes) result" where
  "record_encode b codec to_value lim r =
     attempt (to_value lim r) (\<lambda>v. map_err codec (encode b lim v))"

definition record_decode ::
  "cbor2 \<Rightarrow> (cbor_error \<Rightarrow> 'e) \<Rightarrow> (limits \<Rightarrow> value \<Rightarrow> ('e, 'r) result) \<Rightarrow> limits \<Rightarrow> bytes \<Rightarrow> ('e, 'r) result" where
  "record_decode b codec parse lim bs = attempt (map_err codec (decode b lim bs)) (parse lim)"

definition record_from_value ::
  "cbor2 \<Rightarrow> (cbor_error \<Rightarrow> 'e) \<Rightarrow> (limits \<Rightarrow> value \<Rightarrow> ('e, 'r) result) \<Rightarrow> limits \<Rightarrow> value \<Rightarrow> ('e, 'r) result" where
  "record_from_value b codec parse lim v = attempt (map_err codec (encode b lim v)) (\<lambda>_. parse lim v)"

section \<open>The interface\<close>

text \<open>
  \<open>wf\<close> is the invariant the record's constructors establish. A record is read back from
  its value; a value that parses is the value of the record read; and the conversion, which
  charges what the encoder would write, accepts a record under the limits its encoding was
  accepted with. The backend \<open>b\<close> is fixed because some records compare encoded parts.
\<close>

locale record_codec =
  fixes b :: cbor2
    and to_value :: "limits \<Rightarrow> 'r \<Rightarrow> ('e, value) result"
    and parse :: "limits \<Rightarrow> value \<Rightarrow> ('e, 'r) result"
    and wf :: "'r \<Rightarrow> bool"
    and codec :: "cbor_error \<Rightarrow> 'e"
  assumes to_value_wf: "usize_limits lim \<Longrightarrow> wf r \<Longrightarrow> to_value lim r = Ok v \<Longrightarrow> wf_value v"
    and to_value_parse: "cbor2_documented b \<Longrightarrow> usize_limits lim \<Longrightarrow> wf r \<Longrightarrow> to_value lim r = Ok v \<Longrightarrow>
      encode b lim v = Ok bs \<Longrightarrow> parse lim v = Ok r"
    and parse_wf: "cbor2_documented b \<Longrightarrow> usize_limits lim \<Longrightarrow> wf_value v \<Longrightarrow> parse lim v = Ok r \<Longrightarrow> wf r"
    and parse_to_value: "cbor2_documented b \<Longrightarrow> usize_limits lim \<Longrightarrow> wf_value v \<Longrightarrow> parse lim v = Ok r \<Longrightarrow>
      encode b lim v = Ok bs \<Longrightarrow> to_value lim r = Ok v"
begin

lemma decode_encoded:
  assumes "cbor2_documented b" "usize_limits lim" "wf r"
    and "record_encode b codec to_value lim r = Ok bs"
  shows "record_decode b codec parse lim bs = Ok r"
proof -
  obtain v where v: "to_value lim r = Ok v" "encode b lim v = Ok bs"
    using assms(4) by (auto simp: record_encode_def)
  show ?thesis
    using decode_of_encode [OF assms(1,2) to_value_wf [OF assms(2,3) v(1)] v(2)] to_value_parse [OF assms(1-3) v]
    by (simp add: record_decode_def)
qed

lemma encode_decode:
  assumes "cbor2_documented b" "usize_limits lim"
    and "record_decode b codec parse lim bs = Ok r"
  shows "wf r \<and> record_encode b codec to_value lim r = Ok bs"
proof -
  obtain v where v: "decode b lim bs = Ok v" "parse lim v = Ok r"
    using assms(3) by (auto simp: record_decode_def)
  note w = encode_of_decode [OF assms(1,2) v(1)]
  then show ?thesis
    using parse_wf [OF assms(1,2) _ v(2)] parse_to_value [OF assms(1,2) _ v(2)] by (auto simp: record_encode_def)
qed

lemma bytes_iff:
  assumes "cbor2_documented b" "usize_limits lim" "wf r"
  shows "record_encode b codec to_value lim r = Ok bs \<longleftrightarrow> record_decode b codec parse lim bs = Ok r"
  using decode_encoded [OF assms] encode_decode [OF assms(1,2)] by blast

lemma encode_inject:
  assumes "cbor2_documented b" "usize_limits lim" "wf r" "wf s"
    and "record_encode b codec to_value lim r = Ok bs" "record_encode b codec to_value lim s = Ok bs"
  shows "r = s"
  using decode_encoded [OF assms(1-3,5)] decode_encoded [OF assms(1,2,4,6)] by simp

text \<open>Reading an already decoded value gives the record whose value it is.\<close>

lemma from_value_iff:
  assumes "cbor2_documented b" "usize_limits lim" "wf_value v"
  shows "record_from_value b codec parse lim v = Ok r \<longleftrightarrow>
    wf r \<and> to_value lim r = Ok v \<and> (\<exists>bs. encode b lim v = Ok bs)"
proof
  assume "record_from_value b codec parse lim v = Ok r"
  then obtain bs where p: "parse lim v = Ok r" "encode b lim v = Ok bs"
    by (auto simp: record_from_value_def)
  then show "wf r \<and> to_value lim r = Ok v \<and> (\<exists>bs. encode b lim v = Ok bs)"
    using parse_wf [OF assms] parse_to_value [OF assms] by blast
next
  assume "wf r \<and> to_value lim r = Ok v \<and> (\<exists>bs. encode b lim v = Ok bs)"
  then show "record_from_value b codec parse lim v = Ok r"
    using to_value_parse [OF assms(1,2)] by (auto simp: record_from_value_def)
qed

end

section \<open>Canonical maps by their contents\<close>

lemma map_canonical_unique:
  assumes "map_canonical m" "map_canonical m'" "map_of m = map_of m'"
  shows "m = m'"
proof -
  have d: "distinct (map fst m)" "distinct (map fst m')"
    using assms(1,2) by (auto dest: map_canonical_distinct)
  have "set m = set m'" using map_of_inject_set [OF d] assms(3) by simp
  moreover have "inj_on (\<lambda>p. canon_key (fst p)) (set m \<union> set m')"
    using d \<open>set m = set m'\<close> by (auto simp: inj_on_def distinct_map)
  ultimately show ?thesis
    using assms(1,2) map_sorted_distinct_set_unique [of "\<lambda>p. canon_key (fst p)" m m']
    by (simp add: map_canonical_def strictly_sorted_iff)
qed

lemma map_try_from_entries_eqI:
  assumes "map_try_from_entries es = Ok m'" "map_canonical m" "map_of es = map_of m"
  shows "m' = m"
proof -
  have "map_canonical m'" using assms(1) by (rule map_try_from_entries_canonical)
  moreover from this have "map_of m' = map_of es"
    using map_try_from_entries_lookup [OF assms(1)] by (auto simp: map_get_map_of)
  ultimately show ?thesis using map_canonical_unique assms(2,3) by metis
qed

text \<open>Two maps over the same known fields agree when they agree on each field.\<close>

lemma map_of_by_fields:
  assumes "fst ` set m \<subseteq> F" "fst ` set es \<subseteq> F" "\<And>f. f \<in> F \<Longrightarrow> map_of es f = map_of m f"
  shows "map_of es = map_of m"
proof
  fix k
  have "map_of es k = None" "map_of m k = None" if "k \<notin> F"
    using that assms(1,2) by (auto simp: map_of_eq_None_iff)
  then show "map_of es k = map_of m k" using assms(3) [of k] by (cases "k \<in> F") auto
qed

text \<open>The size of a map does not depend on the order its entries are charged in.\<close>

lemma canon_entries_mset:
  "mset m = mset m' \<Longrightarrow> length (canon_entries b m) = length (canon_entries b m')"
  unfolding canon_entries_length sum_mset_sum_list [symmetric] mset_map by simp

lemma map_of_eq_set:
  assumes "distinct (map fst es)" "distinct (map fst m)" "map_of es = map_of m"
  shows "mset es = mset m"
  using assms map_of_inject_set [OF assms(1,2)]
  by (metis distinct_map set_eq_iff_mset_eq_distinct)

end
