(* ===== verification/Options.thy ===== *)
theory Options
  imports Record_Codec
begin

text \<open>
  \<open>options.rs\<close>: execution limits and retry policies as canonical records. The six optional
  ceilings are the array \<open>values\<close> in the order of \<open>LIMIT_FIELDS\<close>.
\<close>

datatype execution_options_error =
  OptCodec cbor_error
| OptExpectedRecord bytes
| OptUnknownField bytes
| OptMissingField bytes
| OptInvalidFieldType bytes
| OptOutOfRange bytes
| OptZeroNotAllowed bytes
| OptDelayCountMismatch u64 nat
| OptNonCanonicalCodes
| OptLimitExceeded limit_kind nat
| OptAllocationFailed

text \<open>\<open>impl From<EncodingLimitError>\<close>\<close>

definition opt_limit :: "encoding_limit_error \<Rightarrow> execution_options_error" where
  "opt_limit e = OptLimitExceeded (acc_limit e) (acc_maximum e)"

definition limit_fields :: "(bytes \<times> bool) list" where
  "limit_fields =
     [(''attempt_timeout_ms'', True), (''max_concurrency'', True), (''max_cost_units'', False),
      (''max_mcp_calls'', False), (''max_tokens'', False), (''timeout_ms'', True)]"

definition retry_fields :: "bytes list" where
  "retry_fields = [''backoff_ms'', ''max_attempts'', ''on'']"

definition max_integer :: nat where
  "max_integer = 2 ^ 63 - 1"

definition validate_integer :: "u64 \<Rightarrow> bytes \<Rightarrow> bool \<Rightarrow> (execution_options_error, unit) result" where
  "validate_integer v field positive =
     (if unat v > max_integer then Err (OptOutOfRange field)
      else if positive \<and> v = 0 then Err (OptZeroNotAllowed field) else Ok ())"

definition opt_integer :: "value \<Rightarrow> bytes \<Rightarrow> bool \<Rightarrow> (execution_options_error, u64) result" where
  "opt_integer v field positive =
     (case v of
        VInteger i \<Rightarrow>
          if i <s 0 then Err (OptOutOfRange field)
          else attempt (validate_integer i field positive) (\<lambda>_. Ok i)
      | _ \<Rightarrow> Err (OptInvalidFieldType field))"

definition opt_array :: "value \<Rightarrow> bytes \<Rightarrow> (execution_options_error, value list) result" where
  "opt_array v field = (case v of VArray vs \<Rightarrow> Ok vs | _ \<Rightarrow> Err (OptInvalidFieldType field))"

section \<open>Execution limits\<close>

record execution_limits =
  limit_values :: "u64 option list"

definition limits_new :: execution_limits where
  "limits_new = \<lparr>limit_values = replicate 6 None\<rparr>"

text \<open>The accessors that the macro \<open>limit_accessors!\<close> generates.\<close>

definition limit_get :: "nat \<Rightarrow> execution_limits \<Rightarrow> u64 option" where
  "limit_get index l = limit_values l ! index"

definition limit_with :: "nat \<Rightarrow> execution_limits \<Rightarrow> u64 \<Rightarrow> (execution_options_error, execution_limits) result" where
  "limit_with index l v =
     attempt (validate_integer v (fst (limit_fields ! index)) (snd (limit_fields ! index))) (\<lambda>_.
     Ok (l\<lparr>limit_values := (limit_values l)[index := Some v]\<rparr>))"

definition attempt_timeout_ms :: "execution_limits \<Rightarrow> u64 option" where "attempt_timeout_ms = limit_get 0"
definition max_concurrency :: "execution_limits \<Rightarrow> u64 option" where "max_concurrency = limit_get 1"
definition max_cost_units :: "execution_limits \<Rightarrow> u64 option" where "max_cost_units = limit_get 2"
definition max_mcp_calls :: "execution_limits \<Rightarrow> u64 option" where "max_mcp_calls = limit_get 3"
definition max_tokens :: "execution_limits \<Rightarrow> u64 option" where "max_tokens = limit_get 4"
definition timeout_ms :: "execution_limits \<Rightarrow> u64 option" where "timeout_ms = limit_get 5"

text \<open>The pairs the two conversion loops visit: \<open>LIMIT_FIELDS.iter().zip(&self.values)\<close>
  restricted to the set values.\<close>

definition present :: "(bytes \<times> bool) list \<Rightarrow> u64 option list \<Rightarrow> (bytes \<times> u64) list" where
  "present fs vs = concat (map (\<lambda>((field, _), v). case v of None \<Rightarrow> [] | Some x \<Rightarrow> [(field, x)]) (zip fs vs))"

definition set_limits :: "execution_limits \<Rightarrow> (bytes \<times> u64) list" where
  "set_limits l = present limit_fields (limit_values l)"

definition limits_to_value :: "limits \<Rightarrow> execution_limits \<Rightarrow> (execution_options_error, value) result" where
  "limits_to_value lim l =
     attempt (map_err OptCodec (acc_new lim)) (\<lambda>n0.
     attempt (map_err opt_limit (acc_collection lim (length (set_limits l)) 0 n0)) (\<lambda>n1.
     attempt (map_err opt_limit (fold_result (\<lambda>(field, x) n.
       attempt (acc_text lim field 1 n) (acc_integer lim x 1)) (set_limits l) n1)) (\<lambda>_.
     attempt (map_err OptCodec (map_try_from_entries
       (map (\<lambda>(field, x). (field, VInteger x)) (set_limits l)))) (\<lambda>m. Ok (VMap m)))))"

definition limits_parse :: "value \<Rightarrow> (execution_options_error, execution_limits) result" where
  "limits_parse v =
     (case v of
        VMap m \<Rightarrow>
          if \<exists>p \<in> set m. \<not> (\<exists>f \<in> set limit_fields. fst p = fst f) then
            Err (OptUnknownField ''execution limits'')
          else attempt (map_result (\<lambda>(field, positive).
              case map_get m field of
                None \<Rightarrow> Ok None
              | Some x \<Rightarrow> attempt (opt_integer x field positive) (\<lambda>n. Ok (Some n))) limit_fields)
            (\<lambda>vs. Ok \<lparr>limit_values = vs\<rparr>)
      | _ \<Rightarrow> Err (OptExpectedRecord ''execution limits''))"

definition limits_encode :: "cbor2 \<Rightarrow> limits \<Rightarrow> execution_limits \<Rightarrow> (execution_options_error, bytes) result" where
  "limits_encode b = record_encode b OptCodec limits_to_value"

definition limits_decode :: "cbor2 \<Rightarrow> limits \<Rightarrow> bytes \<Rightarrow> (execution_options_error, execution_limits) result" where
  "limits_decode b = record_decode b OptCodec (\<lambda>_. limits_parse)"

definition limits_from_value :: "cbor2 \<Rightarrow> limits \<Rightarrow> value \<Rightarrow> (execution_options_error, execution_limits) result" where
  "limits_from_value b = record_from_value b OptCodec (\<lambda>_. limits_parse)"

text \<open>What the builders establish: in-range numbers, positive where required.\<close>

definition limit_ok :: "bool \<Rightarrow> u64 option \<Rightarrow> bool" where
  "limit_ok positive v = (case v of None \<Rightarrow> True | Some x \<Rightarrow> unat x \<le> max_integer \<and> (positive \<longrightarrow> x \<noteq> 0))"

definition wf_limits :: "execution_limits \<Rightarrow> bool" where
  "wf_limits l \<longleftrightarrow> list_all2 (\<lambda>f v. limit_ok (snd f) v) limit_fields (limit_values l)"

section \<open>Retry policies\<close>

record retry_policy =
  max_attempts :: u64
  retry_on :: "bytes list"
  backoff_ms :: "u64 list"

definition delay_count :: "u64 \<Rightarrow> nat \<Rightarrow> (execution_options_error, unit) result" where
  "delay_count attempts actual =
     (if attempts = 0 then Panic
      else let expected = attempts - 1 in
        if expected \<noteq> word_of_nat actual then Err (OptDelayCountMismatch expected actual) else Ok ())"

definition check_wire :: "limits \<Rightarrow> retry_policy \<Rightarrow> (execution_options_error, unit) result" where
  "check_wire lim r =
     attempt (map_err OptCodec (acc_new lim)) (\<lambda>n0.
     attempt (validate_integer (max_attempts r) ''max_attempts'' True) (\<lambda>_.
     attempt (delay_count (max_attempts r) (length (backoff_ms r))) (\<lambda>_.
     attempt (map_err opt_limit (acc_collection lim 3 0 n0)) (\<lambda>n1.
     attempt (map_err opt_limit (acc_text lim ''on'' 1 n1)) (\<lambda>n2.
     attempt (map_err opt_limit (acc_collection lim (length (retry_on r)) 1 n2)) (\<lambda>n3.
     attempt (map_err opt_limit (fold_result (\<lambda>code n. acc_text lim code 2 n) (retry_on r) n3)) (\<lambda>n4.
     attempt (map_err opt_limit (acc_text lim ''backoff_ms'' 1 n4)) (\<lambda>n5.
     attempt (map_err opt_limit (acc_collection lim (length (backoff_ms r)) 1 n5)) (\<lambda>n6.
     attempt (fold_result (\<lambda>delay n.
       attempt (validate_integer delay ''backoff_ms item'' False) (\<lambda>_.
       map_err opt_limit (acc_integer lim delay 2 n))) (backoff_ms r) n6) (\<lambda>n7.
     attempt (map_err opt_limit (acc_text lim ''max_attempts'' 1 n7)) (\<lambda>n8.
     attempt (map_err opt_limit (acc_integer lim (max_attempts r) 1 n8)) (\<lambda>_. Ok ()))))))))))))"

definition retry_new ::
  "u64 \<Rightarrow> bytes list \<Rightarrow> u64 list \<Rightarrow> limits \<Rightarrow> (execution_options_error, retry_policy) result" where
  "retry_new attempts codes delays lim =
     (let r = \<lparr>max_attempts = attempts, retry_on = codes, backoff_ms = delays\<rparr> in
      attempt (check_wire lim r) (\<lambda>_. Ok (r\<lparr>retry_on := remdups_adj (sort codes)\<rparr>)))"

definition no_retry :: retry_policy where
  "no_retry = \<lparr>max_attempts = 1, retry_on = [], backoff_ms = []\<rparr>"

definition retry_to_value :: "limits \<Rightarrow> retry_policy \<Rightarrow> (execution_options_error, value) result" where
  "retry_to_value lim r =
     attempt (check_wire lim r) (\<lambda>_.
     attempt (map_err OptCodec (map_try_from_entries
       [(''on'', VArray (map VText (retry_on r))),
        (''backoff_ms'', VArray (map VInteger (backoff_ms r))),
        (''max_attempts'', VInteger (max_attempts r))])) (\<lambda>m. Ok (VMap m)))"

text \<open>The loop over the codes: type of each item, then strictly increasing order.\<close>

fun check_codes :: "bytes option \<Rightarrow> value list \<Rightarrow> (execution_options_error, unit) result" where
  "check_codes previous [] = Ok ()"
| "check_codes previous (v # vs) =
     (case v of
        VText code \<Rightarrow>
          if (case previous of None \<Rightarrow> False | Some p \<Rightarrow> code \<le> p) then Err OptNonCanonicalCodes
          else check_codes (Some code) vs
      | _ \<Rightarrow> Err (OptInvalidFieldType ''on item''))"

definition own_code :: "value \<Rightarrow> (execution_options_error, bytes) result" where
  "own_code v = (case v of VText code \<Rightarrow> Ok code | _ \<Rightarrow> Panic)"

definition retry_parse :: "value \<Rightarrow> (execution_options_error, retry_policy) result" where
  "retry_parse v =
     (case v of
        VMap m \<Rightarrow>
          if \<exists>p \<in> set m. fst p \<notin> set retry_fields then Err (OptUnknownField ''retry policy'')
          else attempt (fold_result (\<lambda>field _. case map_get m field of
              None \<Rightarrow> Err (OptMissingField field) | Some _ \<Rightarrow> Ok ()) retry_fields ()) (\<lambda>_.
            attempt (attempt (expect (map_get m ''backoff_ms'')) (\<lambda>x. opt_array x ''backoff_ms'')) (\<lambda>backoff.
            attempt (expect (map_get m ''max_attempts'')) (\<lambda>attempts.
            attempt (guard (case attempts of VInteger _ \<Rightarrow> True | _ \<Rightarrow> False) (OptInvalidFieldType ''max_attempts'')) (\<lambda>_.
            attempt (attempt (expect (map_get m ''on'')) (\<lambda>x. opt_array x ''on'')) (\<lambda>codes.
            attempt (opt_integer attempts ''max_attempts'' True) (\<lambda>max_attempts.
            attempt (delay_count max_attempts (length backoff)) (\<lambda>_.
            attempt (fold_result (\<lambda>delay _. attempt (opt_integer delay ''backoff_ms item'' False) (\<lambda>_. Ok ()))
              backoff ()) (\<lambda>_.
            attempt (check_codes None codes) (\<lambda>_.
            attempt (map_result own_code codes) (\<lambda>on.
            attempt (map_result (\<lambda>delay. opt_integer delay ''backoff_ms item'' False) backoff) (\<lambda>delays.
            Ok \<lparr>max_attempts = max_attempts, retry_on = on, backoff_ms = delays\<rparr>)))))))))))
      | _ \<Rightarrow> Err (OptExpectedRecord ''retry policy''))"

definition retry_encode :: "cbor2 \<Rightarrow> limits \<Rightarrow> retry_policy \<Rightarrow> (execution_options_error, bytes) result" where
  "retry_encode b = record_encode b OptCodec retry_to_value"

definition retry_decode :: "cbor2 \<Rightarrow> limits \<Rightarrow> bytes \<Rightarrow> (execution_options_error, retry_policy) result" where
  "retry_decode b = record_decode b OptCodec (\<lambda>_. retry_parse)"

definition retry_from_value :: "cbor2 \<Rightarrow> limits \<Rightarrow> value \<Rightarrow> (execution_options_error, retry_policy) result" where
  "retry_from_value b = record_from_value b OptCodec (\<lambda>_. retry_parse)"

definition wf_retry :: "retry_policy \<Rightarrow> bool" where
  "wf_retry r \<longleftrightarrow> max_attempts r \<noteq> 0 \<and> unat (max_attempts r) \<le> max_integer \<and>
     max_attempts r - 1 = word_of_nat (length (backoff_ms r)) \<and>
     (\<forall>d \<in> set (backoff_ms r). unat d \<le> max_integer) \<and>
     strictly_sorted (retry_on r) \<and> (\<forall>code \<in> set (retry_on r). utf8_valid code)"

section \<open>Lemmas on execution limits\<close>

lemma validate_integer_Ok [simp]:
  "validate_integer v f pos = Ok u \<longleftrightarrow> unat v \<le> max_integer \<and> (pos \<longrightarrow> v \<noteq> 0)"
  by (auto simp: validate_integer_def)

lemma nonneg_iff: "\<not> (i :: i64) <s 0 \<longleftrightarrow> unat i \<le> max_integer"
  by (simp add: sless_zero_iff bit_63_iff max_integer_def) linarith

lemma opt_integer_Ok:
  "opt_integer v f pos = Ok n \<longleftrightarrow> v = VInteger n \<and> limit_ok pos (Some n)"
  using nonneg_iff by (auto simp: opt_integer_def limit_ok_def split: value_splits if_splits)

lemma opt_array_Ok [simp]: "opt_array v f = Ok vs \<longleftrightarrow> v = VArray vs"
  by (auto simp: opt_array_def split: value_splits)

lemma present_Nil [simp]: "present [] vs = []"
  by (simp add: present_def)

lemma present_Cons [simp]:
  "present (f # fs) (v # vs) = (case v of None \<Rightarrow> [] | Some x \<Rightarrow> [(fst f, x)]) @ present fs vs"
  by (cases f) (simp add: present_def split: option.split)

lemma present_keys: "length fs = length vs \<Longrightarrow> fst ` set (present fs vs) \<subseteq> fst ` set fs"
  by (induction fs vs rule: list_induct2) (auto split: option.splits)

lemma present_distinct:
  "length fs = length vs \<Longrightarrow> distinct (map fst fs) \<Longrightarrow> distinct (map fst (present fs vs))"
  by (induction fs vs rule: list_induct2) (use present_keys in \<open>auto split: option.splits\<close>)

lemma map_of_present:
  "length fs = length vs \<Longrightarrow> distinct (map fst fs) \<Longrightarrow>
    list_all2 (\<lambda>f v. map_of (present fs vs) (fst f) = v) fs vs"
proof (induction fs vs rule: list_induct2)
  case (Cons f fs v vs)
  have "map_of (present fs vs) (fst f) = None"
    using Cons.prems present_keys [OF Cons.hyps] by (auto simp: map_of_eq_None_iff)
  moreover have "list_all2 (\<lambda>g w. map_of (present (f # fs) (v # vs)) (fst g) = w) fs vs"
  proof (rule list.rel_mono_strong)
    show "list_all2 (\<lambda>f v. map_of (present fs vs) (fst f) = v) fs vs" using Cons.IH Cons.prems by simp
  next
    fix g w
    assume "g \<in> set fs" "map_of (present fs vs) (fst g) = w"
    moreover have "fst g \<noteq> fst f" using Cons.prems \<open>g \<in> set fs\<close> by (auto simp: image_iff)
    ultimately show "map_of (present (f # fs) (v # vs)) (fst g) = w" by (auto split: option.splits)
  qed
  ultimately show ?case by (auto split: option.splits)
qed simp

lemma limit_fields_facts [simp]: "distinct (map fst limit_fields)" "length limit_fields = 6"
  by (simp_all add: limit_fields_def)

lemma limit_fields_utf8: "f \<in> set limit_fields \<Longrightarrow> utf8_valid (fst f)"
  by (auto simp: limit_fields_def)

definition limit_entries :: "execution_limits \<Rightarrow> cbor_map" where
  "limit_entries l = map (\<lambda>(field, x). (field, VInteger x)) (set_limits l)"

lemma wf_limits_length: "wf_limits l \<Longrightarrow> length (limit_values l) = 6"
  by (auto simp: wf_limits_def dest: list_all2_lengthD)

lemma map_of_limit_entries: "map_of (limit_entries l) f = map_option VInteger (map_of (set_limits l) f)"
  by (simp add: limit_entries_def map_of_map)

lemma limit_entries_keys:
  assumes "length (limit_values l) = 6"
  shows "fst ` set (limit_entries l) \<subseteq> fst ` set limit_fields" "distinct (map fst (limit_entries l))"
proof -
  have "map fst (limit_entries l) = map fst (set_limits l)"
    by (simp add: limit_entries_def comp_def split_def)
  then show "fst ` set (limit_entries l) \<subseteq> fst ` set limit_fields" "distinct (map fst (limit_entries l))"
    using present_keys [of limit_fields "limit_values l"] present_distinct [of limit_fields "limit_values l"] assms
    by (metis limit_fields_facts(2) list.set_map set_limits_def) (simp add: limit_entries_def comp_def split_def set_limits_def present_distinct assms)
qed

lemma limits_parse_iff:
  "limits_parse v = Ok r \<longleftrightarrow> (\<exists>m. v = VMap m \<and> fst ` set m \<subseteq> fst ` set limit_fields \<and>
     list_all2 (\<lambda>f x. map_get m (fst f) = map_option VInteger x \<and> limit_ok (snd f) x)
       limit_fields (limit_values r))"
proof -
  have item: "(case map_get m f of None \<Rightarrow> Ok None | Some x \<Rightarrow> attempt (opt_integer x f p) (\<lambda>n. Ok (Some n))) = Ok x \<longleftrightarrow>
      map_get m f = map_option VInteger x \<and> limit_ok p x" for m f p x
    by (cases x) (auto simp: opt_integer_Ok limit_ok_def split: option.splits)
  show ?thesis
    by (cases v) (auto simp: limits_parse_def map_result_Ok_iff item split_def image_subset_iff)
qed

lemma limits_to_value_Ok:
  assumes "limits_to_value lim l = Ok v"
  obtains m where "v = VMap m" "map_try_from_entries (limit_entries l) = Ok m"
  using assms by (auto simp: limits_to_value_def limit_entries_def)

lemma limits_values_read:
  assumes "wf_limits l" "map_of m = map_of (limit_entries l)"
  shows "list_all2 (\<lambda>f x. map_of m (fst f) = map_option VInteger x \<and> limit_ok (snd f) x)
    limit_fields (limit_values l)"
proof -
  have "list_all2 (\<lambda>f v. map_of (set_limits l) (fst f) = v) limit_fields (limit_values l)"
    unfolding set_limits_def using wf_limits_length [OF assms(1)] by (intro map_of_present) simp_all
  moreover have "list_all2 (\<lambda>f v. limit_ok (snd f) v) limit_fields (limit_values l)"
    using assms(1) by (simp add: wf_limits_def)
  ultimately show ?thesis
    by (auto simp: list_all2_conv_all_nth assms(2) map_of_limit_entries)
qed

lemma acc_integer_value:
  "max_document_bytes lim < usize_bound \<Longrightarrow> acc_integer lim i d n = Ok n' \<longleftrightarrow>
     n' = n + length (canon b (VInteger i)) \<and> d \<le> max_depth lim \<and> n' \<le> max_document_bytes lim"
  by (rule acc_integer_Ok)

text \<open>Charging the entries of a map of integers, in any order.\<close>

lemma limits_charge:
  assumes l: "max_document_bytes lim < usize_bound" and n: "n \<le> max_document_bytes lim"
  shows "(\<exists>n'. fold_result (\<lambda>(field, x) n. attempt (acc_text lim field 1 n) (acc_integer lim x 1)) es n = Ok n') \<longleftrightarrow>
    (es = [] \<or> 1 \<le> max_depth lim) \<and>
    n + length (canon_entries b (map (\<lambda>(field, x). (field, VInteger x)) es)) \<le> max_document_bytes lim"
proof -
  let ?c = "\<lambda>(field, x). length (canon_string 3 field) + length (canon b (VInteger x))"
  have "fold_result (\<lambda>(field, x) n. attempt (acc_text lim field 1 n) (acc_integer lim x 1)) es n = Ok n' \<longleftrightarrow>
      n' = n + sum_list (map ?c es) \<and> (\<forall>e \<in> set es. 1 \<le> max_depth lim) \<and> n' \<le> max_document_bytes lim" for n'
    by (rule acc_fold_Ok [OF _ n]) (auto simp: l acc_integer_value [OF l, of _ _ _ _ b] simp del: canon.simps)
  moreover have "sum_list (map ?c es) = length (canon_entries b (map (\<lambda>(field, x). (field, VInteger x)) es))"
    by (simp add: canon_entries_length comp_def split_def)
  ultimately show ?thesis by (cases es) auto
qed

lemma limits_parse_wf: "limits_parse v = Ok r \<Longrightarrow> wf_limits r"
  unfolding limits_parse_iff by (auto simp: wf_limits_def elim!: list_all2_mono)

lemma limits_parse_entries:
  assumes parse: "limits_parse (VMap m) = Ok r" and can: "map_canonical m"
  shows "map_of (limit_entries r) = map_of m"
proof -
  have wr: "wf_limits r" using parse by (rule limits_parse_wf)
  have keys: "fst ` set m \<subseteq> fst ` set limit_fields"
    and vals: "list_all2 (\<lambda>f x. map_get m (fst f) = map_option VInteger x \<and> limit_ok (snd f) x)
      limit_fields (limit_values r)"
    using parse by (auto simp: limits_parse_iff)
  show ?thesis
  proof (rule map_of_by_fields [OF keys limit_entries_keys(1) [OF wf_limits_length [OF wr]]])
    fix f assume "f \<in> fst ` set limit_fields"
    then show "map_of (limit_entries r) f = map_of m f"
      using limits_values_read [OF wr refl] vals can
      by (fastforce simp: list_all2_conv_all_nth in_set_conv_nth map_get_map_of)
  qed
qed

lemma limits_to_value_total:
  assumes pd: "push_documented b" and ul: "usize_limits lim" and w: "wf_value v"
    and parse: "limits_parse v = Ok r" and enc: "encode b lim v = Ok bs"
  shows "limits_to_value lim r = Ok v"
proof -
  obtain m where v: "v = VMap m" using parse by (auto simp: limits_parse_iff)
  have can: "map_canonical m" using w v by simp
  note len = wf_limits_length [OF limits_parse_wf [OF parse]]
  note mo = limits_parse_entries [OF parse [unfolded v] can]
  note ms = map_of_eq_set [OF limit_entries_keys(2) [OF len] map_canonical_distinct [OF can] mo]
  obtain m' where m': "map_try_from_entries (limit_entries r) = Ok m'"
    using limit_entries_keys(2) [OF len] by (auto simp: map_try_from_entries_Ok)
  then have "m' = m" using map_try_from_entries_eqI [OF m' can mo] by simp
  have fits: "max_depth lim \<le> max_supported_depth" "vdepth v \<le> max_depth lim"
    "length (canon b v) \<le> max_document_bytes lim"
    using enc encode_Ok_iff [OF pd ul wf_value_finite_floats [OF w]] by auto
  have mx: "max_document_bytes lim < usize_bound" using ul by (simp add: usize_limits_def)
  have lm: "length (set_limits r) = length m"
    using arg_cong [OF ms, of size] by (simp add: limit_entries_def)
  let ?h = "length (shortest_head 5 (unat (word_of_nat (length m) :: u64)))"
  have size: "?h + length (canon_entries b (limit_entries r)) \<le> max_document_bytes lim"
    using fits(3) canon_entries_mset [OF ms, of b] by (simp add: v)
  have col: "acc_collection lim (length m) 0 0 = Ok ?h"
    using size length_canon_entries [of "limit_entries r" b] lm
    by (simp add: acc_collection_Ok [OF mx, of _ _ _ _ 5] limit_entries_def)
  have "\<exists>n'. fold_result (\<lambda>(field, x) n. attempt (acc_text lim field 1 n) (acc_integer lim x 1)) (set_limits r) ?h = Ok n'"
  proof -
    have "m = [] \<or> 1 \<le> vdepth v" by (cases m) (auto simp: v)
    then have "set_limits r = [] \<or> 1 \<le> max_depth lim" using lm fits(2) by (cases "m = []") auto
    then show ?thesis
      using limits_charge [OF mx, of ?h "set_limits r" b] size by (simp add: limit_entries_def)
  qed
  then show ?thesis
    using col m' \<open>m' = m\<close> fits(1) lm
    by (auto simp: limits_to_value_def limit_entries_def [symmetric] acc_new_def v limits_validate_def)
qed

lemma limits_to_value_parse:
  assumes w: "wf_limits l" and v: "limits_to_value lim l = Ok v"
  shows "wf_value v \<and> limits_parse v = Ok l"
proof -
  obtain m where m: "v = VMap m" "map_try_from_entries (limit_entries l) = Ok m"
    using v by (rule limits_to_value_Ok)
  note keys = limit_entries_keys [OF wf_limits_length [OF w]]
  note can = map_try_from_entries_canonical [OF m(2)] and st = map_try_from_entries_set [OF m(2)]
  have mo: "map_of m = map_of (limit_entries l)"
    using map_try_from_entries_lookup [OF m(2)] map_get_map_of [OF can] by auto
  have "utf8_valid (fst p) \<and> wf_value (snd p)" if "p \<in> set m" for p
  proof -
    have p: "p \<in> set (limit_entries l)" using that st by simp
    then have "fst p \<in> fst ` set limit_fields" using keys(1) by blast
    moreover have "wf_value (snd p)" using p by (auto simp: limit_entries_def)
    ultimately show ?thesis by (auto dest: limit_fields_utf8)
  qed
  then have "wf_value v" using can m(1) by simp
  moreover have "limits_parse v = Ok l"
    unfolding limits_parse_iff
    using m(1) st keys(1) limits_values_read [OF w mo] by (simp add: map_get_map_of [OF can])
  ultimately show ?thesis by simp
qed

interpretation limits_codec: record_codec b limits_to_value "\<lambda>_. limits_parse" wf_limits OptCodec for b
proof
  show "limits_to_value lim r = Ok v" if "cbor2_documented b" "usize_limits lim" "wf_value v" "limits_parse v = Ok r"
    "encode b lim v = Ok bs" for lim v r bs
    using limits_to_value_total [of b lim v r bs] that by (simp add: cbor2_documented_def)
qed (auto dest: limits_to_value_parse limits_parse_wf)

section \<open>Lemmas on retry policies\<close>

lemma delay_count_Ok [simp]:
  "delay_count a n = Ok u \<longleftrightarrow> a \<noteq> 0 \<and> a - 1 = word_of_nat n"
  by (auto simp: delay_count_def Let_def)

lemma check_codes_Ok:
  "check_codes prev vs = Ok () \<longleftrightarrow> (\<exists>codes. vs = map VText codes \<and> strictly_sorted codes \<and>
     (case prev of None \<Rightarrow> True | Some p \<Rightarrow> \<forall>c \<in> set codes. p < c))"
proof (induction vs arbitrary: prev)
  case (Cons v vs)
  show ?case
  proof (cases "\<exists>code. v = VText code")
    case True
    then obtain code where v: "v = VText code" by blast
    have "check_codes prev (v # vs) = Ok () \<longleftrightarrow>
        (case prev of None \<Rightarrow> True | Some p \<Rightarrow> p < code) \<and> check_codes (Some code) vs = Ok ()"
      by (auto simp: v not_le split: option.splits)
    also have "\<dots> \<longleftrightarrow> (\<exists>codes. v # vs = map VText (code # codes) \<and> strictly_sorted (code # codes) \<and>
        (case prev of None \<Rightarrow> True | Some p \<Rightarrow> \<forall>c \<in> set (code # codes). p < c))"
      by (auto simp: Cons.IH v split: option.splits dest: order.strict_trans)
    also have "\<dots> \<longleftrightarrow> (\<exists>codes. v # vs = map VText codes \<and> strictly_sorted codes \<and>
        (case prev of None \<Rightarrow> True | Some p \<Rightarrow> \<forall>c \<in> set codes. p < c))"
      by (auto simp: v map_eq_Cons_conv Cons_eq_map_conv)
    finally show ?thesis .
  next
    case False
    then show ?thesis by (auto split: value_splits)
  qed
qed (auto split: option.splits)

lemma own_code_Ok [simp]: "own_code v = Ok c \<longleftrightarrow> v = VText c"
  by (auto simp: own_code_def split: value_splits)

lemma map_result_own_code: "map_result own_code (map VText codes) = Ok codes"
  by (induction codes) (auto simp: own_code_def)

lemma fold_check_Ok: "fold_result (\<lambda>x _. f x) xs u = Ok w \<longleftrightarrow> (\<forall>x \<in> set xs. f x = Ok ())"
  by (induction xs arbitrary: u) (auto)

definition retry_entries :: "retry_policy \<Rightarrow> cbor_map" where
  "retry_entries r = [(''on'', VArray (map VText (retry_on r))),
     (''backoff_ms'', VArray (map VInteger (backoff_ms r))), (''max_attempts'', VInteger (max_attempts r))]"

lemma map_result_integers:
  "map_result (\<lambda>d. opt_integer d f p) vs = Ok ds \<longleftrightarrow>
    vs = map VInteger ds \<and> (\<forall>d \<in> set ds. limit_ok p (Some d))"
  by (auto simp: map_result_Ok_iff opt_integer_Ok list_all2_conv_all_nth list_eq_iff_nth_eq all_set_conv_all_nth)

lemma retry_parse_iff:
  "retry_parse v = Ok r \<longleftrightarrow> (\<exists>m. v = VMap m \<and> fst ` set m \<subseteq> set retry_fields \<and>
     (\<forall>f \<in> set retry_fields. map_get m f = map_of (retry_entries r) f) \<and>
     max_attempts r \<noteq> 0 \<and> unat (max_attempts r) \<le> max_integer \<and>
     max_attempts r - 1 = word_of_nat (length (backoff_ms r)) \<and>
     (\<forall>d \<in> set (backoff_ms r). unat d \<le> max_integer) \<and> strictly_sorted (retry_on r))"
proof
  assume ok: "retry_parse v = Ok r"
  then obtain m where v: "v = VMap m" by (auto simp: retry_parse_def split: value_splits)
  have keys: "fst ` set m \<subseteq> set retry_fields"
    using ok by (auto simp: retry_parse_def v split: if_splits)
  obtain backoff codes attempts where g: "map_get m ''backoff_ms'' = Some (VArray backoff)"
    "map_get m ''max_attempts'' = Some (VInteger attempts)" "map_get m ''on'' = Some (VArray codes)"
    and a: "limit_ok True (Some attempts)" "attempts \<noteq> 0" "attempts - 1 = word_of_nat (length backoff)"
    and c: "check_codes None codes = Ok ()" "map_result own_code codes = Ok (retry_on r)"
      "map_result (\<lambda>d. opt_integer d ''backoff_ms item'' False) backoff = Ok (backoff_ms r)"
      "max_attempts r = attempts"
    using ok by (auto simp: retry_parse_def v opt_integer_Ok split: if_splits)
  show "\<exists>m. v = VMap m \<and> fst ` set m \<subseteq> set retry_fields \<and>
     (\<forall>f \<in> set retry_fields. map_get m f = map_of (retry_entries r) f) \<and>
     max_attempts r \<noteq> 0 \<and> unat (max_attempts r) \<le> max_integer \<and>
     max_attempts r - 1 = word_of_nat (length (backoff_ms r)) \<and>
     (\<forall>d \<in> set (backoff_ms r). unat d \<le> max_integer) \<and> strictly_sorted (retry_on r)"
    using v keys g a c
    by (auto simp: retry_fields_def retry_entries_def check_codes_Ok map_result_own_code map_result_integers limit_ok_def)
next
  assume "\<exists>m. v = VMap m \<and> fst ` set m \<subseteq> set retry_fields \<and>
     (\<forall>f \<in> set retry_fields. map_get m f = map_of (retry_entries r) f) \<and>
     max_attempts r \<noteq> 0 \<and> unat (max_attempts r) \<le> max_integer \<and>
     max_attempts r - 1 = word_of_nat (length (backoff_ms r)) \<and>
     (\<forall>d \<in> set (backoff_ms r). unat d \<le> max_integer) \<and> strictly_sorted (retry_on r)"
  then obtain m where v: "v = VMap m" and keys: "fst ` set m \<subseteq> set retry_fields"
    and g: "map_get m ''backoff_ms'' = Some (VArray (map VInteger (backoff_ms r)))"
      "map_get m ''max_attempts'' = Some (VInteger (max_attempts r))"
      "map_get m ''on'' = Some (VArray (map VText (retry_on r)))"
    and a: "max_attempts r \<noteq> 0" "unat (max_attempts r) \<le> max_integer"
      "max_attempts r - 1 = word_of_nat (length (backoff_ms r))"
      "\<forall>d \<in> set (backoff_ms r). unat d \<le> max_integer" "strictly_sorted (retry_on r)"
    by (auto simp: retry_fields_def retry_entries_def)
  have k: "\<not> (\<exists>p \<in> set m. fst p \<notin> set retry_fields)" using keys by auto
  have f: "fold_result (\<lambda>field _. case map_get m field of None \<Rightarrow> Err (OptMissingField field) | Some _ \<Rightarrow> Ok ())
      retry_fields () = Ok ()"
    using g by (simp add: fold_check_Ok retry_fields_def)
  have o: "opt_integer (VInteger (max_attempts r)) ''max_attempts'' True = Ok (max_attempts r)"
    using a by (simp add: opt_integer_Ok limit_ok_def)
  have d: "delay_count (max_attempts r) (length (backoff_ms r)) = Ok ()" using a by simp
  have bs: "map_result (\<lambda>d. opt_integer d ''backoff_ms item'' False) (map VInteger (backoff_ms r)) = Ok (backoff_ms r)"
    using a(4) by (simp add: map_result_integers limit_ok_def)
  have bf: "fold_result (\<lambda>delay _. attempt (opt_integer delay ''backoff_ms item'' False) (\<lambda>_. Ok ()))
      (map VInteger (backoff_ms r)) () = Ok ()"
    using a(4) by (auto simp: fold_check_Ok opt_integer_Ok limit_ok_def)
  have c: "check_codes None (map VText (retry_on r)) = Ok ()"
    using a(5) by (auto simp: check_codes_Ok)
  show "retry_parse v = Ok r"
    using k by (simp add: retry_parse_def v f g o d bs bf c opt_array_def map_result_own_code)
qed

lemma fold_texts_Ok:
  assumes "max_document_bytes lim < usize_bound" "n \<le> max_document_bytes lim"
  shows "fold_result (\<lambda>code n. acc_text lim code d n) codes n = Ok n' \<longleftrightarrow>
    n' = n + length (canon_list b (map VText codes)) \<and> (codes = [] \<or> d \<le> max_depth lim) \<and>
    n' \<le> max_document_bytes lim"
proof -
  have "fold_result (\<lambda>code n. acc_text lim code d n) codes n = Ok n' \<longleftrightarrow>
      n' = n + sum_list (map (\<lambda>c. length (canon_string 3 c)) codes) \<and> (\<forall>c \<in> set codes. d \<le> max_depth lim) \<and>
      n' \<le> max_document_bytes lim"
    by (rule acc_fold_Ok [OF _ assms(2)]) (simp add: assms(1))
  moreover have "length (canon_list b (map VText codes)) = sum_list (map (\<lambda>c. length (canon_string 3 c)) codes)"
    by (simp add: canon_list_length comp_def)
  ultimately show ?thesis by (cases codes) auto
qed

lemma fold_delays_Ok:
  assumes "max_document_bytes lim < usize_bound" "n \<le> max_document_bytes lim"
    and "\<forall>x \<in> set delays. unat x \<le> max_integer"
  shows "fold_result (\<lambda>delay n. attempt (validate_integer delay f False) (\<lambda>_.
      map_err opt_limit (acc_integer lim delay d n))) delays n = Ok n' \<longleftrightarrow>
    n' = n + length (canon_list b (map VInteger delays)) \<and> (delays = [] \<or> d \<le> max_depth lim) \<and>
    n' \<le> max_document_bytes lim"
proof -
  have "fold_result (\<lambda>delay n. attempt (validate_integer delay f False) (\<lambda>_.
      map_err opt_limit (acc_integer lim delay d n))) delays n = Ok n' \<longleftrightarrow>
      n' = n + sum_list (map (\<lambda>c. length (canon b (VInteger c))) delays) \<and>
      (\<forall>c \<in> set delays. d \<le> max_depth lim) \<and> n' \<le> max_document_bytes lim"
    by (rule acc_fold_Ok [OF _ assms(2)])
      (use assms(3) in \<open>simp add: acc_integer_value [OF assms(1), of _ _ _ _ b] del: canon.simps\<close>)
  moreover have "length (canon_list b (map VInteger delays)) = sum_list (map (\<lambda>c. length (canon b (VInteger c))) delays)"
    by (simp add: canon_list_length comp_def)
  ultimately show ?thesis by (cases delays) auto
qed

lemma check_wire_wf:
  assumes "check_wire lim r = Ok u"
  shows "max_attempts r \<noteq> 0" "unat (max_attempts r) \<le> max_integer"
    "max_attempts r - 1 = word_of_nat (length (backoff_ms r))"
    "\<forall>d \<in> set (backoff_ms r). unat d \<le> max_integer"
proof -
  have d: "\<forall>d \<in> set ds. unat d \<le> max_integer"
    if "fold_result (\<lambda>delay n. attempt (validate_integer delay f False) (\<lambda>_.
      map_err opt_limit (acc_integer lim delay k n))) ds n = Ok n'" for ds n n' f k
    using that by (induction ds arbitrary: n) auto
  show "max_attempts r \<noteq> 0" "unat (max_attempts r) \<le> max_integer"
    "max_attempts r - 1 = word_of_nat (length (backoff_ms r))"
    "\<forall>d \<in> set (backoff_ms r). unat d \<le> max_integer"
    using assms by (auto simp: check_wire_def dest: d)
qed

lemma retry_entries_canonical: "map_try_from_entries (retry_entries r) = Ok (retry_entries r)"
  by (rule map_try_from_entries_id) (simp add: retry_entries_def map_canonical_def canon_key_def less_char_def)

lemma check_wire_total:
  assumes ul: "usize_limits lim" "max_depth lim \<le> max_supported_depth"
    and r: "max_attempts r \<noteq> 0" "unat (max_attempts r) \<le> max_integer"
      "max_attempts r - 1 = word_of_nat (length (backoff_ms r))"
      "\<forall>d \<in> set (backoff_ms r). unat d \<le> max_integer"
    and fits: "vdepth (VMap (retry_entries r)) \<le> max_depth lim"
      "length (canon b (VMap (retry_entries r))) \<le> max_document_bytes lim"
  shows "check_wire lim r = Ok ()"
proof -
  have mx: "max_document_bytes lim < usize_bound" using ul by (simp add: usize_limits_def)
  let ?on = "map VText (retry_on r)" and ?ms = "map VInteger (backoff_ms r)"
  have l: "length (retry_on r) \<le> length (canon_list b ?on)" "length (backoff_ms r) \<le> length (canon_list b ?ms)"
    using length_canon_list [of ?on b] length_canon_list [of ?ms b] by simp_all
  have depth: "1 \<le> max_depth lim" "retry_on r = [] \<or> 2 \<le> max_depth lim" "backoff_ms r = [] \<or> 2 \<le> max_depth lim"
    using fits(1) by (cases "retry_on r"; cases "backoff_ms r"; auto simp: retry_entries_def)+
  show ?thesis
    using fits(2) l depth r ul(2) length_canon_string [of "''on''" 3] length_canon_string [of "''backoff_ms''" 3]
    by (simp add: check_wire_def acc_new_def limits_validate_def acc_collection_Ok [OF mx, of _ _ _ _ 4] mx
        fold_texts_Ok [OF mx, of _ _ _ _ b] fold_delays_Ok [OF mx, of _ _ _ _ _ b]
        acc_integer_value [OF mx, of _ _ _ _ b] retry_entries_def length_shortest_head
        del: canon.simps(3) cong: conj_cong)
qed

lemma retry_fields_utf8: "f \<in> set retry_fields \<Longrightarrow> utf8_valid f"
  by (auto simp: retry_fields_def)

lemma retry_to_value_Ok:
  "retry_to_value lim r = Ok v \<longleftrightarrow> check_wire lim r = Ok () \<and> v = VMap (retry_entries r)"
  by (auto simp: retry_to_value_def retry_entries_canonical simp flip: retry_entries_def)

lemma retry_entries_facts:
  "map_canonical (retry_entries r)" "fst ` set (retry_entries r) = set retry_fields"
  using map_try_from_entries_canonical [OF retry_entries_canonical]
  by (auto simp: retry_entries_def retry_fields_def)

lemma retry_parse_entries:
  assumes "retry_parse (VMap m) = Ok r" "map_canonical m"
  shows "m = retry_entries r"
proof -
  have keys: "fst ` set m \<subseteq> set retry_fields"
    and g: "\<forall>f \<in> set retry_fields. map_get m f = map_of (retry_entries r) f"
    using assms(1) by (auto simp: retry_parse_iff)
  have "map_of (retry_entries r) = map_of m"
    by (rule map_of_by_fields [OF keys]) (use g retry_entries_facts(2) assms(2) in \<open>auto simp: map_get_map_of\<close>)
  then show ?thesis using map_canonical_unique [OF assms(2) retry_entries_facts(1)] by simp
qed

lemma retry_to_value_parse:
  assumes "wf_retry r" "retry_to_value lim r = Ok v"
  shows "wf_value v \<and> retry_parse v = Ok r"
proof -
  have v: "v = VMap (retry_entries r)" using assms(2) by (simp add: retry_to_value_Ok)
  have "utf8_valid (fst p) \<and> wf_value (snd p)" if "p \<in> set (retry_entries r)" for p
    using that assms(1) retry_fields_utf8 by (auto simp: retry_entries_def wf_retry_def retry_fields_def)
  then have "wf_value v" using retry_entries_facts(1) by (simp add: v)
  moreover have "retry_parse v = Ok r"
    using assms(1) retry_entries_facts by (auto simp: retry_parse_iff v wf_retry_def map_get_map_of)
  ultimately show ?thesis by simp
qed

lemma retry_parse_wf:
  assumes "wf_value v" "retry_parse v = Ok r"
  shows "wf_retry r"
proof -
  obtain m where v: "v = VMap m" using assms(2) by (auto simp: retry_parse_iff)
  then have m: "m = retry_entries r" using retry_parse_entries assms by simp
  then have "wf_value (VArray (map VText (retry_on r)))"
    using assms(1) by (auto simp: v retry_entries_def)
  then show ?thesis using assms(2) by (auto simp: wf_retry_def retry_parse_iff)
qed

lemma retry_to_value_total:
  assumes "push_documented b" "usize_limits lim" "wf_value v" "retry_parse v = Ok r" "encode b lim v = Ok bs"
  shows "retry_to_value lim r = Ok v"
proof -
  obtain m where v: "v = VMap m" using assms(4) by (auto simp: retry_parse_iff)
  then have m: "v = VMap (retry_entries r)" using retry_parse_entries assms(3,4) by simp
  have fits: "max_depth lim \<le> max_supported_depth" "vdepth v \<le> max_depth lim"
    "length (canon b v) \<le> max_document_bytes lim"
    using assms(5) encode_Ok_iff [OF assms(1,2) wf_value_finite_floats [OF assms(3)]] by auto
  have "wf_retry r" by (rule retry_parse_wf [OF assms(3,4)])
  then have "check_wire lim r = Ok ()"
    using check_wire_total [OF assms(2) fits(1), of r b] fits(2,3) by (simp add: wf_retry_def m)
  then show ?thesis by (simp add: retry_to_value_Ok m)
qed

interpretation retry_codec: record_codec b retry_to_value "\<lambda>_. retry_parse" wf_retry OptCodec for b
proof
  show "retry_to_value lim r = Ok v" if "cbor2_documented b" "usize_limits lim" "wf_value v" "retry_parse v = Ok r"
    "encode b lim v = Ok bs" for lim v r bs
    using retry_to_value_total [of b lim v r bs] that by (simp add: cbor2_documented_def)
qed (auto dest: retry_to_value_parse retry_parse_wf)

lemma retry_new_wf:
  assumes "retry_new a codes delays lim = Ok r" "\<forall>code \<in> set codes. utf8_valid code"
  shows "wf_retry r \<and> set (retry_on r) = set codes"
proof -
  let ?r = "\<lparr>max_attempts = a, retry_on = codes, backoff_ms = delays\<rparr>"
  have ok: "check_wire lim ?r = Ok ()" and r: "r = ?r\<lparr>retry_on := remdups_adj (sort codes)\<rparr>"
    using assms(1) by (auto simp: retry_new_def Let_def)
  have "strictly_sorted (remdups_adj (sort codes))"
    by (rule strictly_sorted_remdups_adj) simp
  then show ?thesis using check_wire_wf [OF ok] assms(2) by (auto simp: wf_retry_def r)
qed

lemma limit_with_wf:
  assumes "wf_limits l" "limit_with i l v = Ok l'" "i < 6"
  shows "wf_limits l' \<and> limit_get i l' = Some v \<and> (\<forall>j < 6. j \<noteq> i \<longrightarrow> limit_get j l' = limit_get j l)"
proof -
  have len: "length (limit_values l) = 6" using assms(1) by (rule wf_limits_length)
  have l': "l' = l\<lparr>limit_values := (limit_values l)[i := Some v]\<rparr>" "limit_ok (snd (limit_fields ! i)) (Some v)"
    using assms(2) by (auto simp: limit_with_def limit_ok_def)
  have "limit_ok (snd (limit_fields ! j)) ((limit_values l)[i := Some v] ! j)" if "j < 6" for j
    using assms(1) l'(2) that len by (cases "j = i") (auto simp: wf_limits_def list_all2_conv_all_nth)
  then show ?thesis
    using assms(3) len by (auto simp: wf_limits_def l'(1) limit_get_def list_all2_conv_all_nth)
qed

section \<open>Properties\<close>

text \<open>C33. Execution limits have exactly one byte representation: a record with in-range
  values encodes to given bytes exactly when those bytes decode to it.\<close>

theorem limits_bytes_iff:
  assumes "cbor2_documented b" "usize_limits lim" "wf_limits l"
  shows "limits_encode b lim l = Ok bs \<longleftrightarrow> limits_decode b lim bs = Ok l"
  unfolding limits_encode_def limits_decode_def by (rule limits_codec.bytes_iff [OF assms])

definition sample_limits :: execution_limits where
  "sample_limits = \<lparr>limit_values = [None, Some 4, Some 0, None, None, Some 60000]\<rparr>"

theorem limits_bytes_iff_witness:
  "\<exists>bs. limits_encode reference default_limits sample_limits = Ok bs \<and>
    limits_decode reference default_limits bs = Ok sample_limits"
proof -
  have w: "wf_limits sample_limits" by code_simp
  let ?bs = "char_of (0xA3 :: nat) # char_of (0x6A :: nat) # ''timeout_ms'' @ map char_of [0x19, 0xEA, 0x60, 0x6E :: nat]
    @ ''max_cost_units'' @ map char_of [0x00, 0x6F :: nat] @ ''max_concurrency'' @ [char_of (0x04 :: nat)]"
  have e: "limits_encode reference default_limits sample_limits = Ok ?bs" by code_simp
  show ?thesis
    using e limits_bytes_iff [OF reference_documented usize_default_limits w, of ?bs] by blast
qed

text \<open>Retry policies have exactly one byte representation: a valid policy encodes to
  given bytes exactly when those bytes decode to it, so a stored policy with unsorted or
  repeated codes, a wrong number of delays or a missing field is refused.\<close>

theorem retry_bytes_iff:
  assumes "cbor2_documented b" "usize_limits lim" "wf_retry r"
  shows "retry_encode b lim r = Ok bs \<longleftrightarrow> retry_decode b lim bs = Ok r"
  unfolding retry_encode_def retry_decode_def by (rule retry_codec.bytes_iff [OF assms])

definition sample_retry :: retry_policy where
  "sample_retry = \<lparr>max_attempts = 3, retry_on = [''E1'', ''E2''], backoff_ms = [100, 0]\<rparr>"

definition sample_retry_bytes :: bytes where
  "sample_retry_bytes = map char_of [0xA3, 0x62 :: nat] @ ''on'' @ map char_of [0x82, 0x62 :: nat] @ ''E1''
    @ [char_of (0x62 :: nat)] @ ''E2'' @ [char_of (0x6A :: nat)] @ ''backoff_ms'' @ map char_of [0x82, 0x18, 0x64, 0x00, 0x6C :: nat]
    @ ''max_attempts'' @ [char_of (0x03 :: nat)]"

theorem retry_bytes_iff_witness:
  "retry_encode reference default_limits sample_retry = Ok sample_retry_bytes \<and>
    retry_decode reference default_limits sample_retry_bytes = Ok sample_retry"
proof -
  have w: "wf_retry sample_retry" by code_simp
  have e: "retry_encode reference default_limits sample_retry = Ok sample_retry_bytes" by code_simp
  show ?thesis
    using e retry_bytes_iff [OF reference_documented usize_default_limits w, of sample_retry_bytes] by blast
qed

text \<open>C34. The constructor of retry policies normalises: it keeps the set of codes, sorts it
  and removes repetitions, keeps the delays in order, and the result is a valid policy.\<close>

theorem retry_new_normalizes:
  assumes "retry_new a codes delays lim = Ok r" "\<forall>code \<in> set codes. utf8_valid code"
  shows "wf_retry r \<and> set (retry_on r) = set codes \<and> strictly_sorted (retry_on r) \<and>
    backoff_ms r = delays \<and> max_attempts r = a"
  using retry_new_wf [OF assms] assms(1) by (auto simp: retry_new_def Let_def wf_retry_def)

theorem retry_new_normalizes_witness:
  "retry_new 2 [''b'', ''a'', ''b''] [7] default_limits =
    Ok \<lparr>max_attempts = 2, retry_on = [''a'', ''b''], backoff_ms = [7]\<rparr> \<and>
   wf_retry \<lparr>max_attempts = 2, retry_on = [''a'', ''b''], backoff_ms = [7]\<rparr>"
proof -
  have n: "retry_new 2 [''b'', ''a'', ''b''] [7] default_limits =
    Ok \<lparr>max_attempts = 2, retry_on = [''a'', ''b''], backoff_ms = [7]\<rparr>" by code_simp
  show ?thesis using n retry_new_normalizes [OF n] by simp
qed

end
