(* ===== verification/Digests.thy ===== *)
theory Digests
  imports Cbor_Properties
begin

text \<open>
  \<open>digest.rs\<close>: digests, their strict text form, and the record digests. SHA-256 (crate
  \<open>sha2\<close>) is the parameter \<open>sha\<close>, a function of the bytes it is fed; what the
  repository contributes is the preimage, and \<open>record_preimage_injective\<close> shows that no
  two records of any kind share one.
\<close>

unbundle bit_operations_syntax

datatype digest = Digest (as_bytes: bytes)

datatype parse_digest_error = InvalidPrefix | InvalidLength | InvalidHex

text \<open>The stored array has 32 bytes.\<close>

definition wf_digest :: "digest \<Rightarrow> bool" where
  "wf_digest d \<longleftrightarrow> length (as_bytes d) = 32"

definition digest_prefix :: bytes where
  "digest_prefix = ''sha256:''"

definition hex_digit :: "nat \<Rightarrow> byte" where
  "hex_digit n = char_of (if n < 10 then 48 + n else 87 + n)"

text \<open>\<open>{byte:02x}\<close>\<close>

definition hex_byte :: "byte \<Rightarrow> bytes" where
  "hex_byte b = [hex_digit (of_char b div 16), hex_digit (of_char b mod 16)]"

definition digest_display :: "digest \<Rightarrow> bytes" where
  "digest_display d = digest_prefix @ concat (map hex_byte (as_bytes d))"

definition digit :: "byte \<Rightarrow> (parse_digest_error, nat) result" where
  "digit b =
     (if CHR ''0'' \<le> b \<and> b \<le> CHR ''9'' then Ok (of_char b - of_char CHR ''0'')
      else if CHR ''a'' \<le> b \<and> b \<le> CHR ''f'' then Ok (of_char b - of_char CHR ''a'' + 10)
      else Err InvalidHex)"

text \<open>The loop over \<open>as_chunks::<2>\<close>: an odd last byte would be left over.\<close>

fun parse_pairs :: "bytes \<Rightarrow> (parse_digest_error, bytes) result" where
  "parse_pairs (a # b # rest) =
     attempt (digit a) (\<lambda>h. attempt (digit b) (\<lambda>l.
     attempt (parse_pairs rest) (\<lambda>bs. Ok (char_of (push_bit 4 h OR l) # bs))))"
| "parse_pairs _ = Ok []"

definition strip_prefix :: "bytes \<Rightarrow> bytes \<Rightarrow> bytes option" where
  "strip_prefix p s = (if take (length p) s = p then Some (drop (length p) s) else None)"

definition digest_from_str :: "bytes \<Rightarrow> (parse_digest_error, digest) result" where
  "digest_from_str s =
     attempt (ok_or InvalidPrefix (strip_prefix digest_prefix s)) (\<lambda>hex.
     if length hex \<noteq> 64 then Err InvalidLength
     else attempt (parse_pairs hex) (\<lambda>bs. Ok (Digest bs)))"

instantiation digest :: linorder
begin

definition less_eq_digest :: "digest \<Rightarrow> digest \<Rightarrow> bool" where
  "less_eq_digest a b \<longleftrightarrow> as_bytes a \<le> as_bytes b"

definition less_digest :: "digest \<Rightarrow> digest \<Rightarrow> bool" where
  "less_digest a b \<longleftrightarrow> as_bytes a < as_bytes b"

instance
  by standard (auto simp: less_eq_digest_def less_digest_def intro: digest.expand)

end

section \<open>Hashing\<close>

definition hash_bytes :: "(bytes \<Rightarrow> bytes) \<Rightarrow> bytes \<Rightarrow> digest" where
  "hash_bytes sha bs = Digest (sha bs)"

definition hash_cbor :: "(bytes \<Rightarrow> bytes) \<Rightarrow> cbor2 \<Rightarrow> value \<Rightarrow> limits \<Rightarrow> (cbor_error, digest) result" where
  "hash_cbor sha b v lim = attempt (encode b lim v) (\<lambda>bs. Ok (hash_bytes sha bs))"

datatype record_kind = KScope | KNode | KTemplate | KBinding | KServer

definition record_prefix :: "record_kind \<Rightarrow> bytes" where
  "record_prefix k =
     (case k of
        KScope \<Rightarrow> ''htlk.scope/0.1'' | KNode \<Rightarrow> ''htlk.node/0.1'' | KTemplate \<Rightarrow> ''htlk.template/0.1''
      | KBinding \<Rightarrow> ''htlk.binding/0.1'' | KServer \<Rightarrow> ''htlk.server/0.1'') @ [CHR 0x0A]"

text \<open>What \<open>record_digest\<close> feeds to the hash, in two \<open>update\<close> calls.\<close>

definition record_preimage :: "cbor2 \<Rightarrow> record_kind \<Rightarrow> value \<Rightarrow> limits \<Rightarrow> (cbor_error, bytes) result" where
  "record_preimage b k v lim = attempt (encode b lim v) (\<lambda>bs. Ok (record_prefix k @ bs))"

definition record_digest ::
  "(bytes \<Rightarrow> bytes) \<Rightarrow> cbor2 \<Rightarrow> record_kind \<Rightarrow> value \<Rightarrow> limits \<Rightarrow> (cbor_error, digest) result" where
  "record_digest sha b k v lim = attempt (record_preimage b k v lim) (\<lambda>bs. Ok (Digest (sha bs)))"

section \<open>Text form\<close>

lemma or_push_bit_4: "l < 16 \<Longrightarrow> push_bit 4 h OR l = 16 * h + (l::nat)"
  using or_push_bit [of l 4 h] by (simp add: or.commute)

lemma digit_hex_digit [simp]: "n < 16 \<Longrightarrow> digit (hex_digit n) = Ok n"
  by (auto simp: digit_def hex_digit_def char_le_iff)

lemma digit_Ok: "digit c = Ok n \<longleftrightarrow> n < 16 \<and> c = hex_digit n"
proof
  assume a: "digit c = Ok n"
  have "c = char_of (of_char c :: nat)" by simp
  then show "n < 16 \<and> c = hex_digit n"
    using a by (auto simp: digit_def hex_digit_def char_le_iff split: if_splits)
qed auto

lemma parse_pairs_hex: "parse_pairs (concat (map hex_byte bs)) = Ok bs"
proof (induction bs)
  case (Cons c bs)
  have d: "(of_char c :: nat) div 16 < 16" using of_char_less_256 [of c] by (simp add: less_mult_imp_div_less)
  have "char_of (16 * (of_char c div 16) + of_char c mod 16 :: nat) = c"
    by (simp only: mult_div_mod_eq char_of_char)
  then show ?case using Cons d by (simp add: hex_byte_def or_push_bit_4)
qed simp

lemma parse_pairs_Ok:
  "parse_pairs s = Ok bs \<Longrightarrow> even (length s) \<Longrightarrow> s = concat (map hex_byte bs) \<and> length s = 2 * length bs"
proof (induction s arbitrary: bs rule: parse_pairs.induct)
  case (1 a b rest)
  obtain h l cs where d: "digit a = Ok h" "digit b = Ok l" and r: "parse_pairs rest = Ok cs"
    and bs: "bs = char_of (push_bit 4 h OR l) # cs"
    using "1.prems"(1) by auto
  have hl: "h < 16" "l < 16" "a = hex_digit h" "b = hex_digit l"
    using d by (simp_all add: digit_Ok)
  have n: "(of_char (char_of (16 * h + l)) :: nat) = 16 * h + l" using hl by simp
  have "hex_byte (char_of (push_bit 4 h OR l)) = [a, b]"
    using hl by (simp add: hex_byte_def or_push_bit_4 n)
  then show ?case
    using "1.IH" [OF d r] "1.prems"(2) by (auto simp: bs)
qed (auto simp: attempt_def)

lemma length_hex: "length (concat (map hex_byte bs)) = 2 * length bs"
  by (induction bs) (auto simp: hex_byte_def)

lemma digest_from_str_display:
  "wf_digest d \<Longrightarrow> digest_from_str (digest_display d) = Ok d"
  by (cases d) (simp add: digest_from_str_def digest_display_def strip_prefix_def wf_digest_def
      length_hex parse_pairs_hex)

lemma strip_prefix_Some: "strip_prefix p s = Some r \<longleftrightarrow> s = p @ r"
  unfolding strip_prefix_def by (auto simp: append_eq_conv_conj) (metis append_take_drop_id)

lemma digest_from_str_Ok:
  assumes "digest_from_str s = Ok d"
  shows "wf_digest d \<and> s = digest_display d"
proof -
  obtain hex bs where h: "s = digest_prefix @ hex" "length hex = 64" "parse_pairs hex = Ok bs" "d = Digest bs"
    using assms by (auto simp: digest_from_str_def strip_prefix_Some split: if_splits)
  then show ?thesis
    using parse_pairs_Ok [OF h(3)] by (simp add: wf_digest_def digest_display_def)
qed

lemma digest_from_str_not_Panic: "digest_from_str s \<noteq> Panic"
proof -
  have "digit c \<noteq> Panic" for c by (auto simp: digit_def)
  then have "parse_pairs s \<noteq> Panic" for s
    by (induction s rule: parse_pairs.induct) (auto simp: attempt_eq_Panic)
  then show ?thesis by (auto simp: digest_from_str_def attempt_eq_Panic)
qed

lemma record_prefix_nl: "record_prefix k @ xs = record_prefix l @ ys \<Longrightarrow> k = l \<and> xs = ys"
  by (cases k; cases l) (simp_all add: record_prefix_def)

section \<open>Properties\<close>

text \<open>The digest text form is exact: parsing accepts precisely the displayed form of
  32-byte digests and returns that digest, so text and digest determine each other.\<close>

theorem digest_text_roundtrip:
  "digest_from_str s = Ok d \<longleftrightarrow> wf_digest d \<and> s = digest_display d"
  using digest_from_str_Ok digest_from_str_display by blast

text \<open>C29. Domain separation of record digests: two records whose hash preimages coincide
  are the same value under the same domain, whatever limits each was encoded under.\<close>

theorem record_preimage_injective:
  assumes "cbor2_documented b" "usize_limits l1" "usize_limits l2" "wf_value v" "wf_value w"
    and "record_preimage b k v l1 = Ok p" "record_preimage b k' w l2 = Ok p"
  shows "k = k' \<and> v = w"
proof -
  have pd: "push_documented b" using assms(1) by (simp add: cbor2_documented_def)
  note fin = assms(4,5) [THEN wf_value_finite_floats]
  have e: "encode b l1 v = Ok (canon b v)" "encode b l2 w = Ok (canon b w)"
    "p = record_prefix k @ canon b v" "p = record_prefix k' @ canon b w"
    using assms(6,7) by (auto simp: record_preimage_def encode_Ok_iff [OF pd assms(2) fin(1)]
        encode_Ok_iff [OF pd assms(3) fin(2)])
  then have kk: "k = k'" "canon b v = canon b w" using record_prefix_nl by blast+
  have d: "vdepth v \<le> max_supported_depth" "vdepth w \<le> max_supported_depth" "length (canon b v) < usize_bound"
    using e(1,2) assms(2) unfolding encode_Ok_iff [OF pd assms(2) fin(1)] encode_Ok_iff [OF pd assms(3) fin(2)]
    by (auto simp: usize_limits_def)
  show ?thesis using kk canon_inject [OF assms(1,4,5) kk(2) d] by simp
qed

theorem record_preimage_injective_witness:
  "record_preimage reference KNode sample_value default_limits = Ok (record_prefix KNode @ sample_bytes)"
proof -
  have w: "wf_value sample_value" by code_simp
  have p: "record_preimage reference KNode sample_value default_limits = Ok (record_prefix KNode @ sample_bytes)"
    by code_simp
  show ?thesis
    using p record_preimage_injective [OF reference_documented usize_default_limits usize_default_limits w w p p]
    by simp
qed

end
