(* ===== verification/Identifiers.thy ===== *)
theory Identifiers
  imports Prelude
begin

text \<open>
  \<open>identifier.rs\<close>: exact local names, the one-pass validator with its error offsets,
  and the regular language \<open>[a-z][a-z0-9]*(_[a-z0-9]+)*\<close> it decides.
\<close>

datatype ident = Ident (as_str: bytes)

datatype parse_identifier_error =
  IdentifierEmpty
| InvalidStart
| InvalidCharacter nat
| InvalidSeparator nat
| IdentifierAllocationFailed

definition is_ascii_lowercase :: "byte \<Rightarrow> bool" where
  "is_ascii_lowercase c \<longleftrightarrow> CHR ''a'' \<le> c \<and> c \<le> CHR ''z''"

definition is_ascii_digit :: "byte \<Rightarrow> bool" where
  "is_ascii_digit c \<longleftrightarrow> CHR ''0'' \<le> c \<and> c \<le> CHR ''9''"

definition name_char :: "byte \<Rightarrow> bool" where
  "name_char c \<longleftrightarrow> is_ascii_lowercase c \<or> is_ascii_digit c"

text \<open>The \<open>for\<close> loop of \<open>validate\<close>: offset of the next byte and the \<open>underscore\<close> flag.\<close>

fun validate_rest :: "nat \<Rightarrow> bool \<Rightarrow> bytes \<Rightarrow> (parse_identifier_error, bool) result" where
  "validate_rest offset underscore [] = Ok underscore"
| "validate_rest offset underscore (c # rest) =
     (if name_char c then validate_rest (offset + 1) False rest
      else if c = CHR ''_'' then
        (if underscore then Err (InvalidSeparator offset) else validate_rest (offset + 1) True rest)
      else Err (InvalidCharacter offset))"

definition identifier_validate :: "bytes \<Rightarrow> (parse_identifier_error, unit) result" where
  "identifier_validate s =
     (case s of
        [] \<Rightarrow> Err IdentifierEmpty
      | first # rest \<Rightarrow>
          if \<not> is_ascii_lowercase first then Err InvalidStart
          else attempt (validate_rest 1 False rest) (\<lambda>underscore.
            if underscore then Err (InvalidSeparator (length s - 1)) else Ok ()))"

definition identifier_new :: "bytes \<Rightarrow> (parse_identifier_error, ident) result" where
  "identifier_new s = attempt (identifier_validate s) (\<lambda>_. Ok (Ident s))"

text \<open>The derived \<open>Ord\<close> is the order of the stored string.\<close>

instantiation ident :: linorder
begin

definition less_eq_ident :: "ident \<Rightarrow> ident \<Rightarrow> bool" where
  "less_eq_ident a b \<longleftrightarrow> as_str a \<le> as_str b"

definition less_ident :: "ident \<Rightarrow> ident \<Rightarrow> bool" where
  "less_ident a b \<longleftrightarrow> as_str a < as_str b"

instance
  by standard (auto simp: less_eq_ident_def less_ident_def intro: ident.expand)

end

section \<open>The language\<close>

text \<open>Words of letters and digits, joined by single underscores, the first one starting with
  a letter.\<close>

fun joined :: "bytes list \<Rightarrow> bytes" where
  "joined [] = []"
| "joined [w] = w"
| "joined (w # ws) = w @ CHR ''_'' # joined ws"

definition name_word :: "bytes \<Rightarrow> bool" where
  "name_word w \<longleftrightarrow> w \<noteq> [] \<and> (\<forall>c \<in> set w. name_char c)"

definition identifier_language :: "bytes \<Rightarrow> bool" where
  "identifier_language s \<longleftrightarrow>
     (\<exists>ws. ws \<noteq> [] \<and> (\<forall>w \<in> set ws. name_word w) \<and> s = joined ws \<and> is_ascii_lowercase (hd s))"

lemma name_char_not_underscore [simp]: "\<not> name_char CHR ''_''"
  by (simp add: name_char_def is_ascii_lowercase_def is_ascii_digit_def char_le_iff)

lemma name_char_neq_underscore: "name_char c \<Longrightarrow> c \<noteq> CHR ''_''"
  by auto

lemma lowercase_name_char: "is_ascii_lowercase c \<Longrightarrow> name_char c"
  by (simp add: name_char_def)

text \<open>What is left to read after a word character (\<open>u = False\<close>) or an underscore.\<close>

definition rest_language :: "bool \<Rightarrow> bytes \<Rightarrow> bool" where
  "rest_language u s \<longleftrightarrow>
     (\<exists>w ws. (\<forall>c \<in> set w. name_char c) \<and> (u \<longrightarrow> w \<noteq> []) \<and> (\<forall>w \<in> set ws. name_word w) \<and> s = joined (w # ws))"

lemma rest_language_Nil [simp]: "rest_language u [] \<longleftrightarrow> \<not> u"
proof -
  have "[] = joined (w # ws) \<longleftrightarrow> w = [] \<and> ws = []" for w ws by (cases ws) auto
  then show ?thesis by (auto simp: rest_language_def)
qed

lemma joined_Cons_char: "joined ((c # w) # ws) = c # joined (w # ws)"
  by (cases ws) auto

lemma joined_Nil_Cons: "joined ([] # ws) = (if ws = [] then [] else CHR ''_'' # joined ws)"
  by (cases ws) auto

lemma rest_language_Cons:
  "rest_language u (c # s) \<longleftrightarrow>
     (name_char c \<and> rest_language False s) \<or> (c = CHR ''_'' \<and> \<not> u \<and> rest_language True s)"
proof
  assume "rest_language u (c # s)"
  then obtain w ws where w: "\<forall>c \<in> set w. name_char c" "u \<longrightarrow> w \<noteq> []" "\<forall>w \<in> set ws. name_word w"
    "c # s = joined (w # ws)" by (auto simp: rest_language_def)
  show "(name_char c \<and> rest_language False s) \<or> (c = CHR ''_'' \<and> \<not> u \<and> rest_language True s)"
  proof (cases w)
    case Nil
    then have ws: "ws \<noteq> []" "c = CHR ''_''" "s = joined ws" "\<not> u"
      using w by (auto simp: joined_Nil_Cons split: if_splits)
    then obtain v vs where v: "ws = v # vs" by (cases ws) auto
    have "rest_language True s"
      unfolding rest_language_def
      by (rule exI [of _ v], rule exI [of _ vs]) (use w v ws in \<open>auto simp: name_word_def\<close>)
    then show ?thesis using ws by simp
  next
    case (Cons x xs)
    then have "x = c" "s = joined (xs # ws)" using w(4) by (auto simp: joined_Cons_char)
    moreover have "rest_language False s"
      unfolding rest_language_def
      by (rule exI [of _ xs], rule exI [of _ ws]) (use w Cons calculation in auto)
    ultimately show ?thesis using w(1) Cons by simp
  qed
next
  assume "(name_char c \<and> rest_language False s) \<or> (c = CHR ''_'' \<and> \<not> u \<and> rest_language True s)"
  then show "rest_language u (c # s)"
  proof
    assume "name_char c \<and> rest_language False s"
    then obtain w ws where "\<forall>c \<in> set w. name_char c" "\<forall>w \<in> set ws. name_word w" "s = joined (w # ws)" "name_char c"
      by (auto simp: rest_language_def)
    then show ?thesis
      unfolding rest_language_def
      by (intro exI [of _ "c # w"] exI [of _ ws]) (auto simp: joined_Cons_char)
  next
    assume a: "c = CHR ''_'' \<and> \<not> u \<and> rest_language True s"
    then obtain w ws where "name_word w" "\<forall>w \<in> set ws. name_word w" "s = joined (w # ws)"
      by (auto simp: rest_language_def name_word_def)
    then show ?thesis
      unfolding rest_language_def
      by (intro exI [of _ "[]"] exI [of _ "w # ws"]) (use a in auto)
  qed
qed

lemma validate_rest_language:
  "validate_rest n u s = Ok False \<longleftrightarrow> rest_language u s"
  by (induction n u s rule: validate_rest.induct) (auto simp: rest_language_Cons)

lemma identifier_language_Cons:
  "identifier_language (c # s) \<longleftrightarrow> is_ascii_lowercase c \<and> rest_language False s"
proof
  assume "identifier_language (c # s)"
  then obtain ws where ws: "ws \<noteq> []" "\<forall>w \<in> set ws. name_word w" "c # s = joined ws" "is_ascii_lowercase c"
    by (auto simp: identifier_language_def)
  then obtain x xs vs where v: "ws = (x # xs) # vs" by (cases ws) (auto simp: name_word_def neq_Nil_conv)
  have "s = joined (xs # vs)" using ws(3) by (simp add: v joined_Cons_char)
  moreover have "\<forall>c \<in> set xs. name_char c" "\<forall>w \<in> set vs. name_word w"
    using ws(2) by (auto simp: v name_word_def)
  ultimately show "is_ascii_lowercase c \<and> rest_language False s"
    using ws(4) by (auto simp: rest_language_def)
next
  assume a: "is_ascii_lowercase c \<and> rest_language False s"
  then obtain w ws where "\<forall>c \<in> set w. name_char c" "\<forall>w \<in> set ws. name_word w" "s = joined (w # ws)"
    by (auto simp: rest_language_def)
  then show "identifier_language (c # s)"
    unfolding identifier_language_def
    by (intro exI [of _ "(c # w) # ws"])
      (use a in \<open>auto simp: joined_Cons_char name_word_def lowercase_name_char\<close>)
qed

lemma validate_rest_not_Panic [simp]: "validate_rest n u s \<noteq> Panic"
  by (induction n u s rule: validate_rest.induct) auto

text \<open>Every error points at the first byte that no name continues with.\<close>

definition allowed_at :: "bytes \<Rightarrow> nat \<Rightarrow> bool" where
  "allowed_at s k \<longleftrightarrow> name_char (s ! k) \<or> (s ! k = CHR ''_'' \<and> s ! (k - 1) \<noteq> CHR ''_'')"

lemma validate_rest_error:
  assumes "validate_rest (length pre) u s = Err e" "pre \<noteq> []" "u \<longleftrightarrow> last pre = CHR ''_''"
  shows "\<exists>k. length pre \<le> k \<and> k < length (pre @ s) \<and> \<not> allowed_at (pre @ s) k \<and>
    (\<forall>j. length pre \<le> j \<longrightarrow> j < k \<longrightarrow> allowed_at (pre @ s) j) \<and>
    e = (if (pre @ s) ! k = CHR ''_'' then InvalidSeparator k else InvalidCharacter k)"
  using assms
proof (induction s arbitrary: pre u)
  case (Cons c s)
  have at: "(pre @ c # s) ! length pre = c" "(pre @ c # s) ! (length pre - Suc 0) = last pre"
    using Cons.prems(2) by (auto simp: nth_append last_conv_nth)
  show ?case
  proof (cases "name_char c \<or> (c = CHR ''_'' \<and> \<not> u)")
    case True
    have ok: "allowed_at (pre @ c # s) (length pre)"
      using True Cons.prems(3) by (auto simp: allowed_at_def at)
    have "validate_rest (length (pre @ [c])) (c = CHR ''_'') s = Err e"
      using Cons.prems(1) True by (auto dest: name_char_neq_underscore split: if_splits)
    from Cons.IH [OF this] obtain k where k: "length (pre @ [c]) \<le> k" "k < length (pre @ c # s)"
      "\<not> allowed_at (pre @ c # s) k" "\<forall>j. length (pre @ [c]) \<le> j \<longrightarrow> j < k \<longrightarrow> allowed_at (pre @ c # s) j"
      "e = (if (pre @ c # s) ! k = CHR ''_'' then InvalidSeparator k else InvalidCharacter k)"
      by auto
    have "allowed_at (pre @ c # s) j" if "length pre \<le> j" "j < k" for j
      using k(4) that ok by (cases "j = length pre") auto
    then show ?thesis using k by (intro exI [of _ k]) auto
  next
    case False
    then have "e = (if c = CHR ''_'' then InvalidSeparator (length pre) else InvalidCharacter (length pre))"
      using Cons.prems(1) by (auto split: if_splits)
    moreover have "\<not> allowed_at (pre @ c # s) (length pre)"
      using False Cons.prems(3) by (auto simp: allowed_at_def at)
    ultimately show ?thesis by (intro exI [of _ "length pre"]) (auto simp: at)
  qed
qed simp

lemma validate_rest_ok:
  assumes "validate_rest (length pre) u s = Ok v" "pre \<noteq> []" "u \<longleftrightarrow> last pre = CHR ''_''"
  shows "(\<forall>j. length pre \<le> j \<longrightarrow> j < length (pre @ s) \<longrightarrow> allowed_at (pre @ s) j) \<and>
    (v \<longleftrightarrow> last (pre @ s) = CHR ''_'')"
  using assms
proof (induction s arbitrary: pre u)
  case (Cons c s)
  have at: "(pre @ c # s) ! length pre = c" "(pre @ c # s) ! (length pre - Suc 0) = last pre"
    using Cons.prems(2) by (auto simp: nth_append last_conv_nth)
  have c: "name_char c \<or> (c = CHR ''_'' \<and> \<not> u)"
    using Cons.prems(1) by (auto split: if_splits)
  have ok: "allowed_at (pre @ c # s) (length pre)"
    using c Cons.prems(3) by (auto simp: allowed_at_def at)
  have "validate_rest (length (pre @ [c])) (c = CHR ''_'') s = Ok v"
    using Cons.prems(1) c by (auto dest: name_char_neq_underscore split: if_splits)
  from Cons.IH [OF this]
  have IH: "\<forall>j. length (pre @ [c]) \<le> j \<longrightarrow> j < length (pre @ c # s) \<longrightarrow> allowed_at (pre @ c # s) j"
    "v \<longleftrightarrow> last (pre @ c # s) = CHR ''_''" by auto
  then have "allowed_at (pre @ c # s) j" if "length pre \<le> j" "j < length (pre @ c # s)" for j
    using that ok by (cases "j = length pre") auto
  then show ?case using IH(2) by blast
qed simp

section \<open>Properties\<close>

text \<open>C32. \<open>Identifier::new\<close> decides exactly the language
  \<open>[a-z][a-z0-9]*(_[a-z0-9]+)*\<close> and keeps the submitted spelling.\<close>

theorem identifier_new_language:
  "identifier_new s = Ok i \<longleftrightarrow> i = Ident s \<and> identifier_language s"
proof (cases s)
  case Nil
  have "joined ws \<noteq> []" if "ws \<noteq> []" "\<forall>w \<in> set ws. name_word w" for ws
    using that by (cases ws rule: joined.cases) (auto simp: name_word_def)
  then have "\<not> identifier_language []"
    unfolding identifier_language_def by metis
  then show ?thesis
    using Nil by (simp add: identifier_new_def identifier_validate_def)
next
  case (Cons c r)
  show ?thesis
    by (cases "validate_rest 1 False r")
      (auto simp: Cons identifier_new_def identifier_validate_def identifier_language_Cons
        simp flip: validate_rest_language [of 1])
qed

text \<open>A rejected name is reported with its first offending byte: an offset inside the
  name where neither a letter or digit nor a single underscore stands, or the trailing
  underscore; everything between the first byte and that offset is well formed.\<close>

theorem identifier_error_offset:
  assumes "identifier_new s = Err e" "s \<noteq> []" "is_ascii_lowercase (hd s)"
  shows "\<exists>k. 0 < k \<and> k < length s \<and> (\<forall>j. 0 < j \<longrightarrow> j < k \<longrightarrow> allowed_at s j) \<and>
    (e = InvalidCharacter k \<and> \<not> name_char (s ! k) \<and> s ! k \<noteq> CHR ''_'' \<or>
     e = InvalidSeparator k \<and> s ! k = CHR ''_'' \<and> (s ! (k - 1) = CHR ''_'' \<or> Suc k = length s))"
proof -
  obtain c r where s: "s = c # r" using assms(2) by (cases s) auto
  have cs: "[c] @ r = s" by (simp add: s)
  have u: "False \<longleftrightarrow> last [c] = CHR ''_''"
    using assms(3) lowercase_name_char [of c] by (auto simp: s)
  show ?thesis
  proof (cases "validate_rest 1 False r")
    case (Ok v)
    have v: v and e: "e = InvalidSeparator (length s - 1)"
      using assms(1,3) Ok by (auto simp: identifier_new_def identifier_validate_def s attempt_eq_Err split: if_splits)
    have "validate_rest (length [c]) False r = Ok v" using Ok by simp
    from validate_rest_ok [OF this _ u, unfolded cs]
    have ok: "\<forall>j. length [c] \<le> j \<longrightarrow> j < length s \<longrightarrow> allowed_at s j" and l: "last s = CHR ''_''"
      using v by simp_all
    have "r \<noteq> []" using l u by (auto simp: s)
    then have "0 < length r" "s ! length r = CHR ''_''" "length s = Suc (length r)"
      using l by (simp_all add: s last_conv_nth)
    then show ?thesis
      using e ok by (intro exI [of _ "length r"]) simp
  next
    case (Err e')
    then have ee: "e = e'"
      using assms(1,3) by (auto simp: identifier_new_def identifier_validate_def s attempt_eq_Err)
    have "validate_rest (length [c]) False r = Err e" using Err ee by simp
    from validate_rest_error [OF this _ u, unfolded cs]
    obtain k where k: "length [c] \<le> k" "k < length s" "\<not> allowed_at s k"
      "\<forall>j. length [c] \<le> j \<longrightarrow> j < k \<longrightarrow> allowed_at s j"
      "e = (if s ! k = CHR ''_'' then InvalidSeparator k else InvalidCharacter k)"
      by blast
    show ?thesis
    proof (intro exI [of _ k] conjI)
      show "e = InvalidCharacter k \<and> \<not> name_char (s ! k) \<and> s ! k \<noteq> CHR ''_'' \<or>
        e = InvalidSeparator k \<and> s ! k = CHR ''_'' \<and> (s ! (k - 1) = CHR ''_'' \<or> Suc k = length s)"
        using k(3,5) unfolding allowed_at_def by (cases "s ! k = CHR ''_''") simp_all
    qed (use k in simp_all)
  qed simp
qed

theorem identifier_error_offset_witness:
  "identifier_new ''ab__c'' = Err (InvalidSeparator 3) \<and> (''ab__c'' :: bytes) ! 3 = CHR ''_''"
proof -
  have e: "identifier_new ''ab__c'' = Err (InvalidSeparator 3)" by code_simp
  have h: "is_ascii_lowercase (hd ''ab__c'')" by code_simp
  show ?thesis using e identifier_error_offset [OF e _ h] by auto
qed

end
