(* ===== verification/Types.thy ===== *)
theory Types
  imports Record_Codec Digests Identifiers
begin

text \<open>
  Type descriptions and ports, \<open>types/mod.rs\<close> and \<open>types/wire.rs\<close>: the builder that
  converts a type to a bounded CBOR value, the canonical parser and the normalising
  constructor. A \<open>ValueType\<close> is its kind, so one datatype models both.
\<close>

section \<open>Data\<close>

datatype type_context = ContextValue | ContextSignature

datatype builtin_type =
  BString | BInteger | BFloat | BBoolean | BNull | BBytes | BJson | BRegex
| BMcpResourceResult | BMcpPromptResult | BMcpToolResult | BError

definition builtin_as_str :: "builtin_type \<Rightarrow> bytes" where
  "builtin_as_str x =
     (case x of
        BString \<Rightarrow> ''string'' | BInteger \<Rightarrow> ''integer'' | BFloat \<Rightarrow> ''float'' | BBoolean \<Rightarrow> ''boolean''
      | BNull \<Rightarrow> ''null'' | BBytes \<Rightarrow> ''bytes'' | BJson \<Rightarrow> ''json'' | BRegex \<Rightarrow> ''regex''
      | BMcpResourceResult \<Rightarrow> ''McpResourceResult'' | BMcpPromptResult \<Rightarrow> ''McpPromptResult''
      | BMcpToolResult \<Rightarrow> ''McpToolResult'' | BError \<Rightarrow> ''Error'')"

datatype 'a port = Port (port_type: 'a) (port_required: bool)

datatype value_type =
  TBuiltin builtin_type
| TList value_type
| TMap value_type
| TRecord "(bytes \<times> value_type port) list"
| TUnion "value_type list"
| TEnum "bytes list"
| TSchema digest
| TVar ident
| TFunction "value_type port list" "value_type port"

type_synonym vport = "value_type port"

datatype type_error =
  TyCodec cbor_error
| TyInvalidShape bytes
| TyUnknownBuiltin
| TyUnknownConstructor
| TyUnknownPortField
| TyMissingPortField bytes
| TyUnionCardinality
| TyEmptyEnum
| TyDuplicateEnumMember
| TyNonCanonical bytes
| TySignatureOnly bytes
| TyIdentifier parse_identifier_error
| TyDigest parse_digest_error
| TyLimitExceeded limit_kind nat
| TyAllocationFailed

definition builtin_parse :: "bytes \<Rightarrow> (type_error, builtin_type) result" where
  "builtin_parse s =
     (if s = ''string'' then Ok BString else if s = ''integer'' then Ok BInteger
      else if s = ''float'' then Ok BFloat else if s = ''boolean'' then Ok BBoolean
      else if s = ''null'' then Ok BNull else if s = ''bytes'' then Ok BBytes
      else if s = ''json'' then Ok BJson else if s = ''regex'' then Ok BRegex
      else if s = ''McpResourceResult'' then Ok BMcpResourceResult
      else if s = ''McpPromptResult'' then Ok BMcpPromptResult
      else if s = ''McpToolResult'' then Ok BMcpToolResult
      else if s = ''Error'' then Ok BError else Err TyUnknownBuiltin)"

text \<open>\<open>impl From<EncodingLimitError>\<close>\<close>

definition ty_limit :: "encoding_limit_error \<Rightarrow> type_error" where
  "ty_limit e = TyLimitExceeded (acc_limit e) (acc_maximum e)"

definition signature_only :: "type_context \<Rightarrow> bytes \<Rightarrow> (type_error, unit) result" where
  "signature_only ctx tag = (if ctx = ContextValue then Err (TySignatureOnly tag) else Ok ())"

section \<open>The builder\<close>

text \<open>Each method takes the running charge and returns the new one beside its value.\<close>

definition b_collection :: "limits \<Rightarrow> nat \<Rightarrow> nat \<Rightarrow> nat \<Rightarrow> (type_error, nat) result" where
  "b_collection lim len depth n = map_err ty_limit (acc_collection lim len depth n)"

definition b_string :: "limits \<Rightarrow> bytes \<Rightarrow> nat \<Rightarrow> nat \<Rightarrow> (type_error, bytes \<times> nat) result" where
  "b_string lim s depth n = attempt (map_err ty_limit (acc_text lim s depth n)) (\<lambda>n'. Ok (s, n'))"

definition b_text :: "limits \<Rightarrow> bytes \<Rightarrow> nat \<Rightarrow> nat \<Rightarrow> (type_error, value \<times> nat) result" where
  "b_text lim s depth n = attempt (b_string lim s depth n) (\<lambda>(t, n'). Ok (VText t, n'))"

definition b_tagged :: "limits \<Rightarrow> bytes \<Rightarrow> nat \<Rightarrow> nat \<Rightarrow> nat \<Rightarrow> (type_error, value list \<times> nat) result" where
  "b_tagged lim tag len depth n =
     attempt (b_collection lim len depth n) (\<lambda>n1.
     attempt (b_text lim tag (depth + 1) n1) (\<lambda>(v, n2). Ok ([v], n2)))"

definition b_port ::
  "(value_type \<Rightarrow> nat \<Rightarrow> nat \<Rightarrow> (type_error, value \<times> nat) result) \<Rightarrow> limits \<Rightarrow> vport \<Rightarrow> nat \<Rightarrow> nat \<Rightarrow>
    (type_error, value \<times> nat) result" where
  "b_port ty lim p depth n =
     attempt (b_collection lim 2 depth n) (\<lambda>n1.
     attempt (b_string lim ''type'' (depth + 1) n1) (\<lambda>(ty_key, n2).
     attempt (ty (port_type p) (depth + 1) n2) (\<lambda>(t, n3).
     attempt (b_string lim ''required'' (depth + 1) n3) (\<lambda>(required_key, n4).
     attempt (map_err ty_limit (acc_boolean lim (depth + 1) n4)) (\<lambda>n5.
     attempt (map_err TyCodec (map_try_from_entries
       [(ty_key, t), (required_key, VBool (port_required p))])) (\<lambda>m. Ok (VMap m, n5)))))))"

definition b_record ::
  "(value_type \<Rightarrow> nat \<Rightarrow> nat \<Rightarrow> (type_error, value \<times> nat) result) \<Rightarrow> limits \<Rightarrow> (bytes \<times> vport) list \<Rightarrow>
    nat \<Rightarrow> nat \<Rightarrow> (type_error, value \<times> nat) result" where
  "b_record ty lim fs depth n =
     attempt (b_tagged lim ''record'' 2 depth n) (\<lambda>(vs, n1).
     attempt (b_collection lim (length fs) (depth + 1) n1) (\<lambda>n2.
     attempt (fold_collect (\<lambda>(name, p) k.
         attempt (b_string lim name (depth + 2) k) (\<lambda>(key, k1).
         attempt (b_port ty lim p (depth + 2) k1) (\<lambda>(v, k2). Ok ((key, v), k2)))) fs n2) (\<lambda>(entries, n3).
     attempt (map_err TyCodec (map_try_from_entries entries)) (\<lambda>m. Ok (VArray (vs @ [VMap m]), n3)))))"

definition b_union ::
  "(value_type \<Rightarrow> nat \<Rightarrow> nat \<Rightarrow> (type_error, value \<times> nat) result) \<Rightarrow> limits \<Rightarrow> value_type list \<Rightarrow>
    nat \<Rightarrow> nat \<Rightarrow> (type_error, value \<times> nat) result" where
  "b_union ty lim members depth n =
     attempt (b_tagged lim ''union'' 2 depth n) (\<lambda>(vs, n1).
     attempt (b_collection lim (length members) (depth + 1) n1) (\<lambda>n2.
     attempt (fold_collect (\<lambda>member. ty member (depth + 2)) members n2) (\<lambda>(children, n3).
     Ok (VArray (vs @ [VArray children]), n3))))"

definition b_enumeration :: "limits \<Rightarrow> bytes list \<Rightarrow> nat \<Rightarrow> nat \<Rightarrow> (type_error, value \<times> nat) result" where
  "b_enumeration lim members depth n =
     attempt (b_tagged lim ''enum'' 2 depth n) (\<lambda>(vs, n1).
     attempt (b_collection lim (length members) (depth + 1) n1) (\<lambda>n2.
     attempt (fold_collect (\<lambda>member. b_text lim member (depth + 2)) members n2) (\<lambda>(children, n3).
     Ok (VArray (vs @ [VArray children]), n3))))"

definition b_function ::
  "(value_type \<Rightarrow> nat \<Rightarrow> nat \<Rightarrow> (type_error, value \<times> nat) result) \<Rightarrow> type_context \<Rightarrow> limits \<Rightarrow> vport list \<Rightarrow> vport \<Rightarrow>
    nat \<Rightarrow> nat \<Rightarrow> (type_error, value \<times> nat) result" where
  "b_function ty ctx lim parameters returns depth n =
     attempt (signature_only ctx ''function'') (\<lambda>_.
     attempt (b_tagged lim ''function'' 3 depth n) (\<lambda>(vs, n1).
     attempt (b_collection lim (length parameters) (depth + 1) n1) (\<lambda>n2.
     attempt (fold_collect (\<lambda>p. b_port ty lim p (depth + 2)) parameters n2) (\<lambda>(params, n3).
     attempt (b_port ty lim returns (depth + 1) n3) (\<lambda>(ret, n4).
     Ok (VArray (vs @ [VArray params, ret]), n4))))))"

lemma b_port_cong [fundef_cong]:
  assumes "p = q" "lim = lim'" "d = d'" "n = n'" and "\<And>k. ty (port_type q) (d' + 1) k = ty' (port_type q) (d' + 1) k"
  shows "b_port ty lim p d n = b_port ty' lim' q d' n'"
  using assms by (simp add: b_port_def)

lemma b_record_cong [fundef_cong]:
  assumes "fs = gs" "lim = lim'" "d = d'" "n = n'"
    and "\<And>f e k. f \<in> set gs \<Longrightarrow> ty (port_type (snd f)) e k = ty' (port_type (snd f)) e k"
  shows "b_record ty lim fs d n = b_record ty' lim' gs d' n'"
  unfolding assms(1-4) b_record_def
  by (intro attempt_cong refl, clarify, intro attempt_cong refl fold_collect_cong)
    (use assms(5) in \<open>auto intro!: attempt_cong b_port_cong\<close>)

lemma b_union_cong [fundef_cong]:
  assumes "ms = ms'" "lim = lim'" "d = d'" "n = n'" and "\<And>m e k. m \<in> set ms' \<Longrightarrow> ty m e k = ty' m e k"
  shows "b_union ty lim ms d n = b_union ty' lim' ms' d' n'"
  unfolding assms(1-4) b_union_def
  by (intro attempt_cong refl, clarify, intro attempt_cong refl fold_collect_cong) (use assms(5) in auto)

lemma b_function_cong [fundef_cong]:
  assumes "ps = qs" "r = r'" "ctx = ctx'" "lim = lim'" "d = d'" "n = n'"
    and "\<And>p e k. p \<in> set qs \<Longrightarrow> ty (port_type p) e k = ty' (port_type p) e k"
    and "\<And>e k. ty (port_type r') e k = ty' (port_type r') e k"
  shows "b_function ty ctx lim ps r d n = b_function ty' ctx' lim' qs r' d' n'"
proof -
  have r: "b_port ty lim' r' e k = b_port ty' lim' r' e k" for e k
    using assms(8) by (intro b_port_cong) simp_all
  have f: "fold_collect (\<lambda>p. b_port ty lim' p e) qs k = fold_collect (\<lambda>p. b_port ty' lim' p e) qs k" for e k
    using assms(7) by (intro fold_collect_cong b_port_cong) simp_all
  show ?thesis unfolding assms(1-6) b_function_def f r ..
qed

lemma size_record_port: "(name, p) \<in> set fs \<Longrightarrow> size (port_type p) < size_list (size_prod (\<lambda>_. 0) (size_port size)) fs"
  by (induction fs) (auto simp: port.size_gen split: port.splits, cases p, auto)

lemma size_param_port: "p \<in> set ps \<Longrightarrow> size (port_type p) < size_list (size_port size) ps"
  by (induction ps) (auto, cases p, auto)

lemma size_port_type: "size (port_type p) < size_port size p"
  by (cases p) simp

function (sequential) b_ty :: "type_context \<Rightarrow> limits \<Rightarrow> value_type \<Rightarrow> nat \<Rightarrow> nat \<Rightarrow> (type_error, value \<times> nat) result" where
  "b_ty ctx lim (TBuiltin x) depth n = b_text lim (builtin_as_str x) depth n"
| "b_ty ctx lim (TList child) depth n =
     attempt (b_tagged lim ''list'' 2 depth n) (\<lambda>(vs, n1).
     attempt (b_ty ctx lim child (depth + 1) n1) (\<lambda>(v, n2). Ok (VArray (vs @ [v]), n2)))"
| "b_ty ctx lim (TMap child) depth n =
     attempt (b_tagged lim ''map'' 2 depth n) (\<lambda>(vs, n1).
     attempt (b_ty ctx lim child (depth + 1) n1) (\<lambda>(v, n2). Ok (VArray (vs @ [v]), n2)))"
| "b_ty ctx lim (TRecord fs) depth n = b_record (b_ty ctx lim) lim fs depth n"
| "b_ty ctx lim (TUnion members) depth n = b_union (b_ty ctx lim) lim members depth n"
| "b_ty ctx lim (TEnum members) depth n = b_enumeration lim members depth n"
| "b_ty ctx lim (TSchema digest) depth n =
     attempt (b_tagged lim ''schema'' 2 depth n) (\<lambda>(vs, n1).
     attempt (b_text lim (digest_display digest) (depth + 1) n1) (\<lambda>(v, n2). Ok (VArray (vs @ [v]), n2)))"
| "b_ty ctx lim (TVar name) depth n =
     attempt (signature_only ctx ''var'') (\<lambda>_.
     attempt (b_tagged lim ''var'' 2 depth n) (\<lambda>(vs, n1).
     attempt (b_text lim (as_str name) (depth + 1) n1) (\<lambda>(v, n2). Ok (VArray (vs @ [v]), n2))))"
| "b_ty ctx lim (TFunction parameters returns) depth n = b_function (b_ty ctx lim) ctx lim parameters returns depth n"
  by pat_completeness auto
termination
  by (relation "measure (\<lambda>(ctx, lim, t, d, n). size t)")
    (auto simp: less_Suc_eq_le size_list_estimation' dest: size_record_port size_param_port
      intro: le_less_trans less_imp_le less_le_trans [OF size_port_type] order.trans [OF less_imp_le [OF size_port_type]])

definition type_value :: "type_context \<Rightarrow> limits \<Rightarrow> value_type \<Rightarrow> (type_error, value) result" where
  "type_value ctx lim t =
     attempt (map_err TyCodec (acc_new lim)) (\<lambda>n.
     attempt (b_ty ctx lim t 0 n) (\<lambda>(v, _). Ok v))"

definition port_value :: "type_context \<Rightarrow> limits \<Rightarrow> vport \<Rightarrow> (type_error, value) result" where
  "port_value ctx lim p =
     attempt (map_err TyCodec (acc_new lim)) (\<lambda>n.
     attempt (b_port (b_ty ctx lim) lim p 0 n) (\<lambda>(v, _). Ok v))"

definition value_type_encode :: "cbor2 \<Rightarrow> type_context \<Rightarrow> limits \<Rightarrow> value_type \<Rightarrow> (type_error, bytes) result" where
  "value_type_encode b ctx = record_encode b TyCodec (type_value ctx)"

section \<open>The parser\<close>

definition ty_array :: "value \<Rightarrow> bytes \<Rightarrow> (type_error, value list) result" where
  "ty_array v site = (case v of VArray vs \<Rightarrow> Ok vs | _ \<Rightarrow> Err (TyInvalidShape site))"

definition ty_text :: "value \<Rightarrow> bytes \<Rightarrow> (type_error, bytes) result" where
  "ty_text v site = (case v of VText s \<Rightarrow> Ok s | _ \<Rightarrow> Err (TyInvalidShape site))"

definition parse_port_with :: "(value \<Rightarrow> (type_error, value_type) result) \<Rightarrow> value \<Rightarrow> (type_error, vport) result" where
  "parse_port_with pt v =
     (case v of
        VMap m \<Rightarrow>
          if \<exists>p \<in> set m. fst p \<noteq> ''type'' \<and> fst p \<noteq> ''required'' then Err TyUnknownPortField
          else attempt (fold_result (\<lambda>field _. case map_get m field of
              None \<Rightarrow> Err (TyMissingPortField field) | Some _ \<Rightarrow> Ok ()) [''required'', ''type''] ()) (\<lambda>_.
            case map_get m ''required'' of
              Some (VBool required) \<Rightarrow>
                (case map_get m ''type'' of
                   None \<Rightarrow> Panic
                 | Some t \<Rightarrow> attempt (pt t) (\<lambda>ty. Ok (Port ty required)))
            | _ \<Rightarrow> Err (TyInvalidShape ''required boolean''))
      | _ \<Rightarrow> Err (TyInvalidShape ''port record''))"

definition parse_record :: "(value \<Rightarrow> (type_error, value_type) result) \<Rightarrow> value \<Rightarrow> (type_error, value_type) result" where
  "parse_record pt v =
     (case v of
        VMap m \<Rightarrow>
          attempt (map_result (\<lambda>(name, port). attempt (parse_port_with pt port) (\<lambda>p. Ok (name, p))) m) (\<lambda>ports.
          Ok (TRecord ports))
      | _ \<Rightarrow> Err (TyInvalidShape ''record fields''))"

text \<open>The loop over \<open>members.windows(2)\<close>.\<close>

fun enum_pairs :: "bytes list \<Rightarrow> (type_error, unit) result" where
  "enum_pairs (a # b # r) =
     (if a = b then Err TyDuplicateEnumMember
      else if a > b then Err (TyNonCanonical ''enum UTF-8 ordering'') else enum_pairs (b # r))"
| "enum_pairs _ = Ok ()"

definition parse_enum :: "value \<Rightarrow> bool \<Rightarrow> (type_error, value_type) result" where
  "parse_enum v normal =
     attempt (ty_array v ''enum members'') (\<lambda>items.
     if items = [] then Err TyEmptyEnum
     else attempt (map_result (\<lambda>item. ty_text item ''enum member'') items) (\<lambda>members.
       let members' = (if normal then sort members else members) in
       attempt (enum_pairs members') (\<lambda>_. Ok (TEnum members'))))"

text \<open>\<open>dedup_by\<close> on the encoded bytes keeps the first of equal neighbours.\<close>

fun dedup_keyed :: "(bytes \<times> value_type) list \<Rightarrow> (bytes \<times> value_type) list" where
  "dedup_keyed (a # b # r) = (if fst a = fst b then dedup_keyed (a # r) else a # dedup_keyed (b # r))"
| "dedup_keyed r = r"

definition union_member :: "bool \<Rightarrow> value_type \<Rightarrow> (type_error, value_type list) result" where
  "union_member normal member =
     (case member of
        TUnion children \<Rightarrow> if normal then Ok children else Err (TyNonCanonical ''nested union'')
      | _ \<Rightarrow> Ok [member])"

definition parse_union ::
  "(value \<Rightarrow> (type_error, value_type) result) \<Rightarrow> cbor2 \<Rightarrow> type_context \<Rightarrow> limits \<Rightarrow> bool \<Rightarrow> value \<Rightarrow>
    (type_error, value_type) result" where
  "parse_union pt b ctx lim normal v =
     attempt (ty_array v ''union members'') (\<lambda>items.
     attempt (map_result (\<lambda>item. attempt (pt item) (union_member normal)) items) (\<lambda>members.
     attempt (map_result (\<lambda>member. attempt (value_type_encode b ctx lim member) (\<lambda>bs. Ok (bs, member)))
       (concat members)) (\<lambda>keyed.
     attempt (if normal then Ok (dedup_keyed (sort_key fst keyed))
       else if any_pair (\<lambda>x y. fst x \<ge> fst y) keyed then
         Err (TyNonCanonical ''union encoded-byte ordering/uniqueness'')
       else Ok keyed) (\<lambda>keyed'.
     if length keyed' < 2 then Err TyUnionCardinality else Ok (TUnion (map snd keyed'))))))"

definition parse_function ::
  "(value \<Rightarrow> (type_error, value_type) result) \<Rightarrow> type_context \<Rightarrow> value \<Rightarrow> value \<Rightarrow> (type_error, value_type) result" where
  "parse_function pt ctx params result =
     attempt (signature_only ctx ''function'') (\<lambda>_.
     attempt (ty_array params ''function parameters'') (\<lambda>items.
     attempt (map_result (parse_port_with pt) items) (\<lambda>parameters.
     attempt (parse_port_with pt result) (\<lambda>returns. Ok (TFunction parameters returns)))))"

definition expected_arity :: "bytes \<Rightarrow> (type_error, nat) result" where
  "expected_arity tag =
     (if tag \<in> {''list'', ''map'', ''record'', ''union'', ''enum'', ''schema'', ''var''} then Ok 2
      else if tag = ''function'' then Ok 3 else Err TyUnknownConstructor)"

lemma map_get_in: "map_get m k = Some v \<Longrightarrow> v \<in> snd ` set m"
  by (auto simp: map_get_def dest!: bsearch_Some intro!: imageI)

lemma parse_port_with_cong [fundef_cong]:
  assumes "v = w" and "\<And>m t. w = VMap m \<Longrightarrow> t \<in> snd ` set m \<Longrightarrow> f t = g t"
  shows "parse_port_with f v = parse_port_with g w"
proof -
  have "f t = g t" if "w = VMap m" "map_get m ''type'' = Some t" for m t
    using assms(2) [OF that(1) map_get_in [OF that(2)]] .
  then show ?thesis
    unfolding parse_port_with_def assms(1) by (auto split: value_splits option.splits)
qed

lemma parse_record_cong [fundef_cong]:
  assumes "v = w" and "\<And>m p m' t. w = VMap m \<Longrightarrow> p \<in> snd ` set m \<Longrightarrow> p = VMap m' \<Longrightarrow> t \<in> snd ` set m' \<Longrightarrow> f t = g t"
  shows "parse_record f v = parse_record g w"
proof -
  have "parse_port_with f p = parse_port_with g p" if "w = VMap m" "p \<in> snd ` set m" for m p
    using assms(2) that by (intro parse_port_with_cong) auto
  then show ?thesis
    unfolding parse_record_def assms(1)
    by (cases w) (auto intro!: attempt_cong map_result_cong, (metis snd_conv image_eqI))
qed

lemma parse_union_cong [fundef_cong]:
  assumes "b = b'" "ctx = ctx'" "lim = lim'" "normal = normal'" "v = w"
    and "\<And>vs t. w = VArray vs \<Longrightarrow> t \<in> set vs \<Longrightarrow> f t = g t"
  shows "parse_union f b ctx lim normal v = parse_union g b' ctx' lim' normal' w"
proof -
  have "map_result (\<lambda>item. attempt (f item) (union_member normal')) vs =
      map_result (\<lambda>item. attempt (g item) (union_member normal')) vs" if "w = VArray vs" for vs
    using assms(6) that by (intro map_result_cong) simp_all
  then show ?thesis
    unfolding parse_union_def assms(1-5) by (cases w) (simp_all add: ty_array_def)
qed

lemma parse_function_cong [fundef_cong]:
  assumes "ctx = ctx'" "v = w" "r = r'"
    and "\<And>vs p m t. w = VArray vs \<Longrightarrow> p \<in> set vs \<Longrightarrow> p = VMap m \<Longrightarrow> t \<in> snd ` set m \<Longrightarrow> f t = g t"
    and "\<And>m t. r' = VMap m \<Longrightarrow> t \<in> snd ` set m \<Longrightarrow> f t = g t"
  shows "parse_function f ctx v r = parse_function g ctx' w r'"
proof -
  have "map_result (parse_port_with f) vs = map_result (parse_port_with g) vs" if "w = VArray vs" for vs
    using assms(4) that by (intro map_result_cong parse_port_with_cong) simp_all
  moreover have "parse_port_with f r' = parse_port_with g r'"
    using assms(5) by (intro parse_port_with_cong) simp_all
  ultimately show ?thesis
    unfolding parse_function_def assms(1-3) by (cases w) (simp_all add: ty_array_def)
qed

lemma size_map_value: "t \<in> snd ` set m \<Longrightarrow> size t < Suc (size_list (size_prod (\<lambda>_. 0) size) m)"
proof -
  assume "t \<in> snd ` set m"
  then obtain p where p: "p \<in> set m" "t = snd p" by auto
  have "size_prod (\<lambda>_. 0) size p \<le> size_list (size_prod (\<lambda>_. 0) size) m"
    by (rule size_list_estimation' [OF p(1) order_refl])
  then show ?thesis by (cases p) (simp add: p(2))
qed

lemma size_nth: "i < length vs \<Longrightarrow> size (vs ! i) \<le> size_list size vs"
  by (rule size_list_estimation') auto

lemma size_in_map: "(k, t) \<in> set m \<Longrightarrow> size t < size (VMap m)"
  using size_map_value [of t m] by (simp add: rev_image_eqI)

lemma size_in_array: "t \<in> set ws \<Longrightarrow> size t < size (VArray ws)"
  using size_list_estimation' [of t ws "size t" size] by simp

lemma size_nth_map:
  assumes "vs ! i = VMap m" "(k, t) \<in> set m" "i < length vs"
  shows "size t < Suc (size_list size vs)"
  using size_nth [OF assms(3)] size_in_map [OF assms(2)] unfolding assms(1) by linarith

lemma size_nth_array:
  assumes "vs ! i = VArray ws" "t \<in> set ws" "i < length vs"
  shows "size t < Suc (size_list size vs)"
  using size_nth [OF assms(3)] size_in_array [OF assms(2)] unfolding assms(1) by linarith

lemma size_nth_map_map:
  assumes "vs ! i = VMap m" "(k, VMap m') \<in> set m" "(k', t) \<in> set m'" "i < length vs"
  shows "size t < Suc (size_list size vs)"
  using size_nth_map [OF assms(1,2,4)] size_in_map [OF assms(3)] by (rule less_trans [rotated])

lemma size_nth_array_map:
  assumes "vs ! i = VArray ws" "VMap m \<in> set ws" "(k, t) \<in> set m" "i < length vs"
  shows "size t < Suc (size_list size vs)"
  using size_nth_array [OF assms(1,2,4)] size_in_map [OF assms(3)] by (rule less_trans [rotated])

function parse_type ::
  "cbor2 \<Rightarrow> type_context \<Rightarrow> limits \<Rightarrow> bool \<Rightarrow> value \<Rightarrow> (type_error, value_type) result" where
  "parse_type b ctx lim normal v =
     (case v of
        VText name \<Rightarrow> attempt (builtin_parse name) (\<lambda>x. Ok (TBuiltin x))
      | VArray values \<Rightarrow>
          if values = [] then Err (TyInvalidShape ''type constructor'')
          else attempt (ty_text (values ! 0) ''type constructor'') (\<lambda>tag.
            attempt (expected_arity tag) (\<lambda>expected.
            if length values \<noteq> expected then Err (TyInvalidShape ''constructor arity'')
            else if tag = ''list'' then
              attempt (parse_type b ctx lim normal (values ! 1)) (\<lambda>child. Ok (TList child))
            else if tag = ''map'' then
              attempt (parse_type b ctx lim normal (values ! 1)) (\<lambda>child. Ok (TMap child))
            else if tag = ''record'' then parse_record (parse_type b ctx lim normal) (values ! 1)
            else if tag = ''enum'' then parse_enum (values ! 1) normal
            else if tag = ''union'' then parse_union (parse_type b ctx lim normal) b ctx lim normal (values ! 1)
            else if tag = ''schema'' then
              attempt (ty_text (values ! 1) ''schema digest'') (\<lambda>s.
              attempt (map_err TyDigest (digest_from_str s)) (\<lambda>d. Ok (TSchema d)))
            else if tag = ''var'' then
              attempt (signature_only ctx ''var'') (\<lambda>_.
              attempt (ty_text (values ! 1) ''type variable'') (\<lambda>s.
              attempt (map_err TyIdentifier (identifier_new s)) (\<lambda>i. Ok (TVar i))))
            else if tag = ''function'' then
              parse_function (parse_type b ctx lim normal) ctx (values ! 1) (values ! 2)
            else Panic))
      | _ \<Rightarrow> Err (TyInvalidShape ''type''))"
  by pat_completeness auto

termination
proof (relation "measure (\<lambda>(b, ctx, lim, normal, v). size v)", goal_cases)
qed (auto simp: expected_arity_def less_Suc_eq_le size_nth split: if_splits
    intro: size_nth_map size_nth_array size_nth_map_map size_nth_array_map
      size_nth_map [unfolded less_Suc_eq_le] size_nth_array [unfolded less_Suc_eq_le]
      size_nth_map_map [unfolded less_Suc_eq_le] size_nth_array_map [unfolded less_Suc_eq_le])

declare parse_type.simps [simp del]

definition parse_port :: "cbor2 \<Rightarrow> type_context \<Rightarrow> limits \<Rightarrow> bool \<Rightarrow> value \<Rightarrow> (type_error, vport) result" where
  "parse_port b ctx lim normal = parse_port_with (parse_type b ctx lim normal)"

section \<open>The public operations\<close>

definition value_type_new :: "cbor2 \<Rightarrow> value_type \<Rightarrow> type_context \<Rightarrow> limits \<Rightarrow> (type_error, value_type) result" where
  "value_type_new b kind ctx lim =
     attempt (type_value ctx lim kind) (\<lambda>v.
     attempt (parse_type b ctx lim True v) (\<lambda>r.
     attempt (type_value ctx lim r) (\<lambda>_. Ok r)))"

definition value_type_from_value :: "cbor2 \<Rightarrow> type_context \<Rightarrow> limits \<Rightarrow> value \<Rightarrow> (type_error, value_type) result" where
  "value_type_from_value b ctx = record_from_value b TyCodec (\<lambda>lim. parse_type b ctx lim False)"

definition value_type_decode :: "cbor2 \<Rightarrow> type_context \<Rightarrow> limits \<Rightarrow> bytes \<Rightarrow> (type_error, value_type) result" where
  "value_type_decode b ctx = record_decode b TyCodec (\<lambda>lim. parse_type b ctx lim False)"

definition port_from_value :: "cbor2 \<Rightarrow> type_context \<Rightarrow> limits \<Rightarrow> value \<Rightarrow> (type_error, vport) result" where
  "port_from_value b ctx = record_from_value b TyCodec (\<lambda>lim. parse_port b ctx lim False)"

definition port_encode :: "cbor2 \<Rightarrow> type_context \<Rightarrow> limits \<Rightarrow> vport \<Rightarrow> (type_error, bytes) result" where
  "port_encode b ctx = record_encode b TyCodec (port_value ctx)"

definition port_decode :: "cbor2 \<Rightarrow> type_context \<Rightarrow> limits \<Rightarrow> bytes \<Rightarrow> (type_error, vport) result" where
  "port_decode b ctx = record_decode b TyCodec (\<lambda>lim. parse_port b ctx lim False)"

end
