(* ===== verification/Type_Codec.thy ===== *)
theory Type_Codec
  imports Types
begin

text \<open>
  Correctness of the type records: \<open>type_wire\<close> is the value a type stands for, the
  builder produces exactly it within the limits, the canonical parser inverts it, and both
  make type descriptions and ports instances of the record interface.
\<close>

section \<open>The value of a type\<close>

definition port_wire :: "(value_type \<Rightarrow> value) \<Rightarrow> vport \<Rightarrow> value" where
  "port_wire f p = VMap [(''type'', f (port_type p)), (''required'', VBool (port_required p))]"

lemma port_wire_cong [fundef_cong]:
  "p = q \<Longrightarrow> f (port_type q) = g (port_type q) \<Longrightarrow> port_wire f p = port_wire g q"
  by (simp add: port_wire_def)

function (sequential) type_wire :: "value_type \<Rightarrow> value" where
  "type_wire (TBuiltin x) = VText (builtin_as_str x)"
| "type_wire (TList t) = VArray [VText ''list'', type_wire t]"
| "type_wire (TMap t) = VArray [VText ''map'', type_wire t]"
| "type_wire (TRecord fs) = VArray [VText ''record'',
     VMap (sort_key (\<lambda>p. canon_key (fst p)) (map (\<lambda>(name, p). (name, port_wire type_wire p)) fs))]"
| "type_wire (TUnion ms) = VArray [VText ''union'', VArray (map type_wire ms)]"
| "type_wire (TEnum ms) = VArray [VText ''enum'', VArray (map VText ms)]"
| "type_wire (TSchema d) = VArray [VText ''schema'', VText (digest_display d)]"
| "type_wire (TVar i) = VArray [VText ''var'', VText (as_str i)]"
| "type_wire (TFunction ps r) =
     VArray [VText ''function'', VArray (map (port_wire type_wire) ps), port_wire type_wire r]"
  by pat_completeness auto
termination
  by (relation "measure size")
    (auto simp: less_Suc_eq_le size_list_estimation' dest: size_record_port size_param_port
      intro: le_less_trans less_imp_le less_le_trans [OF size_port_type] order.trans [OF less_imp_le [OF size_port_type]])

text \<open>What the builder requires beyond the limits.\<close>

function (sequential) type_ok :: "type_context \<Rightarrow> value_type \<Rightarrow> bool" where
  "type_ok ctx (TList t) = type_ok ctx t"
| "type_ok ctx (TMap t) = type_ok ctx t"
| "type_ok ctx (TRecord fs) = (distinct (map fst fs) \<and> (\<forall>f \<in> set fs. type_ok ctx (port_type (snd f))))"
| "type_ok ctx (TUnion ms) = (\<forall>t \<in> set ms. type_ok ctx t)"
| "type_ok ctx (TVar i) = (ctx = ContextSignature)"
| "type_ok ctx (TFunction ps r) = (ctx = ContextSignature \<and>
     (\<forall>p \<in> set ps. type_ok ctx (port_type p)) \<and> type_ok ctx (port_type r))"
| "type_ok ctx _ = True"
  by pat_completeness auto
termination
  by (relation "measure (\<lambda>(ctx, t). size t)")
    (auto simp: less_Suc_eq_le size_list_estimation' dest: size_record_port size_param_port
      intro: le_less_trans less_imp_le less_le_trans [OF size_port_type] order.trans [OF less_imp_le [OF size_port_type]])

section \<open>The builder\<close>

text \<open>A builder step that charges exactly the encoding of the value it returns.\<close>

definition builds :: "cbor2 \<Rightarrow> limits \<Rightarrow> (nat \<Rightarrow> nat \<Rightarrow> ('e, value \<times> nat) result) \<Rightarrow> bool \<Rightarrow> value \<Rightarrow> bool" where
  "builds b lim f Q w \<longleftrightarrow> (\<forall>d n v k. f d n = Ok (v, k) \<longleftrightarrow> Q \<and> v = w \<and> k = n + length (canon b w) \<and>
     d + vdepth w \<le> max_depth lim \<and> k \<le> max_document_bytes lim)"

lemma buildsD:
  "builds b lim f Q w \<Longrightarrow> f d n = Ok (v, k) \<longleftrightarrow> Q \<and> v = w \<and> k = n + length (canon b w) \<and>
     d + vdepth w \<le> max_depth lim \<and> k \<le> max_document_bytes lim"
  by (simp add: builds_def)

lemma b_string_Ok [simp]:
  assumes "max_document_bytes lim < usize_bound"
  shows "b_string lim s d n = Ok (t, k) \<longleftrightarrow> t = s \<and> k = n + length (canon_string 3 s) \<and> d \<le> max_depth lim \<and>
     k \<le> max_document_bytes lim"
  using assms by (auto simp: b_string_def)

lemma b_text_Ok [simp]:
  assumes "max_document_bytes lim < usize_bound"
  shows "b_text lim s d n = Ok (v, k) \<longleftrightarrow> v = VText s \<and> k = n + length (canon_string 3 s) \<and> d \<le> max_depth lim \<and>
     k \<le> max_document_bytes lim"
  using assms by (auto simp: b_text_def)

lemma b_collection_Ok:
  assumes "max_document_bytes lim < usize_bound"
  shows "b_collection lim len d n = Ok k \<longleftrightarrow>
    k = n + length (shortest_head major (unat (word_of_nat len :: u64))) \<and> d \<le> max_depth lim \<and>
    k + len \<le> max_document_bytes lim"
  using assms by (simp add: b_collection_def acc_collection_Ok [of lim len d n k major])

lemma b_tagged_Ok [simp]:
  assumes "max_document_bytes lim < usize_bound" "len \<le> 3" "2 \<le> length tag"
  shows "b_tagged lim tag len d n = Ok (vs, k) \<longleftrightarrow> vs = [VText tag] \<and>
    k = Suc n + length (canon_string 3 tag) \<and> Suc d \<le> max_depth lim \<and> k \<le> max_document_bytes lim"
proof -
  have h: "length (shortest_head 4 (unat (word_of_nat len :: u64))) = 1"
    using assms(2) by (simp add: length_shortest_head)
  have "len \<le> length (canon_string 3 tag)" using length_canon_string [of tag 3] assms(2,3) by linarith
  then show ?thesis using assms(1) by (auto simp: b_tagged_def b_collection_Ok [OF assms(1), of _ _ _ _ 4] h)
qed

lemma builds_text: "max_document_bytes lim < usize_bound \<Longrightarrow> builds b lim (b_text lim s) True (VText s)"
  by (auto simp: builds_def)

text \<open>A tagged constructor with one argument.\<close>

lemma builds_tagged:
  assumes mx: "max_document_bytes lim < usize_bound" and tag: "2 \<le> length tag" and f: "builds b lim f Q w"
  shows "builds b lim (\<lambda>d n. attempt (b_tagged lim tag 2 d n) (\<lambda>(vs, n1).
      attempt (f (d + 1) n1) (\<lambda>(v, n2). Ok (VArray (vs @ [v]), n2)))) Q (VArray [VText tag, w])"
  using mx tag by (auto simp: builds_def buildsD [OF f] length_shortest_head)

lemma builds_tagged2:
  assumes mx: "max_document_bytes lim < usize_bound" and tag: "2 \<le> length tag"
    and f: "builds b lim f Q w" and g: "builds b lim g R u"
  shows "builds b lim (\<lambda>d n. attempt (b_tagged lim tag 3 d n) (\<lambda>(vs, n1).
      attempt (f (d + 1) n1) (\<lambda>(v, n2). attempt (g (d + 1) n2) (\<lambda>(x, n3). Ok (VArray (vs @ [v, x]), n3)))))
    (Q \<and> R) (VArray [VText tag, w, u])"
  using mx tag by (auto simp: builds_def buildsD [OF f] buildsD [OF g] length_shortest_head)

lemma map_try_port: "map_try_from_entries [(''type'', t), (''required'', VBool r)] = Ok [(''type'', t), (''required'', VBool r)]"
  by (rule map_try_from_entries_id) (simp add: map_canonical_def canon_key_def)

lemma builds_port:
  assumes mx: "max_document_bytes lim < usize_bound" and f: "builds b lim (ty (port_type p)) Q (g (port_type p))"
  shows "builds b lim (b_port ty lim p) Q (port_wire g p)"
proof -
  have h: "length (shortest_head 5 (unat (word_of_nat 2 :: u64))) = 1"
    by (simp add: length_shortest_head)
  have "2 \<le> length (canon_string 3 ''type'')" using length_canon_string [of "''type''" 3] by simp
  then show ?thesis
    using mx by (auto simp: builds_def b_port_def b_collection_Ok [OF mx, of _ _ _ _ 5] h buildsD [OF f] acc_boolean_Ok
        map_try_port port_wire_def length_shortest_head)
qed

lemma sum_list_ge_length: "(\<And>x. x \<in> set xs \<Longrightarrow> 1 \<le> (c x :: nat)) \<Longrightarrow> length xs \<le> sum_list (map c xs)"
  by (induction xs) (simp, fastforce)

lemma length_canon_ge: "1 \<le> length (canon b v)"
  using canon_nonempty [of b v] by (cases "canon b v") auto

text \<open>The loop that builds the members of an array at a fixed depth.\<close>

lemma fold_builds:
  assumes f: "\<And>x. x \<in> set xs \<Longrightarrow> builds b lim (f x) (Q x) (g x)" and n: "n \<le> max_document_bytes lim"
  shows "fold_collect (\<lambda>x. f x d) xs n = Ok (vs, k) \<longleftrightarrow> (\<forall>x \<in> set xs. Q x \<and> d + vdepth (g x) \<le> max_depth lim) \<and>
    vs = map g xs \<and> k = n + length (canon_list b (map g xs)) \<and> k \<le> max_document_bytes lim"
proof -
  have "fold_collect (\<lambda>x. f x d) xs n = Ok (vs, k) \<longleftrightarrow> (\<forall>x \<in> set xs. Q x \<and> d + vdepth (g x) \<le> max_depth lim) \<and>
      (vs, k) = (map g xs, n + sum_list (map (\<lambda>x. length (canon b (g x))) xs)) \<and>
      n + sum_list (map (\<lambda>x. length (canon b (g x))) xs) \<le> max_document_bytes lim"
    by (rule fold_collect_Ok [OF _ n]) (auto simp: buildsD [OF f])
  then show ?thesis by (auto simp: canon_list_length comp_def)
qed

lemma builds_array_loop:
  assumes mx: "max_document_bytes lim < usize_bound" and f: "\<And>x. x \<in> set xs \<Longrightarrow> builds b lim (f x) (Q x) (g x)"
  shows "builds b lim (\<lambda>d n. attempt (b_collection lim (length xs) d n) (\<lambda>n2.
      attempt (fold_collect (\<lambda>x. f x (d + 1)) xs n2) (\<lambda>(vs, n3). Ok (VArray vs, n3))))
    (\<forall>x \<in> set xs. Q x) (VArray (map g xs))"
proof -
  have "length xs \<le> length (canon_list b (map g xs))"
    using length_canon_list [of "map g xs" b] by simp
  then show ?thesis
    unfolding builds_def
    by (auto simp: b_collection_Ok [OF mx, of _ _ _ _ 4] fold_builds [OF f] vdepth_list_le)
qed

lemma builds_entries_loop:
  assumes mx: "max_document_bytes lim < usize_bound" and f: "\<And>x. x \<in> set xs \<Longrightarrow> builds b lim (f (snd x)) (Q x) (g (snd x))"
  shows "builds b lim (\<lambda>d n. attempt (b_collection lim (length xs) d n) (\<lambda>n2.
      attempt (fold_collect (\<lambda>(name, p) k. attempt (b_string lim name (d + 1) k) (\<lambda>(key, k1).
        attempt (f p (d + 1) k1) (\<lambda>(v, k2). Ok ((key, v), k2)))) xs n2) (\<lambda>(entries, n3).
      attempt (map_err TyCodec (map_try_from_entries entries)) (\<lambda>m. Ok (VMap m, n3)))))
    (distinct (map fst xs) \<and> (\<forall>x \<in> set xs. Q x))
    (VMap (sort_key (\<lambda>p. canon_key (fst p)) (map (\<lambda>(name, p). (name, g p)) xs)))"
proof -
  let ?es = "map (\<lambda>(name, p). (name, g p)) xs" and ?c = "\<lambda>x. length (canon_string 3 (fst x)) + length (canon b (g (snd x)))"
  let ?m = "sort_key (\<lambda>p. canon_key (fst p)) ?es"
  have es: "length (canon_entries b ?es) = sum_list (map ?c xs)"
    by (simp add: canon_entries_length comp_def split_def)
  have m: "length (canon_entries b ?m) = sum_list (map ?c xs)"
    using canon_entries_mset [of ?m ?es b] es by simp
  have len: "length xs \<le> sum_list (map ?c xs)"
    using length_canon_entries [of ?es b] es by simp
  have loop: "fold_collect (\<lambda>(name, p) k. attempt (b_string lim name e k) (\<lambda>(key, k1).
        attempt (f p e k1) (\<lambda>(v, k2). Ok ((key, v), k2)))) xs n = Ok (entries, k) \<longleftrightarrow>
      (\<forall>x \<in> set xs. Q x \<and> e + vdepth (g (snd x)) \<le> max_depth lim) \<and> entries = ?es \<and>
      k = n + sum_list (map ?c xs) \<and> k \<le> max_document_bytes lim" if "n \<le> max_document_bytes lim" for n e entries k
  proof -
    have "fold_collect (\<lambda>(name, p) k. attempt (b_string lim name e k) (\<lambda>(key, k1).
        attempt (f p e k1) (\<lambda>(v, k2). Ok ((key, v), k2)))) xs n = Ok (entries, k) \<longleftrightarrow>
      (\<forall>x \<in> set xs. Q x \<and> e + vdepth (g (snd x)) \<le> max_depth lim) \<and>
      (entries, k) = (map (\<lambda>x. (fst x, g (snd x))) xs, n + sum_list (map ?c xs)) \<and>
      n + sum_list (map ?c xs) \<le> max_document_bytes lim"
    proof (rule fold_collect_Ok [OF _ that])
      fix x k r assume x: "x \<in> set xs"
      obtain name p where xp: "x = (name, p)" by (cases x)
      show "(case x of (name, p) \<Rightarrow> \<lambda>k. attempt (b_string lim name e k) (\<lambda>(key, k1).
          attempt (f p e k1) (\<lambda>(v, k2). Ok ((key, v), k2)))) k = Ok r \<longleftrightarrow>
        (Q x \<and> e + vdepth (g (snd x)) \<le> max_depth lim) \<and> r = ((fst x, g (snd x)), k + ?c x) \<and>
        k + ?c x \<le> max_document_bytes lim"
        using buildsD [OF f [OF x]] mx by (cases r) (auto simp: xp)
    qed
    then show ?thesis by (auto simp: split_def)
  qed
  have mtry: "map_try_from_entries ?es = Ok mm \<longleftrightarrow> distinct (map fst xs) \<and> mm = ?m" for mm
    by (simp add: map_try_from_entries_Ok comp_def split_def)
  have depth: "d + vdepth (VMap ?m) \<le> max_depth lim \<longleftrightarrow>
      d \<le> max_depth lim \<and> (\<forall>x \<in> set xs. d + 1 + vdepth (g (snd x)) \<le> max_depth lim)" for d
    by (auto simp: vdepth_entries_le)
  have size: "length (canon b (VMap ?m)) =
      length (shortest_head 5 (unat (word_of_nat (length xs) :: u64))) + sum_list (map ?c xs)"
    using m by simp
  show ?thesis
    unfolding builds_def
  proof (intro allI)
    fix d n v k
    let ?h = "length (shortest_head 5 (unat (word_of_nat (length xs) :: u64)))"
    show "attempt (b_collection lim (length xs) d n) (\<lambda>n2.
        attempt (fold_collect (\<lambda>(name, p) k. attempt (b_string lim name (d + 1) k) (\<lambda>(key, k1).
          attempt (f p (d + 1) k1) (\<lambda>(v, k2). Ok ((key, v), k2)))) xs n2) (\<lambda>(entries, n3).
        attempt (map_err TyCodec (map_try_from_entries entries)) (\<lambda>m. Ok (VMap m, n3)))) = Ok (v, k) \<longleftrightarrow>
      (distinct (map fst xs) \<and> (\<forall>x \<in> set xs. Q x)) \<and> v = VMap ?m \<and> k = n + length (canon b (VMap ?m)) \<and>
      d + vdepth (VMap ?m) \<le> max_depth lim \<and> k \<le> max_document_bytes lim"
    proof (cases "d \<le> max_depth lim \<and> n + ?h + length xs \<le> max_document_bytes lim")
      case True
      then have c: "b_collection lim (length xs) d n = Ok (n + ?h)"
        by (simp add: b_collection_Ok [OF mx, of _ _ _ _ 5])
      have n: "n + ?h \<le> max_document_bytes lim" using True by simp
      have t: "map_err TyCodec (map_try_from_entries ?es) = Ok mm \<longleftrightarrow> distinct (map fst xs) \<and> mm = ?m" for mm
        using mtry by simp
      show ?thesis
        unfolding c attempt_simps depth size using True loop [OF n, of "d + 1"] t by fastforce
    next
      case False
      then have "b_collection lim (length xs) d n \<noteq> Ok j" for j
        by (auto simp: b_collection_Ok [OF mx, of _ _ _ _ 5])
      then show ?thesis unfolding depth size using False len by (auto simp: add.assoc)
    qed
  qed
qed

lemma attempt_assoc: "attempt (attempt m f) g = attempt m (\<lambda>x. attempt (f x) g)"
  by (cases m) auto

lemma builds_record:
  assumes mx: "max_document_bytes lim < usize_bound"
    and f: "\<And>x. x \<in> set fs \<Longrightarrow> builds b lim (ty (port_type (snd x))) (Q x) (g (port_type (snd x)))"
  shows "builds b lim (b_record ty lim fs) (distinct (map fst fs) \<and> (\<forall>x \<in> set fs. Q x))
    (VArray [VText ''record'', VMap (sort_key (\<lambda>p. canon_key (fst p)) (map (\<lambda>(name, p). (name, port_wire g p)) fs))])"
proof -
  have port: "builds b lim (b_port ty lim (snd x)) (Q x) (port_wire g (snd x))" if "x \<in> set fs" for x
    using f [OF that] by (rule builds_port [OF mx])
  note loop = builds_entries_loop [OF mx, of fs b "b_port ty lim" Q "port_wire g", OF port]
  show ?thesis
    using builds_tagged [OF mx _ loop, of "''record''"]
    by (simp add: b_record_def [abs_def] attempt_assoc split_def)
qed

lemma builds_union:
  assumes mx: "max_document_bytes lim < usize_bound" and f: "\<And>x. x \<in> set ms \<Longrightarrow> builds b lim (ty x) (Q x) (g x)"
  shows "builds b lim (b_union ty lim ms) (\<forall>x \<in> set ms. Q x) (VArray [VText ''union'', VArray (map g ms)])"
  using builds_tagged [OF mx _ builds_array_loop [OF mx f], of "''union''" ms]
  by (simp add: b_union_def [abs_def] attempt_assoc split_def)

lemma builds_enumeration:
  assumes mx: "max_document_bytes lim < usize_bound"
  shows "builds b lim (b_enumeration lim ms) True (VArray [VText ''enum'', VArray (map VText ms)])"
  using builds_tagged [OF mx _ builds_array_loop [OF mx builds_text [OF mx]], of "''enum''" b ms]
  by (simp add: b_enumeration_def [abs_def] attempt_assoc split_def)

lemma builds_guarded:
  "builds b lim f Q w \<Longrightarrow> builds b lim (\<lambda>d n. attempt (signature_only ctx tag) (\<lambda>_. f d n)) (ctx = ContextSignature \<and> Q) w"
  unfolding builds_def by (cases ctx) (auto simp: signature_only_def)

lemma builds_function:
  assumes mx: "max_document_bytes lim < usize_bound"
    and f: "\<And>p. p \<in> set ps \<Longrightarrow> builds b lim (ty (port_type p)) (Q p) (g (port_type p))"
    and r: "builds b lim (ty (port_type ret)) Qr (g (port_type ret))"
  shows "builds b lim (b_function ty ctx lim ps ret) (ctx = ContextSignature \<and> (\<forall>p \<in> set ps. Q p) \<and> Qr)
    (VArray [VText ''function'', VArray (map (port_wire g) ps), port_wire g ret])"
proof -
  have ports: "builds b lim (b_port ty lim p) (Q p) (port_wire g p)" if "p \<in> set ps" for p
    using f [OF that] by (rule builds_port [OF mx])
  have port: "builds b lim (b_port ty lim ret) Qr (port_wire g ret)" using r by (rule builds_port [OF mx])
  note loop = builds_array_loop [OF mx, of ps b "b_port ty lim" Q "port_wire g", OF ports]
  show ?thesis
    using builds_guarded [OF builds_tagged2 [OF mx _ loop port, of "''function''"], of ctx "''function''"]
    by (simp add: b_function_def [abs_def] attempt_assoc split_def)
qed

lemma builds_ty:
  assumes mx: "max_document_bytes lim < usize_bound"
  shows "builds b lim (b_ty ctx lim t) (type_ok ctx t) (type_wire t)"
proof (induction t rule: type_wire.induct)
  case (1 x)
  then show ?case using builds_text [OF mx] by (simp add: b_ty.simps [abs_def])
next
  case (2 t)
  show ?case using builds_tagged [OF mx _ 2, of "''list''"] by (simp add: b_ty.simps [abs_def])
next
  case (3 t)
  show ?case using builds_tagged [OF mx _ 3, of "''map''"] by (simp add: b_ty.simps [abs_def])
next
  case (4 fs)
  have f: "builds b lim (b_ty ctx lim (port_type (snd x))) (type_ok ctx (port_type (snd x)))
      (type_wire (port_type (snd x)))" if "x \<in> set fs" for x
    using 4 [of x "fst x" "snd x"] that by simp
  show ?case
    using builds_record [where ty = "b_ty ctx lim" and g = type_wire and Q = "\<lambda>x. type_ok ctx (port_type (snd x))", OF mx f]
    by (simp add: b_ty.simps [abs_def])
next
  case (5 ms)
  show ?case using builds_union [where ty = "b_ty ctx lim" and g = type_wire and Q = "type_ok ctx", OF mx 5] by (simp add: b_ty.simps [abs_def])
next
  case (6 ms)
  show ?case using builds_enumeration [OF mx] by (simp add: b_ty.simps [abs_def])
next
  case (7 d)
  show ?case using builds_tagged [OF mx _ builds_text [OF mx], of "''schema''"] by (simp add: b_ty.simps [abs_def])
next
  case (8 i)
  show ?case using builds_guarded [OF builds_tagged [OF mx _ builds_text [OF mx], of "''var''"]] by (simp add: b_ty.simps [abs_def])
next
  case (9 ps r)
  show ?case using builds_function [where ty = "b_ty ctx lim" and g = type_wire and Q = "\<lambda>p. type_ok ctx (port_type p)", OF mx 9(1) 9(2)] by (simp add: b_ty.simps [abs_def])
qed
end
