(* ===== verification/Type_Records.thy ===== *)
theory Type_Records
  imports Type_Codec
begin

text \<open>
  Type descriptions and ports as canonical records: the canonical parser and the
  normalising constructor against \<open>type_wire\<close>, and the interpretations of the record
  interface on both.
\<close>


section \<open>Canonical types\<close>

definition fits :: "cbor2 \<Rightarrow> limits \<Rightarrow> value \<Rightarrow> bool" where
  "fits b lim v \<longleftrightarrow> max_depth lim \<le> max_supported_depth \<and> vdepth v \<le> max_depth lim \<and>
     length (canon b v) \<le> max_document_bytes lim"

lemma encode_fits:
  "push_documented b \<Longrightarrow> usize_limits lim \<Longrightarrow> finite_floats v \<Longrightarrow> encode b lim v = Ok bs \<longleftrightarrow> bs = canon b v \<and> fits b lim v"
  by (auto simp: encode_Ok_iff fits_def)

lemma type_value_Ok:
  assumes "usize_limits lim"
  shows "type_value ctx lim t = Ok v \<longleftrightarrow> type_ok ctx t \<and> v = type_wire t \<and> fits b lim v"
proof -
  have "max_document_bytes lim < usize_bound" using assms by (simp add: usize_limits_def)
  from buildsD [OF builds_ty [OF this, of b ctx t], of 0 0] show ?thesis
    by (auto simp: type_value_def acc_new_def fits_def max_supported_depth_def)
qed

lemma port_value_Ok:
  assumes "usize_limits lim"
  shows "port_value ctx lim p = Ok v \<longleftrightarrow> type_ok ctx (port_type p) \<and> v = port_wire type_wire p \<and> fits b lim v"
proof -
  have "max_document_bytes lim < usize_bound" using assms by (simp add: usize_limits_def)
  from buildsD [OF builds_port [where g = type_wire and ty = "b_ty ctx lim" and p = p, OF this builds_ty [OF this, of b ctx "port_type p"]], of 0 0] show ?thesis
    by (auto simp: port_value_def acc_new_def fits_def max_supported_depth_def)
qed

definition is_union :: "value_type \<Rightarrow> bool" where
  "is_union t = (case t of TUnion _ \<Rightarrow> True | _ \<Rightarrow> False)"

function (sequential) wf_type :: "cbor2 \<Rightarrow> value_type \<Rightarrow> bool" where
  "wf_type b (TList t) = wf_type b t"
| "wf_type b (TMap t) = wf_type b t"
| "wf_type b (TRecord fs) =
     (map_canonical fs \<and> (\<forall>f \<in> set fs. utf8_valid (fst f) \<and> wf_type b (port_type (snd f))))"
| "wf_type b (TUnion ms) = (2 \<le> length ms \<and> (\<forall>t \<in> set ms. wf_type b t \<and> \<not> is_union t) \<and>
     strictly_sorted (map (\<lambda>t. canon b (type_wire t)) ms))"
| "wf_type b (TEnum ms) = (ms \<noteq> [] \<and> strictly_sorted ms \<and> (\<forall>s \<in> set ms. utf8_valid s))"
| "wf_type b (TSchema d) = wf_digest d"
| "wf_type b (TVar i) = (identifier_new (as_str i) = Ok i)"
| "wf_type b (TFunction ps r) = ((\<forall>p \<in> set ps. wf_type b (port_type p)) \<and> wf_type b (port_type r))"
| "wf_type b (TBuiltin x) = True"
  by pat_completeness auto
termination
  by (relation "measure (\<lambda>(b, t). size t)")
    (auto simp: less_Suc_eq_le size_list_estimation' dest: size_record_port size_param_port
      intro: le_less_trans less_imp_le less_le_trans [OF size_port_type] order.trans [OF less_imp_le [OF size_port_type]])

definition wf_port :: "cbor2 \<Rightarrow> vport \<Rightarrow> bool" where
  "wf_port b p = wf_type b (port_type p)"

lemma fits_array: "fits b lim (VArray vs) \<Longrightarrow> v \<in> set vs \<Longrightarrow> fits b lim v"
  using member_le_sum_list [of "length (canon b v)" "map (\<lambda>v. length (canon b v)) vs"]
    vdepth_list_le [of 0 vs "max_depth lim"]
  by (auto simp: fits_def canon_list_length)

lemma fits_map: "fits b lim (VMap m) \<Longrightarrow> (k, v) \<in> set m \<Longrightarrow> fits b lim v"
  using member_le_sum_list [of "length (canon_string 3 k) + length (canon b v)"
      "map (\<lambda>p. length (canon_string 3 (fst p)) + length (canon b (snd p))) m"]
    vdepth_entries_le [of 0 m "max_depth lim"]
  by (force simp: fits_def canon_entries_length)

lemma fits_port: "fits b lim (port_wire f p) \<Longrightarrow> fits b lim (f (port_type p))"
  unfolding port_wire_def by (erule fits_map [where k = "''type''"]) simp

lemma record_sorted:
  assumes "map_canonical fs"
  shows "sort_key (\<lambda>p. canon_key (fst p)) (map (\<lambda>(n, p). (n, f p)) fs) = map (\<lambda>(n, p). (n, f p)) fs"
  using assms by (intro sort_key_id_if_sorted) (simp add: map_canonical_def strictly_sorted_iff comp_def split_def)

lemma map_canonical_map [simp]: "map_canonical (map (\<lambda>(n, p). (n, f p)) fs) = map_canonical fs"
  by (simp add: map_canonical_def comp_def split_def)

lemma builtin_utf8: "utf8_valid (builtin_as_str x)"
  by (cases x) (simp_all add: builtin_as_str_def)

lemma builtin_parse_str [simp]: "builtin_parse (builtin_as_str x) = Ok x"
  by (cases x) (simp_all add: builtin_as_str_def builtin_parse_def)

lemma builtin_parse_Ok: "builtin_parse s = Ok x \<longleftrightarrow> s = builtin_as_str x"
proof
  assume "builtin_parse s = Ok x"
  then show "s = builtin_as_str x"
    unfolding builtin_parse_def by (simp split: if_split_asm) (simp_all add: builtin_as_str_def)
qed simp

lemma hex_digit_ascii: "n < 16 \<Longrightarrow> (of_char (hex_digit n) :: nat) < 0x80"
  by (simp add: hex_digit_def)

lemma display_utf8: "utf8_valid (digest_display d)"
proof (rule utf8_valid_ascii, rule ballI)
  fix c assume "c \<in> set (digest_display d)"
  then consider "c \<in> set digest_prefix" | x where "c = hex_digit (of_char x div 16) \<or> c = hex_digit (of_char x mod 16)"
    by (auto simp: digest_display_def hex_byte_def)
  then show "(of_char c :: nat) < 0x80"
  proof cases
    case 2
    have "(of_char x :: nat) div 16 < 16" using of_char_less_256 [of x] by (simp add: less_mult_imp_div_less)
    then show ?thesis using 2 hex_digit_ascii by auto
  qed (auto simp: digest_prefix_def)
qed

lemma validate_rest_chars:
  "validate_rest n u s = Ok v \<Longrightarrow> c \<in> set s \<Longrightarrow> name_char c \<or> c = CHR ''_''"
  by (induction n u s rule: validate_rest.induct) (auto split: if_splits)

lemma name_char_ascii: "name_char c \<or> c = CHR ''_'' \<Longrightarrow> (of_char c :: nat) < 0x80"
  by (auto simp: name_char_def is_ascii_lowercase_def is_ascii_digit_def char_le_iff)

lemma ident_utf8: "identifier_new s = Ok i \<Longrightarrow> utf8_valid s"
proof (rule utf8_valid_ascii, rule ballI, rule name_char_ascii)
  fix c assume "identifier_new s = Ok i" "c \<in> set s"
  then show "name_char c \<or> c = CHR ''_''"
    by (cases s) (auto dest: validate_rest_chars simp: identifier_new_def identifier_validate_def lowercase_name_char split: if_splits)
qed

lemma port_wire_wf: "wf_value (f (port_type p)) \<Longrightarrow> wf_value (port_wire f p)"
  by (simp add: port_wire_def map_canonical_def canon_key_def)

lemma type_wire_wf: "wf_type b t \<Longrightarrow> wf_value (type_wire t)"
proof (induction t rule: type_wire.induct)
  case (4 fs)
  have "wf_value (port_wire type_wire p)" if "(n, p) \<in> set fs" for n p
    using 4 that by (intro port_wire_wf) auto
  then show ?case
    using "4.prems" by (auto simp: record_sorted)
next
  case (9 ps r)
  then show ?case by (auto intro!: port_wire_wf)
qed (auto simp: builtin_utf8 display_utf8 ident_utf8)

lemma ident_new_str: "identifier_new s = Ok i \<Longrightarrow> i = Ident s"
  by (auto simp: identifier_new_def)

section \<open>The parser on canonical values\<close>

lemma ty_array_simps [simp]: "ty_array (VArray vs) site = Ok vs"
  by (simp add: ty_array_def)

lemma ty_array_Ok [simp]: "ty_array v site = Ok vs \<longleftrightarrow> v = VArray vs"
  by (cases v) (auto simp: ty_array_def)

lemma ty_text_simps [simp]: "ty_text (VText s) site = Ok s"
  by (simp add: ty_text_def)

lemma ty_text_Ok [simp]: "ty_text v site = Ok s \<longleftrightarrow> v = VText s"
  by (cases v) (auto simp: ty_text_def)

lemma parse_port_wire:
  assumes "pt (f (port_type p)) = Ok (port_type p)"
  shows "parse_port_with pt (port_wire f p) = Ok p"
proof -
  have m: "map_canonical [(''type'', f (port_type p)), (''required'', VBool (port_required p))]"
    by (simp add: map_canonical_def canon_key_def)
  show ?thesis
    using assms by (simp add: parse_port_with_def port_wire_def map_get_map_of [OF m])
qed

lemma parse_port_with_Ok:
  assumes "parse_port_with pt v = Ok p" "wf_value v"
  shows "\<exists>t. v = VMap [(''type'', t), (''required'', VBool (port_required p))] \<and> pt t = Ok (port_type p)"
proof -
  obtain m t where v: "v = VMap m" and k: "\<forall>p \<in> set m. fst p = ''type'' \<or> fst p = ''required''"
    and r: "map_get m ''required'' = Some (VBool (port_required p))" "map_get m ''type'' = Some t" "pt t = Ok (port_type p)"
    using assms(1) by (auto simp: parse_port_with_def split: value_splits if_splits option.splits)
  let ?m = "[(''type'', t), (''required'', VBool (port_required p))]"
  have c: "map_canonical m" "map_canonical ?m"
    using assms(2) v by (simp_all add: map_canonical_def canon_key_def)
  have "map_of m = map_of ?m"
    by (rule map_of_by_fields [where F = "{''type'', ''required''}"])
      (use k r in \<open>auto simp: map_get_map_of [OF c(1)]\<close>)
  then have "m = ?m" using map_canonical_unique [OF c] by simp
  then show ?thesis using v r by simp
qed

lemma enum_pairs_Ok: "enum_pairs ms = Ok () \<longleftrightarrow> strictly_sorted ms"
  by (induction ms rule: enum_pairs.induct) (auto simp: not_less dest: order.strict_trans)

lemma map_result_text: "map_result (\<lambda>item. ty_text item site) (map VText ms) = Ok ms"
  by (induction ms) auto

lemma map_result_text_Ok [simp]: "map_result (\<lambda>item. ty_text item site) vs = Ok ms \<longleftrightarrow> vs = map VText ms"
  by (auto simp: map_result_Ok_iff list_all2_conv_all_nth list_eq_iff_nth_eq)

lemma map_result_pure: "(\<And>x. x \<in> set xs \<Longrightarrow> f x = Ok (g x)) \<Longrightarrow> map_result f xs = Ok (map g xs)"
  by (rule map_result_Ok_map)

lemma encode_member:
  assumes "cbor2_documented b" "usize_limits lim" "wf_type b t" "type_ok ctx t" "fits b lim (type_wire t)"
  shows "value_type_encode b ctx lim t = Ok (canon b (type_wire t))"
  using assms type_value_Ok [OF assms(2), of ctx t "type_wire t" b]
    encode_fits [OF _ assms(2) wf_value_finite_floats [OF type_wire_wf [OF assms(3)]], of b "canon b (type_wire t)"]
  by (simp add: value_type_encode_def record_encode_def cbor2_documented_def)

lemma dedup_keyed_id: "strictly_sorted (map fst ks) \<Longrightarrow> dedup_keyed ks = ks"
  by (induction ks rule: dedup_keyed.induct) auto

lemma dedup_keyed_set:
  "set (dedup_keyed ks) \<subseteq> set ks" "fst ` set (dedup_keyed ks) = fst ` set ks"
  by (induction ks rule: dedup_keyed.induct) auto

lemma dedup_keyed_sorted: "sorted (map fst ks) \<Longrightarrow> strictly_sorted (map fst (dedup_keyed ks))"
proof (induction ks rule: dedup_keyed.induct)
  case (1 a b r)
  show ?case
  proof (cases "fst a = fst b")
    case False
    have "fst a < fst k" if "k \<in> set (dedup_keyed (b # r))" for k
    proof -
      have "k \<in> set (b # r)" using that dedup_keyed_set(1) by blast
      then have "fst b \<le> fst k" using "1.prems" by auto
      then show ?thesis using "1.prems" False by auto
    qed
    then show ?thesis using 1 False by auto
  qed (use 1 in auto)
qed auto

lemma parse_union_wire:
  assumes bk: "cbor2_documented b" and ul: "usize_limits lim" and w: "wf_type b (TUnion ms)" and ok: "type_ok ctx (TUnion ms)"
    and f: "fits b lim (VArray (map type_wire ms))"
    and pt: "\<And>t. t \<in> set ms \<Longrightarrow> pt (type_wire t) = Ok t"
  shows "parse_union pt b ctx lim normal (VArray (map type_wire ms)) = Ok (TUnion ms)"
proof -
  have m: "union_member normal t = Ok [t]" if "t \<in> set ms" for t
    using w that by (auto simp: union_member_def is_union_def split: value_type.splits)
  have 1: "map_result (\<lambda>item. attempt (pt item) (union_member normal)) (map type_wire ms) = Ok (map (\<lambda>t. [t]) ms)"
    using pt m by (induction ms) auto
  have e: "value_type_encode b ctx lim t = Ok (canon b (type_wire t))" if "t \<in> set ms" for t
    by (rule encode_member [OF bk ul]) (use w ok that fits_array [OF f] in auto)
  have 2: "map_result (\<lambda>member. attempt (value_type_encode b ctx lim member) (\<lambda>bs. Ok (bs, member))) ms =
      Ok (map (\<lambda>t. (canon b (type_wire t), t)) ms)"
    by (rule map_result_pure) (simp add: e)
  have 3: "\<not> any_pair (\<lambda>x y. fst x \<ge> fst y) (map (\<lambda>t. (canon b (type_wire t), t)) ms)"
    using w no_pair_ge_iff [of "map (\<lambda>t. canon b (type_wire t)) ms"] by (simp add: any_pair_map)
  have s: "strictly_sorted (map fst (map (\<lambda>t. (canon b (type_wire t), t)) ms))"
    using w by (simp add: comp_def)
  have 4: "sort_key fst (map (\<lambda>t. (canon b (type_wire t), t)) ms) = map (\<lambda>t. (canon b (type_wire t), t)) ms"
    using s by (intro sort_key_id_if_sorted) (simp add: strictly_sorted_iff)
  show ?thesis using w by (simp add: parse_union_def 1 2 3 4 dedup_keyed_id [OF s] comp_def)
qed

lemma map_result_entries:
  "\<forall>x \<in> set fs. f (g (snd x)) = Ok (snd x) \<Longrightarrow>
    map_result (\<lambda>(name, x). attempt (f x) (\<lambda>p. Ok (name, p))) (map (\<lambda>(n, p). (n, g p)) fs) = Ok fs"
  by (induction fs) auto

lemma parse_type_complete:
  assumes bk: "cbor2_documented b" and ul: "usize_limits lim"
  shows "wf_type b t \<Longrightarrow> type_ok ctx t \<Longrightarrow> fits b lim (type_wire t) \<Longrightarrow> parse_type b ctx lim normal (type_wire t) = Ok t"
proof (induction t rule: type_wire.induct)
  case (4 fs)
  let ?m = "map (\<lambda>(n, p). (n, port_wire type_wire p)) fs"
  have s: "type_wire (TRecord fs) = VArray [VText ''record'', VMap ?m]" using "4.prems"(1) by (simp add: record_sorted)
  have fm: "fits b lim (VMap ?m)" using fits_array [OF "4.prems"(3) [unfolded s]] by simp
  have p: "parse_port_with (parse_type b ctx lim normal) (port_wire type_wire p) = Ok p" if np: "(n, p) \<in> set fs" for n p
  proof (rule parse_port_wire, rule "4.IH" [OF np refl])
    have "fits b lim (port_wire type_wire p)" using fits_map [OF fm, of n] np by force
    then show "fits b lim (type_wire (port_type p))" by (rule fits_port)
  qed (use "4.prems" np in force)+
  have "map_result (\<lambda>(name, port). attempt (parse_port_with (parse_type b ctx lim normal) port) (\<lambda>p. Ok (name, p))) ?m = Ok fs"
    by (rule map_result_entries) (use p in auto)
  then show ?case
    unfolding s by (simp add: parse_type.simps expected_arity_def parse_record_def)
next
  case (5 ms)
  have "parse_union (parse_type b ctx lim normal) b ctx lim normal (VArray (map type_wire ms)) = Ok (TUnion ms)"
  proof (rule parse_union_wire [OF bk ul "5.prems"(1,2)])
    show f: "fits b lim (VArray (map type_wire ms))" using fits_array [OF "5.prems"(3) [unfolded type_wire.simps]] by simp
    show "parse_type b ctx lim normal (type_wire t) = Ok t" if "t \<in> set ms" for t
      by (rule "5.IH" [OF that]) (use "5.prems" that fits_array [OF f] in auto)
  qed
  then show ?case by (simp add: parse_type.simps expected_arity_def)
next
  case (9 ps r)
  have f: "fits b lim (VArray (map (port_wire type_wire) ps))" "fits b lim (port_wire type_wire r)"
    using fits_array [OF "9.prems"(3) [unfolded type_wire.simps]] by simp_all
  have p: "parse_port_with (parse_type b ctx lim normal) (port_wire type_wire p) = Ok p" if "p \<in> set ps" for p
    by (rule parse_port_wire, rule "9.IH"(1) [OF that]) (use "9.prems" that fits_array [OF f(1)] fits_port in auto)
  have r: "parse_port_with (parse_type b ctx lim normal) (port_wire type_wire r) = Ok r"
    by (rule parse_port_wire, rule "9.IH"(2)) (use "9.prems" f(2) fits_port in auto)
  have "map_result (parse_port_with (parse_type b ctx lim normal)) (map (port_wire type_wire) ps) = Ok ps"
    using p by (induction ps) auto
  then show ?case
    using "9.prems"(2) r by (simp add: parse_type.simps expected_arity_def parse_function_def signature_only_def)
next
  case (2 t)
  have "fits b lim (type_wire t)" using fits_array [OF "2.prems"(3) [unfolded type_wire.simps]] by simp
  then show ?case using 2 by (simp add: parse_type.simps [of _ _ _ _ "VArray _"] expected_arity_def)
next
  case (3 t)
  have "fits b lim (type_wire t)" using fits_array [OF "3.prems"(3) [unfolded type_wire.simps]] by simp
  then show ?case using 3 by (simp add: parse_type.simps [of _ _ _ _ "VArray _"] expected_arity_def)
next
  case (6 ms)
  then show ?case
    by (simp add: parse_type.simps expected_arity_def parse_enum_def map_result_text enum_pairs_Ok
        Let_def strictly_sorted_iff sorted_sort_id)
next
  case (7 d)
  then show ?case by (simp add: parse_type.simps expected_arity_def digest_from_str_display)
next
  case (8 i)
  then show ?case by (simp add: parse_type.simps expected_arity_def signature_only_def)
qed (simp add: parse_type.simps)

section \<open>The parser accepts canonical values only\<close>

lemma list_all2_image:
  "list_all2 (\<lambda>e f. P f \<and> g f = e) es fs \<longleftrightarrow> es = map g fs \<and> (\<forall>f \<in> set fs. P f)"
  by (induction fs arbitrary: es) (auto simp: list_all2_Cons2)

lemma list_all2_image2:
  "list_all2 (\<lambda>e f. P f \<and> g f = h e) es fs \<longleftrightarrow> map h es = map g fs \<and> (\<forall>f \<in> set fs. P f)"
  by (induction fs arbitrary: es) (auto simp: list_all2_Cons2)

lemma list_all2_singletons:
  "list_all2 (\<lambda>item ts. \<exists>x. ts = [x] \<and> P x item) items tss \<Longrightarrow>
    \<exists>xs. tss = map (\<lambda>x. [x]) xs \<and> list_all2 (\<lambda>item x. P x item) items xs"
proof (induction items tss rule: list_all2_induct)
  case (Cons item items ts tss)
  then obtain x xs where "ts = [x]" "P x item" "tss = map (\<lambda>x. [x]) xs" "list_all2 (\<lambda>item x. P x item) items xs" by blast
  then show ?case by (intro exI [of _ "x # xs"]) simp
qed simp

lemma union_member_Ok: "union_member False x = Ok ts \<longleftrightarrow> \<not> is_union x \<and> ts = [x]"
  by (cases x) (auto simp: union_member_def is_union_def)

lemma parse_type_E:
  assumes "parse_type b ctx lim normal v = Ok t"
  obtains (c_builtin) x where "v = VText (builtin_as_str x)" "t = TBuiltin x"
  | (c_list) w c where "v = VArray [VText ''list'', w]" "parse_type b ctx lim normal w = Ok c" "t = TList c"
  | (c_map) w c where "v = VArray [VText ''map'', w]" "parse_type b ctx lim normal w = Ok c" "t = TMap c"
  | (c_record) w where "v = VArray [VText ''record'', w]" "parse_record (parse_type b ctx lim normal) w = Ok t"
  | (c_enum) w where "v = VArray [VText ''enum'', w]" "parse_enum w normal = Ok t"
  | (c_union) w where "v = VArray [VText ''union'', w]"
      "parse_union (parse_type b ctx lim normal) b ctx lim normal w = Ok t"
  | (c_schema) s d where "v = VArray [VText ''schema'', VText s]" "digest_from_str s = Ok d" "t = TSchema d"
  | (c_var) s i where "v = VArray [VText ''var'', VText s]" "ctx = ContextSignature" "identifier_new s = Ok i" "t = TVar i"
  | (c_function) w u where "v = VArray [VText ''function'', w, u]"
      "parse_function (parse_type b ctx lim normal) ctx w u = Ok t"
proof (cases v)
  case (VText s)
  then show ?thesis using assms c_builtin by (auto simp: parse_type.simps builtin_parse_Ok)
next
  case (VArray vals)
  obtain tag k where ne: "vals \<noteq> []" and tag: "vals ! 0 = VText tag" and k: "expected_arity tag = Ok k" "length vals = k"
    using assms by (auto simp: VArray parse_type.simps split: if_splits)
  have sig: "signature_only ctx s = Ok () \<longleftrightarrow> ctx = ContextSignature" for s
    by (cases ctx) (simp_all add: signature_only_def)
  consider "k = 2" "tag \<in> {''list'', ''map'', ''record'', ''union'', ''enum'', ''schema'', ''var''}" | "k = 3" "tag = ''function''"
    using k(1) by (auto simp: expected_arity_def split: if_splits)
  then show ?thesis
  proof cases
    case 1
    then obtain w where vs: "vals = [VText tag, w]"
      using k(2) tag by (auto simp: numeral_2_eq_2 length_Suc_conv)
    show ?thesis
      using 1(2) assms
      by (auto simp: VArray vs parse_type.simps [of b ctx lim normal "VArray [VText tag, w]"] expected_arity_def sig
          intro: c_record [of w] c_enum [of w] c_union [of w])
        (rule c_list c_map c_schema c_var, simp_all add: VArray vs)+
  next
    case 2
    then obtain w u where vs: "vals = [VText tag, w, u]"
      using k(2) tag by (auto simp: numeral_3_eq_3 length_Suc_conv)
    show ?thesis
      using 2(2) assms by (intro c_function [of w u]) (simp_all add: VArray vs parse_type.simps [of b ctx lim normal "VArray [VText ''function'', w, u]"] expected_arity_def)
  qed
qed (use assms in \<open>auto simp: parse_type.simps\<close>)

lemma parse_type_sound:
  assumes bk: "cbor2_documented b" and ul: "usize_limits lim"
  shows "parse_type b ctx lim False v = Ok t \<Longrightarrow> wf_value v \<Longrightarrow> fits b lim v \<Longrightarrow>
    wf_type b t \<and> type_ok ctx t \<and> type_wire t = v"
proof (induction v arbitrary: t rule: measure_induct_rule [of size])
  case (less v)
  have port: "wf_type b (port_type p) \<and> type_ok ctx (port_type p) \<and> port_wire type_wire p = w"
    if w: "parse_port_with (parse_type b ctx lim False) w = Ok p" "wf_value w" "fits b lim w" "size w < size v" for w p
  proof -
    obtain x where x: "w = VMap [(''type'', x), (''required'', VBool (port_required p))]"
      "parse_type b ctx lim False x = Ok (port_type p)"
      using parse_port_with_Ok [OF w(1,2)] by blast
    have "size x < size v" using w(4) size_in_map [of "''type''" x] by (simp add: x)
    moreover have "wf_value x" "fits b lim x" using w(2,3) fits_map [of b lim _ "''type''" x] by (simp_all add: x)
    ultimately show ?thesis using less.IH [OF _ x(2)] by (simp add: port_wire_def x(1))
  qed
  from less.prems(1) show ?case
  proof (cases rule: parse_type_E)
    case (c_record w)
    obtain m fs where w: "w = VMap m" "t = TRecord fs"
      and ps: "map_result (\<lambda>(name, port). attempt (parse_port_with (parse_type b ctx lim False) port) (\<lambda>p. Ok (name, p))) m = Ok fs"
      using c_record(2) by (auto simp: parse_record_def split: value_splits)
    have fm: "fits b lim (VMap m)" and wm: "wf_value (VMap m)"
      using less.prems fits_array c_record(1) w by auto
    have "list_all2 (\<lambda>e f. (utf8_valid (fst f) \<and> wf_type b (port_type (snd f)) \<and> type_ok ctx (port_type (snd f))) \<and>
        (\<lambda>(n, p). (n, port_wire type_wire p)) f = e) m fs"
    proof (rule list.rel_mono_strong)
      show "list_all2 (\<lambda>e f. (\<lambda>(name, port). attempt (parse_port_with (parse_type b ctx lim False) port)
          (\<lambda>p. Ok (name, p))) e = Ok f) m fs"
        using ps by (simp add: map_result_Ok_iff)
    next
      fix e f
      assume e: "e \<in> set m" and "(\<lambda>(name, port). attempt (parse_port_with (parse_type b ctx lim False) port)
          (\<lambda>p. Ok (name, p))) e = Ok f"
      then have p: "fst e = fst f" "parse_port_with (parse_type b ctx lim False) (snd e) = Ok (snd f)"
        by (auto split: prod.splits)
      have "size (snd e) < size (VMap m)" using size_in_map [of "fst e" "snd e" m] e by simp
      then have "size (snd e) < size v" by (simp add: c_record(1) w)
      moreover have "fits b lim (snd e)" using fits_map [OF fm, of "fst e" "snd e"] e by simp
      moreover have "wf_value (snd e)" "utf8_valid (fst e)" using wm e by auto
      ultimately show "(utf8_valid (fst f) \<and> wf_type b (port_type (snd f)) \<and> type_ok ctx (port_type (snd f))) \<and>
          (\<lambda>(n, p). (n, port_wire type_wire p)) f = e"
        using port [OF p(2)] p(1) by (simp add: prod_eq_iff split_def)
    qed
    then have m: "m = map (\<lambda>(n, p). (n, port_wire type_wire p)) fs"
      and fs: "\<forall>f \<in> set fs. utf8_valid (fst f) \<and> wf_type b (port_type (snd f)) \<and> type_ok ctx (port_type (snd f))"
      unfolding list_all2_image by auto
    have can: "map_canonical fs" using wm by (simp add: m)
    show ?thesis
      using fs can map_canonical_distinct [OF can] c_record(1) w(1) by (simp add: w(2) record_sorted [OF can] m)
  next
    case (c_union w)
    obtain items members keyed where w: "w = VArray items"
      and ms: "map_result (\<lambda>item. attempt (parse_type b ctx lim False item) (union_member False)) items = Ok members"
      and ks: "map_result (\<lambda>member. attempt (value_type_encode b ctx lim member) (\<lambda>bs. Ok (bs, member))) (concat members) = Ok keyed"
      and sorted: "\<not> any_pair (\<lambda>x y. fst x \<ge> fst y) keyed" "2 \<le> length keyed" and t: "t = TUnion (map snd keyed)"
      using c_union(2) by (auto simp: parse_union_def not_less split: if_splits)
    have fm: "fits b lim (VArray items)" and wm: "wf_value (VArray items)"
      using less.prems fits_array c_union(1) w by auto
    have all: "list_all2 (\<lambda>item ts. \<exists>x. ts = [x] \<and> (\<not> is_union x \<and> wf_type b x \<and> type_ok ctx x) \<and> type_wire x = item) items members"
    proof (rule list.rel_mono_strong)
      show "list_all2 (\<lambda>item ts. attempt (parse_type b ctx lim False item) (union_member False) = Ok ts) items members"
        using ms by (simp add: map_result_Ok_iff)
    next
      fix item ts
      assume i: "item \<in> set items" and "attempt (parse_type b ctx lim False item) (union_member False) = Ok ts"
      then obtain x where x: "parse_type b ctx lim False item = Ok x" "ts = [x]" "\<not> is_union x"
        by (auto simp: union_member_Ok)
      have "size item < size v" using size_in_array [OF i] by (simp add: c_union(1) w)
      then show "\<exists>x. ts = [x] \<and> (\<not> is_union x \<and> wf_type b x \<and> type_ok ctx x) \<and> type_wire x = item"
        using less.IH [OF _ x(1)] wm fits_array [OF fm i] i x by auto
    qed
    then obtain xs where xs: "members = map (\<lambda>x. [x]) xs" "items = map type_wire xs"
      and wf: "\<forall>x \<in> set xs. \<not> is_union x \<and> wf_type b x \<and> type_ok ctx x"
      using list_all2_singletons [of "\<lambda>x item. (\<not> is_union x \<and> wf_type b x \<and> type_ok ctx x) \<and> type_wire x = item" items members]
      unfolding list_all2_image by metis
    have "keyed = map (\<lambda>x. (canon b (type_wire x), x)) xs"
    proof -
      have "fits b lim (type_wire x)" if "x \<in> set xs" for x using fits_array [OF fm] xs(2) that by auto
      then have "map_result (\<lambda>member. attempt (value_type_encode b ctx lim member) (\<lambda>bs. Ok (bs, member))) xs =
          Ok (map (\<lambda>x. (canon b (type_wire x), x)) xs)"
        using wf encode_member [OF bk ul] by (intro map_result_pure) simp
      then show ?thesis using ks by (simp add: xs comp_def)
    qed
    moreover from this have "strictly_sorted (map (\<lambda>x. canon b (type_wire x)) xs)"
      using sorted(1) no_pair_ge_iff [of "map (\<lambda>x. canon b (type_wire x)) xs"] by (simp add: any_pair_map)
    ultimately show ?thesis
      using wf sorted(2) c_union(1) by (simp add: t w xs(2) comp_def)
  next
    case (c_function w u)
    obtain items ps r where w: "w = VArray items" "ctx = ContextSignature" "t = TFunction ps r"
      and ps: "map_result (parse_port_with (parse_type b ctx lim False)) items = Ok ps"
      and r: "parse_port_with (parse_type b ctx lim False) u = Ok r"
      using c_function(2) by (cases ctx) (auto simp: parse_function_def signature_only_def)
    have f: "fits b lim (VArray items)" "fits b lim u" and wv: "wf_value (VArray items)" "wf_value u"
      using less.prems fits_array c_function(1) w by auto
    have "list_all2 (\<lambda>i p. (wf_type b (port_type p) \<and> type_ok ctx (port_type p)) \<and> port_wire type_wire p = i) items ps"
    proof (rule list.rel_mono_strong)
      show "list_all2 (\<lambda>i p. parse_port_with (parse_type b ctx lim False) i = Ok p) items ps"
        using ps by (simp add: map_result_Ok_iff)
    next
      fix i p assume i: "i \<in> set items" and p: "parse_port_with (parse_type b ctx lim False) i = Ok p"
      have "size i < size v" using size_in_array [OF i] by (simp add: c_function(1) w)
      then show "(wf_type b (port_type p) \<and> type_ok ctx (port_type p)) \<and> port_wire type_wire p = i"
        using port [OF p] wv(1) fits_array [OF f(1) i] i by simp
    qed
    then have "items = map (port_wire type_wire) ps" "\<forall>p \<in> set ps. wf_type b (port_type p) \<and> type_ok ctx (port_type p)"
      unfolding list_all2_image by simp_all
    moreover have "wf_type b (port_type r) \<and> type_ok ctx (port_type r) \<and> port_wire type_wire r = u"
      by (rule port [OF r wv(2) f(2)]) (simp add: c_function(1))
    ultimately show ?thesis using c_function(1) w by simp
  next
    case (c_list w c)
    then show ?thesis using less.IH [of w c] less.prems fits_array by auto
  next
    case (c_map w c)
    then show ?thesis using less.IH [of w c] less.prems fits_array by auto
  next
    case (c_enum w)
    then show ?thesis
      using less.prems by (auto simp: parse_enum_def enum_pairs_Ok split: if_splits)
  next
    case (c_schema s d)
    then show ?thesis using digest_from_str_Ok by auto
  next
    case (c_var s i)
    then show ?thesis using ident_new_str by fastforce
  qed simp
qed

section \<open>The normalising parser\<close>

lemma value_type_encode_bytes:
  assumes "cbor2_documented b" "usize_limits lim" "wf_type b t" "value_type_encode b ctx lim t = Ok bs"
  shows "bs = canon b (type_wire t)"
proof -
  obtain v where v: "type_value ctx lim t = Ok v" "encode b lim v = Ok bs"
    using assms(4) by (auto simp: value_type_encode_def record_encode_def)
  then have "v = type_wire t" using type_value_Ok [OF assms(2), of ctx t v b] by simp
  then show ?thesis
    using v(2) encode_fits [OF _ assms(2) wf_value_finite_floats [OF type_wire_wf [OF assms(3)]], of b bs] assms(1)
    by (simp add: cbor2_documented_def)
qed

lemma union_members_wf:
  assumes "wf_type b t" "union_member normal t = Ok ts" "type_ok ctx t" "x \<in> set ts"
  shows "wf_type b x \<and> \<not> is_union x \<and> type_ok ctx x"
  using assms by (cases t) (auto simp: union_member_def is_union_def split: if_splits)

lemma sort_eq_Nil: "sort xs = [] \<longleftrightarrow> xs = []"
  by (metis length_0_conv length_sort)

lemma map_result_origin: "map_result f xs = Ok ys \<Longrightarrow> y \<in> set ys \<Longrightarrow> \<exists>x \<in> set xs. f x = Ok y"
  by (induction xs arbitrary: ys) auto

lemma map_canonical_keys: "map fst m = map fst fs \<Longrightarrow> map_canonical m \<longleftrightarrow> map_canonical fs"
  using map_map [of canon_key fst m] map_map [of canon_key fst fs] by (simp add: map_canonical_def comp_def)

lemma parse_type_wf:
  assumes bk: "cbor2_documented b" and ul: "usize_limits lim"
  shows "parse_type b ctx lim normal v = Ok t \<Longrightarrow> wf_value v \<Longrightarrow> wf_type b t \<and> type_ok ctx t"
proof (induction v arbitrary: t rule: measure_induct_rule [of size])
  case (less v)
  have port: "wf_type b (port_type p) \<and> type_ok ctx (port_type p)"
    if w: "parse_port_with (parse_type b ctx lim normal) w = Ok p" "wf_value w" "size w < size v" for w p
  proof -
    obtain x where x: "w = VMap [(''type'', x), (''required'', VBool (port_required p))]"
      "parse_type b ctx lim normal x = Ok (port_type p)"
      using parse_port_with_Ok [OF w(1,2)] by blast
    have "size x < size v" using w(3) size_in_map [of "''type''" x] by (simp add: x)
    then show ?thesis using less.IH [OF _ x(2)] w(2) by (simp add: x)
  qed
  from less.prems(1) show ?case
  proof (cases rule: parse_type_E)
    case (c_record w)
    obtain m fs where w: "w = VMap m" "t = TRecord fs"
      and ps: "map_result (\<lambda>(name, port). attempt (parse_port_with (parse_type b ctx lim normal) port) (\<lambda>p. Ok (name, p))) m = Ok fs"
      using c_record(2) by (auto simp: parse_record_def split: value_splits)
    have wm: "wf_value (VMap m)" using less.prems c_record(1) w by auto
    have "list_all2 (\<lambda>e f. (utf8_valid (fst f) \<and> wf_type b (port_type (snd f)) \<and> type_ok ctx (port_type (snd f))) \<and> fst f = fst e) m fs"
    proof (rule list.rel_mono_strong)
      show "list_all2 (\<lambda>e f. (\<lambda>(name, port). attempt (parse_port_with (parse_type b ctx lim normal) port)
          (\<lambda>p. Ok (name, p))) e = Ok f) m fs"
        using ps by (simp add: map_result_Ok_iff)
    next
      fix e f
      assume e: "e \<in> set m" and "(\<lambda>(name, port). attempt (parse_port_with (parse_type b ctx lim normal) port)
          (\<lambda>p. Ok (name, p))) e = Ok f"
      then have p: "fst e = fst f" "parse_port_with (parse_type b ctx lim normal) (snd e) = Ok (snd f)"
        by (auto split: prod.splits)
      have "size (snd e) < size (VMap m)" using size_in_map [of "fst e" "snd e" m] e by simp
      then have "size (snd e) < size v" by (simp add: c_record(1) w)
      moreover have "wf_value (snd e)" "utf8_valid (fst e)" using wm e by auto
      ultimately show "(utf8_valid (fst f) \<and> wf_type b (port_type (snd f)) \<and> type_ok ctx (port_type (snd f))) \<and> fst f = fst e"
        using port [OF p(2)] p(1) by simp
    qed
    then have m: "map fst m = map fst fs"
      and fs: "\<forall>f \<in> set fs. utf8_valid (fst f) \<and> wf_type b (port_type (snd f)) \<and> type_ok ctx (port_type (snd f))"
      unfolding list_all2_image2 by auto
    have "map_canonical fs"
      using wm map_canonical_keys [OF m] by simp
    then show ?thesis using fs map_canonical_distinct by (simp add: w(2))
  next
    case (c_union w)
    obtain items members keyed keyed' where w: "w = VArray items"
      and ms: "map_result (\<lambda>item. attempt (parse_type b ctx lim normal item) (union_member normal)) items = Ok members"
      and ks: "map_result (\<lambda>member. attempt (value_type_encode b ctx lim member) (\<lambda>bs. Ok (bs, member))) (concat members) = Ok keyed"
      and k': "keyed' = (if normal then dedup_keyed (sort_key fst keyed) else keyed)"
        "\<not> normal \<Longrightarrow> \<not> any_pair (\<lambda>x y. fst x \<ge> fst y) keyed" "2 \<le> length keyed'" and t: "t = TUnion (map snd keyed')"
      using c_union(2) by (auto simp: parse_union_def not_less split: if_splits)
    have mem: "wf_type b x \<and> \<not> is_union x \<and> type_ok ctx x" if x: "x \<in> set (concat members)" for x
    proof -
      obtain ts where ts: "ts \<in> set members" "x \<in> set ts" using x by auto
      then obtain item y where i: "item \<in> set items" "parse_type b ctx lim normal item = Ok y" "union_member normal y = Ok ts"
        using map_result_origin [OF ms ts(1)] by auto
      have "size item < size v" using size_in_array [OF i(1)] by (simp add: c_union(1) w)
      then have "wf_type b y \<and> type_ok ctx y"
        using less.IH [OF _ i(2)] less.prems(2) i(1) by (auto simp: c_union(1) w)
      then show ?thesis using union_members_wf [OF _ i(3) _ ts(2)] by blast
    qed
    have keyed: "keyed = map (\<lambda>x. (canon b (type_wire x), x)) (concat members)"
    proof -
      have "list_all2 (\<lambda>x k. k = (canon b (type_wire x), x)) (concat members) keyed"
      proof (rule list.rel_mono_strong)
        show "list_all2 (\<lambda>x k. attempt (value_type_encode b ctx lim x) (\<lambda>bs. Ok (bs, x)) = Ok k) (concat members) keyed"
          using ks by (simp add: map_result_Ok_iff)
      qed (use mem value_type_encode_bytes [OF bk ul] in fastforce)
      then show ?thesis by (auto simp: list_all2_conv_all_nth intro!: nth_equalityI)
    qed
    have sub: "set keyed' \<subseteq> set keyed"
      using dedup_keyed_set(1) [of "sort_key fst keyed"] by (auto simp: k'(1))
    have fst: "fst k = canon b (type_wire (snd k))" if "k \<in> set keyed'" for k
      using sub that by (auto simp: keyed)
    have "strictly_sorted (map fst keyed')"
      using dedup_keyed_sorted [of "sort_key fst keyed"] k'(2) no_pair_ge_iff [of "map fst keyed"]
      by (auto simp: k'(1) any_pair_map)
    then have "strictly_sorted (map (\<lambda>t. canon b (type_wire t)) (map snd keyed'))"
      using fst by (simp cong: map_cong)
    moreover have "\<forall>x \<in> snd ` set keyed'. wf_type b x \<and> \<not> is_union x \<and> type_ok ctx x"
      using sub mem by (fastforce simp: keyed)
    ultimately show ?thesis using k'(3) by (simp add: t)
  next
    case (c_function w u)
    obtain items ps r where w: "w = VArray items" "ctx = ContextSignature" "t = TFunction ps r"
      and ps: "map_result (parse_port_with (parse_type b ctx lim normal)) items = Ok ps"
      and r: "parse_port_with (parse_type b ctx lim normal) u = Ok r"
      using c_function(2) by (cases ctx) (auto simp: parse_function_def signature_only_def)
    have wv: "wf_value (VArray items)" "wf_value u" using less.prems c_function(1) w by auto
    have p: "wf_type b (port_type p) \<and> type_ok ctx (port_type p)" if p: "p \<in> set ps" for p
    proof -
      obtain i where i: "i \<in> set items" "parse_port_with (parse_type b ctx lim normal) i = Ok p"
        using map_result_origin [OF ps p] by blast
      have "size i < size v" using size_in_array [OF i(1)] by (simp add: c_function(1) w)
      then show ?thesis using port [OF i(2)] wv(1) i(1) by simp
    qed
    have "wf_type b (port_type r) \<and> type_ok ctx (port_type r)"
      by (rule port [OF r wv(2)]) (simp add: c_function(1))
    then show ?thesis using p w by simp
  next
    case (c_enum w)
    then show ?thesis
      using less.prems
      by (auto simp: parse_enum_def enum_pairs_Ok Let_def sort_eq_Nil split: if_splits)
  next
    case (c_schema s d)
    then show ?thesis using digest_from_str_Ok by auto
  next
    case (c_var s i)
    then show ?thesis using ident_new_str by fastforce
  next
    case (c_list w c)
    then show ?thesis using less.IH [of w c] less.prems by auto
  next
    case (c_map w c)
    then show ?thesis using less.IH [of w c] less.prems by auto
  qed simp
qed


section \<open>The record interface\<close>

lemma type_record:
  assumes bk: "cbor2_documented b" and ul: "usize_limits lim"
  shows "wf_type b t \<Longrightarrow> type_value ctx lim t = Ok v \<Longrightarrow> parse_type b ctx lim normal v = Ok t \<and> wf_value v"
    and "wf_value v \<Longrightarrow> parse_type b ctx lim False v = Ok t \<Longrightarrow> encode b lim v = Ok bs \<Longrightarrow> type_value ctx lim t = Ok v"
proof -
  note ok = type_value_Ok [OF ul, of ctx t v b]
  show "parse_type b ctx lim normal v = Ok t \<and> wf_value v" if "wf_type b t" "type_value ctx lim t = Ok v"
    using that ok parse_type_complete [OF bk ul that(1), of ctx normal] type_wire_wf [OF that(1)] by auto
  show "type_value ctx lim t = Ok v"
    if v: "wf_value v" "parse_type b ctx lim False v = Ok t" "encode b lim v = Ok bs"
  proof -
    have "fits b lim v"
      using v(3) encode_fits [OF _ ul wf_value_finite_floats [OF v(1)]] bk by (simp add: cbor2_documented_def)
    then show ?thesis using parse_type_sound [OF bk ul v(2,1)] ok by simp
  qed
qed

interpretation type_codec: record_codec b "type_value ctx" "\<lambda>lim. parse_type b ctx lim False" "wf_type b" TyCodec for b ctx
proof
  show "wf_value v" if "usize_limits lim" "wf_type b r" "type_value ctx lim r = Ok v" for lim r v
    using that type_value_Ok [of lim ctx r v b] type_wire_wf by simp
qed (use type_record parse_type_wf in blast)+

lemma port_record:
  assumes bk: "cbor2_documented b" and ul: "usize_limits lim"
  shows "wf_port b p \<Longrightarrow> port_value ctx lim p = Ok v \<Longrightarrow> parse_port b ctx lim False v = Ok p"
    and "wf_value v \<Longrightarrow> parse_port b ctx lim False v = Ok p \<Longrightarrow> encode b lim v = Ok bs \<Longrightarrow> port_value ctx lim p = Ok v"
    and "wf_value v \<Longrightarrow> parse_port b ctx lim False v = Ok p \<Longrightarrow> wf_port b p"
proof -
  note ok = port_value_Ok [OF ul, of ctx p v b]
  show "parse_port b ctx lim False v = Ok p" if "wf_port b p" "port_value ctx lim p = Ok v"
  proof -
    have v: "type_ok ctx (port_type p)" "v = port_wire type_wire p" "fits b lim v" using that(2) ok by auto
    have "parse_type b ctx lim False (type_wire (port_type p)) = Ok (port_type p)"
      by (rule parse_type_complete [OF bk ul]) (use that(1) v fits_port in \<open>auto simp: wf_port_def\<close>)
    then show ?thesis unfolding v(2) parse_port_def by (rule parse_port_wire)
  qed
  assume v: "wf_value v" "parse_port b ctx lim False v = Ok p"
  obtain t where t: "v = VMap [(''type'', t), (''required'', VBool (port_required p))]"
    "parse_type b ctx lim False t = Ok (port_type p)"
    using parse_port_with_Ok [OF v(2) [unfolded parse_port_def] v(1)] by blast
  have wt: "wf_value t" using v(1) by (simp add: t)
  then show "wf_port b p" using parse_type_wf [OF bk ul t(2)] by (simp add: wf_port_def)
  show "port_value ctx lim p = Ok v" if "encode b lim v = Ok bs"
  proof -
    have f: "fits b lim v"
      using that encode_fits [OF _ ul wf_value_finite_floats [OF v(1)]] bk by (simp add: cbor2_documented_def)
    then have "fits b lim t" unfolding t(1) by (rule fits_map [where k = "''type''"]) simp
    then show ?thesis using parse_type_sound [OF bk ul t(2) wt] ok f by (simp add: port_wire_def t(1))
  qed
qed

interpretation port_codec: record_codec b "port_value ctx" "\<lambda>lim. parse_port b ctx lim False" "wf_port b" TyCodec for b ctx
proof
  show "wf_value v" if "usize_limits lim" "wf_port b r" "port_value ctx lim r = Ok v" for lim r v
    using that port_value_Ok [of lim ctx r v b] type_wire_wf port_wire_wf by (simp add: wf_port_def)
qed (use port_record in blast)+

section \<open>The normalising constructor\<close>

text \<open>
  What the fields of a \<open>ValueTypeKind\<close> already satisfy when the constructor is called: the
  nested types and ports are normalised values and the strings are UTF-8.
\<close>

fun wf_kind :: "cbor2 \<Rightarrow> value_type \<Rightarrow> bool" where
  "wf_kind b (TRecord fs) = (\<forall>f \<in> set fs. utf8_valid (fst f) \<and> wf_type b (port_type (snd f)))"
| "wf_kind b (TUnion ms) = (\<forall>t \<in> set ms. wf_type b t)"
| "wf_kind b (TEnum ms) = (\<forall>s \<in> set ms. utf8_valid s)"
| "wf_kind b t = wf_type b t"

lemma wf_kind_value:
  assumes "wf_kind b t" "type_ok ctx t"
  shows "wf_value (type_wire t)"
proof (cases t)
  case (TRecord fs)
  let ?es = "map (\<lambda>(name, p). (name, port_wire type_wire p)) fs"
  let ?m = "sort_key (\<lambda>p. canon_key (fst p)) ?es"
  have "map_try_from_entries ?es = Ok ?m"
    using assms(2) by (simp add: TRecord map_try_from_entries_Ok comp_def split_def)
  then have "map_canonical ?m" by (rule map_try_from_entries_canonical)
  moreover have "wf_value (port_wire type_wire (snd f))" if "f \<in> set fs" for f
    using assms(1) that by (intro port_wire_wf type_wire_wf) (auto simp: TRecord)
  ultimately show ?thesis using assms(1) by (auto simp: TRecord)
qed (use assms(1) type_wire_wf [of b t] in \<open>auto intro: type_wire_wf\<close>)

lemma value_type_new_E:
  assumes "value_type_new b kind ctx lim = Ok t"
  obtains v w where "type_value ctx lim kind = Ok v" "parse_type b ctx lim True v = Ok t" "type_value ctx lim t = Ok w"
  using assms by (auto simp: value_type_new_def)

lemma value_type_new_wf:
  assumes "cbor2_documented b" "usize_limits lim" "wf_kind b kind" "value_type_new b kind ctx lim = Ok t"
  shows "wf_type b t \<and> type_ok ctx t \<and> fits b lim (type_wire t)"
proof -
  obtain v w where v: "type_value ctx lim kind = Ok v" "parse_type b ctx lim True v = Ok t" "type_value ctx lim t = Ok w"
    using assms(4) by (rule value_type_new_E)
  have k: "type_ok ctx kind" "v = type_wire kind" using v(1) type_value_Ok [OF assms(2), of ctx kind v b] by auto
  have "wf_value v" unfolding k(2) by (rule wf_kind_value [OF assms(3) k(1)])
  then show ?thesis
    using parse_type_wf [OF assms(1,2) v(2)] type_value_Ok [OF assms(2), of ctx t w b] v(3) by auto
qed

lemma value_type_new_id:
  assumes "cbor2_documented b" "usize_limits lim" "wf_type b t" "type_ok ctx t" "fits b lim (type_wire t)"
  shows "value_type_new b t ctx lim = Ok t"
  using type_value_Ok [OF assms(2), of ctx t "type_wire t" b] parse_type_complete [OF assms] assms(4,5)
  by (simp add: value_type_new_def)

end
