(* ===== verification/Type_Properties.thy ===== *)
theory Type_Properties
  imports Type_Records Cbor_Properties
begin

text \<open>
  The record shapes of the structured built-in types, and the properties of type
  descriptions and ports.
\<close>

section \<open>Structured built-in types\<close>

definition ty_make :: "cbor2 \<Rightarrow> limits \<Rightarrow> value_type \<Rightarrow> (type_error, value_type) result" where
  "ty_make b lim kind = value_type_new b kind ContextValue lim"

definition builtin_port :: "builtin_type \<Rightarrow> bool \<Rightarrow> vport" where
  "builtin_port x required = Port (TBuiltin x) required"

definition tool_result_type :: "cbor2 \<Rightarrow> limits \<Rightarrow> (type_error, value_type) result" where
  "tool_result_type b lim =
     (let enumeration = (\<lambda>members. ty_make b lim (TEnum members));
          integer = builtin_port BInteger False
      in attempt (enumeration [''structured_content'', ''text'']) (\<lambda>origin.
         attempt (enumeration [''structured_content'', ''whole_block'', ''fence'', ''embedded'']) (\<lambda>method.
         attempt (ty_make b lim (TRecord
           [(''origin'', Port origin True), (''method'', Port method True),
            (''content_block_index'', integer), (''byte_start'', integer), (''byte_end'', integer)])) (\<lambda>source.
         attempt (ty_make b lim (TList source)) (\<lambda>sources.
         attempt (enumeration [''parsed'']) (\<lambda>parsed.
         attempt (ty_make b lim (TRecord
           [(''id'', builtin_port BString True), (''value'', builtin_port BJson True),
            (''sources'', Port sources True), (''validation'', Port parsed True)])) (\<lambda>candidate.
         attempt (enumeration [''selected'', ''none'', ''ambiguous'', ''exhausted'']) (\<lambda>status.
         attempt (ty_make b lim (TList candidate)) (\<lambda>candidates.
         attempt (ty_make b lim (TRecord
           [(''status'', Port status True), (''candidates'', Port candidates True),
            (''selected_candidate_id'', builtin_port BString False),
            (''exhausted_limit'', builtin_port BString False)])) (\<lambda>extraction.
         attempt (enumeration [''not_configured'', ''valid'', ''missing'', ''invalid'']) (\<lambda>assessed.
         attempt (enumeration [''enforce'', ''report'', ''observe'']) (\<lambda>mode.
         attempt (ty_make b lim (TRecord
           [(''status'', Port assessed True), (''schema'', builtin_port BString False),
            (''mode'', Port mode False)])) (\<lambda>assessment.
         attempt (ty_make b lim (TRecord
           [(''declared_schema'', Port assessment True), (''inferred_schema'', Port assessment True),
            (''application_schema'', Port assessment True)])) (\<lambda>validation.
         ty_make b lim (TRecord
           [(''protocol_result'', builtin_port BJson True), (''extraction'', Port extraction True),
            (''data'', builtin_port BJson False), (''validation'', Port validation True)])))))))))))))))"

text \<open>One variant of the resource contents union.\<close>

definition resource_variant ::
  "cbor2 \<Rightarrow> limits \<Rightarrow> bytes \<Rightarrow> bytes \<Rightarrow> builtin_type \<Rightarrow> (type_error, value_type) result" where
  "resource_variant b lim kind field x =
     attempt (ty_make b lim (TEnum [kind])) (\<lambda>tag.
     ty_make b lim (TRecord
       [(''kind'', Port tag True), (''uri'', builtin_port BString True),
        (''mime_type'', builtin_port BString False), (field, builtin_port x True)]))"

definition builtin_record_type :: "cbor2 \<Rightarrow> builtin_type \<Rightarrow> limits \<Rightarrow> (type_error, value_type option) result" where
  "builtin_record_type b x lim =
     (let record = (\<lambda>fs. attempt (ty_make b lim (TRecord fs)) (\<lambda>t. Ok (Some t)));
          str = builtin_port BString True
      in case x of
        BMcpToolResult \<Rightarrow> attempt (tool_result_type b lim) (\<lambda>t. Ok (Some t))
      | BError \<Rightarrow> record [(''code'', str), (''message'', str)]
      | BRegex \<Rightarrow> record [(''pattern'', str), (''flags'', str)]
      | BMcpResourceResult \<Rightarrow>
          attempt (resource_variant b lim ''text'' ''text'' BString) (\<lambda>text_variant.
          attempt (resource_variant b lim ''bytes'' ''data'' BBytes) (\<lambda>bytes_variant.
          attempt (ty_make b lim (TUnion [text_variant, bytes_variant])) (\<lambda>variants.
          attempt (ty_make b lim (TList variants)) (\<lambda>contents.
          record [(''server_identity'', str), (''descriptor_digest'', str), (''requested_uri'', str),
            (''contents'', Port contents True)]))))
      | BMcpPromptResult \<Rightarrow>
          attempt (ty_make b lim (TEnum [''user'', ''assistant''])) (\<lambda>role.
          attempt (ty_make b lim (TRecord
            [(''role'', Port role True), (''content'', builtin_port BJson True)])) (\<lambda>message.
          attempt (ty_make b lim (TList message)) (\<lambda>messages.
          attempt (ty_make b lim (TMap (TBuiltin BJson))) (\<lambda>meta.
          record [(''messages'', Port messages True), (''description'', builtin_port BString False),
            (''_meta'', Port meta False)]))))
      | _ \<Rightarrow> Ok None)"

lemma ty_make_wf:
  assumes "cbor2_documented b" "usize_limits lim" "ty_make b lim kind = Ok t" "wf_kind b kind"
  shows "wf_type b t"
  using value_type_new_wf [OF assms(1,2,4)] assms(3) by (simp add: ty_make_def)

lemma wf_builtin_port [simp]: "wf_type b (port_type (builtin_port x r))"
  by (simp add: builtin_port_def)

lemma ty_make_enum:
  assumes "cbor2_documented b" "usize_limits lim" "ty_make b lim (TEnum ms) = Ok t" "\<forall>s \<in> set ms. utf8_valid s"
  shows "wf_type b t"
  using ty_make_wf [OF assms(1,2,3)] assms(4) by simp

lemma resource_variant_wf:
  assumes "cbor2_documented b" "usize_limits lim" "resource_variant b lim kind field x = Ok t"
    "utf8_valid kind" "utf8_valid field"
  shows "wf_type b t"
proof -
  obtain tag where tag: "ty_make b lim (TEnum [kind]) = Ok tag"
    and t: "ty_make b lim (TRecord [(''kind'', Port tag True), (''uri'', builtin_port BString True),
        (''mime_type'', builtin_port BString False), (field, builtin_port x True)]) = Ok t"
    using assms(3) by (auto simp: resource_variant_def)
  have "wf_type b tag" using ty_make_enum [OF assms(1,2) tag] assms(4) by simp
  then show ?thesis using assms(5) by (intro ty_make_wf [OF assms(1,2) t]) simp
qed

lemma tool_result_wf:
  assumes bk: "cbor2_documented b" and ul: "usize_limits lim" and t: "tool_result_type b lim = Ok t"
  shows "wf_type b t"
  using t ty_make_wf [OF bk ul] unfolding tool_result_type_def Let_def by simp (elim exE conjE, simp)

lemma ty_make_record:
  "ty_make b lim (TRecord fs) = Ok t \<Longrightarrow> \<exists>gs. t = TRecord gs"
proof -
  assume "ty_make b lim (TRecord fs) = Ok t"
  then obtain v k where v: "b_ty ContextValue lim (TRecord fs) 0 0 = Ok (v, k)" "parse_type b ContextValue lim True v = Ok t"
    by (auto simp: ty_make_def value_type_new_def type_value_def acc_new_def)
  have "\<exists>w. v = VArray [VText ''record'', w]"
    using v(1) by (auto simp: b_record_def b_tagged_def b_text_def b_string_def)
  then show ?thesis
    using v(2) by (auto elim!: parse_type_E simp: parse_record_def split: value_splits)
qed

lemma builtin_record_record:
  assumes "builtin_record_type b x lim = Ok (Some t)"
  shows "\<exists>fs. t = TRecord fs"
  using assms ty_make_record
  by (auto simp: builtin_record_type_def tool_result_type_def Let_def split: builtin_type.splits)

lemma builtin_record_type_wf:
  assumes bk: "cbor2_documented b" and ul: "usize_limits lim" and x: "builtin_record_type b x lim = Ok (Some t)"
  shows "wf_type b t"
proof (cases x)
  case BMcpToolResult
  then show ?thesis using x tool_result_wf [OF bk ul] by (auto simp: builtin_record_type_def Let_def)
next
  case BMcpResourceResult
  then show ?thesis
    using x ty_make_wf [OF bk ul] resource_variant_wf [OF bk ul]
    by (auto simp: builtin_record_type_def Let_def builtin_port_def)
next
  case BMcpPromptResult
  then show ?thesis
    using x ty_make_wf [OF bk ul] by (auto simp: builtin_record_type_def Let_def builtin_port_def)
qed (use x ty_make_wf [OF bk ul] in \<open>auto simp: builtin_record_type_def Let_def builtin_port_def\<close>)

section \<open>Properties\<close>

text \<open>C20. A normalised type description has exactly one byte representation in each
  context: it encodes to given bytes exactly when those bytes decode to it.\<close>

theorem type_bytes_iff:
  assumes "cbor2_documented b" "usize_limits lim" "wf_type b t"
  shows "value_type_encode b ctx lim t = Ok bs \<longleftrightarrow> value_type_decode b ctx lim bs = Ok t"
  unfolding value_type_encode_def value_type_decode_def by (rule type_codec.bytes_iff [OF assms])

definition sample_type :: value_type where
  "sample_type = TRecord [(''id'', Port (TBuiltin BString) True),
     (''tags'', Port (TList (TUnion [TBuiltin BNull, TBuiltin BString])) False)]"

definition sample_type_bytes :: bytes where
  "sample_type_bytes = canon reference (type_wire sample_type)"

theorem type_bytes_iff_witness:
  "value_type_encode reference ContextValue default_limits sample_type = Ok sample_type_bytes \<and>
    value_type_decode reference ContextValue default_limits sample_type_bytes = Ok sample_type"
proof -
  have w: "wf_type reference sample_type" by code_simp
  have e: "value_type_encode reference ContextValue default_limits sample_type = Ok sample_type_bytes" by code_simp
  show ?thesis
    using e type_bytes_iff [OF reference_documented usize_default_limits w, of ContextValue sample_type_bytes] by blast
qed

text \<open>The same for a port record, whose presence flag survives independently of its type.\<close>

theorem port_bytes_iff:
  assumes "cbor2_documented b" "usize_limits lim" "wf_port b p"
  shows "port_encode b ctx lim p = Ok bs \<longleftrightarrow> port_decode b ctx lim bs = Ok p"
  unfolding port_encode_def port_decode_def by (rule port_codec.bytes_iff [OF assms])

theorem port_bytes_iff_witness:
  "port_encode reference ContextSignature default_limits (Port (TVar (Ident ''t'')) False) =
      Ok (canon reference (port_wire type_wire (Port (TVar (Ident ''t'')) False))) \<and>
    port_decode reference ContextSignature default_limits
      (canon reference (port_wire type_wire (Port (TVar (Ident ''t'')) False))) = Ok (Port (TVar (Ident ''t'')) False)"
proof -
  let ?p = "Port (TVar (Ident ''t'')) False"
  have w: "wf_port reference ?p" by code_simp
  have e: "port_encode reference ContextSignature default_limits ?p = Ok (canon reference (port_wire type_wire ?p))"
    by code_simp
  show ?thesis
    using e port_bytes_iff [OF reference_documented usize_default_limits w, of ContextSignature] by blast
qed

text \<open>C35. The constructor of type descriptions normalises: whatever authored shape over
  normalised parts it accepts, the result is a normalised type allowed in the context, and
  the constructor leaves a normalised result unchanged.\<close>

theorem type_new_normalizes:
  assumes "cbor2_documented b" "usize_limits lim" "wf_kind b kind" "value_type_new b kind ctx lim = Ok t"
  shows "wf_type b t \<and> type_ok ctx t \<and> value_type_new b t ctx lim = Ok t"
  using value_type_new_wf [OF assms] value_type_new_id [OF assms(1,2)] by blast

theorem type_new_normalizes_witness:
  "value_type_new reference (TUnion [TBuiltin BString, TUnion [TBuiltin BNull, TBuiltin BString]]) ContextValue default_limits =
      Ok (TUnion [TBuiltin BNull, TBuiltin BString]) \<and>
    wf_type reference (TUnion [TBuiltin BNull, TBuiltin BString])"
proof -
  have k: "wf_kind reference (TUnion [TBuiltin BString, TUnion [TBuiltin BNull, TBuiltin BString]])" by code_simp
  have n: "value_type_new reference (TUnion [TBuiltin BString, TUnion [TBuiltin BNull, TBuiltin BString]]) ContextValue default_limits =
      Ok (TUnion [TBuiltin BNull, TBuiltin BString])" by code_simp
  show ?thesis using n type_new_normalizes [OF reference_documented usize_default_limits k n] by blast
qed

text \<open>The expanded declaration of every structured built-in type is a normalised
  record type.\<close>

theorem builtin_record_normal:
  assumes "cbor2_documented b" "usize_limits lim" "builtin_record_type b x lim = Ok (Some t)"
  shows "wf_type b t \<and> (\<exists>fs. t = TRecord fs)"
  using builtin_record_type_wf [OF assms] builtin_record_record [OF assms(3)] by blast

theorem builtin_record_normal_witness:
  "builtin_record_type reference BError default_limits = Ok (Some (TRecord
      [(''code'', Port (TBuiltin BString) True), (''message'', Port (TBuiltin BString) True)])) \<and>
    wf_type reference (TRecord [(''code'', Port (TBuiltin BString) True), (''message'', Port (TBuiltin BString) True)])"
proof -
  have n: "builtin_record_type reference BError default_limits = Ok (Some (TRecord
      [(''code'', Port (TBuiltin BString) True), (''message'', Port (TBuiltin BString) True)]))" by code_simp
  show ?thesis using n builtin_record_normal [OF reference_documented usize_default_limits n] by blast
qed

end
