(* ===== verification/Json_Pointer.thy ===== *)
theory Json_Pointer
  imports Cbor_Properties Digests
begin

text \<open>
  JSON Pointer, \<open>json_pointer.rs\<close>: parsing of the plain and the URI-fragment form, lookup in
  a value, and the display form. Offsets are byte offsets; a token is its UTF-8 byte list, on
  which the escapes \<open>~0\<close> and \<open>~1\<close> are single ASCII bytes. Decimal numerals are shared with
  the evaluator.
\<close>

section \<open>Decimal numerals\<close>

definition dec_digit :: "nat \<Rightarrow> byte" where
  "dec_digit n = char_of (48 + n)"

fun dec_digits :: "nat \<Rightarrow> bytes" where
  "dec_digits n = (if n < 10 then [dec_digit n] else dec_digits (n div 10) @ [dec_digit (n mod 10)])"

declare dec_digits.simps [simp del]

definition int_to_string :: "int \<Rightarrow> bytes" where
  "int_to_string i = (if i < 0 then CHR ''-'' # dec_digits (nat (- i)) else dec_digits (nat i))"

definition is_digit :: "byte \<Rightarrow> bool" where
  "is_digit c \<longleftrightarrow> 48 \<le> (of_char c :: nat) \<and> (of_char c :: nat) \<le> 57"

definition decimal_value :: "bytes \<Rightarrow> nat" where
  "decimal_value s = foldl (\<lambda>n c. 10 * n + (of_char c - 48)) 0 s"

lemma of_char_dec_digit [simp]: "n < 10 \<Longrightarrow> (of_char (dec_digit n) :: nat) = 48 + n"
  by (simp add: dec_digit_def)

lemma is_dec_digit [simp]: "n < 10 \<Longrightarrow> is_digit (dec_digit n)"
  by (simp add: is_digit_def)

lemma decimal_value_snoc [simp]: "decimal_value (s @ [c]) = 10 * decimal_value s + (of_char c - 48)"
  by (simp add: decimal_value_def)

lemma decimal_value_digits [simp]: "decimal_value (dec_digits n) = n"
proof (induction n rule: dec_digits.induct)
  case (1 n)
  then show ?case by (subst dec_digits.simps) (auto simp: decimal_value_def)
qed

lemma dec_digits_digits: "c \<in> set (dec_digits n) \<Longrightarrow> is_digit c"
proof (induction n rule: dec_digits.induct)
  case (1 n)
  then show ?case by (subst (asm) (2) dec_digits.simps) (auto split: if_splits)
qed

lemma dec_digits_nonempty [simp]: "dec_digits n \<noteq> []"
  by (subst dec_digits.simps) simp

lemma dec_digits_first: "10 \<le> n \<Longrightarrow> hd (dec_digits n) \<noteq> CHR ''0''"
proof (induction n rule: dec_digits.induct)
  case (1 n)
  have s: "dec_digits n = dec_digits (n div 10) @ [dec_digit (n mod 10)]"
    using "1.prems" by (subst dec_digits.simps) simp
  show ?case
  proof (cases "n div 10 < 10")
    case True
    have "dec_digits (n div 10) = [dec_digit (n div 10)]" using True by (subst dec_digits.simps) simp
    moreover have "dec_digit (n div 10) \<noteq> CHR ''0''"
    proof
      assume "dec_digit (n div 10) = CHR ''0''"
      then have "(of_char (dec_digit (n div 10)) :: nat) = of_char (CHR ''0'')" by simp
      then show False using True "1.prems" by simp
    qed
    ultimately show ?thesis by (simp add: s)
  next
    case False
    then show ?thesis using 1 by (simp add: s)
  qed
qed

text \<open>The numerals without a superfluous leading zero.\<close>

definition canonical_decimal :: "bytes \<Rightarrow> bool" where
  "canonical_decimal s \<longleftrightarrow> s \<noteq> [] \<and> \<not> (length s > 1 \<and> hd s = CHR ''0'') \<and> (\<forall>c \<in> set s. is_digit c)"

lemma dec_digit_of_char: "is_digit c \<Longrightarrow> dec_digit (of_char c - 48) = c"
  by (simp add: is_digit_def dec_digit_def)

lemma decimal_value_pos: "s \<noteq> [] \<Longrightarrow> hd s \<noteq> CHR ''0'' \<Longrightarrow> \<forall>c \<in> set s. is_digit c \<Longrightarrow> 0 < decimal_value s"
proof (induction s rule: rev_induct)
  case (snoc c s)
  show ?case
  proof (cases "s = []")
    case True
    have "(of_char c :: nat) \<noteq> 48"
    proof
      assume "(of_char c :: nat) = 48"
      then have "(of_char c :: nat) = of_char (CHR ''0'')" by simp
      then have "c = CHR ''0''" by (simp only: of_char_eq_iff)
      then show False using snoc.prems True by simp
    qed
    then show ?thesis using snoc.prems True by (simp add: decimal_value_def is_digit_def)
  qed (use snoc in auto)
qed simp

lemma dec_digits_value: "canonical_decimal s \<Longrightarrow> dec_digits (decimal_value s) = s"
proof (induction s rule: rev_induct)
  case (snoc c s)
  have c: "is_digit c" "dec_digit (of_char c - 48) = c" and lt: "of_char c - 48 < (10::nat)"
    using snoc.prems dec_digit_of_char [of c] by (auto simp: canonical_decimal_def is_digit_def)
  show ?case
  proof (cases "s = []")
    case True
    then show ?thesis using c lt by (simp add: decimal_value_def dec_digits.simps)
  next
    case False
    then have s: "canonical_decimal s" "0 < decimal_value s"
      using snoc.prems decimal_value_pos [of s] by (auto simp: canonical_decimal_def)
    have "dec_digits (10 * decimal_value s + (of_char c - 48)) = dec_digits (decimal_value s) @ [dec_digit (of_char c - 48)]"
      using s(2) lt by (subst dec_digits.simps) simp
    then show ?thesis using snoc.IH [OF s(1)] c by simp
  qed
qed (simp add: canonical_decimal_def)

lemma canonical_decimal_digits: "canonical_decimal (dec_digits n)"
proof (cases "n < 10")
  case True
  then show ?thesis by (subst dec_digits.simps) (simp add: canonical_decimal_def)
next
  case False
  then show ?thesis using dec_digits_first [of n] dec_digits_digits by (auto simp: canonical_decimal_def)
qed

section \<open>Pointers\<close>

datatype json_pointer = JsonPointer (tokens: "bytes list")

datatype json_pointer_error =
  PtrCodec cbor_error
| PtrInvalidSyntax nat
| PtrInvalidFragment nat
| PtrInvalidUtf8 nat
| PtrMissingTarget nat
| PtrInvalidIndex nat
| PtrScalarTraversal nat
| PtrLimitExceeded limit_kind nat
| PtrAllocationFailed

definition ptr_check :: "nat \<Rightarrow> nat \<Rightarrow> limit_kind \<Rightarrow> (json_pointer_error, unit) result" where
  "ptr_check n maximum k = (if n > maximum then Err (PtrLimitExceeded k maximum) else Ok ())"

text \<open>\<open>str::split\<close> on one ASCII character.\<close>

fun split_on :: "byte \<Rightarrow> bytes \<Rightarrow> bytes list" where
  "split_on sep [] = [[]]"
| "split_on sep (c # s) =
     (if c = sep then [] # split_on sep s
      else (case split_on sep s of t # ts \<Rightarrow> (c # t) # ts | [] \<Rightarrow> [[c]]))"

text \<open>The loop that validates the escapes of one raw token, returning the decoded length.\<close>

fun token_length :: "nat \<Rightarrow> nat \<Rightarrow> bytes \<Rightarrow> (json_pointer_error, nat) result" where
  "token_length pos len [] = Ok len"
| "token_length pos len (c # s) =
     (if c = CHR ''~'' then
        (case s of
           e # s' \<Rightarrow> if e = CHR ''0'' \<or> e = CHR ''1'' then token_length (pos + 2) (len + 1) s'
             else Err (PtrInvalidSyntax pos)
         | [] \<Rightarrow> Err (PtrInvalidSyntax pos))
      else token_length (pos + 1) (len + 1) s)"

text \<open>The loop that decodes one validated token.\<close>

fun unescape :: "bytes \<Rightarrow> bytes" where
  "unescape [] = []"
| "unescape (c # s) =
     (if c = CHR ''~'' then
        (case s of [] \<Rightarrow> [CHR ''/''] | e # s' \<Rightarrow> (if e = CHR ''0'' then CHR ''~'' else CHR ''/'') # unescape s')
      else c # unescape s)"

text \<open>The loop over the raw tokens; \<open>k\<close> is \<open>tokens.len()\<close> and \<open>offset\<close> the running offset.\<close>

fun pointer_tokens :: "limits \<Rightarrow> nat \<Rightarrow> nat \<Rightarrow> bytes list \<Rightarrow> (json_pointer_error, bytes list) result" where
  "pointer_tokens lim k offset [] = Ok []"
| "pointer_tokens lim k offset (raw # raws) =
     attempt (ptr_check (k + 1) (max_depth lim) Depth) (\<lambda>_.
     attempt (token_length offset 0 raw) (\<lambda>_.
     attempt (pointer_tokens lim (k + 1) (offset + length raw + 1) raws) (\<lambda>ts. Ok (unescape raw # ts))))"

definition json_pointer_new :: "bytes \<Rightarrow> limits \<Rightarrow> (json_pointer_error, json_pointer) result" where
  "json_pointer_new text lim =
     attempt (map_err PtrCodec (limits_validate lim)) (\<lambda>_.
     attempt (ptr_check (length text) (max_document_bytes lim) DocumentBytes) (\<lambda>_.
     case text of
       [] \<Rightarrow> Ok (JsonPointer [])
     | c # rest \<Rightarrow>
         if c \<noteq> CHR ''/'' then Err (PtrInvalidSyntax 0)
         else attempt (pointer_tokens lim 0 1 (split_on (CHR ''/'') rest)) (\<lambda>ts. Ok (JsonPointer ts))))"

definition ptr_hex :: "byte \<Rightarrow> nat option" where
  "ptr_hex b =
     (let n = of_char b in
      if 48 \<le> n \<and> n \<le> 57 then Some (n - 48) else if 97 \<le> n \<and> n \<le> 102 then Some (n - 97 + 10)
      else if 65 \<le> n \<and> n \<le> 70 then Some (n - 65 + 10) else None)"

definition is_ascii_alphanumeric :: "byte \<Rightarrow> bool" where
  "is_ascii_alphanumeric b \<longleftrightarrow>
     (let n = (of_char b :: nat) in (48 \<le> n \<and> n \<le> 57) \<or> (65 \<le> n \<and> n \<le> 90) \<or> (97 \<le> n \<and> n \<le> 122))"

definition fragment_char :: "byte \<Rightarrow> bool" where
  "fragment_char b \<longleftrightarrow> is_ascii_alphanumeric b \<or> b \<in> set ''-._~!$&()*+,;=:@/?'' \<or> b = CHR 0x27"

text \<open>\<open>fragment_byte\<close>, on the bytes from \<open>pos\<close>: the decoded byte and the bytes left.\<close>

definition fragment_byte :: "nat \<Rightarrow> byte \<Rightarrow> bytes \<Rightarrow> (json_pointer_error, byte \<times> bytes) result" where
  "fragment_byte pos b rest =
     (if b = CHR ''%'' then
        (case rest of
           h # l # rest' \<Rightarrow>
             (case (ptr_hex h, ptr_hex l) of
                (Some hi, Some lo) \<Rightarrow> Ok (char_of (hi * 16 + lo), rest')
              | _ \<Rightarrow> Err (PtrInvalidFragment pos))
         | _ \<Rightarrow> Err (PtrInvalidFragment pos))
      else if fragment_char b then Ok (b, rest) else Err (PtrInvalidFragment pos))"

lemma fragment_byte_shorter: "fragment_byte pos b rest = Ok (d, r) \<Longrightarrow> length r \<le> length rest"
  by (auto simp: fragment_byte_def split: if_splits list.splits option.splits)

function fragment_bytes :: "nat \<Rightarrow> bytes \<Rightarrow> (json_pointer_error, bytes) result" where
  "fragment_bytes pos [] = Ok []"
| "fragment_bytes pos (b # rest) =
     attempt (fragment_byte pos b rest) (\<lambda>(d, r).
     attempt (fragment_bytes (pos + (length rest + 1 - length r)) r) (\<lambda>ds. Ok (d # ds)))"
  by pat_completeness auto
termination
  by (relation "measure (\<lambda>(pos, s). length s)") (auto dest: fragment_byte_shorter)

definition pointer_from_fragment :: "bytes \<Rightarrow> limits \<Rightarrow> (json_pointer_error, json_pointer) result" where
  "pointer_from_fragment fragment lim =
     attempt (map_err PtrCodec (limits_validate lim)) (\<lambda>_.
     attempt (ptr_check (length fragment) (max_document_bytes lim) DocumentBytes) (\<lambda>_.
     case fragment of
       [] \<Rightarrow> Err (PtrInvalidFragment 0)
     | c # rest \<Rightarrow>
         if c \<noteq> CHR ''#'' then Err (PtrInvalidFragment 0)
         else attempt (fragment_bytes 1 rest) (\<lambda>decoded.
           case utf8_error_at decoded of
             Some offset \<Rightarrow> Err (PtrInvalidUtf8 offset)
           | None \<Rightarrow> json_pointer_new decoded lim)))"

definition resolve_step :: "nat \<Rightarrow> bytes \<Rightarrow> value \<Rightarrow> (json_pointer_error, value) result" where
  "resolve_step seg token current =
     (case current of
        VMap m \<Rightarrow> ok_or (PtrMissingTarget seg) (map_get m token)
      | VArray a \<Rightarrow>
          if token = ''-'' then Err (PtrMissingTarget seg)
          else if token = [] \<or> (length token > 1 \<and> hd token = CHR ''0'') \<or> \<not> (\<forall>b \<in> set token. is_digit b)
          then Err (PtrInvalidIndex seg)
          else (let index = decimal_value token in
            if \<not> index < usize_bound then Err (PtrMissingTarget seg)
            else if index < length a then Ok (a ! index) else Err (PtrMissingTarget seg))
      | _ \<Rightarrow> Err (PtrScalarTraversal seg))"

fun resolve_from :: "nat \<Rightarrow> bytes list \<Rightarrow> value \<Rightarrow> (json_pointer_error, value) result" where
  "resolve_from seg [] current = Ok current"
| "resolve_from seg (token # ts) current =
     attempt (resolve_step seg token current) (resolve_from (seg + 1) ts)"

definition resolve_value :: "json_pointer \<Rightarrow> value \<Rightarrow> (json_pointer_error, value) result" where
  "resolve_value p v = resolve_from 0 (tokens p) v"

definition escape_char :: "byte \<Rightarrow> bytes" where
  "escape_char c = (if c = CHR ''~'' then ''~0'' else if c = CHR ''/'' then ''~1'' else [c])"

definition pointer_display :: "json_pointer \<Rightarrow> bytes" where
  "pointer_display p = concat (map (\<lambda>token. CHR ''/'' # concat (map escape_char token)) (tokens p))"

section \<open>The plain form\<close>

lemma ptr_check_Ok [simp]: "ptr_check n m k = Ok u \<longleftrightarrow> n \<le> m"
  by (auto simp: ptr_check_def)

text \<open>Splitting at the separator and joining with it are inverse.\<close>

definition join_with :: "byte \<Rightarrow> bytes list \<Rightarrow> bytes" where
  "join_with sep ts = concat (map (\<lambda>t. sep # t) ts)"

lemma split_on_nonempty [simp]: "split_on sep s \<noteq> []"
  by (induction sep s rule: split_on.induct) (auto split: list.splits)

lemma join_split: "join_with sep (split_on sep s) = sep # s"
proof (induction sep s rule: split_on.induct)
  case (2 sep c s)
  then show ?case
    by (cases "split_on sep s") (auto simp: join_with_def)
qed (simp add: join_with_def)

lemma split_no_sep: "t \<in> set (split_on sep s) \<Longrightarrow> sep \<notin> set t"
proof (induction sep s arbitrary: t rule: split_on.induct)
  case (2 sep c s)
  then show ?case by (cases "split_on sep s") (auto split: if_splits)
qed auto

lemma split_on_prefix: "sep \<notin> set t \<Longrightarrow> split_on sep (t @ sep # s) = t # split_on sep s"
  by (induction t) auto

lemma split_on_single: "sep \<notin> set t \<Longrightarrow> split_on sep t = [t]"
  by (induction t) auto

lemma split_join:
  "ts \<noteq> [] \<Longrightarrow> \<forall>t \<in> set ts. sep \<notin> set t \<Longrightarrow> join_with sep ts = c # s \<Longrightarrow> split_on sep s = ts"
proof (induction ts arbitrary: c s)
  case (Cons t ts)
  show ?case
  proof (cases ts)
    case Nil
    then show ?thesis using Cons.prems split_on_single [of sep t] by (simp add: join_with_def)
  next
    case (Cons u us)
    have s: "s = t @ join_with sep ts" using Cons.prems(3) Cons by (auto simp: join_with_def)
    obtain r where r: "join_with sep ts = sep # r" using Cons by (simp add: join_with_def)
    have "split_on sep r = ts"
      by (rule Cons.IH) (use Cons.prems r Cons in auto)
    then show ?thesis using Cons.prems(2) split_on_prefix [of sep t r] by (simp add: s r)
  qed
qed simp

text \<open>The escaped tokens are the ones the validation loop accepts.\<close>

fun escaped :: "bytes \<Rightarrow> bool" where
  "escaped [] = True"
| "escaped (c # s) =
     (if c = CHR ''~'' then (case s of e # s' \<Rightarrow> (e = CHR ''0'' \<or> e = CHR ''1'') \<and> escaped s' | [] \<Rightarrow> False)
      else escaped s)"

lemma token_length_Ok: "(\<exists>n. token_length pos len s = Ok n) \<longleftrightarrow> escaped s"
  by (induction pos len s rule: token_length.induct) (auto split: list.splits)

definition escape :: "bytes \<Rightarrow> bytes" where
  "escape t = concat (map escape_char t)"

lemma escaped_escape [simp]: "escaped (escape t)"
  by (induction t) (auto simp: escape_def escape_char_def)

lemma unescape_escape [simp]: "unescape (escape t) = t"
  by (induction t) (auto simp: escape_def escape_char_def)

lemma escape_no_slash [simp]: "CHR ''/'' \<notin> set (escape t)"
  by (induction t) (auto simp: escape_def escape_char_def)

lemma escape_unescape: "escaped s \<Longrightarrow> CHR ''/'' \<notin> set s \<Longrightarrow> escape (unescape s) = s"
  by (induction s rule: escaped.induct) (auto simp: escape_def escape_char_def split: list.splits if_splits)

lemma pointer_display_join: "pointer_display (JsonPointer ts) = join_with (CHR ''/'') (map escape ts)"
  by (simp add: pointer_display_def join_with_def escape_def comp_def)

lemma pointer_tokens_Ok:
  "pointer_tokens lim k offset raws = Ok ts \<longleftrightarrow>
    ts = map unescape raws \<and> (\<forall>r \<in> set raws. escaped r) \<and> (raws = [] \<or> k + length raws \<le> max_depth lim)"
proof (induction raws arbitrary: k offset ts)
  case (Cons raw raws)
  have "pointer_tokens lim k offset (raw # raws) = Ok ts \<longleftrightarrow> k + 1 \<le> max_depth lim \<and> escaped raw \<and>
      (\<exists>us. pointer_tokens lim (k + 1) (offset + length raw + 1) raws = Ok us \<and> ts = unescape raw # us)"
    using token_length_Ok [of offset 0 raw] by auto
  then show ?case unfolding Cons.IH by (cases "raws = []") auto
qed auto

lemma json_pointer_new_Ok:
  "json_pointer_new s lim = Ok p \<longleftrightarrow> s = pointer_display p \<and> limits_validate lim = Ok () \<and>
    length s \<le> max_document_bytes lim \<and> length (tokens p) \<le> max_depth lim"
proof (cases s)
  case Nil
  show ?thesis
  proof (cases "tokens p")
    case Nil
    then show ?thesis by (cases p) (auto simp: json_pointer_new_def \<open>s = []\<close> pointer_display_def)
  next
    case (Cons t ts)
    then show ?thesis by (cases p) (auto simp: json_pointer_new_def \<open>s = []\<close> pointer_display_def)
  qed
next
  case (Cons c r)
  obtain ts where p: "p = JsonPointer ts" by (cases p)
  have "s = pointer_display p \<longleftrightarrow> c = CHR ''/'' \<and> map unescape (split_on (CHR ''/'') r) = ts \<and>
      (\<forall>t \<in> set (split_on (CHR ''/'') r). escaped t)" (is "_ \<longleftrightarrow> ?R")
  proof
    assume s: "s = pointer_display p"
    then have j: "join_with (CHR ''/'') (map escape ts) = c # r" by (simp add: p Cons pointer_display_join)
    then have ne: "ts \<noteq> []" by (auto simp: join_with_def)
    have sp: "split_on (CHR ''/'') r = map escape ts"
      by (rule split_join [OF _ _ j]) (use ne in auto)
    have "c = CHR ''/''" using j ne by (cases ts) (simp_all add: join_with_def)
    then show ?R by (simp add: sp comp_def)
  next
    assume R: ?R
    have "map escape ts = split_on (CHR ''/'') r"
      using R escape_unescape split_no_sep [of _ "CHR ''/''" r] by (auto intro!: map_idI)
    then show "s = pointer_display p"
      using R join_split [of "CHR ''/''" r] by (simp add: p Cons pointer_display_join)
  qed
  then show ?thesis
    by (auto simp: json_pointer_new_def Cons pointer_tokens_Ok p)
qed

section \<open>Lookup\<close>

text \<open>What a pointer denotes: a field of a map by its key, an element of an array by its
  canonical decimal index.\<close>

inductive points_to :: "bytes list \<Rightarrow> value \<Rightarrow> value \<Rightarrow> bool" where
  points_root: "points_to [] v v"
| points_field: "map_of m k = Some v \<Longrightarrow> points_to ts v w \<Longrightarrow> points_to (k # ts) (VMap m) w"
| points_index: "i < length a \<Longrightarrow> i < usize_bound \<Longrightarrow> points_to ts (a ! i) w \<Longrightarrow>
    points_to (dec_digits i # ts) (VArray a) w"

inductive_cases points_to_NilE: "points_to [] v w"
inductive_cases points_to_ConsE: "points_to (t # ts) v w"

lemma resolve_step_array:
  "resolve_step n t (VArray a) = Ok w \<longleftrightarrow> (\<exists>i. t = dec_digits i \<and> i < length a \<and> i < usize_bound \<and> w = a ! i)"
proof
  assume l: "resolve_step n t (VArray a) = Ok w"
  then have "canonical_decimal t" "decimal_value t < length a" "decimal_value t < usize_bound" "w = a ! decimal_value t"
    by (auto simp: resolve_step_def canonical_decimal_def Let_def split: if_splits)
  then show "\<exists>i. t = dec_digits i \<and> i < length a \<and> i < usize_bound \<and> w = a ! i"
    using dec_digits_value by metis
next
  assume "\<exists>i. t = dec_digits i \<and> i < length a \<and> i < usize_bound \<and> w = a ! i"
  then obtain i where i: "t = dec_digits i" "i < length a" "i < usize_bound" "w = a ! i" by blast
  have "canonical_decimal t" unfolding i(1) by (rule canonical_decimal_digits)
  moreover from this have "t \<noteq> ''-''" by (auto simp: canonical_decimal_def is_digit_def)
  ultimately show "resolve_step n t (VArray a) = Ok w"
    using i by (auto simp: resolve_step_def canonical_decimal_def)
qed

lemma wf_value_lookup: "wf_value (VMap m) \<Longrightarrow> map_of m k = Some v \<Longrightarrow> wf_value v"
  by (auto dest!: map_of_SomeD)

lemma resolve_from_Ok: "wf_value v \<Longrightarrow> resolve_from n ts v = Ok w \<longleftrightarrow> points_to ts v w"
proof (induction ts arbitrary: n v)
  case Nil
  show ?case by (auto intro: points_root elim: points_to_NilE)
next
  case (Cons t ts)
  show ?case
  proof (cases v)
    case (VMap m)
    have "resolve_from n (t # ts) v = Ok w \<longleftrightarrow> (\<exists>x. map_of m t = Some x \<and> points_to ts x w)"
      using Cons.prems Cons.IH wf_value_lookup [of m t]
      by (auto simp: VMap resolve_step_def map_get_map_of)
    then show ?thesis by (auto simp: VMap intro: points_field elim: points_to_ConsE)
  next
    case (VArray a)
    have "resolve_from n (t # ts) v = Ok w \<longleftrightarrow>
        (\<exists>i. t = dec_digits i \<and> i < length a \<and> i < usize_bound \<and> points_to ts (a ! i) w)"
      using Cons.prems by (auto simp: VArray resolve_step_array Cons.IH)
    then show ?thesis by (auto simp: VArray intro: points_index elim: points_to_ConsE)
  qed (auto simp: resolve_step_def elim: points_to_ConsE)
qed

section \<open>The fragment form\<close>

text \<open>A producer of fragments: percent-encode every byte a fragment cannot hold.\<close>

definition fragment_escape :: "byte \<Rightarrow> bytes" where
  "fragment_escape c = (if fragment_char c then [c] else CHR ''%'' # hex_byte c)"

definition to_fragment :: "json_pointer \<Rightarrow> bytes" where
  "to_fragment p = CHR ''#'' # concat (map fragment_escape (pointer_display p))"

lemma ptr_hex_digit: "n < 16 \<Longrightarrow> ptr_hex (hex_digit n) = Some n"
  by (auto simp: ptr_hex_def hex_digit_def)

lemma percent_not_fragment_char [simp]: "\<not> fragment_char (CHR ''%'')"
  by (simp add: fragment_char_def is_ascii_alphanumeric_def)

lemma fragment_byte_escape:
  "fragment_escape c = b # r \<Longrightarrow> fragment_byte pos b (r @ rest) = Ok (c, rest)"
proof -
  assume e: "fragment_escape c = b # r"
  have "(of_char c :: nat) div 16 < 16" using of_char_less_256 [of c] by (simp add: less_mult_imp_div_less)
  moreover have "(char_of ((of_char c :: nat) div 16 * 16 + of_char c mod 16) :: char) = c" by simp
  ultimately show ?thesis
    using e by (auto simp: fragment_escape_def fragment_byte_def hex_byte_def ptr_hex_digit split: if_splits)
qed

lemma fragment_bytes_escape: "fragment_bytes pos (concat (map fragment_escape s)) = Ok s"
proof (induction s arbitrary: pos)
  case (Cons c s)
  obtain b r where e: "fragment_escape c = b # r" by (cases "fragment_escape c") (auto simp: fragment_escape_def split: if_splits)
  show ?case by (simp add: e fragment_byte_escape [OF e] Cons)
qed simp

section \<open>Properties\<close>

text \<open>C36. The plain form is exact: a text parses to a pointer precisely when it is the
  displayed form of that pointer, the limits are valid, the text is within the byte limit
  and the number of tokens within the depth limit.\<close>

theorem pointer_text_exact:
  "json_pointer_new s lim = Ok p \<longleftrightarrow> s = pointer_display p \<and> limits_validate lim = Ok () \<and>
    length s \<le> max_document_bytes lim \<and> length (tokens p) \<le> max_depth lim"
  using json_pointer_new_Ok .

text \<open>The fragment form reads back: the percent-encoded display of a pointer, after
  \<open>#\<close>, parses to the pointer whenever the limits allow it.\<close>

theorem pointer_fragment_roundtrip:
  assumes "limits_validate lim = Ok ()" "length (to_fragment p) \<le> max_document_bytes lim"
    and "length (tokens p) \<le> max_depth lim" "utf8_valid (pointer_display p)"
  shows "pointer_from_fragment (to_fragment p) lim = Ok p"
proof -
  have "length s \<le> length (concat (map fragment_escape s))" for s
    by (induction s) (auto simp: fragment_escape_def)
  then have "length (pointer_display p) \<le> max_document_bytes lim"
    using assms(2) by (simp add: to_fragment_def) (meson Suc_leD le_trans)
  then have "json_pointer_new (pointer_display p) lim = Ok p"
    using assms by (simp add: json_pointer_new_Ok)
  then show ?thesis
    using assms by (simp add: pointer_from_fragment_def to_fragment_def fragment_bytes_escape)
qed

theorem pointer_fragment_roundtrip_witness:
  "pointer_from_fragment ''#/a%20b/~1'' default_limits = Ok (JsonPointer [''a b'', ''/''])"
proof -
  have "to_fragment (JsonPointer [''a b'', ''/'']) = ''#/a%20b/~1''" by code_simp
  moreover have "limits_validate default_limits = Ok ()" "length (to_fragment (JsonPointer [''a b'', ''/''])) \<le> max_document_bytes default_limits"
    "length (tokens (JsonPointer [''a b'', ''/''])) \<le> max_depth default_limits"
    "utf8_valid (pointer_display (JsonPointer [''a b'', ''/'']))" by code_simp+
  ultimately show ?thesis using pointer_fragment_roundtrip [of default_limits "JsonPointer [''a b'', ''/'']"] by simp
qed

text \<open>C30. Lookup refines its specification: resolving a pointer in a well-formed value
  returns exactly the value that following its tokens reaches, keys in maps and canonical
  decimal indices in arrays.\<close>

theorem pointer_lookup:
  assumes "wf_value v"
  shows "resolve_value p v = Ok w \<longleftrightarrow> points_to (tokens p) v w"
  using resolve_from_Ok [OF assms] by (simp add: resolve_value_def)

theorem pointer_lookup_witness:
  "resolve_value (JsonPointer [''a'', ''1'']) (VMap [(''a'', VArray [VNull, VBool True])]) = Ok (VBool True) \<and>
    points_to [''a'', ''1''] (VMap [(''a'', VArray [VNull, VBool True])]) (VBool True)"
proof -
  have w: "wf_value (VMap [(''a'', VArray [VNull, VBool True])])" by code_simp
  have r: "resolve_value (JsonPointer [''a'', ''1'']) (VMap [(''a'', VArray [VNull, VBool True])]) = Ok (VBool True)"
    by code_simp
  show ?thesis using r pointer_lookup [OF w, of "JsonPointer [''a'', ''1'']"] by simp
qed

end
