(* ===== verification/Expressions.thy ===== *)
theory Expressions
  imports Types
begin

text \<open>
  Expression descriptions, \<open>expression/mod.rs\<close> and \<open>expression/wire.rs\<close>: the closed
  expression language, the builder that converts an expression to a bounded CBOR value, and
  the parser that reads one back or, when it normalises, repairs the authored order of record
  fields, regex flags and nested projections. An \<open>Expression\<close> is its kind, so one datatype
  models both. Builder methods take the running charge and return the new one.
\<close>

unbundle bit_operations_syntax

section \<open>Data\<close>

datatype expression_context =
  CGuard bool | CEval | CPreconditions | CPrimitivePostconditions | CScopePostconditions
| CWrapperPostconditions | CLoopUntil | CLoopPostconditions

datatype scalar_literal =
  LString bytes | LInteger i64 | LFloat finite_float | LBoolean bool | LNull | LBytes bytes

datatype value_reference =
  RInput ident | ROutput ident ident | RScopeOutput ident | RCarried ident | RNext ident

datatype path_step = PField bytes | PIndex u64

datatype core_function = CoreLength | CorePresent

datatype function_id = FCore core_function | FLibrary digest ident

datatype binary_operator = OpAnd | OpOr | OpEq | OpNe | OpLt | OpLe | OpGt | OpGe

datatype expression =
  ELiteral scalar_literal
| ERegex bytes bytes
| ERef value_reference "path_step list"
| EGet expression "path_step list"
| EList "expression list"
| ERecord "(bytes \<times> expression) list"
| ECall function_id "expression list"
| EFunctionRef digest ident
| ERender digest "(ident \<times> expression) list"
| EStatus ident
| EError ident
| ENot expression
| EBinary binary_operator expression expression

definition operator_as_str :: "binary_operator \<Rightarrow> bytes" where
  "operator_as_str op =
     (case op of OpAnd \<Rightarrow> ''and'' | OpOr \<Rightarrow> ''or'' | OpEq \<Rightarrow> ''eq'' | OpNe \<Rightarrow> ''ne''
      | OpLt \<Rightarrow> ''lt'' | OpLe \<Rightarrow> ''le'' | OpGt \<Rightarrow> ''gt'' | OpGe \<Rightarrow> ''ge'')"

definition operator_parse :: "bytes \<Rightarrow> binary_operator option" where
  "operator_parse tag =
     (if tag = ''and'' then Some OpAnd else if tag = ''or'' then Some OpOr
      else if tag = ''eq'' then Some OpEq else if tag = ''ne'' then Some OpNe
      else if tag = ''lt'' then Some OpLt else if tag = ''le'' then Some OpLe
      else if tag = ''gt'' then Some OpGt else if tag = ''ge'' then Some OpGe else None)"

datatype expression_error =
  ExCodec cbor_error
| ExIdentifier parse_identifier_error
| ExDigest parse_digest_error
| ExType type_error
| ExInvalidShape bytes
| ExUnknownConstructor
| ExUnknownFunction
| ExInvalidIndex
| ExInvalidRegexFlags
| ExDuplicateField
| ExNonCanonical bytes
| ExForbiddenReference bytes
| ExInvalidTemplateParameter
| ExTemplateParameterMismatch
| ExLimitExceeded limit_kind nat
| ExAllocationFailed

definition ex_limit :: "encoding_limit_error \<Rightarrow> expression_error" where
  "ex_limit e = ExLimitExceeded (acc_limit e) (acc_maximum e)"

text \<open>\<open>Expression::child\<close> and \<open>Expression::children\<close>: the direct children in canonical order.\<close>

definition expression_child :: "expression \<Rightarrow> nat \<Rightarrow> expression option" where
  "expression_child e index =
     (case e of
        EGet v _ \<Rightarrow> if index = 0 then Some v else None
      | ENot v \<Rightarrow> if index = 0 then Some v else None
      | EBinary _ l r \<Rightarrow> if index = 0 then Some l else if index = 1 then Some r else None
      | EList items \<Rightarrow> if index < length items then Some (items ! index) else None
      | ECall _ items \<Rightarrow> if index < length items then Some (items ! index) else None
      | ERecord fs \<Rightarrow> if index < length fs then Some (snd (fs ! index)) else None
      | ERender _ args \<Rightarrow> if index < length args then Some (snd (args ! index)) else None
      | _ \<Rightarrow> None)"

definition child_count :: "expression \<Rightarrow> nat" where
  "child_count e =
     (case e of
        EGet _ _ \<Rightarrow> 1 | ENot _ \<Rightarrow> 1 | EBinary _ _ _ \<Rightarrow> 2
      | EList items \<Rightarrow> length items | ECall _ items \<Rightarrow> length items
      | ERecord fs \<Rightarrow> length fs | ERender _ args \<Rightarrow> length args | _ \<Rightarrow> 0)"

definition expression_children :: "expression \<Rightarrow> expression list" where
  "expression_children e = map (\<lambda>i. the (expression_child e i)) [0..<child_count e]"

section \<open>The builder\<close>

definition e_new :: "limits \<Rightarrow> (expression_error, nat) result" where
  "e_new lim = map_err ExCodec (acc_new lim)"

definition e_collection :: "limits \<Rightarrow> nat \<Rightarrow> nat \<Rightarrow> nat \<Rightarrow> (expression_error, nat) result" where
  "e_collection lim len depth n = map_err ex_limit (acc_collection lim len depth n)"

definition e_string :: "limits \<Rightarrow> bytes \<Rightarrow> nat \<Rightarrow> nat \<Rightarrow> (expression_error, bytes \<times> nat) result" where
  "e_string lim s depth n = attempt (map_err ex_limit (acc_text lim s depth n)) (\<lambda>n'. Ok (s, n'))"

definition e_text :: "limits \<Rightarrow> bytes \<Rightarrow> nat \<Rightarrow> nat \<Rightarrow> (expression_error, value \<times> nat) result" where
  "e_text lim s depth n = attempt (e_string lim s depth n) (\<lambda>(t, n'). Ok (VText t, n'))"

definition e_tagged :: "limits \<Rightarrow> bytes \<Rightarrow> nat \<Rightarrow> nat \<Rightarrow> nat \<Rightarrow> (expression_error, value list \<times> nat) result" where
  "e_tagged lim tag len depth n =
     attempt (e_collection lim len depth n) (\<lambda>n1.
     attempt (e_text lim tag (depth + 1) n1) (\<lambda>(v, n2). Ok ([v], n2)))"

definition e_scalar :: "half \<Rightarrow> limits \<Rightarrow> scalar_literal \<Rightarrow> nat \<Rightarrow> nat \<Rightarrow> (expression_error, value \<times> nat) result" where
  "e_scalar h lim s depth n =
     (case s of
        LString t \<Rightarrow> e_text lim t depth n
      | LInteger i \<Rightarrow> attempt (map_err ex_limit (acc_integer lim i depth n)) (\<lambda>n'. Ok (VInteger i, n'))
      | LFloat f \<Rightarrow> attempt (map_err ex_limit (acc_float h lim f depth n)) (\<lambda>n'. Ok (VFloat f, n'))
      | LBoolean x \<Rightarrow> attempt (map_err ex_limit (acc_boolean lim depth n)) (\<lambda>n'. Ok (VBool x, n'))
      | LNull \<Rightarrow> attempt (map_err ex_limit (acc_null lim depth n)) (\<lambda>n'. Ok (VNull, n'))
      | LBytes bs \<Rightarrow> attempt (map_err ex_limit (acc_byte_string lim bs depth n)) (\<lambda>n'. Ok (VBytes bs, n')))"

definition e_step :: "limits \<Rightarrow> path_step \<Rightarrow> nat \<Rightarrow> nat \<Rightarrow> (expression_error, value \<times> nat) result" where
  "e_step lim step depth n =
     (case step of
        PField s \<Rightarrow> e_text lim s depth n
      | PIndex i \<Rightarrow>
          attempt (ok_or ExInvalidIndex (i64_try_from i)) (\<lambda>k.
          attempt (map_err ex_limit (acc_integer lim k depth n)) (\<lambda>n'. Ok (VInteger k, n'))))"

definition e_path :: "limits \<Rightarrow> path_step list \<Rightarrow> nat \<Rightarrow> nat \<Rightarrow> (expression_error, value \<times> nat) result" where
  "e_path lim path depth n =
     attempt (e_collection lim (length path) depth n) (\<lambda>n1.
     attempt (fold_collect (\<lambda>step. e_step lim step (depth + 1)) path n1) (\<lambda>(vs, n2). Ok (VArray vs, n2)))"

definition e_tagged_text :: "limits \<Rightarrow> bytes \<Rightarrow> bytes \<Rightarrow> nat \<Rightarrow> nat \<Rightarrow> (expression_error, value \<times> nat) result" where
  "e_tagged_text lim tag s depth n =
     attempt (e_tagged lim tag 2 depth n) (\<lambda>(vs, n1).
     attempt (e_text lim s (depth + 1) n1) (\<lambda>(v, n2). Ok (VArray (vs @ [v]), n2)))"

definition e_tagged_texts :: "limits \<Rightarrow> bytes \<Rightarrow> bytes \<Rightarrow> bytes \<Rightarrow> nat \<Rightarrow> nat \<Rightarrow> (expression_error, value \<times> nat) result" where
  "e_tagged_texts lim tag s t depth n =
     attempt (e_tagged lim tag 3 depth n) (\<lambda>(vs, n1).
     attempt (e_text lim s (depth + 1) n1) (\<lambda>(v, n2).
     attempt (e_text lim t (depth + 1) n2) (\<lambda>(w, n3). Ok (VArray (vs @ [v, w]), n3))))"

definition e_reference :: "limits \<Rightarrow> value_reference \<Rightarrow> nat \<Rightarrow> nat \<Rightarrow> (expression_error, value \<times> nat) result" where
  "e_reference lim r depth n =
     (case r of
        RInput i \<Rightarrow> e_tagged_text lim ''input'' (as_str i) depth n
      | RScopeOutput i \<Rightarrow> e_tagged_text lim ''scope_output'' (as_str i) depth n
      | RCarried i \<Rightarrow> e_tagged_text lim ''carried'' (as_str i) depth n
      | RNext i \<Rightarrow> e_tagged_text lim ''next'' (as_str i) depth n
      | ROutput node p \<Rightarrow> e_tagged_texts lim ''output'' (as_str node) (as_str p) depth n)"

definition e_function :: "limits \<Rightarrow> function_id \<Rightarrow> nat \<Rightarrow> nat \<Rightarrow> (expression_error, value \<times> nat) result" where
  "e_function lim f depth n =
     (case f of
        FCore c \<Rightarrow> e_tagged_text lim ''core''
          (case c of CoreLength \<Rightarrow> ''length'' | CorePresent \<Rightarrow> ''present'') depth n
      | FLibrary l i \<Rightarrow> e_tagged_texts lim ''library'' (digest_display l) (as_str i) depth n)"

type_synonym e_rec = "expression \<Rightarrow> nat \<Rightarrow> nat \<Rightarrow> (expression_error, value \<times> nat) result"

definition e_expressions :: "e_rec \<Rightarrow> limits \<Rightarrow> expression list \<Rightarrow> nat \<Rightarrow> nat \<Rightarrow> (expression_error, value \<times> nat) result" where
  "e_expressions ex lim es depth n =
     attempt (e_collection lim (length es) depth n) (\<lambda>n1.
     attempt (fold_collect (\<lambda>e. ex e (depth + 1)) es n1) (\<lambda>(vs, n2). Ok (VArray vs, n2)))"

definition e_literal :: "half \<Rightarrow> limits \<Rightarrow> scalar_literal \<Rightarrow> nat \<Rightarrow> nat \<Rightarrow> (expression_error, value \<times> nat) result" where
  "e_literal h lim s d n =
     attempt (e_tagged lim ''literal'' 2 d n) (\<lambda>(vs, n1).
     attempt (e_scalar h lim s (d + 1) n1) (\<lambda>(v, n2). Ok (VArray (vs @ [v]), n2)))"

definition e_list :: "e_rec \<Rightarrow> limits \<Rightarrow> expression list \<Rightarrow> nat \<Rightarrow> nat \<Rightarrow> (expression_error, value \<times> nat) result" where
  "e_list ex lim items d n =
     attempt (e_tagged lim ''list'' 2 d n) (\<lambda>(vs, n1).
     attempt (e_expressions ex lim items (d + 1) n1) (\<lambda>(v, n2). Ok (VArray (vs @ [v]), n2)))"

definition e_not :: "e_rec \<Rightarrow> limits \<Rightarrow> expression \<Rightarrow> nat \<Rightarrow> nat \<Rightarrow> (expression_error, value \<times> nat) result" where
  "e_not ex lim child d n =
     attempt (e_tagged lim ''not'' 2 d n) (\<lambda>(vs, n1).
     attempt (ex child (d + 1) n1) (\<lambda>(v, n2). Ok (VArray (vs @ [v]), n2)))"

definition e_outcome :: "limits \<Rightarrow> bytes \<Rightarrow> ident \<Rightarrow> nat \<Rightarrow> nat \<Rightarrow> (expression_error, value \<times> nat) result" where
  "e_outcome lim tag i d n = e_tagged_text lim tag (as_str i) d n"

definition e_regex :: "limits \<Rightarrow> bytes \<Rightarrow> bytes \<Rightarrow> nat \<Rightarrow> nat \<Rightarrow> (expression_error, value \<times> nat) result" where
  "e_regex lim pattern flags d n = e_tagged_texts lim ''regex'' pattern flags d n"

definition e_ref_expr :: "limits \<Rightarrow> value_reference \<Rightarrow> path_step list \<Rightarrow> nat \<Rightarrow> nat \<Rightarrow> (expression_error, value \<times> nat) result" where
  "e_ref_expr lim source path d n =
     attempt (e_tagged lim ''ref'' 3 d n) (\<lambda>(vs, n1).
     attempt (e_reference lim source (d + 1) n1) (\<lambda>(v, n2).
     attempt (e_path lim path (d + 1) n2) (\<lambda>(w, n3). Ok (VArray (vs @ [v, w]), n3))))"

definition e_get_expr :: "e_rec \<Rightarrow> limits \<Rightarrow> expression \<Rightarrow> path_step list \<Rightarrow> nat \<Rightarrow> nat \<Rightarrow> (expression_error, value \<times> nat) result" where
  "e_get_expr ex lim e path d n =
     (if path = [] then Err (ExInvalidShape ''nonempty get path'')
      else attempt (e_tagged lim ''get'' 3 d n) (\<lambda>(vs, n1).
        attempt (ex e (d + 1) n1) (\<lambda>(v, n2).
        attempt (e_path lim path (d + 1) n2) (\<lambda>(w, n3). Ok (VArray (vs @ [v, w]), n3)))))"

definition e_record :: "e_rec \<Rightarrow> limits \<Rightarrow> (bytes \<times> expression) list \<Rightarrow> nat \<Rightarrow> nat \<Rightarrow> (expression_error, value \<times> nat) result" where
  "e_record ex lim fs d n =
     attempt (e_tagged lim ''record'' 2 d n) (\<lambda>(vs, n1).
     attempt (e_collection lim (length fs) (d + 1) n1) (\<lambda>n2.
     attempt (fold_collect (\<lambda>(name, e) k.
         attempt (e_collection lim 2 (d + 2) k) (\<lambda>k1.
         attempt (e_text lim name (d + 3) k1) (\<lambda>(key, k2).
         attempt (ex e (d + 3) k2) (\<lambda>(v, k3). Ok (VArray [key, v], k3))))) fs n2) (\<lambda>(pairs, n3).
     Ok (VArray (vs @ [VArray pairs]), n3))))"

definition e_call :: "e_rec \<Rightarrow> limits \<Rightarrow> function_id \<Rightarrow> expression list \<Rightarrow> nat \<Rightarrow> nat \<Rightarrow> (expression_error, value \<times> nat) result" where
  "e_call ex lim f args d n =
     (if (case f of FCore _ \<Rightarrow> True | _ \<Rightarrow> False) \<and> length args \<noteq> 1
      then Err (ExInvalidShape ''core function arity'')
      else attempt (e_tagged lim ''call'' 3 d n) (\<lambda>(vs, n1).
        attempt (e_function lim f (d + 1) n1) (\<lambda>(v, n2).
        attempt (e_expressions ex lim args (d + 1) n2) (\<lambda>(w, n3). Ok (VArray (vs @ [v, w]), n3)))))"

definition e_function_ref :: "limits \<Rightarrow> digest \<Rightarrow> ident \<Rightarrow> nat \<Rightarrow> nat \<Rightarrow> (expression_error, value \<times> nat) result" where
  "e_function_ref lim l i d n = e_tagged_texts lim ''function_ref'' (digest_display l) (as_str i) d n"

definition e_render :: "e_rec \<Rightarrow> limits \<Rightarrow> digest \<Rightarrow> (ident \<times> expression) list \<Rightarrow> nat \<Rightarrow> nat \<Rightarrow> (expression_error, value \<times> nat) result" where
  "e_render ex lim template args d n =
     attempt (e_tagged lim ''render'' 3 d n) (\<lambda>(vs, n1).
     attempt (e_text lim (digest_display template) (d + 1) n1) (\<lambda>(v, n2).
     attempt (e_collection lim (length args) (d + 1) n2) (\<lambda>n3.
     attempt (fold_collect (\<lambda>(name, e) k.
         attempt (e_string lim (as_str name) (d + 2) k) (\<lambda>(key, k1).
         attempt (ex e (d + 2) k1) (\<lambda>(w, k2). Ok ((key, w), k2)))) args n3) (\<lambda>(pairs, n4).
     attempt (map_err ExCodec (map_try_from_entries pairs)) (\<lambda>m. Ok (VArray (vs @ [v, VMap m]), n4))))))"

definition e_binary :: "e_rec \<Rightarrow> limits \<Rightarrow> binary_operator \<Rightarrow> expression \<Rightarrow> expression \<Rightarrow> nat \<Rightarrow> nat \<Rightarrow> (expression_error, value \<times> nat) result" where
  "e_binary ex lim op l r d n =
     attempt (e_tagged lim (operator_as_str op) 3 d n) (\<lambda>(vs, n1).
     attempt (ex l (d + 1) n1) (\<lambda>(v, n2).
     attempt (ex r (d + 1) n2) (\<lambda>(w, n3). Ok (VArray (vs @ [v, w]), n3))))"

lemma e_expressions_cong [fundef_cong]:
  assumes "es = es'" "lim = lim'" "d = d'" "n = n'" and "\<And>e k c. e \<in> set es' \<Longrightarrow> f e k c = g e k c"
  shows "e_expressions f lim es d n = e_expressions g lim' es' d' n'"
proof -
  have "fold_collect (\<lambda>e. f e (d' + 1)) es' k = fold_collect (\<lambda>e. g e (d' + 1)) es' k" for k
    using assms(5) by (intro fold_collect_cong) simp_all
  then show ?thesis unfolding assms(1-4) e_expressions_def by simp
qed

lemma e_list_cong [fundef_cong]:
  assumes "es = es'" "lim = lim'" "d = d'" "n = n'" and "\<And>e k c. e \<in> set es' \<Longrightarrow> f e k c = g e k c"
  shows "e_list f lim es d n = e_list g lim' es' d' n'"
proof -
  have "e_expressions f lim' es' k c = e_expressions g lim' es' k c" for k c
    using assms(5) by (intro e_expressions_cong) simp_all
  then show ?thesis unfolding assms(1-4) e_list_def by simp
qed

lemma e_not_cong [fundef_cong]:
  assumes "e = e'" "lim = lim'" "d = d'" "n = n'" and "\<And>k c. f e' k c = g e' k c"
  shows "e_not f lim e d n = e_not g lim' e' d' n'"
  unfolding assms(1-4) e_not_def using assms(5) by simp

lemma e_get_expr_cong [fundef_cong]:
  assumes "e = e'" "lim = lim'" "p = p'" "d = d'" "n = n'" and "\<And>k c. f e' k c = g e' k c"
  shows "e_get_expr f lim e p d n = e_get_expr g lim' e' p' d' n'"
  unfolding assms(1-5) e_get_expr_def using assms(6) by simp

lemma e_record_cong [fundef_cong]:
  assumes "fs = fs'" "lim = lim'" "d = d'" "n = n'" and "\<And>name e k c. (name, e) \<in> set fs' \<Longrightarrow> f e k c = g e k c"
  shows "e_record f lim fs d n = e_record g lim' fs' d' n'"
proof -
  have "fold_collect (\<lambda>(name, e) k. attempt (e_collection lim' 2 (d' + 2) k) (\<lambda>k1.
      attempt (e_text lim' name (d' + 3) k1) (\<lambda>(key, k2).
      attempt (f e (d' + 3) k2) (\<lambda>(v, k3). Ok (VArray [key, v], k3))))) fs' k =
    fold_collect (\<lambda>(name, e) k. attempt (e_collection lim' 2 (d' + 2) k) (\<lambda>k1.
      attempt (e_text lim' name (d' + 3) k1) (\<lambda>(key, k2).
      attempt (g e (d' + 3) k2) (\<lambda>(v, k3). Ok (VArray [key, v], k3))))) fs' k" for k
    using assms(5) by (intro fold_collect_cong) auto
  then show ?thesis unfolding assms(1-4) e_record_def by simp
qed

lemma e_call_cong [fundef_cong]:
  assumes "es = es'" "lim = lim'" "i = i'" "d = d'" "n = n'" and "\<And>e k c. e \<in> set es' \<Longrightarrow> f e k c = g e k c"
  shows "e_call f lim i es d n = e_call g lim' i' es' d' n'"
proof -
  have "e_expressions f lim' es' k c = e_expressions g lim' es' k c" for k c
    using assms(6) by (intro e_expressions_cong) simp_all
  then show ?thesis unfolding assms(1-5) e_call_def by simp
qed

lemma e_render_cong [fundef_cong]:
  assumes "fs = fs'" "lim = lim'" "t = t'" "d = d'" "n = n'"
    and "\<And>name e k c. (name, e) \<in> set fs' \<Longrightarrow> f e k c = g e k c"
  shows "e_render f lim t fs d n = e_render g lim' t' fs' d' n'"
proof -
  have "fold_collect (\<lambda>(name, e) k. attempt (e_string lim' (as_str name) (d' + 2) k) (\<lambda>(key, k1).
      attempt (f e (d' + 2) k1) (\<lambda>(w, k2). Ok ((key, w), k2)))) fs' k =
    fold_collect (\<lambda>(name, e) k. attempt (e_string lim' (as_str name) (d' + 2) k) (\<lambda>(key, k1).
      attempt (g e (d' + 2) k1) (\<lambda>(w, k2). Ok ((key, w), k2)))) fs' k" for k
    using assms(6) by (intro fold_collect_cong) auto
  then show ?thesis unfolding assms(1-5) e_render_def by simp
qed

lemma e_binary_cong [fundef_cong]:
  assumes "op = op'" "l = l'" "r = r'" "lim = lim'" "d = d'" "n = n'"
    and "\<And>k c. f l' k c = g l' k c" and "\<And>k c. f r' k c = g r' k c"
  shows "e_binary f lim op l r d n = e_binary g lim' op' l' r' d' n'"
  unfolding assms(1-6) e_binary_def using assms(7,8) by simp

lemma size_snd_list: "(k, e) \<in> set fs \<Longrightarrow> size e < Suc (size_list (size_prod (\<lambda>_. 0) size) fs)"
  by (induction fs) auto

function (sequential) e_expr :: "half \<Rightarrow> limits \<Rightarrow> expression \<Rightarrow> nat \<Rightarrow> nat \<Rightarrow> (expression_error, value \<times> nat) result" where
  "e_expr h lim (ELiteral s) depth n = e_literal h lim s depth n"
| "e_expr h lim (ERegex pattern flags) depth n = e_regex lim pattern flags depth n"
| "e_expr h lim (ERef source path) depth n = e_ref_expr lim source path depth n"
| "e_expr h lim (EGet v path) depth n = e_get_expr (e_expr h lim) lim v path depth n"
| "e_expr h lim (EList items) depth n = e_list (e_expr h lim) lim items depth n"
| "e_expr h lim (ERecord fs) depth n = e_record (e_expr h lim) lim fs depth n"
| "e_expr h lim (ECall f args) depth n = e_call (e_expr h lim) lim f args depth n"
| "e_expr h lim (EFunctionRef l i) depth n = e_function_ref lim l i depth n"
| "e_expr h lim (ERender template args) depth n = e_render (e_expr h lim) lim template args depth n"
| "e_expr h lim (EStatus i) depth n = e_outcome lim ''status'' i depth n"
| "e_expr h lim (EError i) depth n = e_outcome lim ''error'' i depth n"
| "e_expr h lim (ENot child) depth n = e_not (e_expr h lim) lim child depth n"
| "e_expr h lim (EBinary op l r) depth n = e_binary (e_expr h lim) lim op l r depth n"
  by pat_completeness auto
termination
  by (relation "measure (\<lambda>(h, lim, e, d, n). size e)")
    (auto simp: less_Suc_eq_le size_list_estimation' dest: size_snd_list)

definition expression_value :: "half \<Rightarrow> limits \<Rightarrow> expression \<Rightarrow> (expression_error, value) result" where
  "expression_value h lim e =
     attempt (e_new lim) (\<lambda>n. attempt (e_expr h lim e 0 n) (\<lambda>(v, _). Ok v))"

section \<open>The parser\<close>

definition ex_text :: "value \<Rightarrow> bytes \<Rightarrow> (expression_error, bytes) result" where
  "ex_text v site = (case v of VText s \<Rightarrow> Ok s | _ \<Rightarrow> Err (ExInvalidShape site))"

definition ex_array :: "value \<Rightarrow> bytes \<Rightarrow> (expression_error, value list) result" where
  "ex_array v site = (case v of VArray vs \<Rightarrow> Ok vs | _ \<Rightarrow> Err (ExInvalidShape site))"

definition ex_name :: "value \<Rightarrow> (expression_error, ident) result" where
  "ex_name v = attempt (ex_text v ''identifier'') (\<lambda>s. map_err ExIdentifier (identifier_new s))"

definition ex_digest :: "value \<Rightarrow> (expression_error, digest) result" where
  "ex_digest v = attempt (ex_text v ''digest'') (\<lambda>s. map_err ExDigest (digest_from_str s))"

definition ex_arity :: "value list \<Rightarrow> nat \<Rightarrow> (expression_error, unit) result" where
  "ex_arity vs n = (if length vs = n then Ok () else Err (ExInvalidShape ''constructor arity''))"

fun regex_mask :: "nat \<Rightarrow> bytes \<Rightarrow> (expression_error, nat) result" where
  "regex_mask flag_set [] = Ok flag_set"
| "regex_mask flag_set (flag # flags) =
     attempt (if flag = CHR ''i'' then Ok 1 else if flag = CHR ''m'' then Ok 2
       else if flag = CHR ''s'' then Ok 4 else Err ExInvalidRegexFlags) (\<lambda>bit.
     if flag_set AND bit \<noteq> 0 then Err ExInvalidRegexFlags else regex_mask (flag_set OR bit) flags)"

definition regex_flags :: "bytes \<Rightarrow> bool \<Rightarrow> (expression_error, bytes) result" where
  "regex_flags flags normal =
     attempt (regex_mask 0 flags) (\<lambda>flag_set.
     let canonical = [[], ''i'', ''m'', ''im'', ''s'', ''is'', ''ms'', ''ims''] ! flag_set in
     if \<not> normal \<and> flags \<noteq> canonical then Err (ExNonCanonical ''regex flag order'') else Ok canonical)"

definition parse_scalar :: "value \<Rightarrow> (expression_error, scalar_literal) result" where
  "parse_scalar v =
     (case v of VText s \<Rightarrow> Ok (LString s) | VInteger n \<Rightarrow> Ok (LInteger n) | VFloat f \<Rightarrow> Ok (LFloat f)
      | VBool x \<Rightarrow> Ok (LBoolean x) | VNull \<Rightarrow> Ok LNull | VBytes bs \<Rightarrow> Ok (LBytes bs)
      | _ \<Rightarrow> Err (ExInvalidShape ''scalar literal''))"

definition parse_step :: "value \<Rightarrow> (expression_error, path_step) result" where
  "parse_step v =
     (case v of VText s \<Rightarrow> Ok (PField s)
      | VInteger n \<Rightarrow> if n <s 0 then Err ExInvalidIndex else Ok (PIndex n)
      | _ \<Rightarrow> Err (ExInvalidShape ''path step''))"

definition parse_path :: "value \<Rightarrow> (expression_error, path_step list) result" where
  "parse_path v = attempt (ex_array v ''path'') (map_result parse_step)"

definition parse_reference :: "value \<Rightarrow> (expression_error, value_reference) result" where
  "parse_reference value =
     attempt (ex_array value ''value reference'') (\<lambda>v.
     attempt (if v = [] then Err (ExInvalidShape ''value reference'') else ex_text (v ! 0) ''reference tag'') (\<lambda>tag.
     attempt (ex_arity v (if tag = ''output'' then 3 else 2)) (\<lambda>_.
     if tag = ''input'' then attempt (ex_name (v ! 1)) (\<lambda>i. Ok (RInput i))
     else if tag = ''scope_output'' then attempt (ex_name (v ! 1)) (\<lambda>i. Ok (RScopeOutput i))
     else if tag = ''carried'' then attempt (ex_name (v ! 1)) (\<lambda>i. Ok (RCarried i))
     else if tag = ''next'' then attempt (ex_name (v ! 1)) (\<lambda>i. Ok (RNext i))
     else if tag = ''output'' then
       attempt (ex_name (v ! 1)) (\<lambda>node. attempt (ex_name (v ! 2)) (\<lambda>p. Ok (ROutput node p)))
     else Err (ExInvalidShape ''reference tag''))))"

definition parse_function_id :: "value \<Rightarrow> (expression_error, function_id) result" where
  "parse_function_id value =
     attempt (ex_array value ''function id'') (\<lambda>v.
     attempt (if v = [] then Err ExUnknownFunction else ex_text (v ! 0) ''function tag'') (\<lambda>tag.
     if tag = ''core'' then
       attempt (ex_arity v 2) (\<lambda>_.
       attempt (ex_text (v ! 1) ''core function'') (\<lambda>f.
       if f = ''length'' then Ok (FCore CoreLength) else if f = ''present'' then Ok (FCore CorePresent)
       else Err ExUnknownFunction))
     else if tag = ''library'' then
       attempt (ex_arity v 3) (\<lambda>_.
       attempt (ex_digest (v ! 1)) (\<lambda>l. attempt (ex_name (v ! 2)) (\<lambda>i. Ok (FLibrary l i))))
     else Err ExUnknownFunction))"

text \<open>\<open>parse_leaf\<close>: the constructors without an expression inside.\<close>

definition parse_leaf :: "bytes \<Rightarrow> value list \<Rightarrow> bool \<Rightarrow> (expression_error, expression) result" where
  "parse_leaf tag v normal =
     (if tag = ''literal'' then attempt (parse_scalar (v ! 1)) (\<lambda>s. Ok (ELiteral s))
      else if tag = ''regex'' then
        attempt (ex_text (v ! 1) ''regex pattern'') (\<lambda>pattern.
        attempt (attempt (ex_text (v ! 2) ''regex flags'') (\<lambda>flags. regex_flags flags normal)) (\<lambda>flags.
        Ok (ERegex pattern flags)))
      else if tag = ''ref'' then
        attempt (parse_reference (v ! 1)) (\<lambda>source. attempt (parse_path (v ! 2)) (\<lambda>path. Ok (ERef source path)))
      else if tag = ''function_ref'' then
        attempt (ex_digest (v ! 1)) (\<lambda>l. attempt (ex_name (v ! 2)) (\<lambda>i. Ok (EFunctionRef l i)))
      else if tag = ''status'' then attempt (ex_name (v ! 1)) (\<lambda>i. Ok (EStatus i))
      else if tag = ''error'' then attempt (ex_name (v ! 1)) (\<lambda>i. Ok (EError i))
      else Panic)"

type_synonym p_rec = "value \<Rightarrow> (expression_error, expression) result"

definition parse_expressions :: "p_rec \<Rightarrow> value \<Rightarrow> (expression_error, expression list) result" where
  "parse_expressions pe v = attempt (ex_array v ''expression list'') (map_result pe)"

definition parse_not :: "p_rec \<Rightarrow> value \<Rightarrow> (expression_error, expression) result" where
  "parse_not pe v = attempt (pe v) (\<lambda>e. Ok (ENot e))"

definition parse_list :: "p_rec \<Rightarrow> value \<Rightarrow> (expression_error, expression) result" where
  "parse_list pe v = attempt (parse_expressions pe v) (\<lambda>es. Ok (EList es))"

text \<open>The projection of a reference or of a projection folds into one path.\<close>

definition parse_get :: "p_rec \<Rightarrow> bool \<Rightarrow> value \<Rightarrow> value \<Rightarrow> (expression_error, expression) result" where
  "parse_get pe normal v p =
     attempt (pe v) (\<lambda>base.
     attempt (parse_path p) (\<lambda>path.
     if path = [] then Err (ExInvalidShape ''nonempty get path'')
     else case base of
       ERef source before \<Rightarrow>
         if \<not> normal then Err (ExNonCanonical ''get on reference'') else Ok (ERef source (before @ path))
     | EGet e before \<Rightarrow>
         if \<not> normal then Err (ExNonCanonical ''nested get'') else Ok (EGet e (before @ path))
     | _ \<Rightarrow> Ok (EGet base path)))"

text \<open>The loop over \<open>fields.windows(2)\<close>.\<close>

fun field_pairs :: "(bytes \<times> expression) list \<Rightarrow> (expression_error, unit) result" where
  "field_pairs (a # b # r) =
     (if fst a = fst b then Err ExDuplicateField
      else if fst a > fst b then Err (ExNonCanonical ''record field UTF-8 order'') else field_pairs (b # r))"
| "field_pairs _ = Ok ()"

definition parse_record_expr :: "p_rec \<Rightarrow> bool \<Rightarrow> value \<Rightarrow> (expression_error, expression) result" where
  "parse_record_expr pe normal value =
     attempt (ex_array value ''record expression fields'') (\<lambda>vs.
     attempt (map_result (\<lambda>v.
       attempt (ex_array v ''record expression pair'') (\<lambda>pair.
       attempt (ex_arity pair 2) (\<lambda>_.
       attempt (ex_text (pair ! 0) ''record key'') (\<lambda>key.
       attempt (pe (pair ! 1)) (\<lambda>e. Ok (key, e)))))) vs) (\<lambda>fs.
     let fs' = (if normal then sort_key fst fs else fs) in
     attempt (field_pairs fs') (\<lambda>_. Ok (ERecord fs'))))"

definition parse_call :: "p_rec \<Rightarrow> value \<Rightarrow> value \<Rightarrow> (expression_error, expression) result" where
  "parse_call pe f args =
     attempt (parse_function_id f) (\<lambda>fn.
     attempt (case fn of
         FCore _ \<Rightarrow> attempt (ex_array args ''call arguments'') (\<lambda>vs.
           if length vs \<noteq> 1 then Err (ExInvalidShape ''core function arity'') else Ok ())
       | _ \<Rightarrow> Ok ()) (\<lambda>_.
     attempt (parse_expressions pe args) (\<lambda>es. Ok (ECall fn es))))"

definition parse_render :: "p_rec \<Rightarrow> value \<Rightarrow> value \<Rightarrow> (expression_error, expression) result" where
  "parse_render pe t args =
     attempt (ex_digest t) (\<lambda>template.
     case args of
       VMap m \<Rightarrow>
         attempt (map_result (\<lambda>(key, v).
           attempt (map_err ExIdentifier (identifier_new key)) (\<lambda>i. attempt (pe v) (\<lambda>e. Ok (i, e)))) m) (\<lambda>es.
         Ok (ERender template (sort_key fst es)))
     | _ \<Rightarrow> Err (ExInvalidShape ''render arguments''))"

definition parse_binary :: "p_rec \<Rightarrow> binary_operator \<Rightarrow> value \<Rightarrow> value \<Rightarrow> (expression_error, expression) result" where
  "parse_binary pe op l r =
     attempt (pe l) (\<lambda>left. attempt (pe r) (\<lambda>right. Ok (EBinary op left right)))"

definition expression_arity :: "bytes \<Rightarrow> (expression_error, nat) result" where
  "expression_arity tag =
     (if tag \<in> {''literal'', ''list'', ''record'', ''status'', ''error'', ''not''} then Ok 2
      else if tag \<in> {''regex'', ''ref'', ''get'', ''call'', ''function_ref'', ''render''} then Ok 3
      else if operator_parse tag \<noteq> None then Ok 3 else Err ExUnknownConstructor)"

lemma parse_expressions_cong [fundef_cong]:
  assumes "v = w" and "\<And>vs x. w = VArray vs \<Longrightarrow> x \<in> set vs \<Longrightarrow> f x = g x"
  shows "parse_expressions f v = parse_expressions g w"
proof -
  have "map_result f vs = map_result g vs" if "w = VArray vs" for vs
    using assms(2) that by (intro map_result_cong) simp_all
  then show ?thesis unfolding parse_expressions_def assms(1) by (cases w) (simp_all add: ex_array_def)
qed

lemma parse_not_cong [fundef_cong]: "v = w \<Longrightarrow> f w = g w \<Longrightarrow> parse_not f v = parse_not g w"
  by (simp add: parse_not_def)

lemma parse_list_cong [fundef_cong]:
  assumes "v = w" and "\<And>vs x. w = VArray vs \<Longrightarrow> x \<in> set vs \<Longrightarrow> f x = g x"
  shows "parse_list f v = parse_list g w"
  unfolding parse_list_def using parse_expressions_cong [OF assms] by simp

lemma parse_get_cong [fundef_cong]:
  "v = w \<Longrightarrow> p = q \<Longrightarrow> n = n' \<Longrightarrow> f w = g w \<Longrightarrow> parse_get f n v p = parse_get g n' w q"
  by (simp add: parse_get_def)

lemma parse_record_expr_cong [fundef_cong]:
  assumes "v = w" "n = n'"
    and "\<And>vs pair. w = VArray vs \<Longrightarrow> VArray pair \<in> set vs \<Longrightarrow> length pair = 2 \<Longrightarrow> f (pair ! 1) = g (pair ! 1)"
  shows "parse_record_expr f n v = parse_record_expr g n' w"
proof -
  have "map_result (\<lambda>v. attempt (ex_array v ''record expression pair'') (\<lambda>pair.
       attempt (ex_arity pair 2) (\<lambda>_. attempt (ex_text (pair ! 0) ''record key'') (\<lambda>key.
       attempt (f (pair ! 1)) (\<lambda>e. Ok (key, e)))))) vs =
     map_result (\<lambda>v. attempt (ex_array v ''record expression pair'') (\<lambda>pair.
       attempt (ex_arity pair 2) (\<lambda>_. attempt (ex_text (pair ! 0) ''record key'') (\<lambda>key.
       attempt (g (pair ! 1)) (\<lambda>e. Ok (key, e)))))) vs" if w: "w = VArray vs" for vs
  proof (rule map_result_cong [OF refl])
    fix x assume x: "x \<in> set vs"
    show "attempt (ex_array x ''record expression pair'') (\<lambda>pair.
       attempt (ex_arity pair 2) (\<lambda>_. attempt (ex_text (pair ! 0) ''record key'') (\<lambda>key.
       attempt (f (pair ! 1)) (\<lambda>e. Ok (key, e))))) = attempt (ex_array x ''record expression pair'') (\<lambda>pair.
       attempt (ex_arity pair 2) (\<lambda>_. attempt (ex_text (pair ! 0) ''record key'') (\<lambda>key.
       attempt (g (pair ! 1)) (\<lambda>e. Ok (key, e)))))"
      using assms(3) [OF w, of] x by (cases x) (auto simp: ex_array_def ex_arity_def)
  qed
  then show ?thesis unfolding parse_record_expr_def assms(1,2) by (cases w) (simp_all add: ex_array_def)
qed

lemma parse_call_cong [fundef_cong]:
  assumes "i = i'" "v = w" and "\<And>vs x. w = VArray vs \<Longrightarrow> x \<in> set vs \<Longrightarrow> f x = g x"
  shows "parse_call f i v = parse_call g i' w"
proof -
  have "parse_expressions f w = parse_expressions g w"
    using assms(3) by (intro parse_expressions_cong) simp_all
  then show ?thesis unfolding parse_call_def assms(1,2) by simp
qed

lemma parse_render_cong [fundef_cong]:
  assumes "t = t'" "v = w" and "\<And>m k x. w = VMap m \<Longrightarrow> (k, x) \<in> set m \<Longrightarrow> f x = g x"
  shows "parse_render f t v = parse_render g t' w"
proof -
  have "map_result (\<lambda>(key, v). attempt (map_err ExIdentifier (identifier_new key)) (\<lambda>i.
      attempt (f v) (\<lambda>e. Ok (i, e)))) m =
    map_result (\<lambda>(key, v). attempt (map_err ExIdentifier (identifier_new key)) (\<lambda>i.
      attempt (g v) (\<lambda>e. Ok (i, e)))) m" if "w = VMap m" for m
    using assms(3) [OF that] by (intro map_result_cong) auto
  then show ?thesis unfolding parse_render_def assms(1,2) by (cases w) simp_all
qed

lemma parse_binary_cong [fundef_cong]:
  "op = op' \<Longrightarrow> l = l' \<Longrightarrow> r = r' \<Longrightarrow> f l' = g l' \<Longrightarrow> f r' = g r' \<Longrightarrow> parse_binary f op l r = parse_binary g op' l' r'"
  by (simp add: parse_binary_def)

lemma size_nth_pair:
  assumes "vs ! i = VArray ws" "VArray pair \<in> set ws" "length pair = 2" "i < length vs"
  shows "size (pair ! Suc 0) < Suc (size_list size vs)"
  using size_nth_array [OF assms(1,2,4)] size_nth [of 1 pair] assms(3) by simp

function parse_expression :: "bool \<Rightarrow> value \<Rightarrow> (expression_error, expression) result" where
  "parse_expression normal value =
     attempt (ex_array value ''expression'') (\<lambda>v.
     attempt (if v = [] then Err (ExInvalidShape ''expression tag'') else ex_text (v ! 0) ''expression tag'') (\<lambda>tag.
     attempt (expression_arity tag) (\<lambda>n.
     attempt (ex_arity v n) (\<lambda>_.
     if tag \<in> {''literal'', ''regex'', ''ref'', ''function_ref'', ''status'', ''error''} then parse_leaf tag v normal
     else if tag = ''get'' then parse_get (parse_expression normal) normal (v ! 1) (v ! 2)
     else if tag = ''list'' then parse_list (parse_expression normal) (v ! 1)
     else if tag = ''record'' then parse_record_expr (parse_expression normal) normal (v ! 1)
     else if tag = ''call'' then parse_call (parse_expression normal) (v ! 1) (v ! 2)
     else if tag = ''render'' then parse_render (parse_expression normal) (v ! 1) (v ! 2)
     else if tag = ''not'' then parse_not (parse_expression normal) (v ! 1)
     else case operator_parse tag of
         None \<Rightarrow> Panic
       | Some op \<Rightarrow> parse_binary (parse_expression normal) op (v ! 1) (v ! 2)))))"
  by pat_completeness auto
termination
proof (relation "measure (\<lambda>(normal, v). size v)", goal_cases)
qed (auto simp: expression_arity_def ex_arity_def ex_array_def less_Suc_eq_le size_nth split: if_splits value_splits
    intro: size_nth_map size_nth_array size_nth_pair
      size_nth_map [unfolded less_Suc_eq_le] size_nth_array [unfolded less_Suc_eq_le]
      size_nth_pair [unfolded less_Suc_eq_le])

declare parse_expression.simps [simp del]

section \<open>The public operations\<close>

definition expression_new :: "half \<Rightarrow> expression \<Rightarrow> limits \<Rightarrow> (expression_error, expression) result" where
  "expression_new h e lim =
     attempt (expression_value h lim e) (\<lambda>v.
     attempt (parse_expression True v) (\<lambda>r.
     attempt (expression_value h lim r) (\<lambda>_. Ok r)))"

definition expression_from_value :: "cbor2 \<Rightarrow> limits \<Rightarrow> value \<Rightarrow> (expression_error, expression) result" where
  "expression_from_value b = record_from_value b ExCodec (\<lambda>_. parse_expression False)"

definition expression_encode :: "half \<Rightarrow> cbor2 \<Rightarrow> limits \<Rightarrow> expression \<Rightarrow> (expression_error, bytes) result" where
  "expression_encode h b = record_encode b ExCodec (expression_value h)"

definition expression_decode :: "cbor2 \<Rightarrow> limits \<Rightarrow> bytes \<Rightarrow> (expression_error, expression) result" where
  "expression_decode b = record_decode b ExCodec (\<lambda>_. parse_expression False)"

end
