(* ===== verification/Templates.thy ===== *)
theory Templates
  imports Expressions
begin

text \<open>
  Prompt templates, \<open>expression/template.rs\<close>, and the context checks of the analyzer on
  expressions and templates, \<open>htlk-analyzer/src/context.rs\<close>.
\<close>

section \<open>Templates\<close>

datatype template_part = PText bytes | PSlot ident

record prompt_template =
  template_parameters :: "(ident \<times> vport) list"
  template_parts :: "template_part list"

definition parameter_type :: "vport \<Rightarrow> builtin_type option" where
  "parameter_type p =
     (case port_type p of
        TBuiltin x \<Rightarrow> if x \<in> {BString, BInteger, BFloat, BBoolean} then Some x else None
      | _ \<Rightarrow> None)"

definition e_parameter :: "limits \<Rightarrow> vport \<Rightarrow> nat \<Rightarrow> nat \<Rightarrow> (expression_error, value \<times> nat) result" where
  "e_parameter lim p d n =
     attempt (ok_or ExInvalidTemplateParameter (parameter_type p)) (\<lambda>x.
     attempt (e_collection lim 2 d n) (\<lambda>n1.
     attempt (e_string lim ''type'' (d + 1) n1) (\<lambda>(ty, n2).
     attempt (e_text lim (builtin_as_str x) (d + 1) n2) (\<lambda>(v, n3).
     attempt (e_string lim ''required'' (d + 1) n3) (\<lambda>(required, n4).
     attempt (map_err ex_limit (acc_boolean lim (d + 1) n4)) (\<lambda>n5.
     attempt (map_err ExCodec (map_try_from_entries [(ty, v), (required, VBool (port_required p))])) (\<lambda>m.
     Ok (VMap m, n5))))))))"

definition e_part :: "limits \<Rightarrow> template_part \<Rightarrow> nat \<Rightarrow> (expression_error, value \<times> nat) result" where
  "e_part lim part n =
     (case part of
        PText s \<Rightarrow> e_text lim s 2 n
      | PSlot name \<Rightarrow>
          attempt (e_tagged lim ''slot'' 2 2 n) (\<lambda>(vs, n1).
          attempt (e_text lim (as_str name) 3 n1) (\<lambda>(v, n2). Ok (VArray (vs @ [v]), n2))))"

definition template_to_value :: "limits \<Rightarrow> prompt_template \<Rightarrow> (expression_error, value) result" where
  "template_to_value lim t =
     attempt (e_new lim) (\<lambda>n0.
     attempt (e_collection lim 2 0 n0) (\<lambda>n1.
     attempt (e_string lim ''parameters'' 1 n1) (\<lambda>(parameters_key, n2).
     attempt (e_collection lim (length (template_parameters t)) 1 n2) (\<lambda>n3.
     attempt (fold_collect (\<lambda>(name, p) k.
         attempt (e_string lim (as_str name) 2 k) (\<lambda>(key, k1).
         attempt (e_parameter lim p 2 k1) (\<lambda>(v, k2). Ok ((key, v), k2)))) (template_parameters t) n3)
       (\<lambda>(parameters, n4).
     attempt (map_err ExCodec (map_try_from_entries parameters)) (\<lambda>m.
     attempt (e_string lim ''parts'' 1 n4) (\<lambda>(parts_key, n5).
     attempt (e_collection lim (length (template_parts t)) 1 n5) (\<lambda>n6.
     attempt (fold_collect (e_part lim) (template_parts t) n6) (\<lambda>(parts, n7).
     attempt (map_err ExCodec (map_try_from_entries [(parameters_key, VMap m), (parts_key, VArray parts)])) (\<lambda>r.
     Ok (VMap r)))))))))))"

definition parse_parameter :: "cbor2 \<Rightarrow> limits \<Rightarrow> value \<Rightarrow> (expression_error, vport) result" where
  "parse_parameter b lim v =
     attempt (map_err ExType (port_from_value b ContextValue lim v)) (\<lambda>p.
     if parameter_type p = None then Err ExInvalidTemplateParameter else Ok p)"

text \<open>One iteration of the loop over the parts; the state is the list \<open>parts\<close>.\<close>

definition parse_part :: "limits \<Rightarrow> bool \<Rightarrow> value \<Rightarrow> template_part list \<Rightarrow> (expression_error, template_part list) result" where
  "parse_part lim normal v parts =
     (case v of
        VText s \<Rightarrow>
          let last_text = (case parts of [] \<Rightarrow> None | _ \<Rightarrow> (case last parts of PText p \<Rightarrow> Some p | PSlot _ \<Rightarrow> None)) in
          if \<not> normal \<and> (s = [] \<or> last_text \<noteq> None) then Err (ExNonCanonical ''template literal segments'')
          else if s = [] then Ok parts
          else (case last_text of
              Some previous \<Rightarrow>
                let maximum = max_document_bytes lim in
                attempt (ok_or (ExLimitExceeded DocumentBytes maximum) (checked_add (length previous) (length s))) (\<lambda>len.
                if len > maximum then Err (ExLimitExceeded DocumentBytes maximum)
                else Ok (butlast parts @ [PText (previous @ s)]))
            | None \<Rightarrow> Ok (parts @ [PText s]))
      | VArray vs \<Rightarrow>
          if length vs = 2 \<and> vs ! 0 = VText ''slot'' then
            attempt (ex_name (vs ! 1)) (\<lambda>i. Ok (parts @ [PSlot i]))
          else Err (ExInvalidShape ''template part'')
      | _ \<Rightarrow> Err (ExInvalidShape ''template part''))"

definition template_parse :: "cbor2 \<Rightarrow> bool \<Rightarrow> limits \<Rightarrow> value \<Rightarrow> (expression_error, prompt_template) result" where
  "template_parse b normal lim value =
     (case value of
        VMap m \<Rightarrow>
          if length m \<noteq> 2 \<or> map_get m ''parameters'' = None \<or> map_get m ''parts'' = None
          then Err (ExInvalidShape ''template fields'')
          else (case map_get m ''parameters'' of
              Some (VMap params) \<Rightarrow>
                attempt (map_result (\<lambda>(key, v).
                  attempt (map_err ExIdentifier (identifier_new key)) (\<lambda>i.
                  attempt (parse_parameter b lim v) (\<lambda>p. Ok (i, p)))) params) (\<lambda>parameters.
                attempt (expect (map_get m ''parts'')) (\<lambda>parts_value.
                attempt (ex_array parts_value ''template parts'') (\<lambda>vs.
                attempt (fold_result (parse_part lim normal) vs []) (\<lambda>parts.
                Ok \<lparr>template_parameters = sort_key fst parameters, template_parts = parts\<rparr>))))
            | _ \<Rightarrow> Err (ExInvalidShape ''template parameters''))
      | _ \<Rightarrow> Err (ExInvalidShape ''template record''))"

definition template_new ::
  "cbor2 \<Rightarrow> (ident \<times> vport) list \<Rightarrow> template_part list \<Rightarrow> limits \<Rightarrow> (expression_error, prompt_template) result" where
  "template_new b parameters parts lim =
     attempt (template_to_value lim \<lparr>template_parameters = parameters, template_parts = parts\<rparr>) (\<lambda>v.
     attempt (template_parse b True lim v) (\<lambda>r.
     attempt (template_to_value lim r) (\<lambda>_. Ok r)))"

definition template_from_value :: "cbor2 \<Rightarrow> limits \<Rightarrow> value \<Rightarrow> (expression_error, prompt_template) result" where
  "template_from_value b = record_from_value b ExCodec (template_parse b False)"

definition template_encode :: "cbor2 \<Rightarrow> limits \<Rightarrow> prompt_template \<Rightarrow> (expression_error, bytes) result" where
  "template_encode b = record_encode b ExCodec template_to_value"

definition template_decode :: "cbor2 \<Rightarrow> limits \<Rightarrow> bytes \<Rightarrow> (expression_error, prompt_template) result" where
  "template_decode b = record_decode b ExCodec (template_parse b False)"

definition template_digest ::
  "(bytes \<Rightarrow> bytes) \<Rightarrow> cbor2 \<Rightarrow> limits \<Rightarrow> prompt_template \<Rightarrow> (expression_error, digest) result" where
  "template_digest sha b lim t =
     attempt (template_to_value lim t) (\<lambda>v. map_err ExCodec (record_digest sha b KTemplate v lim))"

section \<open>Context checks\<close>

definition reference_check :: "value_reference \<Rightarrow> expression_context \<Rightarrow> (expression_error, unit) result" where
  "reference_check r c =
     (let (allowed, label) =
        (case r of
           RInput _ \<Rightarrow> (True, ''input'')
         | ROutput _ _ \<Rightarrow> ((case c of CGuard _ \<Rightarrow> True | CLoopUntil \<Rightarrow> True | _ \<Rightarrow> False), ''output'')
         | RScopeOutput _ \<Rightarrow>
             (c \<in> {CPrimitivePostconditions, CScopePostconditions, CWrapperPostconditions, CLoopUntil, CLoopPostconditions},
              ''scope_output'')
         | RCarried _ \<Rightarrow> ((case c of CGuard loop_body \<Rightarrow> loop_body | CLoopUntil \<Rightarrow> True | _ \<Rightarrow> False), ''carried'')
         | RNext _ \<Rightarrow> (c = CLoopUntil, ''next''))
      in if allowed then Ok () else Err (ExForbiddenReference label))"

definition outcome_check :: "expression_context \<Rightarrow> (expression_error, unit) result" where
  "outcome_check c =
     (if (case c of CGuard _ \<Rightarrow> True | CScopePostconditions \<Rightarrow> True | CLoopUntil \<Rightarrow> True | _ \<Rightarrow> False)
      then Ok () else Err (ExForbiddenReference ''node outcome''))"

text \<open>\<open>ExpressionDiagnostic\<close>: the path of child indices to the offending expression.\<close>

record expression_diagnostic =
  expression_path :: "nat list"
  diagnostic_error :: expression_error

definition node_check :: "expression_context \<Rightarrow> expression \<Rightarrow> (expression_error, unit) result" where
  "node_check c e =
     (case e of ERef source _ \<Rightarrow> reference_check source c
      | EStatus _ \<Rightarrow> outcome_check c | EError _ \<Rightarrow> outcome_check c | _ \<Rightarrow> Ok ())"

text \<open>\<open>walk\<close> visits the direct children in order, extending the path by their index.\<close>

fun walk_children ::
  "(nat list \<Rightarrow> expression \<Rightarrow> (expression_diagnostic, unit) result) \<Rightarrow> nat list \<Rightarrow> nat \<Rightarrow> expression list \<Rightarrow>
    (expression_diagnostic, unit) result" where
  "walk_children f path index [] = Ok ()"
| "walk_children f path index (e # es) =
     attempt (f (path @ [index]) e) (\<lambda>_. walk_children f path (index + 1) es)"

lemma walk_children_cong [fundef_cong]:
  assumes "path = path'" "index = index'" "es = es'" and "\<And>p e. e \<in> set es' \<Longrightarrow> f p e = g p e"
  shows "walk_children f path index es = walk_children g path' index' es'"
  using assms by (induction es arbitrary: index index' es') auto

lemma map_nth_guarded: "map (\<lambda>i. the (if i < length xs then Some (f (xs ! i)) else None)) [0..<length xs] = map f xs"
  by (rule nth_equalityI) simp_all

lemma expression_children_simps [simp]:
  "expression_children (ELiteral s) = []" "expression_children (ERegex pat fl) = []"
  "expression_children (ERef r p) = []" "expression_children (EGet v p) = [v]"
  "expression_children (EList es) = es" "expression_children (ERecord fs) = map snd fs"
  "expression_children (ECall f es) = es" "expression_children (EFunctionRef l i) = []"
  "expression_children (ERender t args) = map snd args" "expression_children (EStatus i) = []"
  "expression_children (EError i) = []" "expression_children (ENot v) = [v]"
  "expression_children (EBinary op x y) = [x, y]"
  by (simp_all add: expression_children_def child_count_def expression_child_def numeral_2_eq_2
      map_nth_guarded map_nth_guarded [where f = "\<lambda>x. x", simplified] cong: if_cong)

lemma size_children: "x \<in> set (expression_children e) \<Longrightarrow> size x < size e"
  by (cases e) (auto simp: less_Suc_eq_le size_list_estimation' dest: size_snd_list [unfolded less_Suc_eq_le]
      intro: le_less_trans)

function walk :: "expression_context \<Rightarrow> nat list \<Rightarrow> expression \<Rightarrow> (expression_diagnostic, unit) result" where
  "walk c path e =
     attempt (map_err (\<lambda>err. \<lparr>expression_path = path, diagnostic_error = err\<rparr>) (node_check c e)) (\<lambda>_.
     walk_children (walk c) path 0 (expression_children e))"
  by pat_completeness auto
termination
  by (relation "measure (\<lambda>(c, path, e). size e)") (auto simp: size_children)

declare walk.simps [simp del]

definition check_expression_context ::
  "half \<Rightarrow> expression \<Rightarrow> expression_context \<Rightarrow> limits \<Rightarrow> (expression_diagnostic, unit) result" where
  "check_expression_context h e c lim =
     attempt (map_err (\<lambda>err. \<lparr>expression_path = [], diagnostic_error = err\<rparr>) (expression_value h lim e)) (\<lambda>_.
     walk c [] e)"

definition slot_names :: "template_part list \<Rightarrow> ident list" where
  "slot_names parts = concat (map (\<lambda>part. case part of PSlot name \<Rightarrow> [name] | PText _ \<Rightarrow> []) parts)"

definition template_check :: "prompt_template \<Rightarrow> (expression_error, unit) result" where
  "template_check t =
     (let slots = remdups_adj (sort (slot_names (template_parts t))) in
      if length slots \<noteq> length (template_parameters t) \<or>
         (\<exists>p \<in> set (zip slots (template_parameters t)). fst p \<noteq> fst (snd p))
      then Err ExTemplateParameterMismatch else Ok ())"

definition check_prompt_template :: "prompt_template \<Rightarrow> limits \<Rightarrow> (expression_error, unit) result" where
  "check_prompt_template t lim = attempt (template_to_value lim t) (\<lambda>_. template_check t)"

end
