(* ===== verification/Context_Properties.thy ===== *)
theory Context_Properties
  imports Templates
begin

text \<open>
  What the context checks establish. \<open>subexpression\<close> reads a path of child indices; an
  expression passes exactly when the node at every path is allowed in its context, and a
  rejection names the first offending node in document order. A template passes exactly when
  its parameters are the distinct slot names in order.
\<close>

section \<open>Subexpressions and their paths\<close>

fun subexpression :: "expression \<Rightarrow> nat list \<Rightarrow> expression option" where
  "subexpression e [] = Some e"
| "subexpression e (i # path) =
     (if i < length (expression_children e) then subexpression (expression_children e ! i) path else None)"

abbreviation before :: "nat list \<Rightarrow> nat list \<Rightarrow> bool" where
  "before p q \<equiv> (p, q) \<in> lexord less_than"

lemma walk_children_Ok:
  "walk_children f path k es = Ok () \<longleftrightarrow> (\<forall>i < length es. f (path @ [k + i]) (es ! i) = Ok ())"
  by (induction es arbitrary: k) (auto simp: less_Suc_eq_0_disj)

lemma walk_children_Err:
  "walk_children f path k es = Err d \<Longrightarrow>
    \<exists>i < length es. f (path @ [k + i]) (es ! i) = Err d \<and> (\<forall>j < i. f (path @ [k + j]) (es ! j) = Ok ())"
proof (induction es arbitrary: k)
  case (Cons e es)
  show ?case
  proof (cases "f (path @ [k]) e")
    case (Ok u)
    then obtain i where "i < length es" "f (path @ [Suc k + i]) (es ! i) = Err d"
        "\<forall>j < i. f (path @ [Suc k + j]) (es ! j) = Ok ()"
      using Cons.IH [of "Suc k"] Cons.prems by auto
    then show ?thesis using Ok by (intro exI [of _ "Suc i"]) (auto simp: less_Suc_eq_0_disj)
  qed (use Cons.prems in auto)
qed simp

lemma walk_Ok: "walk c path e = Ok () \<longleftrightarrow> (\<forall>p x. subexpression e p = Some x \<longrightarrow> node_check c x = Ok ())"
proof (induction e arbitrary: path rule: measure_induct_rule [where f = size])
  case (less e)
  have IH: "walk c q (expression_children e ! i) = Ok () \<longleftrightarrow>
      (\<forall>p x. subexpression (expression_children e ! i) p = Some x \<longrightarrow> node_check c x = Ok ())"
    if "i < length (expression_children e)" for q i
    using that by (intro less size_children) simp
  have "walk c path e = Ok () \<longleftrightarrow>
      node_check c e = Ok () \<and> (\<forall>i < length (expression_children e). walk c (path @ [i]) (expression_children e ! i) = Ok ())"
    by (cases "node_check c e") (simp_all add: walk.simps [of c path e] walk_children_Ok)
  also have "\<dots> \<longleftrightarrow> (\<forall>p x. subexpression e p = Some x \<longrightarrow> node_check c x = Ok ())"
  proof (intro iffI conjI allI impI)
    fix p x
    assume *: "node_check c e = Ok () \<and>
      (\<forall>i < length (expression_children e). walk c (path @ [i]) (expression_children e ! i) = Ok ())"
      and "subexpression e p = Some x"
    then show "node_check c x = Ok ()"
      using IH by (cases p) (auto split: if_splits)
  next
    assume *: "\<forall>p x. subexpression e p = Some x \<longrightarrow> node_check c x = Ok ()"
    show "node_check c e = Ok ()" using * [rule_format, of "[]"] by simp
    fix i
    assume i: "i < length (expression_children e)"
    show "walk c (path @ [i]) (expression_children e ! i) = Ok ()"
      unfolding IH [OF i] using * [rule_format, of "i # _"] i by auto
  qed
  finally show ?case .
qed

lemma walk_Err:
  "walk c path e = Err d \<Longrightarrow> \<exists>p x. expression_path d = path @ p \<and> subexpression e p = Some x \<and>
    node_check c x = Err (diagnostic_error d) \<and>
    (\<forall>q y. before q p \<longrightarrow> subexpression e q = Some y \<longrightarrow> node_check c y = Ok ())"
proof (induction e arbitrary: path rule: measure_induct_rule [where f = size])
  case (less e)
  show ?case
  proof (cases "node_check c e")
    case (Err err)
    then show ?thesis using less.prems by (intro exI [of _ "[]"]) (auto simp: walk.simps [of c path e])
  next
    case Panic
    then show ?thesis using less.prems by (simp add: walk.simps [of c path e])
  next
    case (Ok u)
    then obtain i where i: "i < length (expression_children e)"
      and d: "walk c (path @ [i]) (expression_children e ! i) = Err d"
      and prior: "\<forall>j < i. walk c (path @ [j]) (expression_children e ! j) = Ok ()"
      using less.prems walk_children_Err [of "walk c" path 0 "expression_children e" d]
      by (auto simp: walk.simps [of c path e])
    have "size (expression_children e ! i) < size e" using i by (intro size_children) simp
    then obtain p x where p: "expression_path d = path @ [i] @ p"
      and x: "subexpression (expression_children e ! i) p = Some x" "node_check c x = Err (diagnostic_error d)"
      and first: "\<forall>q y. before q p \<longrightarrow> subexpression (expression_children e ! i) q = Some y \<longrightarrow> node_check c y = Ok ()"
      using less.IH [OF _ d] by auto
    have "node_check c y = Ok ()" if "before q (i # p)" "subexpression e q = Some y" for q y
    proof (cases q)
      case (Cons j q')
      then have "j < i \<or> j = i \<and> before q' p" using that by auto
      then show ?thesis
        using that(2) Cons first prior walk_Ok i by (auto split: if_splits)
    qed (use that Ok in simp)
    then show ?thesis using p x i by (intro exI [of _ "i # p"] exI [of _ x]) auto
  qed
qed

lemma node_check_not_Panic [simp]: "node_check c e \<noteq> Panic"
  by (auto simp: node_check_def reference_check_def outcome_check_def split: expression.splits value_reference.splits)

section \<open>The table of allowed roots\<close>

text \<open>The references of an expression by the table of expression locations in section 7 of the
  syntax reference: what a reference or outcome test reads, and what each location may read.\<close>

datatype root = Own_input | Sibling_output | Proposed_output | Carried_value | Next_value | Outcome

fun allowed_roots :: "expression_context \<Rightarrow> root set" where
  "allowed_roots (CGuard loop_body) = {Own_input, Sibling_output, Outcome} \<union> (if loop_body then {Carried_value} else {})"
| "allowed_roots CEval = {Own_input}"
| "allowed_roots CPreconditions = {Own_input}"
| "allowed_roots CPrimitivePostconditions = {Own_input, Proposed_output}"
| "allowed_roots CScopePostconditions = {Own_input, Proposed_output, Outcome}"
| "allowed_roots CWrapperPostconditions = {Own_input, Proposed_output}"
| "allowed_roots CLoopUntil = {Own_input, Carried_value, Next_value, Proposed_output, Sibling_output, Outcome}"
| "allowed_roots CLoopPostconditions = {Own_input, Proposed_output}"

inductive consults :: "expression \<Rightarrow> root \<Rightarrow> bool" where
  consults_input: "consults (ERef (RInput port) path) Own_input"
| consults_output: "consults (ERef (ROutput node port) path) Sibling_output"
| consults_proposed: "consults (ERef (RScopeOutput port) path) Proposed_output"
| consults_carried: "consults (ERef (RCarried port) path) Carried_value"
| consults_next: "consults (ERef (RNext port) path) Next_value"
| consults_status: "consults (EStatus node) Outcome"
| consults_error: "consults (EError node) Outcome"
| in_get: "consults e r \<Longrightarrow> consults (EGet e path) r"
| in_list: "e \<in> set es \<Longrightarrow> consults e r \<Longrightarrow> consults (EList es) r"
| in_field: "(key, e) \<in> set fs \<Longrightarrow> consults e r \<Longrightarrow> consults (ERecord fs) r"
| in_argument: "e \<in> set es \<Longrightarrow> consults e r \<Longrightarrow> consults (ECall f es) r"
| in_parameter: "(name, e) \<in> set args \<Longrightarrow> consults e r \<Longrightarrow> consults (ERender t args) r"
| in_negation: "consults e r \<Longrightarrow> consults (ENot e) r"
| in_left: "consults e r \<Longrightarrow> consults (EBinary op e e') r"
| in_right: "consults e' r \<Longrightarrow> consults (EBinary op e e') r"

inductive_cases consults_elims:
  "consults (ELiteral s) r" "consults (ERegex pat fl) r" "consults (ERef v p) r" "consults (EGet v p) r" "consults (EList es) r"
  "consults (ERecord fs) r" "consults (ECall f es) r" "consults (EFunctionRef l i) r" "consults (ERender t args) r"
  "consults (EStatus i) r" "consults (EError i) r" "consults (ENot v) r" "consults (EBinary op x y) r"

lemma consults_child: "x \<in> set (expression_children e) \<Longrightarrow> consults x r \<Longrightarrow> consults e r"
  by (cases e) (auto intro: consults.intros)

lemma consults_here: "(\<exists>r. consults e r \<and> r \<notin> allowed_roots c) \<Longrightarrow> expression_children e = [] \<Longrightarrow> node_check c e \<noteq> Ok ()"
  by (cases e; cases c)
    (auto elim!: consults_elims simp: node_check_def reference_check_def outcome_check_def split: if_splits)

lemma node_check_consults: "node_check c e \<noteq> Ok () \<Longrightarrow> \<exists>r. consults e r \<and> r \<notin> allowed_roots c"
proof -
  assume n: "node_check c e \<noteq> Ok ()"
  consider (ref) v p where "e = ERef v p" | (outcome) i where "e = EStatus i \<or> e = EError i"
    using n by (cases e) (auto simp: node_check_def)
  then show ?thesis
  proof cases
    case ref
    then show ?thesis using n
      by (cases v; cases c) (auto simp: node_check_def reference_check_def split: if_splits intro: consults.intros exI)
  next
    case outcome
    then have "consults e Outcome" by (auto intro: consults.intros)
    moreover have "Outcome \<notin> allowed_roots c"
      using n outcome by (cases c) (auto simp: node_check_def outcome_check_def)
    ultimately show ?thesis by blast
  qed
qed

lemma consults_parts: "consults e r \<Longrightarrow> expression_children e \<noteq> [] \<Longrightarrow> \<exists>x \<in> set (expression_children e). consults x r"
  by (cases e) (auto elim!: consults_elims intro: rev_bexI)

lemma consults_subexpression: "subexpression e p = Some x \<Longrightarrow> consults x r \<Longrightarrow> consults e r"
  by (induction e p rule: subexpression.induct) (auto intro: consults_child [OF nth_mem] split: if_splits)

lemma forbidden_node:
  "consults e r \<Longrightarrow> r \<notin> allowed_roots c \<Longrightarrow> \<exists>p x. subexpression e p = Some x \<and> node_check c x \<noteq> Ok ()"
proof (induction e rule: measure_induct_rule [where f = size])
  case (less e)
  show ?case
  proof (cases "expression_children e = []")
    case True
    then have "node_check c e \<noteq> Ok ()" using consults_here less.prems by blast
    then show ?thesis by (intro exI [of _ "[]"] exI [of _ e]) simp
  next
    case False
    then obtain i where i: "i < length (expression_children e)" "consults (expression_children e ! i) r"
      using consults_parts [OF less.prems(1)] by (auto simp: in_set_conv_nth)
    then have "size (expression_children e ! i) < size e" by (intro size_children) simp
    then obtain p x where "subexpression (expression_children e ! i) p = Some x" "node_check c x \<noteq> Ok ()"
      using less.IH i(2) less.prems(2) by blast
    then show ?thesis using i(1) by (intro exI [of _ "i # p"] exI [of _ x]) simp
  qed
qed

lemma walk_consults: "walk c path e = Ok () \<longleftrightarrow> (\<nexists>r. consults e r \<and> r \<notin> allowed_roots c)"
  unfolding walk_Ok using forbidden_node node_check_consults consults_subexpression by blast

section \<open>The properties\<close>

text \<open>C17. An expression passes the context check exactly when its record fits the limits and
  nothing it reads, however deep, is outside the table of allowed roots for its location.\<close>

theorem context_check_exact:
  "check_expression_context h e c lim = Ok () \<longleftrightarrow>
    (\<exists>v. expression_value h lim e = Ok v) \<and> (\<nexists>r. consults e r \<and> r \<notin> allowed_roots c)"
  by (cases "expression_value h lim e") (auto simp: check_expression_context_def walk_consults)

text \<open>C16. A rejected expression that has a record is reported at its first offending node in
  document order: the diagnostic's path leads to a forbidden node, its error is that node's, and
  every node before it is allowed.\<close>

theorem context_diagnostic_first:
  assumes "expression_value h lim e = Ok v" and "check_expression_context h e c lim = Err d"
  shows "\<exists>x. subexpression e (expression_path d) = Some x \<and> node_check c x = Err (diagnostic_error d) \<and>
    (\<forall>q y. before q (expression_path d) \<longrightarrow> subexpression e q = Some y \<longrightarrow> node_check c y = Ok ())"
  using walk_Err [of c "[]" e d] assms by (auto simp: check_expression_context_def)

theorem context_diagnostic_first_witness:
  "\<exists>x. subexpression (EList [ELiteral LNull, ENot (ERef (RNext (Ident ''n'')) [])]) [1, 0] = Some x \<and>
    node_check CLoopPostconditions x = Err (ExForbiddenReference ''next'')"
proof -
  let ?e = "EList [ELiteral LNull, ENot (ERef (RNext (Ident ''n'')) [])]"
  let ?d = "\<lparr>expression_path = [1, 0], diagnostic_error = ExForbiddenReference ''next''\<rparr>"
  have v: "expression_value ref_half default_limits ?e =
      Ok (VArray [VText ''list'', VArray [VArray [VText ''literal'', VNull],
        VArray [VText ''not'', VArray [VText ''ref'', VArray [VText ''next'', VText ''n''], VArray []]]]])" by code_simp
  have "check_expression_context ref_half ?e CLoopPostconditions default_limits = Err ?d" by code_simp
  then obtain x where "subexpression ?e (expression_path ?d) = Some x" "node_check CLoopPostconditions x = Err (diagnostic_error ?d)"
    using context_diagnostic_first [OF v] by blast
  then show ?thesis by auto
qed

text \<open>C37. A template passes the slot check exactly when its parameter names are its distinct
  slot names in ascending order.\<close>

theorem template_check_exact:
  "template_check t = Ok () \<longleftrightarrow>
    map fst (template_parameters t) = sorted_list_of_set {name. PSlot name \<in> set (template_parts t)}"
proof -
  have slots: "set (slot_names parts) = {name. PSlot name \<in> set parts}" for parts
    by (force simp: slot_names_def split: template_part.splits)
  have agree: "\<not> (length slots \<noteq> length ps \<or> (\<exists>p \<in> set (zip slots ps). fst p \<noteq> fst (snd p))) \<longleftrightarrow> map fst ps = slots"
    for slots :: "ident list" and ps :: "(ident \<times> vport) list"
  proof (cases "length slots = length ps")
    case True
    then show ?thesis by (induction slots ps rule: list_induct2) auto
  qed auto
  have "template_check t = Ok () \<longleftrightarrow> map fst (template_parameters t) = remdups_adj (sort (slot_names (template_parts t)))"
    using agree [of "remdups_adj (sort (slot_names (template_parts t)))" "template_parameters t"]
    by (auto simp: template_check_def Let_def)
  then show ?thesis by (simp add: remdups_adj_sort slots)
qed

end
