(* ===== verification/Evaluator.thy ===== *)
theory Evaluator
  imports Templates Json_Pointer "HOL-Library.AList"
begin

text \<open>
  Native evaluation of expressions, \<open>htlk-runtime/src/evaluate.rs\<close>: the meter with its work,
  visit and size ceilings, the recursive evaluator and each of its constructors, projection,
  and the concrete frame of frozen values. An operation takes the meter and returns its
  result with the meter after it; an error ends the evaluation, so the meter after an error is
  not observed. The environment is the record of the methods of \<open>EvaluationContext\<close>; the
  engines behind literal regexes and float formatting are parameters.
\<close>

section \<open>Data\<close>

datatype evaluation_value = Present "value" | Absent | Pending

datatype evaluation_argument = ArgValue evaluation_value | ArgFunction digest ident

datatype evaluation_outcome =
  OutPending | OutSucceeded | OutFailed bytes bytes | OutSkipped | OutCancelled

datatype json_error =
  JsCodec cbor_error | JsInvalidUtf8 nat | JsSyntax nat | JsDuplicateKey nat | JsUnsafeNumber
| JsUnsupportedValue | JsNonCanonical | JsLimitExceeded limit_kind nat | JsAllocationFailed | JsSerialization

text \<open>The payloads of \<open>Registry\<close>, \<open>Analysis\<close> and \<open>NativeSchema\<close> belong to components that
  are not modelled and no operation here inspects them.\<close>

datatype evaluation_error =
  EvUnknownExpression | EvRegistry | EvAnalysis | EvType type_error | EvNativeSchema
| EvJson json_error | EvJsonPointer json_pointer_error | EvUnresolvedType
| EvCodec cbor_error | EvExpression expression_error | EvInvalidLimits | EvLimit bytes
| EvAbsentOperand | EvUnavailableSource | EvUnknownReference | EvUnknownOutcome
| EvInvalidProjection | EvOperandType | EvUnknownFunction | EvCallableAsValue
| EvUnknownTemplate | EvTemplateArguments | EvRegex | EvAllocationFailed

definition evaluation_error_code :: "evaluation_error \<Rightarrow> bytes" where
  "evaluation_error_code e =
     (case e of
        EvLimit _ \<Rightarrow> ''E_EXPRESSION_LIMIT''
      | EvCodec c \<Rightarrow> (case err_kind c of LimitExceeded _ _ \<Rightarrow> ''E_EXPRESSION_LIMIT'' | _ \<Rightarrow> ''E_EXPRESSION'')
      | EvExpression (ExLimitExceeded _ _) \<Rightarrow> ''E_EXPRESSION_LIMIT''
      | EvJson (JsLimitExceeded _ _) \<Rightarrow> ''E_EXPRESSION_LIMIT''
      | EvJsonPointer (PtrLimitExceeded _ _) \<Rightarrow> ''E_EXPRESSION_LIMIT''
      | EvAbsentOperand \<Rightarrow> ''E_EXPRESSION_ABSENT''
      | _ \<Rightarrow> ''E_EXPRESSION'')"

text \<open>\<open>policy.rs\<close>: the ceilings are \<open>u64\<close>.\<close>

record evaluator_limits =
  max_expression_depth :: nat
  max_value_bytes :: nat
  max_collection_visits :: nat
  max_regex_bytes :: nat
  max_regex_compiled_bytes :: nat
  max_output_bytes :: nat
  max_steps :: nat

record evaluation_usage =
  steps :: nat
  collection_visits :: nat
  value_bytes :: nat

record meter =
  policy :: evaluator_limits
  codec :: limits
  program_codec :: limits
  usage :: evaluation_usage
  meter_depth :: nat
  native_depth :: nat
  meter_path :: "nat list"

type_synonym 'a metered = "meter \<Rightarrow> (evaluation_error, 'a \<times> meter) result"

definition mret :: "'a \<Rightarrow> 'a metered" where
  "mret x m = Ok (x, m)"

definition mfail :: "evaluation_error \<Rightarrow> 'a metered" where
  "mfail e m = Err e"

definition mbind :: "'a metered \<Rightarrow> ('a \<Rightarrow> 'b metered) \<Rightarrow> 'b metered" where
  "mbind a f m = attempt (a m) (\<lambda>(x, m'). f x m')"

definition mlift :: "(evaluation_error, 'a) result \<Rightarrow> 'a metered" where
  "mlift r m = attempt r (\<lambda>x. Ok (x, m))"

definition mguard :: "bool \<Rightarrow> evaluation_error \<Rightarrow> unit metered" where
  "mguard ok e = (if ok then mret () else mfail e)"

definition mget :: "meter metered" where
  "mget m = Ok (m, m)"

fun mfold :: "('a \<Rightarrow> 's \<Rightarrow> 's metered) \<Rightarrow> 'a list \<Rightarrow> 's \<Rightarrow> 's metered" where
  "mfold f [] s = mret s"
| "mfold f (x # xs) s = mbind (f x s) (mfold f xs)"

text \<open>External engines: \<open>regex::RegexBuilder::build\<close> with its three switches and size limit
  (\<open>Err True\<close> for \<open>CompiledTooBig\<close>), and \<open>ryu_js::Buffer::format_finite\<close>. The backend of the
  codec and the binary16 type are those of the codec.\<close>

record engines =
  regex_build :: "bytes \<Rightarrow> bool \<Rightarrow> bool \<Rightarrow> bool \<Rightarrow> nat \<Rightarrow> (bool, unit) result"
  format_finite :: "f64 \<Rightarrow> bytes"
  backend :: cbor2
  binary16 :: half

section \<open>The meter\<close>

definition meter_new :: "evaluator_limits \<Rightarrow> limits \<Rightarrow> (evaluation_error, meter) result" where
  "meter_new p lim =
     attempt (map_err EvCodec (limits_validate lim)) (\<lambda>_.
     if 0 \<in> {max_expression_depth p, max_value_bytes p, max_collection_visits p, max_regex_bytes p,
          max_regex_compiled_bytes p, max_output_bytes p, max_steps p}
     then Err EvInvalidLimits
     else Ok \<lparr>policy = p,
       codec = lim\<lparr>max_document_bytes := min (max_document_bytes lim) (max_value_bytes p)\<rparr>,
       program_codec = lim, usage = \<lparr>steps = 0, collection_visits = 0, value_bytes = 0\<rparr>,
       meter_depth = 0, native_depth = 0, meter_path = []\<rparr>)"

definition remaining_steps :: "meter \<Rightarrow> nat" where
  "remaining_steps m = max_steps (policy m) - steps (usage m)"

definition charge :: "nat \<Rightarrow> unit metered" where
  "charge n m =
     attempt (ok_or (EvLimit ''steps'') (checked_add (steps (usage m)) n)) (\<lambda>total.
     if total > max_steps (policy m) then Err (EvLimit ''steps'')
     else Ok ((), m\<lparr>usage := (usage m)\<lparr>steps := total\<rparr>\<rparr>))"

definition visit :: "nat \<Rightarrow> unit metered" where
  "visit n m =
     attempt (ok_or (EvLimit ''collection visits'') (checked_add (collection_visits (usage m)) n)) (\<lambda>total.
     if total > max_collection_visits (policy m) then Err (EvLimit ''collection visits'')
     else charge n (m\<lparr>usage := (usage m)\<lparr>collection_visits := total\<rparr>\<rparr>))"

definition inspect :: "engines \<Rightarrow> value \<Rightarrow> nat metered" where
  "inspect eng v m =
     attempt (map_err EvCodec (encode (backend eng) (codec m) v)) (\<lambda>bs.
     if length bs > max_value_bytes (policy m) then Err (EvLimit ''value bytes'')
     else attempt (ok_or (EvLimit ''value bytes'') (checked_add (value_bytes (usage m)) (length bs))) (\<lambda>total.
       attempt (charge (length bs) (m\<lparr>usage := (usage m)\<lparr>value_bytes := total\<rparr>\<rparr>)) (\<lambda>(_, m').
       Ok (length bs, m'))))"

definition size_check :: "nat \<Rightarrow> unit metered" where
  "size_check n m =
     (if n > max_value_bytes (policy m) then Err (EvLimit ''value bytes'')
      else if meter_depth m \<le> 1 \<and> n > max_output_bytes (policy m) then Err (EvLimit ''output bytes'')
      else Ok ((), m))"

definition copy_value :: "engines \<Rightarrow> value \<Rightarrow> value metered" where
  "copy_value eng v = mbind (inspect eng v) (\<lambda>n. mbind (size_check n) (\<lambda>_. mret v))"

definition ev_header :: "nat \<Rightarrow> nat" where
  "ev_header n =
     (if n \<le> 23 then 1 else if n \<le> 255 then 2 else if n \<le> 65535 then 3 else if n \<le> 0xFFFFFFFF then 5 else 9)"

definition meter_text :: "bytes \<Rightarrow> bytes metered" where
  "meter_text s =
     mbind (mlift (ok_or (EvLimit ''value bytes'') (checked_add (length s) (ev_header (length s))))) (\<lambda>n.
     mbind (size_check n) (\<lambda>_. mbind (charge (length s)) (\<lambda>_. mret s)))"

definition intermediate :: "'a metered \<Rightarrow> 'a metered" where
  "intermediate operation m =
     attempt (operation (m\<lparr>meter_depth := max (meter_depth m) 2\<rparr>)) (\<lambda>(x, m').
     Ok (x, m'\<lparr>meter_depth := meter_depth m\<rparr>))"

definition callback :: "'a metered \<Rightarrow> 'a metered" where
  "callback operation m =
     attempt (charge 1 m) (\<lambda>(_, m1).
     attempt (ok_or (EvLimit ''callback depth'') (checked_add (native_depth m1) 1)) (\<lambda>depth.
     let maximum = min (max_expression_depth (policy m1)) (max_depth (program_codec m1)) in
     if (case checked_add (meter_depth m1) depth of None \<Rightarrow> True | Some n \<Rightarrow> n > maximum)
     then Err (EvLimit ''callback depth'')
     else attempt (intermediate operation (m1\<lparr>native_depth := depth\<rparr>)) (\<lambda>(x, m2).
       Ok (x, m2\<lparr>native_depth := native_depth m2 - 1\<rparr>))))"

section \<open>The environment\<close>

record environment =
  env_check_result :: "expression \<Rightarrow> evaluation_value \<Rightarrow> unit metered"
  env_resolve :: "value_reference \<Rightarrow> path_step list \<Rightarrow> evaluation_value metered"
  env_outcome :: "ident \<Rightarrow> evaluation_outcome option"
  env_template :: "digest \<Rightarrow> prompt_template option"
  env_call_at :: "expression \<Rightarrow> digest \<Rightarrow> ident \<Rightarrow> evaluation_argument list \<Rightarrow> evaluation_value metered"
  env_project :: "expression \<Rightarrow> value \<Rightarrow> path_step list \<Rightarrow> evaluation_value metered"

text \<open>\<open>usize::BITS - n.leading_zeros()\<close>, the bit length.\<close>

fun bit_length :: "nat \<Rightarrow> nat" where
  "bit_length n = (if n = 0 then 0 else Suc (bit_length (n div 2)))"

declare bit_length.simps [simp del]

definition saturating_mul :: "nat \<Rightarrow> nat \<Rightarrow> nat" where
  "saturating_mul a b = min (a * b) (2 ^ 64 - 1)"

definition levels :: "nat \<Rightarrow> nat" where
  "levels n = max (bit_length n) 1"

section \<open>Projection\<close>

text \<open>The declaration of a step in the expression the value came from, with its charge.\<close>

definition declared_step :: "expression option \<Rightarrow> path_step \<Rightarrow> expression option metered" where
  "declared_step origin step =
     (case (origin, step) of
        (Some (ERecord fs), PField name) \<Rightarrow>
          mbind (charge (saturating_mul (length name) (levels (length fs)))) (\<lambda>_.
          mret (map_option (\<lambda>i. snd (fs ! i)) (bsearch (\<lambda>i. cmp (fst (fs ! i)) name) 0 (length fs))))
      | (Some (EList items), PIndex i) \<Rightarrow>
          mret (if unat i < length items then Some (items ! unat i) else None)
      | _ \<Rightarrow> mret None)"

text \<open>The loop of \<open>project\<close>; the walk stops early with an absent optional field.\<close>

fun project_from :: "engines \<Rightarrow> value \<Rightarrow> path_step list \<Rightarrow> expression option \<Rightarrow> evaluation_value metered" where
  "project_from eng v [] origin = mbind (copy_value eng v) (\<lambda>x. mret (Present x))"
| "project_from eng v (step # path) origin =
     mbind (visit 1) (\<lambda>_.
     mbind (declared_step origin step) (\<lambda>declared.
     (case (v, step) of
        (VMap m, PField key) \<Rightarrow>
          mbind (charge (saturating_mul (length key) (levels (length m)))) (\<lambda>_.
          (case map_get m key of
             Some x \<Rightarrow> project_from eng x path declared
           | None \<Rightarrow>
               if declared \<noteq> None \<and> path = [] then mret Absent
               else if declared \<noteq> None then mfail EvAbsentOperand else mfail EvInvalidProjection))
      | (VArray items, PIndex i) \<Rightarrow>
          (if unat i < length items then project_from eng (items ! unat i) path declared
           else mfail EvInvalidProjection)
      | _ \<Rightarrow> mfail EvInvalidProjection)))"

definition project :: "engines \<Rightarrow> value \<Rightarrow> path_step list \<Rightarrow> expression option \<Rightarrow> evaluation_value metered" where
  "project = project_from"

definition copy_state :: "engines \<Rightarrow> evaluation_value \<Rightarrow> evaluation_value metered" where
  "copy_state eng x =
     (case x of Present v \<Rightarrow> mbind (copy_value eng v) (\<lambda>v'. mret (Present v'))
      | Absent \<Rightarrow> mret Absent | Pending \<Rightarrow> mret Pending)"

section \<open>Evaluation\<close>

text \<open>\<open>htlk-analyzer/src/regex.rs\<close> and the evaluator's metered use of it.\<close>

definition regex_flag_texts :: "bytes list" where
  "regex_flag_texts = [[], ''i'', ''m'', ''s'', ''im'', ''is'', ''ms'', ''ims'']"

datatype regex_error = RegexSyntax | RegexPatternLimit | RegexCompiledLimit | RegexInvalidOptions

definition compile_regex_literal :: "engines \<Rightarrow> bytes \<Rightarrow> bytes \<Rightarrow> nat \<Rightarrow> nat \<Rightarrow> (regex_error, unit) result" where
  "compile_regex_literal eng pattern flags max_pattern max_compiled =
     (if max_pattern = 0 \<or> max_compiled = 0 then Err RegexInvalidOptions
      else if length pattern > max_pattern then Err RegexPatternLimit
      else if flags \<notin> set regex_flag_texts then Err RegexSyntax
      else map_err (\<lambda>too_big. if too_big then RegexCompiledLimit else RegexSyntax)
        (regex_build eng pattern (CHR ''i'' \<in> set flags) (CHR ''m'' \<in> set flags) (CHR ''s'' \<in> set flags) max_compiled))"

definition compile_regex_for_match :: "engines \<Rightarrow> bytes \<Rightarrow> bytes \<Rightarrow> unit metered" where
  "compile_regex_for_match eng pattern flags =
     mbind mget (\<lambda>m.
     mbind (mguard (length pattern \<le> max_regex_bytes (policy m)) (EvLimit ''regex bytes'')) (\<lambda>_.
     mbind (mguard (flags \<in> set regex_flag_texts) EvRegex) (\<lambda>_.
     mbind (charge (length pattern)) (\<lambda>_.
     mbind (charge (max_regex_compiled_bytes (policy m))) (\<lambda>_.
     mlift (map_err (\<lambda>e. case e of RegexCompiledLimit \<Rightarrow> EvLimit ''regex compiled bytes'' | _ \<Rightarrow> EvRegex)
       (compile_regex_literal eng pattern flags (max_regex_bytes (policy m)) (max_regex_compiled_bytes (policy m)))))))))"

definition map_of_entries :: "(bytes \<times> value) list \<Rightarrow> value metered" where
  "map_of_entries es = mbind (mlift (map_err EvCodec (map_try_from_entries es))) (\<lambda>m. mret (VMap m))"

definition regex_literal :: "engines \<Rightarrow> bytes \<Rightarrow> bytes \<Rightarrow> evaluation_value metered" where
  "regex_literal eng pattern flags =
     mbind (size_check (1 + 8 + ev_header (length pattern) + length pattern + 6 + ev_header (length flags) + length flags)) (\<lambda>_.
     mbind (compile_regex_for_match eng pattern flags) (\<lambda>_.
     mbind (meter_text pattern) (\<lambda>p.
     mbind (meter_text flags) (\<lambda>f.
     mbind (map_of_entries [(''pattern'', VText p), (''flags'', VText f)]) (\<lambda>v.
     mbind (inspect eng v) (\<lambda>_. mret (Present v)))))))"

definition literal_value :: "scalar_literal \<Rightarrow> value metered" where
  "literal_value l =
     (case l of
        LString s \<Rightarrow> mbind (meter_text s) (\<lambda>t. mret (VText t))
      | LBytes b \<Rightarrow> mbind (size_check (length b + ev_header (length b))) (\<lambda>_.
          mbind (charge (length b)) (\<lambda>_. mret (VBytes b)))
      | LInteger n \<Rightarrow> mret (VInteger n) | LFloat f \<Rightarrow> mret (VFloat f)
      | LBoolean v \<Rightarrow> mret (VBool v) | LNull \<Rightarrow> mret VNull)"

definition eval_outcome :: "environment \<Rightarrow> ident \<Rightarrow> bool \<Rightarrow> evaluation_value metered" where
  "eval_outcome env node error =
     (case env_outcome env node of
        None \<Rightarrow> mfail EvUnknownOutcome
      | Some OutPending \<Rightarrow> mret Pending
      | Some out \<Rightarrow>
          if error then
            (case out of
               OutFailed code message \<Rightarrow>
                 mbind (size_check (1 + 5 + ev_header (length code) + length code + 8 + ev_header (length message) + length message)) (\<lambda>_.
                 mbind (meter_text code) (\<lambda>c.
                 mbind (meter_text message) (\<lambda>t.
                 mbind (map_of_entries [(''code'', VText c), (''message'', VText t)]) (\<lambda>v. mret (Present v)))))
             | _ \<Rightarrow> mret (Present VNull))
          else
            (case out of
               OutSucceeded \<Rightarrow> mbind (meter_text ''succeeded'') (\<lambda>t. mret (Present (VText t)))
             | OutFailed _ _ \<Rightarrow> mbind (meter_text ''failed'') (\<lambda>t. mret (Present (VText t)))
             | OutSkipped \<Rightarrow> mbind (meter_text ''skipped'') (\<lambda>t. mret (Present (VText t)))
             | OutCancelled \<Rightarrow> mbind (meter_text ''cancelled'') (\<lambda>t. mret (Present (VText t)))
             | OutPending \<Rightarrow> mret Pending))"

text \<open>The recursive call: an expression, its depth and its child index.\<close>

type_synonym run_rec = "expression \<Rightarrow> nat \<Rightarrow> nat option \<Rightarrow> evaluation_value metered"

text \<open>What every consumer of an operand does with a value that is not present.\<close>

definition operand :: "evaluation_value metered \<Rightarrow> (value \<Rightarrow> evaluation_value metered) \<Rightarrow> evaluation_value metered" where
  "operand a f = mbind a (\<lambda>r. case r of
     Present v \<Rightarrow> f v | Pending \<Rightarrow> mret Pending | Absent \<Rightarrow> mfail EvAbsentOperand)"

definition add_size :: "bytes \<Rightarrow> nat \<Rightarrow> nat \<Rightarrow> nat metered" where
  "add_size site a b = mlift (ok_or (EvLimit site) (checked_add a b))"

fun sequence_from :: "run_rec \<Rightarrow> engines \<Rightarrow> nat \<Rightarrow> nat \<Rightarrow> nat \<Rightarrow> value list \<Rightarrow> expression list \<Rightarrow> evaluation_value metered" where
  "sequence_from rec eng depth index acc out [] = mret (Present (VArray out))"
| "sequence_from rec eng depth index acc out (e # es) =
     mbind (visit 1) (\<lambda>_.
     operand (rec e (depth + 1) (Some index)) (\<lambda>v.
     mbind (inspect eng v) (\<lambda>n.
     mbind (add_size ''output bytes'' acc n) (\<lambda>acc'.
     mbind (size_check acc') (\<lambda>_.
     sequence_from rec eng depth (index + 1) acc' (out @ [v]) es)))))"

definition eval_sequence :: "run_rec \<Rightarrow> engines \<Rightarrow> expression list \<Rightarrow> nat \<Rightarrow> evaluation_value metered" where
  "eval_sequence rec eng es depth =
     mbind (size_check (ev_header (length es))) (\<lambda>_.
     sequence_from rec eng depth 0 (ev_header (length es)) [] es)"

fun record_from :: "run_rec \<Rightarrow> engines \<Rightarrow> nat \<Rightarrow> nat \<Rightarrow> nat \<Rightarrow> (bytes \<times> value) list \<Rightarrow> (bytes \<times> expression) list \<Rightarrow>
    evaluation_value metered" where
  "record_from rec eng depth index acc out [] =
     mbind (map_of_entries out) (\<lambda>v. mret (Present v))"
| "record_from rec eng depth index acc out ((key, e) # fs) =
     mbind (visit 1) (\<lambda>_.
     mbind (rec e (depth + 1) (Some index)) (\<lambda>r.
     case r of
       Present v \<Rightarrow>
         mbind (inspect eng v) (\<lambda>n.
         mbind (add_size ''output bytes'' acc (length key)) (\<lambda>p1.
         mbind (add_size ''output bytes'' p1 (ev_header (length key))) (\<lambda>p2.
         mbind (add_size ''output bytes'' p2 n) (\<lambda>p3.
         mbind (add_size ''output bytes'' p3 (ev_header (length out + 1))) (\<lambda>total.
         mbind (size_check total) (\<lambda>_.
         mbind (meter_text key) (\<lambda>k.
         record_from rec eng depth (index + 1) p3 (out @ [(k, v)]) fs)))))))
     | Pending \<Rightarrow> mret Pending
     | Absent \<Rightarrow> record_from rec eng depth (index + 1) acc out fs))"

definition eval_record :: "run_rec \<Rightarrow> engines \<Rightarrow> (bytes \<times> expression) list \<Rightarrow> nat \<Rightarrow> evaluation_value metered" where
  "eval_record rec eng fs depth = record_from rec eng depth 0 0 [] fs"

text \<open>\<open>f64::partial_cmp\<close> on bit patterns: the magnitude with its sign orders the numbers that
  are not NaN.\<close>

definition f64_is_nan :: "f64 \<Rightarrow> bool" where
  "f64_is_nan x \<longleftrightarrow> unat (take_bit 63 x) > 0x7FF0000000000000"

definition f64_rank :: "f64 \<Rightarrow> int" where
  "f64_rank x = (let n = int (unat (take_bit 63 x)) in if f64_is_sign_negative x then - n else n)"

definition f64_partial_cmp :: "f64 \<Rightarrow> f64 \<Rightarrow> ordering option" where
  "f64_partial_cmp a b = (if f64_is_nan a \<or> f64_is_nan b then None else Some (cmp (f64_rank a) (f64_rank b)))"

definition compare_values :: "binary_operator \<Rightarrow> value \<Rightarrow> value \<Rightarrow> ordering option metered" where
  "compare_values op l r =
     (let equal_op = (op = OpEq \<or> op = OpNe) in
      if l = VNull \<and> r = VNull \<and> equal_op then mret (Some Equal)
      else if (l = VNull \<or> r = VNull) \<and> equal_op then mret None
      else case (l, r) of
          (VText a, VText b) \<Rightarrow> mbind (charge (min (length a) (length b))) (\<lambda>_. mret (Some (cmp a b)))
        | (VInteger a, VInteger b) \<Rightarrow> mret (Some (cmp (sint a) (sint b)))
        | (VFloat a, VFloat b) \<Rightarrow> mret (f64_partial_cmp (float_get a) (float_get b))
        | (VBool a, VBool b) \<Rightarrow>
            if op \<in> {OpAnd, OpOr, OpEq, OpNe} then mret (Some (cmp a b)) else mfail EvOperandType
        | _ \<Rightarrow> mfail EvOperandType)"

definition order_result :: "binary_operator \<Rightarrow> ordering option \<Rightarrow> value \<Rightarrow> bool option" where
  "order_result op order r =
     (case op of
        OpAnd \<Rightarrow> (case r of VBool v \<Rightarrow> Some v | _ \<Rightarrow> None)
      | OpOr \<Rightarrow> (case r of VBool v \<Rightarrow> Some v | _ \<Rightarrow> None)
      | OpEq \<Rightarrow> Some (order = Some Equal)
      | OpNe \<Rightarrow> Some (order \<noteq> Some Equal)
      | OpLt \<Rightarrow> Some (order = Some Less)
      | OpLe \<Rightarrow> Some (order = Some Less \<or> order = Some Equal)
      | OpGt \<Rightarrow> Some (order = Some Greater)
      | OpGe \<Rightarrow> Some (order = Some Greater \<or> order = Some Equal))"

definition eval_binary :: "run_rec \<Rightarrow> binary_operator \<Rightarrow> expression \<Rightarrow> expression \<Rightarrow> nat \<Rightarrow> evaluation_value metered" where
  "eval_binary rec op left right depth =
     operand (rec left (depth + 1) (Some 0)) (\<lambda>l.
     if (op = OpAnd \<or> op = OpOr) \<and> (\<forall>v. l \<noteq> VBool v) then mfail EvOperandType
     else if (op = OpAnd \<and> l = VBool False) \<or> (op = OpOr \<and> l = VBool True) then mret (Present l)
     else operand (rec right (depth + 1) (Some 1)) (\<lambda>r.
       mbind (compare_values op l r) (\<lambda>order.
       case order_result op order r of
         None \<Rightarrow> mfail EvOperandType
       | Some v \<Rightarrow> mret (Present (VBool v)))))"

text \<open>\<open>str::chars().count()\<close>: the bytes that are not UTF-8 continuation bytes.\<close>

definition char_count :: "bytes \<Rightarrow> nat" where
  "char_count s = length (filter (\<lambda>c. (of_char c :: nat) div 64 \<noteq> 2) s)"

definition value_length :: "value \<Rightarrow> nat metered" where
  "value_length v =
     (case v of
        VText s \<Rightarrow> mbind (charge (length s)) (\<lambda>_. mret (char_count s))
      | VBytes b \<Rightarrow> mret (length b) | VArray vs \<Rightarrow> mret (length vs) | VMap m \<Rightarrow> mret (length m)
      | _ \<Rightarrow> mfail EvOperandType)"

definition function_ref :: "expression \<Rightarrow> (digest \<times> ident) option" where
  "function_ref e = (case e of EFunctionRef library name \<Rightarrow> Some (library, name) | _ \<Rightarrow> None)"

text \<open>The arguments of a library call; \<open>None\<close> is the early return of a pending argument.\<close>

fun call_arguments :: "run_rec \<Rightarrow> nat \<Rightarrow> nat \<Rightarrow> evaluation_argument list \<Rightarrow> expression list \<Rightarrow> evaluation_argument list option metered" where
  "call_arguments rec depth index args [] = mret (Some args)"
| "call_arguments rec depth index args (e # es) =
     mbind (visit 1) (\<lambda>_.
     case function_ref e of
       Some (library, name) \<Rightarrow>
         mbind mget (\<lambda>m.
         mbind (mguard (depth + 1 \<le> max_expression_depth (policy m)) (EvLimit ''expression depth'')) (\<lambda>_.
         mbind (charge (1 + length (as_str name))) (\<lambda>_.
         call_arguments rec depth (index + 1) (args @ [ArgFunction library name]) es)))
     | None \<Rightarrow>
         mbind (rec e (depth + 1) (Some index)) (\<lambda>r.
         if r = Pending then mret None
         else call_arguments rec depth (index + 1) (args @ [ArgValue r]) es))"

definition core_call :: "core_function \<Rightarrow> evaluation_value \<Rightarrow> evaluation_value metered" where
  "core_call core r =
     (if r = Pending then mret Pending
      else if core = CorePresent then mret (Present (VBool (r \<noteq> Absent)))
      else case r of
          Present v \<Rightarrow> mbind (value_length v) (\<lambda>n.
            if n < 2 ^ 63 then mret (Present (VInteger (word_of_nat n))) else mfail (EvLimit ''length''))
        | _ \<Rightarrow> mfail EvAbsentOperand)"

definition eval_call :: "run_rec \<Rightarrow> engines \<Rightarrow> environment \<Rightarrow> expression \<Rightarrow> function_id \<Rightarrow> expression list \<Rightarrow> nat \<Rightarrow> evaluation_value metered" where
  "eval_call rec eng env origin f es depth =
     (case f of
        FCore core \<Rightarrow>
          (case es of [] \<Rightarrow> mlift Panic | e # _ \<Rightarrow> mbind (rec e (depth + 1) (Some 0)) (core_call core))
      | FLibrary library name \<Rightarrow>
          mbind (call_arguments rec depth 0 [] es) (\<lambda>args.
          case args of
            None \<Rightarrow> mret Pending
          | Some vs \<Rightarrow>
              mbind (env_call_at env origin library name vs) (\<lambda>r.
              case r of
                Pending \<Rightarrow> mfail EvOperandType
              | Present v \<Rightarrow> mbind (inspect eng v) (\<lambda>_. mret r)
              | Absent \<Rightarrow> mret r)))"

text \<open>The text of one template argument.\<close>

definition render_text :: "engines \<Rightarrow> vport \<Rightarrow> value \<Rightarrow> bytes metered" where
  "render_text eng p v =
     (case (port_type p, v) of
        (TBuiltin BString, VText s) \<Rightarrow> mret s
      | (TBuiltin BInteger, VInteger n) \<Rightarrow> mret (int_to_string (sint n))
      | (TBuiltin BFloat, VFloat f) \<Rightarrow> mret (format_finite eng (float_get f))
      | (TBuiltin BBoolean, VBool x) \<Rightarrow> mret (if x then ''true'' else ''false'')
      | _ \<Rightarrow> mfail EvOperandType)"

fun render_arguments :: "run_rec \<Rightarrow> engines \<Rightarrow> nat \<Rightarrow> nat \<Rightarrow> (ident \<times> bytes) list \<Rightarrow>
    ((ident \<times> vport) \<times> (ident \<times> expression)) list \<Rightarrow> (ident \<times> bytes) list option metered" where
  "render_arguments rec eng depth index args [] = mret (Some args)"
| "render_arguments rec eng depth index args (((name, p), (_, e)) # ps) =
     mbind (visit 1) (\<lambda>_.
     mbind (rec e (depth + 1) (Some index)) (\<lambda>r.
     case r of
       Present v \<Rightarrow> mbind (render_text eng p v) (\<lambda>t.
         render_arguments rec eng depth (index + 1) ((name, t) # args) ps)
     | Pending \<Rightarrow> mret None
     | Absent \<Rightarrow> mfail EvAbsentOperand))"

definition render_part :: "(ident \<times> bytes) list \<Rightarrow> template_part \<Rightarrow> bytes \<Rightarrow> bytes metered" where
  "render_part args part out =
     mbind (visit 1) (\<lambda>_.
     mbind (case part of PText s \<Rightarrow> mret s
        | PSlot name \<Rightarrow> mlift (ok_or EvTemplateArguments (map_of args name))) (\<lambda>t.
     mbind (add_size ''output bytes'' (length out) (length t)) (\<lambda>size.
     mbind (add_size ''output bytes'' size (ev_header size)) (\<lambda>total.
     mbind (size_check total) (\<lambda>_.
     mbind (charge (length t)) (\<lambda>_. mret (out @ t)))))))"

definition eval_render :: "run_rec \<Rightarrow> engines \<Rightarrow> environment \<Rightarrow> digest \<Rightarrow> (ident \<times> expression) list \<Rightarrow> nat \<Rightarrow> evaluation_value metered" where
  "eval_render rec eng env d es depth =
     mbind (mlift (ok_or EvUnknownTemplate (env_template env d))) (\<lambda>t.
     mbind mget (\<lambda>m.
     mbind (mlift (map_err EvExpression (check_prompt_template t (program_codec m)))) (\<lambda>_.
     let pairs = zip (template_parameters t) es in
     if length (template_parameters t) \<noteq> length es \<or> (\<exists>p \<in> set pairs. fst (fst p) \<noteq> fst (snd p))
     then mfail EvTemplateArguments
     else mbind (render_arguments rec eng depth 0 [] pairs) (\<lambda>args.
       case args of
         None \<Rightarrow> mret Pending
       | Some vs \<Rightarrow> mbind (mfold (render_part vs) (template_parts t) []) (\<lambda>out. mret (Present (VText out)))))))"

definition eval_not :: "run_rec \<Rightarrow> expression \<Rightarrow> nat \<Rightarrow> evaluation_value metered" where
  "eval_not rec e depth =
     operand (rec e (depth + 1) (Some 0)) (\<lambda>v.
     case v of VBool x \<Rightarrow> mret (Present (VBool (\<not> x))) | _ \<Rightarrow> mfail EvOperandType)"

definition run_inner :: "run_rec \<Rightarrow> engines \<Rightarrow> environment \<Rightarrow> expression \<Rightarrow> nat \<Rightarrow> evaluation_value metered" where
  "run_inner rec eng env e depth =
     (case e of
        ELiteral l \<Rightarrow> mbind (literal_value l) (\<lambda>v. mret (Present v))
      | ERef source path \<Rightarrow> env_resolve env source path
      | EGet v path \<Rightarrow> operand (rec v (depth + 1) (Some 0)) (\<lambda>x. env_project env v x path)
      | EList es \<Rightarrow> eval_sequence rec eng es depth
      | ERecord fs \<Rightarrow> eval_record rec eng fs depth
      | EBinary op l r \<Rightarrow> eval_binary rec op l r depth
      | ENot v \<Rightarrow> eval_not rec v depth
      | ECall f es \<Rightarrow> eval_call rec eng env e f es depth
      | EFunctionRef _ _ \<Rightarrow> mfail EvCallableAsValue
      | ERender d es \<Rightarrow> eval_render rec eng env d es depth
      | EStatus node \<Rightarrow> eval_outcome env node False
      | EError node \<Rightarrow> eval_outcome env node True
      | ERegex pattern flags \<Rightarrow> regex_literal eng pattern flags)"

text \<open>The part of \<open>run\<close> around the dispatch: depth check, path, size of the result, the
  environment's result check.\<close>

definition run_around :: "engines \<Rightarrow> environment \<Rightarrow> expression \<Rightarrow> nat \<Rightarrow> nat option \<Rightarrow> evaluation_value metered \<Rightarrow> evaluation_value metered" where
  "run_around eng env e depth child inner m =
     (if depth > max_expression_depth (policy m) then Err (EvLimit ''expression depth'')
      else attempt (charge 1 m) (\<lambda>(_, m1).
        attempt (mbind inner (\<lambda>r.
            mbind (case r of Present v \<Rightarrow> mbind (inspect eng v) size_check | _ \<Rightarrow> mret ()) (\<lambda>_.
            mbind (env_check_result env e r) (\<lambda>_. mret r)))
          (m1\<lparr>meter_path := meter_path m1 @ (case child of None \<Rightarrow> [] | Some i \<Rightarrow> [i]), meter_depth := depth\<rparr>))
          (\<lambda>(r, m2). Ok (r, m2\<lparr>meter_depth := meter_depth m1,
             meter_path := (if child = None then meter_path m2 else butlast (meter_path m2))\<rparr>))))"

lemma operand_cong: "a = b \<Longrightarrow> operand a f = operand b f"
  by simp

lemma sequence_from_cong:
  "(\<And>x d c. x \<in> set es \<Longrightarrow> f x d c = g x d c) \<Longrightarrow>
    sequence_from f eng depth index acc out es = sequence_from g eng depth index acc out es"
  by (induction es arbitrary: index acc out) simp_all

lemma record_from_cong:
  "(\<And>x d c. x \<in> snd ` set fs \<Longrightarrow> f x d c = g x d c) \<Longrightarrow>
    record_from f eng depth index acc out fs = record_from g eng depth index acc out fs"
proof (induction fs arbitrary: index acc out)
  case (Cons p fs)
  have "record_from f eng depth index acc out fs = record_from g eng depth index acc out fs" for index acc out
    using Cons by auto
  moreover have "f (snd p) d c = g (snd p) d c" for d c using Cons.prems by simp
  ultimately show ?case by (cases p) (simp cong: if_cong option.case_cong)
qed simp

lemma call_arguments_cong:
  "(\<And>x d c. x \<in> set es \<Longrightarrow> f x d c = g x d c) \<Longrightarrow>
    call_arguments f depth index args es = call_arguments g depth index args es"
proof (induction es arbitrary: index args)
  case (Cons e es)
  have "call_arguments f depth index args es = call_arguments g depth index args es" for index args
    using Cons by auto
  moreover have "f e d c = g e d c" for d c using Cons.prems by simp
  ultimately show ?case by (simp cong: if_cong option.case_cong)
qed simp

lemma render_arguments_cong:
  "(\<And>x d c. x \<in> (\<lambda>p. snd (snd p)) ` set ps \<Longrightarrow> f x d c = g x d c) \<Longrightarrow>
    render_arguments f eng depth index args ps = render_arguments g eng depth index args ps"
proof (induction ps arbitrary: index args)
  case (Cons p ps)
  have "render_arguments f eng depth index args ps = render_arguments g eng depth index args ps" for index args
    using Cons by auto
  moreover have "f (snd (snd p)) d c = g (snd (snd p)) d c" for d c using Cons.prems by simp
  moreover obtain n q i e where "p = ((n, q), (i, e))" by (metis surj_pair)
  ultimately show ?case by simp
qed simp

lemma run_inner_cong [fundef_cong]:
  assumes "eng = eng'" "env = env'" "e = e'" "depth = depth'"
    and "\<And>x d c. x \<in> set (expression_children e') \<Longrightarrow> f x d c = g x d c"
  shows "run_inner f eng env e depth = run_inner g eng' env' e' depth'"
proof (cases e')
  case (EList es)
  then show ?thesis using assms sequence_from_cong [of es f g] by (simp add: run_inner_def eval_sequence_def)
next
  case (ERecord fs)
  then show ?thesis using assms record_from_cong [of fs f g] by (simp add: run_inner_def eval_record_def)
next
  case (ECall i es)
  then show ?thesis
    using assms call_arguments_cong [of es f g]
    by (auto simp: run_inner_def eval_call_def split: function_id.split list.split)
next
  case (ERender d es)
  have "render_arguments f eng' depth' 0 [] (zip ps es) = render_arguments g eng' depth' 0 [] (zip ps es)" for ps
    using assms(5) by (intro render_arguments_cong) (force simp: ERender dest: set_zip_rightD)
  then show ?thesis using assms by (simp add: run_inner_def eval_render_def ERender cong: if_cong)
next
  case (EGet v path)
  then show ?thesis using assms by (simp add: run_inner_def)
next
  case (ENot v)
  then show ?thesis using assms by (simp add: run_inner_def eval_not_def)
next
  case (EBinary op l r)
  then show ?thesis using assms by (simp add: run_inner_def eval_binary_def cong: if_cong)
qed (use assms in \<open>simp_all add: run_inner_def\<close>)

function run :: "engines \<Rightarrow> environment \<Rightarrow> expression \<Rightarrow> nat \<Rightarrow> nat option \<Rightarrow> evaluation_value metered" where
  "run eng env e depth child = run_around eng env e depth child (run_inner (run eng env) eng env e depth)"
  by pat_completeness auto
termination
  by (relation "measure (\<lambda>(eng, env, e, depth, child). size e)") (auto simp: size_children)

declare run.simps [simp del]

record evaluation_result =
  result_value :: evaluation_value
  result_usage :: evaluation_usage

definition evaluate ::
  "engines \<Rightarrow> environment \<Rightarrow> expression \<Rightarrow> expression_context \<Rightarrow> limits \<Rightarrow> evaluator_limits \<Rightarrow>
    (evaluation_error, evaluation_result) result" where
  "evaluate eng env e context lim p =
     attempt (meter_new p lim) (\<lambda>m.
     attempt (map_err (\<lambda>d. EvExpression (diagnostic_error d)) (check_expression_context (binary16 eng) e context lim)) (\<lambda>_.
     attempt (run eng env e 1 None m) (\<lambda>(v, m').
     Ok \<lparr>result_value = v, result_usage = usage m'\<rparr>)))"

definition evaluate_admitted ::
  "engines \<Rightarrow> environment \<Rightarrow> expression \<Rightarrow> limits \<Rightarrow> evaluator_limits \<Rightarrow> (evaluation_error, evaluation_result) result" where
  "evaluate_admitted eng env e lim p =
     attempt (meter_new p lim) (\<lambda>m.
     attempt (run eng env e 1 None m) (\<lambda>(v, m').
     Ok \<lparr>result_value = v, result_usage = usage m'\<rparr>))"

datatype condition_value = CondReady bool | CondPending

definition evaluate_condition ::
  "engines \<Rightarrow> environment \<Rightarrow> expression \<Rightarrow> expression_context \<Rightarrow> limits \<Rightarrow> evaluator_limits \<Rightarrow>
    (evaluation_error, condition_value \<times> evaluation_usage) result" where
  "evaluate_condition eng env e context lim p =
     attempt (evaluate eng env e context lim p) (\<lambda>r.
     attempt (case result_value r of
         Present (VBool v) \<Rightarrow> Ok (CondReady v)
       | Pending \<Rightarrow> Ok CondPending
       | Absent \<Rightarrow> Err EvAbsentOperand
       | _ \<Rightarrow> Err EvOperandType) (\<lambda>c. Ok (c, result_usage r)))"

section \<open>The concrete frame\<close>

text \<open>\<open>EvaluationFrame\<close>: its \<open>BTreeMap\<close>s are association lists with distinct keys.\<close>

record evaluation_frame =
  frame_values :: "(value_reference \<times> (path_step list \<times> (evaluation_error, evaluation_value) result) list) list"
  frame_outcomes :: "(ident \<times> evaluation_outcome) list"
  frame_templates :: "(digest \<times> prompt_template) list"

definition empty_frame :: evaluation_frame where
  "empty_frame = \<lparr>frame_values = [], frame_outcomes = [], frame_templates = []\<rparr>"

definition frame_bind ::
  "engines \<Rightarrow> evaluation_frame \<Rightarrow> value_reference \<Rightarrow> path_step list \<Rightarrow> (evaluation_error, evaluation_value) result \<Rightarrow>
    limits \<Rightarrow> (evaluation_error, evaluation_frame) result" where
  "frame_bind eng fr vref path v lim =
     attempt (map_err EvExpression (expression_new (binary16 eng) (ERef vref path) lim)) (\<lambda>e.
     case e of
       ERef source path' \<Rightarrow>
         attempt (case v of Ok (Present x) \<Rightarrow> attempt (map_err EvCodec (encode (backend eng) lim x)) (\<lambda>_. Ok ())
           | _ \<Rightarrow> Ok ()) (\<lambda>_.
         let bindings = (case map_of (frame_values fr) source of None \<Rightarrow> [] | Some bs \<Rightarrow> bs) in
         Ok (fr\<lparr>frame_values := AList.update source (AList.update path' v bindings) (frame_values fr)\<rparr>))
     | _ \<Rightarrow> Err EvInvalidProjection)"

definition frame_set_outcome ::
  "evaluation_frame \<Rightarrow> ident \<Rightarrow> evaluation_outcome \<Rightarrow> limits \<Rightarrow> (evaluation_error, evaluation_frame) result" where
  "frame_set_outcome fr node out lim =
     attempt (case out of
         OutFailed code message \<Rightarrow>
           attempt (map_err EvCodec (acc_new lim)) (\<lambda>n0.
           attempt (map_err (\<lambda>_. EvLimit ''outcome metadata'') (acc_collection lim 2 0 n0)) (\<lambda>n1.
           attempt (fold_result (\<lambda>t n. map_err (\<lambda>_. EvLimit ''outcome metadata'') (acc_text lim t 1 n))
             [''code'', code, ''message'', message] n1) (\<lambda>_. Ok ())))
       | _ \<Rightarrow> Ok ()) (\<lambda>_.
     Ok (fr\<lparr>frame_outcomes := AList.update node out (frame_outcomes fr)\<rparr>))"

definition frame_insert_template ::
  "(bytes \<Rightarrow> bytes) \<Rightarrow> engines \<Rightarrow> evaluation_frame \<Rightarrow> prompt_template \<Rightarrow> limits \<Rightarrow>
    (evaluation_error, digest \<times> evaluation_frame) result" where
  "frame_insert_template sha eng fr t lim =
     attempt (map_err EvExpression (template_digest sha (backend eng) lim t)) (\<lambda>d.
     attempt (map_err EvExpression (check_prompt_template t lim)) (\<lambda>_.
     Ok (d, fr\<lparr>frame_templates := AList.update d t (frame_templates fr)\<rparr>)))"

definition reference_size :: "value_reference \<Rightarrow> nat" where
  "reference_size r =
     (case r of ROutput node p \<Rightarrow> length (as_str node) + length (as_str p)
      | RInput n \<Rightarrow> length (as_str n) | RScopeOutput n \<Rightarrow> length (as_str n)
      | RCarried n \<Rightarrow> length (as_str n) | RNext n \<Rightarrow> length (as_str n))"

definition step_size :: "path_step \<Rightarrow> nat" where
  "step_size step = (case step of PField s \<Rightarrow> length s | PIndex _ \<Rightarrow> 8)"

definition frame_resolve :: "engines \<Rightarrow> evaluation_frame \<Rightarrow> value_reference \<Rightarrow> path_step list \<Rightarrow> evaluation_value metered" where
  "frame_resolve eng fr vref path =
     mbind (visit 1) (\<lambda>_.
     mbind (charge (saturating_mul (reference_size vref) (levels (length (frame_values fr))))) (\<lambda>_.
     mbind (mlift (ok_or EvUnknownReference (map_of (frame_values fr) vref))) (\<lambda>bindings.
     mbind (mfold (\<lambda>step _. charge (saturating_mul (step_size step) (levels (length bindings)))) path ()) (\<lambda>_.
     case map_of bindings path of
       Some state \<Rightarrow> mbind (mlift state) (copy_state eng)
     | None \<Rightarrow>
         mbind (mlift (ok_or EvUnknownReference (map_of bindings []))) (\<lambda>root.
         mbind (mlift root) (\<lambda>state.
         case state of
           Present v \<Rightarrow> mbind (inspect eng v) (\<lambda>_. project eng v path None)
         | Pending \<Rightarrow> mret Pending
         | Absent \<Rightarrow> mfail EvAbsentOperand))))))"

definition frame_environment :: "engines \<Rightarrow> evaluation_frame \<Rightarrow> environment" where
  "frame_environment eng fr =
     \<lparr>env_check_result = (\<lambda>_ _. mret ()),
      env_resolve = frame_resolve eng fr,
      env_outcome = map_of (frame_outcomes fr),
      env_template = map_of (frame_templates fr),
      env_call_at = (\<lambda>_ _ _ _. mfail EvUnknownFunction),
      env_project = (\<lambda>origin v path. project eng v path (Some origin))\<rparr>"

end
