(* ===== verification/Evaluator_Semantics.thy ===== *)
theory Evaluator_Semantics
  imports Evaluator
begin

text \<open>
  The specification of the evaluator and its proof. \<open>denote\<close> is the meaning of an
  expression without meter, limits or depth; \<open>yields\<close> says that a metered operation returns
  nothing but a given result and \<open>frugal\<close> that it respects the meter. The locale
  \<open>evaluation_interface\<close> states what an evaluation context owes; the concrete frame is an
  instance.
\<close>

section \<open>Meaning without a meter\<close>

record semantics =
  sem_resolve :: "value_reference \<Rightarrow> path_step list \<Rightarrow> evaluation_value option"
  sem_outcome :: "ident \<Rightarrow> evaluation_outcome option"
  sem_template :: "digest \<Rightarrow> prompt_template option"
  sem_call :: "expression \<Rightarrow> digest \<Rightarrow> ident \<Rightarrow> evaluation_argument list \<Rightarrow> evaluation_value option"
  sem_project :: "expression \<Rightarrow> value \<Rightarrow> path_step list \<Rightarrow> evaluation_value option"

fun literal_meaning :: "scalar_literal \<Rightarrow> value" where
  "literal_meaning (LString s) = VText s"
| "literal_meaning (LBytes b) = VBytes b"
| "literal_meaning (LInteger n) = VInteger n"
| "literal_meaning (LFloat f) = VFloat f"
| "literal_meaning (LBoolean v) = VBool v"
| "literal_meaning LNull = VNull"

definition map_meaning :: "(bytes \<times> value) list \<Rightarrow> evaluation_value option" where
  "map_meaning es = (case map_try_from_entries es of Ok m \<Rightarrow> Some (Present (VMap m)) | _ \<Rightarrow> None)"

definition outcome_meaning :: "evaluation_outcome \<Rightarrow> bool \<Rightarrow> evaluation_value option" where
  "outcome_meaning out error =
     (case out of
        OutPending \<Rightarrow> Some Pending
      | OutFailed code message \<Rightarrow>
          if error then map_meaning [(''code'', VText code), (''message'', VText message)]
          else Some (Present (VText ''failed''))
      | OutSucceeded \<Rightarrow> Some (Present (if error then VNull else VText ''succeeded''))
      | OutSkipped \<Rightarrow> Some (Present (if error then VNull else VText ''skipped''))
      | OutCancelled \<Rightarrow> Some (Present (if error then VNull else VText ''cancelled'')))"

text \<open>An operand must be present; a pending one suspends the whole expression.\<close>

fun strict :: "(value \<Rightarrow> evaluation_value option) \<Rightarrow> evaluation_value option \<Rightarrow> evaluation_value option" where
  "strict f (Some (Present v)) = f v"
| "strict f (Some Pending) = Some Pending"
| "strict f _ = None"

fun list_meaning :: "value list \<Rightarrow> evaluation_value option list \<Rightarrow> evaluation_value option" where
  "list_meaning vs [] = Some (Present (VArray vs))"
| "list_meaning vs (r # rs) = strict (\<lambda>v. list_meaning (vs @ [v]) rs) r"

fun record_meaning :: "(bytes \<times> value) list \<Rightarrow> (bytes \<times> evaluation_value option) list \<Rightarrow> evaluation_value option" where
  "record_meaning es [] = map_meaning es"
| "record_meaning es ((key, Some (Present v)) # rs) = record_meaning (es @ [(key, v)]) rs"
| "record_meaning es ((key, Some Absent) # rs) = record_meaning es rs"
| "record_meaning es ((key, Some Pending) # rs) = Some Pending"
| "record_meaning es ((key, None) # rs) = None"

text \<open>The comparison operators as relations on values.\<close>

definition comparable :: "binary_operator \<Rightarrow> value \<Rightarrow> value \<Rightarrow> ordering option option" where
  "comparable op l r =
     (let equal_op = (op = OpEq \<or> op = OpNe) in
      if l = VNull \<and> r = VNull \<and> equal_op then Some (Some Equal)
      else if (l = VNull \<or> r = VNull) \<and> equal_op then Some None
      else case (l, r) of
          (VText a, VText b) \<Rightarrow> Some (Some (cmp a b))
        | (VInteger a, VInteger b) \<Rightarrow> Some (Some (cmp (sint a) (sint b)))
        | (VFloat a, VFloat b) \<Rightarrow> Some (f64_partial_cmp (float_get a) (float_get b))
        | (VBool a, VBool b) \<Rightarrow> if op \<in> {OpAnd, OpOr, OpEq, OpNe} then Some (Some (cmp a b)) else None
        | _ \<Rightarrow> None)"

definition binary_meaning :: "binary_operator \<Rightarrow> evaluation_value option \<Rightarrow> evaluation_value option \<Rightarrow> evaluation_value option" where
  "binary_meaning op left right =
     strict (\<lambda>l.
       if (op = OpAnd \<or> op = OpOr) \<and> (\<forall>v. l \<noteq> VBool v) then None
       else if (op = OpAnd \<and> l = VBool False) \<or> (op = OpOr \<and> l = VBool True) then Some (Present l)
       else strict (\<lambda>r.
         case comparable op l r of
           None \<Rightarrow> None
         | Some order \<Rightarrow> map_option (\<lambda>v. Present (VBool v)) (order_result op order r)) right) left"

definition length_meaning :: "value \<Rightarrow> nat option" where
  "length_meaning v =
     (case v of VText s \<Rightarrow> Some (char_count s) | VBytes b \<Rightarrow> Some (length b)
      | VArray vs \<Rightarrow> Some (length vs) | VMap m \<Rightarrow> Some (length m) | _ \<Rightarrow> None)"

definition core_meaning :: "core_function \<Rightarrow> evaluation_value \<Rightarrow> evaluation_value option" where
  "core_meaning core r =
     (case (core, r) of
        (_, Pending) \<Rightarrow> Some Pending
      | (CorePresent, _) \<Rightarrow> Some (Present (VBool (r \<noteq> Absent)))
      | (CoreLength, Present v) \<Rightarrow>
          (case length_meaning v of
             Some n \<Rightarrow> if n < 2 ^ 63 then Some (Present (VInteger (word_of_nat n))) else None
           | None \<Rightarrow> None)
      | (CoreLength, Absent) \<Rightarrow> None)"

text \<open>Arguments left to right; \<open>Some None\<close> when one of them is pending.\<close>

fun argument_meaning :: "evaluation_argument list \<Rightarrow> evaluation_argument option list \<Rightarrow> evaluation_argument list option option" where
  "argument_meaning args [] = Some (Some args)"
| "argument_meaning args (r # rs) =
     (case r of None \<Rightarrow> None | Some (ArgValue Pending) \<Rightarrow> Some None | Some a \<Rightarrow> argument_meaning (args @ [a]) rs)"

definition text_meaning :: "engines \<Rightarrow> vport \<Rightarrow> value \<Rightarrow> bytes option" where
  "text_meaning eng p v =
     (case (port_type p, v) of
        (TBuiltin BString, VText s) \<Rightarrow> Some s
      | (TBuiltin BInteger, VInteger n) \<Rightarrow> Some (int_to_string (sint n))
      | (TBuiltin BFloat, VFloat f) \<Rightarrow> Some (format_finite eng (float_get f))
      | (TBuiltin BBoolean, VBool x) \<Rightarrow> Some (if x then ''true'' else ''false'')
      | _ \<Rightarrow> None)"

fun arguments_text :: "engines \<Rightarrow> (ident \<times> bytes) list \<Rightarrow> ((ident \<times> vport) \<times> evaluation_value option) list \<Rightarrow>
    (ident \<times> bytes) list option option" where
  "arguments_text eng args [] = Some (Some args)"
| "arguments_text eng args (((name, p), r) # rs) =
     (case r of
        Some (Present v) \<Rightarrow>
          (case text_meaning eng p v of None \<Rightarrow> None | Some t \<Rightarrow> arguments_text eng ((name, t) # args) rs)
      | Some Pending \<Rightarrow> Some None
      | _ \<Rightarrow> None)"

text \<open>A rendered template: its texts and the argument texts of its slots, in order.\<close>

fun rendered :: "(ident \<Rightarrow> bytes option) \<Rightarrow> template_part list \<Rightarrow> bytes option" where
  "rendered args [] = Some []"
| "rendered args (PText s # parts) = map_option (\<lambda>t. s @ t) (rendered args parts)"
| "rendered args (PSlot name # parts) =
     (case args name of None \<Rightarrow> None | Some s \<Rightarrow> map_option (\<lambda>t. s @ t) (rendered args parts))"

definition render_meaning :: "engines \<Rightarrow> prompt_template option \<Rightarrow> (ident \<times> evaluation_value option) list \<Rightarrow> evaluation_value option" where
  "render_meaning eng template rs =
     (case template of
        None \<Rightarrow> None
      | Some t \<Rightarrow>
          if map fst (template_parameters t) \<noteq> map fst rs then None
          else (case arguments_text eng [] (zip (template_parameters t) (map snd rs)) of
              None \<Rightarrow> None
            | Some None \<Rightarrow> Some Pending
            | Some (Some vs) \<Rightarrow> map_option (\<lambda>s. Present (VText s)) (rendered (map_of vs) (template_parts t))))"

function (sequential) denote :: "engines \<Rightarrow> semantics \<Rightarrow> expression \<Rightarrow> evaluation_value option" where
  "denote eng S (ELiteral l) = Some (Present (literal_meaning l))"
| "denote eng S (ERegex pattern flags) =
     (if flags \<in> set regex_flag_texts then map_meaning [(''pattern'', VText pattern), (''flags'', VText flags)] else None)"
| "denote eng S (ERef r path) = sem_resolve S r path"
| "denote eng S (EGet e path) = strict (\<lambda>v. sem_project S e v path) (denote eng S e)"
| "denote eng S (EList es) = list_meaning [] (map (denote eng S) es)"
| "denote eng S (ERecord fs) = record_meaning [] (map (\<lambda>(key, e). (key, denote eng S e)) fs)"
| "denote eng S (ECall (FCore core) es) =
     (case es of [] \<Rightarrow> None | e # _ \<Rightarrow> Option.bind (denote eng S e) (core_meaning core))"
| "denote eng S (ECall (FLibrary l i) es) =
     (case argument_meaning [] (map (\<lambda>e. case function_ref e of
          Some (l, n) \<Rightarrow> Some (ArgFunction l n) | None \<Rightarrow> map_option ArgValue (denote eng S e)) es) of
        None \<Rightarrow> None
      | Some None \<Rightarrow> Some Pending
      | Some (Some args) \<Rightarrow>
          Option.bind (sem_call S (ECall (FLibrary l i) es) l i args) (\<lambda>r. if r = Pending then None else Some r))"
| "denote eng S (EFunctionRef l i) = None"
| "denote eng S (ERender d es) = render_meaning eng (sem_template S d) (map (\<lambda>(i, e). (i, denote eng S e)) es)"
| "denote eng S (EStatus i) = Option.bind (sem_outcome S i) (\<lambda>out. outcome_meaning out False)"
| "denote eng S (EError i) = Option.bind (sem_outcome S i) (\<lambda>out. outcome_meaning out True)"
| "denote eng S (ENot e) = strict (\<lambda>v. case v of VBool x \<Rightarrow> Some (Present (VBool (\<not> x))) | _ \<Rightarrow> None) (denote eng S e)"
| "denote eng S (EBinary op l r) = binary_meaning op (denote eng S l) (denote eng S r)"
  by pat_completeness auto
termination
  by (relation "measure (\<lambda>(eng, S, e). size e)")
    (auto simp: less_Suc_eq_le size_list_estimation' dest: size_snd_list)

section \<open>Metered operations that yield one result\<close>

definition yields :: "'a metered \<Rightarrow> 'a option \<Rightarrow> bool" where
  "yields f r \<longleftrightarrow> (\<forall>m x m'. f m = Ok (x, m') \<longrightarrow> r = Some x)"

lemma yieldsD: "yields f r \<Longrightarrow> f m = Ok (x, m') \<Longrightarrow> r = Some x"
  unfolding yields_def by blast

lemma yields_mret [simp]: "yields (mret x) r \<longleftrightarrow> r = Some x"
  by (auto simp: yields_def mret_def)

lemma yields_mfail [simp]: "yields (mfail e) r"
  by (simp add: yields_def mfail_def)

lemma yields_bind:
  "yields a ra \<Longrightarrow> (\<And>x. ra = Some x \<Longrightarrow> yields (f x) r) \<Longrightarrow> yields (mbind a f) r"
  by (fastforce simp: yields_def mbind_def split: prod.splits)

lemma yields_skip: "(\<And>x. yields (f x) r) \<Longrightarrow> yields (mbind a f) r"
  by (fastforce simp: yields_def mbind_def split: prod.splits)

lemma yields_mlift_bind: "(\<And>x. q = Ok x \<Longrightarrow> yields (f x) r) \<Longrightarrow> yields (mbind (mlift q) f) r"
  by (fastforce simp: yields_def mbind_def mlift_def split: prod.splits)

lemma yields_mguard_bind: "(P \<Longrightarrow> yields (f ()) r) \<Longrightarrow> yields (mbind (mguard P e) f) r"
  by (fastforce simp: yields_def mbind_def mguard_def mret_def mfail_def split: if_splits)

lemma yields_copy_bind: "yields (f v) r \<Longrightarrow> yields (mbind (copy_value eng v) f) r"
  by (fastforce simp: yields_def copy_value_def mbind_def mret_def split: prod.splits)

lemma yields_text_bind: "yields (f s) r \<Longrightarrow> yields (mbind (meter_text s) f) r"
  by (fastforce simp: yields_def meter_text_def mbind_def mret_def split: prod.splits)

lemma yields_operand:
  "yields a ra \<Longrightarrow> (\<And>v. yields (f v) (g v)) \<Longrightarrow> yields (operand a f) (strict g ra)"
  unfolding operand_def by (rule yields_bind, assumption) (auto split: evaluation_value.splits)

lemma yields_map_of_entries: "yields (mbind (map_of_entries es) (\<lambda>v. mret (Present v))) (map_meaning es)"
  by (auto simp: yields_def mbind_def map_of_entries_def mlift_def mret_def map_meaning_def split: prod.splits)

lemma yields_literal: "yields (mbind (literal_value l) (\<lambda>v. mret (Present v))) (Some (Present (literal_meaning l)))"
  by (cases l) (auto simp: yields_def mbind_def literal_value_def mret_def meter_text_def split: prod.splits)

lemma yields_regex:
  "yields (regex_literal eng p fl) (if fl \<in> set regex_flag_texts then map_meaning [(''pattern'', VText p), (''flags'', VText fl)] else None)"
proof (cases "fl \<in> set regex_flag_texts")
  case True
  have "yields (mbind (map_of_entries es) (\<lambda>v. mbind (inspect eng v) (\<lambda>_. mret (Present v)))) (map_meaning es)" for es
    by (fastforce simp: yields_def mbind_def map_of_entries_def mlift_def mret_def map_meaning_def split: prod.splits)
  then show ?thesis using True by (auto simp: regex_literal_def intro!: yields_skip [of _ _ "size_check _"] yields_skip [of _ _ "compile_regex_for_match _ _ _"] yields_text_bind)
next
  case False
  then have "compile_regex_for_match eng p fl m \<noteq> Ok x" for m x
    by (auto simp: compile_regex_for_match_def mbind_def mguard_def mfail_def mget_def)
  then show ?thesis using False by (auto simp: yields_def regex_literal_def mbind_def)
qed

lemma yields_outcome:
  "env_outcome env node = o' \<Longrightarrow> yields (eval_outcome env node error) (Option.bind o' (\<lambda>out. outcome_meaning out error))"
  by (auto simp: eval_outcome_def outcome_meaning_def split: option.splits evaluation_outcome.splits
      intro!: yields_skip [of _ _ "size_check _"] yields_text_bind yields_map_of_entries)

lemma yields_sequence:
  assumes "\<And>e d c. e \<in> set es \<Longrightarrow> yields (f e d c) (den e)"
  shows "yields (sequence_from f eng depth index acc out es) (list_meaning out (map den es))"
  using assms
proof (induction es arbitrary: index acc out)
  case (Cons e es)
  show ?case
    by (auto intro!: yields_skip [of _ _ "visit _"] yields_operand yields_skip [of _ _ "inspect _ _"]
        yields_skip [of _ _ "add_size _ _ _"] yields_skip [of _ _ "size_check _"] Cons)
qed simp

lemma yields_record:
  assumes "\<And>e d c. e \<in> snd ` set fs \<Longrightarrow> yields (f e d c) (den e)"
  shows "yields (record_from f eng depth index acc out fs) (record_meaning out (map (\<lambda>(k, e). (k, den e)) fs))"
  using assms
proof (induction fs arbitrary: index acc out)
  case Nil
  show ?case by (simp add: yields_map_of_entries)
next
  case (Cons p fs)
  obtain k e where p: "p = (k, e)" by (cases p)
  have e: "yields (f e d c) (den e)" for d c using Cons.prems p by simp
  have IH: "yields (record_from f eng depth index acc out fs) (record_meaning out (map (\<lambda>(k, e). (k, den e)) fs))" for index acc out
    using Cons by simp
  show ?case
    unfolding p record_from.simps
    by (rule yields_skip, rule yields_bind [OF e])
      (auto split: evaluation_value.splits intro!: IH yields_skip [of _ _ "inspect _ _"]
        yields_skip [of _ _ "add_size _ _ _"] yields_skip [of _ _ "size_check _"] yields_text_bind)
qed

lemma yields_compare_bind:
  "(\<And>order. comparable op l r = Some order \<Longrightarrow> yields (f order) q) \<Longrightarrow> yields (mbind (compare_values op l r) f) q"
  unfolding yields_def
proof (intro allI impI)
  fix m x m'
  assume f: "\<And>order. comparable op l r = Some order \<Longrightarrow> \<forall>m x m'. f order m = Ok (x, m') \<longrightarrow> q = Some x"
    and "mbind (compare_values op l r) f m = Ok (x, m')"
  then obtain order m1 where c: "compare_values op l r m = Ok (order, m1)" and o: "f order m1 = Ok (x, m')"
    by (auto simp: mbind_def)
  have "comparable op l r = Some order"
    using c by (auto simp: compare_values_def comparable_def Let_def mbind_def mret_def mfail_def
        split: if_splits value_splits)
  then show "q = Some x" using f o by blast
qed

lemma yields_binary:
  assumes "\<And>d c. yields (f l d c) (den l)" "\<And>d c. yields (f r d c) (den r)"
  shows "yields (eval_binary f op l r depth) (binary_meaning op (den l) (den r))"
  unfolding eval_binary_def binary_meaning_def
  by (rule yields_operand [OF assms(1)])
    (auto intro!: yields_operand assms(2) yields_compare_bind split: option.splits)

lemma yields_not:
  assumes "\<And>d c. yields (f e d c) (den e)"
  shows "yields (eval_not f e depth) (strict (\<lambda>v. case v of VBool x \<Rightarrow> Some (Present (VBool (\<not> x))) | _ \<Rightarrow> None) (den e))"
  unfolding eval_not_def by (rule yields_operand [OF assms]) (auto split: value_splits)

lemma yields_value_length: "yields (value_length v) (length_meaning v)"
  by (auto simp: value_length_def length_meaning_def split: value_splits intro!: yields_skip)

lemma yields_core: "yields (core_call core r) (core_meaning core r)"
  unfolding core_call_def core_meaning_def
  by (cases r; cases core) (auto intro!: yields_bind [OF yields_value_length] split: option.splits)

lemma yields_arguments:
  assumes "\<And>e d c. e \<in> set es \<Longrightarrow> yields (f e d c) (den e)"
  shows "yields (call_arguments f depth index args es) (argument_meaning args (map (\<lambda>e. case function_ref e of
          Some (l, n) \<Rightarrow> Some (ArgFunction l n) | None \<Rightarrow> map_option ArgValue (den e)) es))"
  using assms
proof (induction es arbitrary: index args)
  case (Cons e es)
  have e: "yields (f e d c) (den e)" for d c using Cons.prems by simp
  have IH: "yields (call_arguments f depth index args es) (argument_meaning args (map (\<lambda>e. case function_ref e of
          Some (l, n) \<Rightarrow> Some (ArgFunction l n) | None \<Rightarrow> map_option ArgValue (den e)) es))" for index args
    using Cons by simp
  show ?case
  proof (cases "function_ref e")
    case None
    show ?thesis
      unfolding call_arguments.simps list.map argument_meaning.simps None option.case
      by (rule yields_skip, rule yields_bind [OF e]) (auto intro!: IH split: evaluation_value.splits)
  next
    case (Some ln)
    then show ?thesis
      by (cases ln) (auto intro!: IH yields_skip)
  qed
qed simp

lemma yields_render_text: "yields (render_text eng p v) (text_meaning eng p v)"
  by (auto simp: render_text_def text_meaning_def split: value_type.splits builtin_type.splits value_splits)

lemma yields_render_arguments:
  assumes "\<And>e d c. e \<in> (\<lambda>p. snd (snd p)) ` set ps \<Longrightarrow> yields (f e d c) (den e)"
  shows "yields (render_arguments f eng depth index args ps)
    (arguments_text eng args (map (\<lambda>(q, i, e). (q, den e)) ps))"
  using assms
proof (induction ps arbitrary: index args)
  case (Cons p ps)
  obtain n q i e where p: "p = ((n, q), (i, e))" by (metis surj_pair)
  have e: "yields (f e d c) (den e)" for d c using Cons.prems p by simp
  have IH: "yields (render_arguments f eng depth index args ps) (arguments_text eng args (map (\<lambda>(q, i, e). (q, den e)) ps))" for index args
    using Cons by simp
  show ?case
    unfolding p render_arguments.simps
    by (rule yields_skip, rule yields_bind [OF e])
      (auto split: evaluation_value.splits intro!: yields_bind [OF yields_render_text] IH)
qed simp

lemma yields_render_parts:
  "yields (mfold (render_part vs) parts out) (map_option (\<lambda>t. out @ t) (rendered (map_of vs) parts))"
proof (induction parts arbitrary: out)
  case (Cons part parts)
  have part: "yields (render_part vs part out)
      (map_option (\<lambda>t. out @ t) (case part of PText s \<Rightarrow> Some s | PSlot name \<Rightarrow> map_of vs name))"
    unfolding render_part_def
    by (cases part) (auto intro!: yields_skip [of _ _ "visit _"] yields_skip [of _ _ "add_size _ _ _"]
        yields_skip [of _ _ "size_check _"] yields_skip [of _ _ "charge _"] yields_mlift_bind
        yields_bind [of "mret _" "Some _"])
  show ?case
    unfolding mfold.simps
  proof (rule yields_bind [OF part])
    fix out'
    assume o: "map_option (\<lambda>t. out @ t) (case part of PText s \<Rightarrow> Some s | PSlot name \<Rightarrow> map_of vs name) = Some out'"
    have "map_option (\<lambda>t. out' @ t) (rendered (map_of vs) parts) = map_option (\<lambda>t. out @ t) (rendered (map_of vs) (part # parts))"
      using o by (cases part) (auto simp: option.map_comp comp_def)
    then show "yields (mfold (render_part vs) parts out') (map_option (\<lambda>t. out @ t) (rendered (map_of vs) (part # parts)))"
      using Cons [of out'] by simp
  qed
qed simp

section \<open>Metered operations that respect the meter\<close>

definition meter_after :: "meter \<Rightarrow> meter \<Rightarrow> bool" where
  "meter_after m m' \<longleftrightarrow>
     policy m' = policy m \<and> codec m' = codec m \<and> program_codec m' = program_codec m \<and>
     meter_depth m' = meter_depth m \<and> native_depth m' = native_depth m \<and> meter_path m' = meter_path m \<and>
     steps (usage m) \<le> steps (usage m') \<and> collection_visits (usage m) \<le> collection_visits (usage m') \<and>
     value_bytes (usage m) \<le> value_bytes (usage m') \<and>
     steps (usage m) + collection_visits (usage m') + value_bytes (usage m') \<le>
       steps (usage m') + collection_visits (usage m) + value_bytes (usage m) \<and>
     (steps (usage m) \<le> max_steps (policy m) \<longrightarrow> steps (usage m') \<le> max_steps (policy m)) \<and>
     (collection_visits (usage m) \<le> max_collection_visits (policy m) \<longrightarrow>
       collection_visits (usage m') \<le> max_collection_visits (policy m))"

lemma meter_after_refl [simp]: "meter_after m m"
  by (simp add: meter_after_def)

lemma meter_after_trans: "meter_after m m1 \<Longrightarrow> meter_after m1 m2 \<Longrightarrow> meter_after m m2"
  unfolding meter_after_def by (elim conjE, intro conjI) (simp | erule (1) order_trans | linarith)+

definition frugal :: "'a metered \<Rightarrow> bool" where
  "frugal f \<longleftrightarrow> (\<forall>m x m'. f m = Ok (x, m') \<longrightarrow> meter_after m m')"

lemma frugalD: "frugal f \<Longrightarrow> f m = Ok (x, m') \<Longrightarrow> meter_after m m'"
  unfolding frugal_def by blast

named_theorems frugal_intros \<open>metered operations that respect the meter\<close>

lemma frugal_mret [simp, frugal_intros]: "frugal (mret x)"
  by (simp add: frugal_def mret_def)

lemma frugal_mfail [simp, frugal_intros]: "frugal (mfail e)"
  by (simp add: frugal_def mfail_def)

lemma frugal_mlift [simp, frugal_intros]: "frugal (mlift q)"
  by (auto simp: frugal_def mlift_def)

lemma frugal_mget [simp, frugal_intros]: "frugal mget"
  by (simp add: frugal_def mget_def)

lemma frugal_mguard [simp, frugal_intros]: "frugal (mguard P e)"
  by (simp add: mguard_def)

lemma frugal_mbind [frugal_intros]: "frugal a \<Longrightarrow> (\<And>x. frugal (f x)) \<Longrightarrow> frugal (mbind a f)"
  unfolding frugal_def mbind_def by (fastforce intro: meter_after_trans)

lemma frugal_charge [simp, frugal_intros]: "frugal (charge n)"
  by (auto simp: frugal_def charge_def meter_after_def split: if_splits)

lemma frugal_visit [simp, frugal_intros]: "frugal (visit n)"
  by (auto simp: frugal_def visit_def charge_def meter_after_def split: if_splits)

lemma frugal_inspect [simp, frugal_intros]: "frugal (inspect eng v)"
  by (auto simp: frugal_def inspect_def charge_def meter_after_def split: if_splits)

lemma frugal_size_check [simp, frugal_intros]: "frugal (size_check n)"
  by (auto simp: frugal_def size_check_def split: if_splits)

lemma frugal_copy_value [simp, frugal_intros]: "frugal (copy_value eng v)"
  unfolding copy_value_def by (intro frugal_intros)

lemma frugal_meter_text [simp, frugal_intros]: "frugal (meter_text s)"
  unfolding meter_text_def by (intro frugal_intros)

lemma frugal_add_size [simp, frugal_intros]: "frugal (add_size site a b)"
  unfolding add_size_def by (intro frugal_intros)

lemma frugal_map_of_entries [simp, frugal_intros]: "frugal (map_of_entries es)"
  unfolding map_of_entries_def by (intro frugal_intros)

lemma frugal_mfold [frugal_intros]: "(\<And>x s. frugal (f x s)) \<Longrightarrow> frugal (mfold f xs s)"
  by (induction xs arbitrary: s) (auto intro!: frugal_mbind)

lemma frugal_operand [frugal_intros]: "frugal a \<Longrightarrow> (\<And>v. frugal (f v)) \<Longrightarrow> frugal (operand a f)"
  unfolding operand_def by (auto intro!: frugal_mbind split: evaluation_value.splits)

lemma frugal_literal [simp, frugal_intros]: "frugal (literal_value l)"
  by (cases l) (auto simp: literal_value_def intro!: frugal_mbind)

lemma frugal_regex [simp, frugal_intros]: "frugal (regex_literal eng p fl)"
  unfolding regex_literal_def compile_regex_for_match_def by (intro frugal_intros)

lemma frugal_outcome [simp, frugal_intros]: "frugal (eval_outcome env node error)"
  by (auto simp: eval_outcome_def intro!: frugal_mbind split: option.splits evaluation_outcome.splits)

lemma frugal_compare [simp, frugal_intros]: "frugal (compare_values op l r)"
  by (auto simp: compare_values_def Let_def intro!: frugal_mbind split: value_splits)

lemma frugal_value_length [simp, frugal_intros]: "frugal (value_length v)"
  by (cases v) (auto simp: value_length_def intro!: frugal_mbind)

lemma frugal_core [simp, frugal_intros]: "frugal (core_call core r)"
  by (auto simp: core_call_def intro!: frugal_mbind split: evaluation_value.splits)

lemma frugal_render_text [simp, frugal_intros]: "frugal (render_text eng p v)"
  by (auto simp: render_text_def split: value_type.splits builtin_type.splits value_splits)

lemma frugal_render_part [simp, frugal_intros]: "frugal (render_part vs part out)"
  unfolding render_part_def by (intro frugal_intros) (cases part; simp)

lemma frugal_project [simp, frugal_intros]: "frugal (project eng v path origin)"
  unfolding project_def
proof (induction path arbitrary: v origin)
  case (Cons step path)
  have d: "frugal (declared_step origin step)"
    by (auto simp: declared_step_def intro!: frugal_mbind split: option.splits expression.splits path_step.splits)
  show ?case
    by (auto intro!: frugal_mbind d Cons split: value_splits path_step.splits option.splits)
qed (auto intro!: frugal_mbind)

lemma frugal_sequence:
  "(\<And>e d c. e \<in> set es \<Longrightarrow> frugal (f e d c)) \<Longrightarrow> frugal (sequence_from f eng depth index acc out es)"
  by (induction es arbitrary: index acc out) (auto intro!: frugal_mbind frugal_operand)

lemma frugal_record:
  "(\<And>e d c. e \<in> snd ` set fs \<Longrightarrow> frugal (f e d c)) \<Longrightarrow> frugal (record_from f eng depth index acc out fs)"
proof (induction fs arbitrary: index acc out)
  case (Cons p fs)
  then show ?case
    by (cases p) (auto intro!: frugal_mbind split: evaluation_value.splits)
qed (auto intro!: frugal_mbind)

lemma frugal_arguments:
  "(\<And>e d c. e \<in> set es \<Longrightarrow> frugal (f e d c)) \<Longrightarrow> frugal (call_arguments f depth index args es)"
  by (induction es arbitrary: index args) (auto intro!: frugal_mbind split: option.splits)

lemma frugal_render_arguments:
  "(\<And>e d c. e \<in> (\<lambda>p. snd (snd p)) ` set ps \<Longrightarrow> frugal (f e d c)) \<Longrightarrow>
    frugal (render_arguments f eng depth index args ps)"
proof (induction ps arbitrary: index args)
  case (Cons p ps)
  obtain n q i e where p: "p = ((n, q), (i, e))" by (metis surj_pair)
  show ?case
    using Cons by (auto simp: p intro!: frugal_mbind split: evaluation_value.splits)
qed simp

lemma yields_call:
  assumes "\<And>x d c. x \<in> set es \<Longrightarrow> yields (f x d c) (denote eng S x)"
    and "\<And>l i args. yields (env_call_at env (ECall g es) l i args) (sem_call S (ECall g es) l i args)"
  shows "yields (eval_call f eng env (ECall g es) g es depth) (denote eng S (ECall g es))"
proof (cases g)
  case (FCore core)
  show ?thesis
  proof (cases es)
    case Nil
    then show ?thesis by (simp add: eval_call_def FCore yields_def mlift_def)
  next
    case (Cons e es')
    then have "yields (f e d c) (denote eng S e)" for d c using assms(1) by simp
    then have "yields (mbind (f e d c) (core_call core)) (Option.bind (denote eng S e) (core_meaning core))" for d c
      by (rule yields_bind) (simp add: yields_core)
    then show ?thesis by (simp add: eval_call_def FCore Cons)
  qed
next
  case (FLibrary l i)
  have "yields (mbind (call_arguments f depth 0 [] es) (\<lambda>args. case args of
            None \<Rightarrow> mret Pending
          | Some vs \<Rightarrow> mbind (env_call_at env (ECall (FLibrary l i) es) l i vs) (\<lambda>r. case r of
                Pending \<Rightarrow> mfail EvOperandType
              | Present v \<Rightarrow> mbind (inspect eng v) (\<lambda>_. mret r)
              | Absent \<Rightarrow> mret r))) (denote eng S (ECall (FLibrary l i) es))"
    unfolding denote.simps
    by (rule yields_bind [OF yields_arguments], erule assms(1))
      (auto intro!: yields_bind [OF assms(2) [unfolded FLibrary]] yields_skip [of _ _ "inspect _ _"] simp: FLibrary
        split: option.splits evaluation_value.splits)
  then show ?thesis by (simp add: eval_call_def FLibrary)
qed

lemma zip_keys_agree:
  "length xs = length ys \<Longrightarrow> (\<forall>p \<in> set (zip xs ys). fst (fst p) = fst (snd p)) \<longleftrightarrow> map fst xs = map fst ys"
  by (induction xs ys rule: list_induct2) auto

lemma yields_render:
  assumes "\<And>x d c. x \<in> snd ` set es \<Longrightarrow> yields (f x d c) (denote eng S x)"
    and "env_template env d = sem_template S d"
  shows "yields (eval_render f eng env d es depth) (denote eng S (ERender d es))"
proof -
  have args: "yields (render_arguments f eng depth index [] (zip (template_parameters t) es))
      (arguments_text eng [] (zip (template_parameters t) (map snd (map (\<lambda>(i, e). (i, denote eng S e)) es))))" for index t
  proof -
    have "map (\<lambda>(q, i, e). (q, denote eng S e)) (zip (template_parameters t) es) =
        zip (template_parameters t) (map snd (map (\<lambda>(i, e). (i, denote eng S e)) es))"
      by (simp add: zip_map2 comp_def split_def)
    moreover have "yields (render_arguments f eng depth index [] (zip (template_parameters t) es))
        (arguments_text eng [] (map (\<lambda>(q, i, e). (q, denote eng S e)) (zip (template_parameters t) es)))"
      by (rule yields_render_arguments) (force dest: set_zip_rightD intro: assms(1))
    ultimately show ?thesis by simp
  qed
  have keys: "map fst (template_parameters t) = map fst (map (\<lambda>(i, e). (i, denote eng S e)) es)"
    if "length (template_parameters t) = length es" "\<forall>p \<in> set (zip (template_parameters t) es). fst (fst p) = fst (snd p)" for t
    using that zip_keys_agree [of "template_parameters t" es] by (simp add: comp_def split_def)
  show ?thesis
    unfolding eval_render_def denote.simps render_meaning_def
  proof (rule yields_mlift_bind, rule yields_skip, rule yields_skip)
    fix t
    assume "ok_or EvUnknownTemplate (env_template env d) = Ok t"
    then have t: "sem_template S d = Some t"
      using assms(2) by (auto simp: ok_or_def split: option.splits)
    show "yields (let pairs = zip (template_parameters t) es in
       if length (template_parameters t) \<noteq> length es \<or> (\<exists>p \<in> set pairs. fst (fst p) \<noteq> fst (snd p))
       then mfail EvTemplateArguments
       else mbind (render_arguments f eng depth 0 [] pairs) (\<lambda>args.
         case args of
           None \<Rightarrow> mret Pending
         | Some vs \<Rightarrow> mbind (mfold (render_part vs) (template_parts t) []) (\<lambda>out. mret (Present (VText out)))))
      (case sem_template S d of
        None \<Rightarrow> None
      | Some t \<Rightarrow>
          if map fst (template_parameters t) \<noteq> map fst (map (\<lambda>(i, e). (i, denote eng S e)) es) then None
          else (case arguments_text eng [] (zip (template_parameters t) (map snd (map (\<lambda>(i, e). (i, denote eng S e)) es))) of
              None \<Rightarrow> None
            | Some None \<Rightarrow> Some Pending
            | Some (Some vs) \<Rightarrow> map_option (\<lambda>s. Present (VText s)) (rendered (map_of vs) (template_parts t))))"
    proof (cases "length (template_parameters t) = length es \<and> (\<forall>p \<in> set (zip (template_parameters t) es). fst (fst p) = fst (snd p))")
      case True
      have "yields (mbind (mfold (render_part vs) (template_parts t) []) (\<lambda>out. mret (Present (VText out))))
          (map_option (\<lambda>s. Present (VText s)) (rendered (map_of vs) (template_parts t)))" for vs
        by (rule yields_bind [OF yields_render_parts]) auto
      then show ?thesis
        using True keys [of t]
        by (auto simp: t Let_def simp del: map_map intro!: yields_bind [OF args] split: option.splits)
    qed (auto simp: Let_def)
  qed
qed

lemma yields_run_around: "yields inner r \<Longrightarrow> yields (run_around eng env e depth child inner) r"
  by (fastforce simp: yields_def run_around_def mbind_def mret_def split: if_splits prod.splits)

text \<open>What surrounds the dispatch: the size of a present result and the context's check.\<close>

definition checked :: "engines \<Rightarrow> environment \<Rightarrow> expression \<Rightarrow> evaluation_value metered \<Rightarrow> evaluation_value metered" where
  "checked eng env e inner =
     mbind inner (\<lambda>r.
     mbind (case r of Present v \<Rightarrow> mbind (inspect eng v) size_check | _ \<Rightarrow> mret ()) (\<lambda>_.
     mbind (env_check_result env e r) (\<lambda>_. mret r)))"

lemma run_aroundE:
  assumes "run_around eng env e depth child inner m = Ok (r, m')"
  obtains m1 m2 where "charge 1 m = Ok ((), m1)"
    and "checked eng env e inner (m1\<lparr>meter_path := meter_path m1 @ (case child of None \<Rightarrow> [] | Some i \<Rightarrow> [i]), meter_depth := depth\<rparr>) = Ok (r, m2)"
    and "m' = m2\<lparr>meter_depth := meter_depth m1,
             meter_path := (if child = None then meter_path m2 else butlast (meter_path m2))\<rparr>"
  using assms by (auto simp: run_around_def checked_def [symmetric] split: if_splits)

lemma checkedE:
  assumes "checked eng env e inner m = Ok (Present v, m')"
  obtains m1 m2 where "inner m = Ok (Present v, m1)" and "mbind (inspect eng v) size_check m1 = Ok ((), m2)"
proof -
  from assms obtain r m1 where i: "inner m = Ok (r, m1)"
    and rest: "mbind (case r of Present v \<Rightarrow> mbind (inspect eng v) size_check | _ \<Rightarrow> mret ())
      (\<lambda>_. mbind (env_check_result env e r) (\<lambda>_. mret r)) m1 = Ok (Present v, m')"
    unfolding checked_def mbind_def [of inner] by auto
  moreover have "r = Present v" using rest by (auto simp: mbind_def mret_def)
  ultimately show thesis
    using that by (auto simp: mbind_def [of "mbind _ _"])
qed

lemma frugal_checked:
  "frugal inner \<Longrightarrow> (\<And>r. frugal (env_check_result env e r)) \<Longrightarrow> frugal (checked eng env e inner)"
  unfolding checked_def by (auto intro!: frugal_mbind split: evaluation_value.splits)

lemma meter_after_entered:
  assumes "charge 1 m = Ok ((), m1)"
    and "meter_after (m1\<lparr>meter_path := meter_path m1 @ (case child of None \<Rightarrow> [] | Some i \<Rightarrow> [i]), meter_depth := depth\<rparr>) m2"
  shows "meter_after m (m2\<lparr>meter_depth := meter_depth m1,
             meter_path := (if child = None then meter_path m2 else butlast (meter_path m2))\<rparr>)"
    and "steps (usage m) < steps (usage m2)"
proof -
  have "meter_after m m1" and c: "steps (usage m1) = steps (usage m) + 1"
    using frugalD [OF frugal_charge assms(1)] assms(1) by (auto simp: charge_def checked_add_def ok_or_def split: if_splits)
  moreover have "meter_after m1 (m2\<lparr>meter_depth := meter_depth m1,
             meter_path := (if child = None then meter_path m2 else butlast (meter_path m2))\<rparr>)"
    using assms(2) by (cases child) (auto simp: meter_after_def)
  ultimately show "meter_after m (m2\<lparr>meter_depth := meter_depth m1,
             meter_path := (if child = None then meter_path m2 else butlast (meter_path m2))\<rparr>)"
    by (blast intro: meter_after_trans)
  show "steps (usage m) < steps (usage m2)" using assms(2) c by (auto simp: meter_after_def)
qed

lemma frugal_run_around:
  assumes "frugal inner" "\<And>r. frugal (env_check_result env e r)"
  shows "frugal (run_around eng env e depth child inner)"
  unfolding frugal_def
  by (auto elim!: run_aroundE intro: meter_after_entered(1) frugalD [OF frugal_checked [OF assms]])

section \<open>The evaluation context as an interface\<close>

text \<open>What a context owes: each of its operations returns nothing but the meaning given to it
  and respects the meter.\<close>

locale evaluation_interface =
  fixes eng :: engines and env :: environment and S :: semantics
  assumes resolve_yields: "yields (env_resolve env r path) (sem_resolve S r path)"
    and project_yields: "yields (env_project env e v path) (sem_project S e v path)"
    and call_yields: "yields (env_call_at env e l i args) (sem_call S e l i args)"
    and outcome_agrees: "env_outcome env node = sem_outcome S node"
    and template_agrees: "env_template env d = sem_template S d"
    and resolve_frugal: "frugal (env_resolve env r path)"
    and project_frugal: "frugal (env_project env e v path)"
    and call_frugal: "frugal (env_call_at env e l i args)"
    and check_frugal: "frugal (env_check_result env e x)"
begin

lemma inner_denotes:
  assumes "\<And>x d c. x \<in> set (expression_children e) \<Longrightarrow> yields (f x d c) (denote eng S x)"
  shows "yields (run_inner f eng env e depth) (denote eng S e)"
proof (cases e)
  case (ELiteral l)
  then show ?thesis using yields_literal by (simp add: run_inner_def)
next
  case (ERegex p fl)
  then show ?thesis using yields_regex by (simp add: run_inner_def)
next
  case (ERef r path)
  then show ?thesis using resolve_yields by (simp add: run_inner_def)
next
  case (EGet v path)
  then show ?thesis using assms by (simp add: run_inner_def yields_operand project_yields)
next
  case (EList es)
  have "yields (sequence_from f eng depth 0 (ev_header (length es)) [] es) (list_meaning [] (map (denote eng S) es))"
    by (rule yields_sequence) (simp add: assms EList)
  then show ?thesis by (simp add: run_inner_def EList eval_sequence_def yields_skip)
next
  case (ERecord fs)
  have "yields (record_from f eng depth 0 0 [] fs) (record_meaning [] (map (\<lambda>(k, e). (k, denote eng S e)) fs))"
    by (rule yields_record) (use assms in \<open>auto simp: ERecord\<close>)
  then show ?thesis by (simp add: run_inner_def ERecord eval_record_def)
next
  case (ECall g es)
  then show ?thesis using assms yields_call [OF _ call_yields] by (simp add: run_inner_def)
next
  case (ERender d es)
  then show ?thesis using assms yields_render [OF _ template_agrees] by (simp add: run_inner_def)
next
  case (EStatus i)
  then show ?thesis using yields_outcome [OF outcome_agrees] by (simp add: run_inner_def)
next
  case (EError i)
  then show ?thesis using yields_outcome [OF outcome_agrees] by (simp add: run_inner_def)
next
  case (ENot v)
  then show ?thesis using assms yields_not [of f v "denote eng S"] by (simp add: run_inner_def)
next
  case (EBinary op l r)
  then show ?thesis using assms yields_binary [of f l "denote eng S" r] by (simp add: run_inner_def)
qed (simp add: run_inner_def)

lemma run_denotes: "yields (run eng env e depth child) (denote eng S e)"
proof (induction e arbitrary: depth child rule: measure_induct_rule [where f = size])
  case (less e)
  show ?case
    unfolding run.simps [of eng env e]
    by (intro yields_run_around inner_denotes less size_children)
qed

lemma inner_frugal:
  assumes "\<And>x d c. x \<in> set (expression_children e) \<Longrightarrow> frugal (f x d c)"
  shows "frugal (run_inner f eng env e depth)"
proof (cases e)
  case (EList es)
  then show ?thesis
    using assms frugal_sequence [of es f] by (auto simp: run_inner_def eval_sequence_def intro!: frugal_mbind)
next
  case (ERecord fs)
  then show ?thesis using assms frugal_record [of fs f] by (simp add: run_inner_def eval_record_def)
next
  case (ECall g es)
  have "frugal (call_arguments f depth 0 [] es)" using assms frugal_arguments [of es f] by (simp add: ECall)
  then show ?thesis
    using assms by (auto simp: run_inner_def eval_call_def ECall intro!: frugal_mbind call_frugal
        split: function_id.split list.split option.splits evaluation_value.splits)
next
  case (ERender d es)
  have "frugal (render_arguments f eng depth 0 [] (zip ps es))" for ps
    by (rule frugal_render_arguments) (use assms in \<open>force simp: ERender dest: set_zip_rightD\<close>)
  then show ?thesis
    by (auto simp: run_inner_def eval_render_def ERender Let_def intro!: frugal_mbind frugal_mfold
        split: option.splits)
next
  case (EBinary op l r)
  then show ?thesis
    using assms by (auto simp: run_inner_def eval_binary_def intro!: frugal_operand frugal_mbind split: option.splits)
next
  case (ENot v)
  then show ?thesis
    using assms by (auto simp: run_inner_def eval_not_def intro!: frugal_operand split: value_splits)
next
  case (EGet v path)
  then show ?thesis using assms by (auto simp: run_inner_def intro!: frugal_operand project_frugal)
qed (auto simp: run_inner_def resolve_frugal intro!: frugal_mbind)

lemma run_frugal: "frugal (run eng env e depth child)"
proof (induction e arbitrary: depth child rule: measure_induct_rule [where f = size])
  case (less e)
  show ?case
    unfolding run.simps [of eng env e]
    by (intro frugal_run_around inner_frugal check_frugal less size_children)
qed

lemma run_result_fits:
  assumes "run eng env e depth child m = Ok (Present v, m')"
  shows "\<exists>bs. encode (backend eng) (codec m) v = Ok bs \<and> length bs \<le> max_value_bytes (policy m) \<and>
    (depth \<le> 1 \<longrightarrow> length bs \<le> max_output_bytes (policy m))"
  using assms unfolding run.simps [of eng env e]
proof (elim run_aroundE)
  fix m1 m2
  assume m1: "charge 1 m = Ok ((), m1)"
    and c: "checked eng env e (run_inner (run eng env) eng env e depth)
      (m1\<lparr>meter_path := meter_path m1 @ (case child of None \<Rightarrow> [] | Some i \<Rightarrow> [i]), meter_depth := depth\<rparr>) = Ok (Present v, m2)"
  obtain m3 m4 where inner: "run_inner (run eng env) eng env e depth
      (m1\<lparr>meter_path := meter_path m1 @ (case child of None \<Rightarrow> [] | Some i \<Rightarrow> [i]), meter_depth := depth\<rparr>) = Ok (Present v, m3)"
    and size: "mbind (inspect eng v) size_check m3 = Ok ((), m4)"
    using c by (rule checkedE)
  have m3: "policy m3 = policy m" "codec m3 = codec m" "meter_depth m3 = depth"
    using frugalD [OF inner_frugal [OF run_frugal] inner] frugalD [OF frugal_charge m1]
    by (simp_all add: meter_after_def)
  obtain n m5 where i: "inspect eng v m3 = Ok (n, m5)" and s: "size_check n m5 = Ok ((), m4)"
    using size by (auto simp: mbind_def)
  have "policy m5 = policy m" "meter_depth m5 = depth"
    using frugalD [OF frugal_inspect i] m3 by (simp_all add: meter_after_def)
  then show ?thesis
    using i s m3 by (auto simp: inspect_def size_check_def split: if_splits)
qed

lemma run_charged: "run eng env e depth child m = Ok (x, m') \<Longrightarrow> steps (usage m) < steps (usage m')"
  unfolding run.simps [of eng env e]
  by (auto elim!: run_aroundE dest!: frugalD [OF frugal_checked [OF inner_frugal [OF run_frugal] check_frugal]]
      intro: meter_after_entered(2) [simplified])

end

section \<open>The concrete frame\<close>

text \<open>Projection without a meter: a declared optional field that is missing at the end of the
  path is absent.\<close>

definition declared_meaning :: "expression option \<Rightarrow> path_step \<Rightarrow> expression option" where
  "declared_meaning origin step =
     (case (origin, step) of
        (Some (ERecord fs), PField name) \<Rightarrow>
          map_option (\<lambda>i. snd (fs ! i)) (bsearch (\<lambda>i. cmp (fst (fs ! i)) name) 0 (length fs))
      | (Some (EList items), PIndex i) \<Rightarrow> (if unat i < length items then Some (items ! unat i) else None)
      | _ \<Rightarrow> None)"

fun project_meaning :: "value \<Rightarrow> path_step list \<Rightarrow> expression option \<Rightarrow> evaluation_value option" where
  "project_meaning v [] origin = Some (Present v)"
| "project_meaning v (step # path) origin =
     (case (v, step) of
        (VMap m, PField key) \<Rightarrow>
          (case map_get m key of
             Some x \<Rightarrow> project_meaning x path (declared_meaning origin step)
           | None \<Rightarrow> if declared_meaning origin step \<noteq> None \<and> path = [] then Some Absent else None)
      | (VArray items, PIndex i) \<Rightarrow>
          (if unat i < length items then project_meaning (items ! unat i) path (declared_meaning origin step) else None)
      | _ \<Rightarrow> None)"

definition frame_semantics :: "evaluation_frame \<Rightarrow> semantics" where
  "frame_semantics fr =
     \<lparr>sem_resolve = (\<lambda>r path.
        case map_of (frame_values fr) r of
          None \<Rightarrow> None
        | Some bindings \<Rightarrow>
            (case map_of bindings path of
               Some state \<Rightarrow> (case state of Ok x \<Rightarrow> Some x | _ \<Rightarrow> None)
             | None \<Rightarrow>
                 (case map_of bindings [] of
                    Some (Ok (Present v)) \<Rightarrow> project_meaning v path None
                  | Some (Ok Pending) \<Rightarrow> Some Pending
                  | _ \<Rightarrow> None))),
      sem_outcome = map_of (frame_outcomes fr),
      sem_template = map_of (frame_templates fr),
      sem_call = (\<lambda>_ _ _ _. None),
      sem_project = (\<lambda>origin v path. project_meaning v path (Some origin))\<rparr>"

lemma yields_declared: "yields (declared_step origin step) (Some (declared_meaning origin step))"
  by (auto simp: declared_step_def declared_meaning_def intro!: yields_skip
      split: option.splits expression.splits path_step.splits)

lemma yields_project: "yields (project eng v path origin) (project_meaning v path origin)"
  unfolding project_def
proof (induction path arbitrary: v origin)
  case (Cons step path)
  show ?case
    unfolding project_from.simps project_meaning.simps
    by (rule yields_skip, rule yields_bind [OF yields_declared], cases v; cases step)
      (auto split: option.splits intro!: Cons yields_skip [of _ _ "charge _"] yields_copy_bind)
qed (simp add: yields_copy_bind)

lemma yields_copy_state: "yields (copy_state eng x) (Some x)"
  by (cases x) (simp_all add: copy_state_def yields_copy_bind)

lemma frugal_copy_state [simp]: "frugal (copy_state eng x)"
  by (auto simp: copy_state_def intro!: frugal_mbind split: evaluation_value.splits)

interpretation frame: evaluation_interface eng "frame_environment eng fr" "frame_semantics fr" for eng fr
proof
  fix r path
  show "yields (env_resolve (frame_environment eng fr) r path) (sem_resolve (frame_semantics fr) r path)"
    unfolding frame_environment_def frame_semantics_def environment.simps semantics.simps frame_resolve_def
    by (rule yields_skip, rule yields_skip, rule yields_mlift_bind, rule yields_skip)
      (auto simp: ok_or_def split: option.splits evaluation_value.splits
        intro!: yields_mlift_bind yields_copy_state yields_skip [of _ _ "inspect _ _"] yields_project)
  show "frugal (env_resolve (frame_environment eng fr) r path)"
    unfolding frame_environment_def environment.simps frame_resolve_def
    by (auto intro!: frugal_mbind frugal_mfold split: option.splits evaluation_value.splits)
qed (simp_all add: frame_environment_def frame_semantics_def yields_project)

end
