(* ===== verification/Evaluator_Properties.thy ===== *)
theory Evaluator_Properties
  imports Evaluator_Semantics
begin

text \<open>
  What evaluation on the concrete frame establishes: its results are the meaning of the
  expression, whatever the limits; its usage stays within the policy and every byte and element
  is paid for with a step; a present result fits; the logical operators skip their right
  operand.
\<close>

section \<open>Concrete evaluations\<close>

definition sample_engines :: engines where
  "sample_engines = \<lparr>regex_build = (\<lambda>_ _ _ _ _. Ok ()), format_finite = (\<lambda>_. ''0''), backend = reference, binary16 = ref_half\<rparr>"

definition sample_policy :: evaluator_limits where
  "sample_policy = \<lparr>max_expression_depth = 8, max_value_bytes = 64, max_collection_visits = 8, max_regex_bytes = 8,
     max_regex_compiled_bytes = 8, max_output_bytes = 32, max_steps = 64\<rparr>"

definition sample_frame :: evaluation_frame where
  "sample_frame = empty_frame\<lparr>frame_values := [(RInput (Ident ''x''), [([], Ok (Present (VInteger 2)))])]\<rparr>"

definition sample_expression :: expression where
  "sample_expression = EList [EBinary OpLt (ERef (RInput (Ident ''x'')) []) (ELiteral (LInteger 3)), ELiteral LNull]"

lemma sample_run:
  "evaluate sample_engines (frame_environment sample_engines sample_frame) sample_expression CScopePostconditions
     default_limits sample_policy =
   Ok \<lparr>result_value = Present (VArray [VBool True, VNull]),
       result_usage = \<lparr>steps = 19, collection_visits = 3, value_bytes = 10\<rparr>\<rparr>"
  by code_simp

text \<open>The same evaluation with exactly the steps it needs, and in another context.\<close>

lemma sample_run_tight:
  "evaluate sample_engines (frame_environment sample_engines sample_frame) sample_expression CLoopUntil
     default_limits (sample_policy\<lparr>max_steps := 19\<rparr>) =
   Ok \<lparr>result_value = Present (VArray [VBool True, VNull]),
       result_usage = \<lparr>steps = 19, collection_visits = 3, value_bytes = 10\<rparr>\<rparr>"
  by code_simp

section \<open>The evaluator against its meaning\<close>

lemma evaluate_denotes:
  "evaluate eng (frame_environment eng fr) e context lim p = Ok r \<Longrightarrow>
    denote eng (frame_semantics fr) e = Some (result_value r)"
  using yieldsD [OF frame.run_denotes [of eng fr e 1 None]] by (auto simp: evaluate_def)

text \<open>C1. A successful evaluation of an admitted expression on a frame returns the meaning of
  the expression.\<close>

theorem evaluation_means:
  assumes "evaluate eng (frame_environment eng fr) e context lim p = Ok r"
  shows "denote eng (frame_semantics fr) e = Some (result_value r)"
  using assms by (rule evaluate_denotes)

theorem evaluation_means_witness:
  "denote sample_engines (frame_semantics sample_frame) sample_expression = Some (Present (VArray [VBool True, VNull]))"
  using evaluation_means [OF sample_run] by simp

text \<open>C15. Limits decide whether an evaluation returns, never what it returns: two successful
  evaluations of an expression on a frame, under any contexts, codec limits and policies,
  agree.\<close>

theorem limits_never_change_results:
  assumes "evaluate eng (frame_environment eng fr) e c1 lim1 p1 = Ok r1"
    and "evaluate eng (frame_environment eng fr) e c2 lim2 p2 = Ok r2"
  shows "result_value r1 = result_value r2"
  using assms [THEN evaluate_denotes] by simp

theorem limits_never_change_results_witness:
  "\<exists>r1 r2. evaluate sample_engines (frame_environment sample_engines sample_frame) sample_expression CScopePostconditions
       default_limits sample_policy = Ok r1 \<and>
     evaluate sample_engines (frame_environment sample_engines sample_frame) sample_expression CLoopUntil
       default_limits (sample_policy\<lparr>max_steps := 19\<rparr>) = Ok r2 \<and> result_value r1 = result_value r2"
  using sample_run sample_run_tight limits_never_change_results [OF sample_run sample_run_tight] by blast

text \<open>C4. The usage a successful evaluation reports is within the policy, is never zero, and
  pays a step for every visited element and every inspected byte.\<close>

theorem usage_within_policy:
  assumes "evaluate eng (frame_environment eng fr) e context lim p = Ok r"
  shows "0 < steps (result_usage r) \<and> steps (result_usage r) \<le> max_steps p \<and>
    collection_visits (result_usage r) \<le> max_collection_visits p \<and>
    collection_visits (result_usage r) + value_bytes (result_usage r) \<le> steps (result_usage r)"
proof -
  obtain m v m' where m: "meter_new p lim = Ok m"
    and run: "run eng (frame_environment eng fr) e 1 None m = Ok (v, m')" and r: "result_usage r = usage m'"
    using assms by (auto simp: evaluate_def)
  have m0: "policy m = p" "usage m = \<lparr>steps = 0, collection_visits = 0, value_bytes = 0\<rparr>"
    using m by (auto simp: meter_new_def split: if_splits)
  show ?thesis
    using frame.run_charged [OF run] frugalD [OF frame.run_frugal run] m0 by (simp add: meter_after_def r)
qed

theorem usage_within_policy_witness: "(19::nat) \<le> max_steps sample_policy \<and> 3 + 10 \<le> (19::nat)"
  using usage_within_policy [OF sample_run] by simp

text \<open>C22. A present result has a canonical encoding that fits the document, value and output
  ceilings.\<close>

theorem result_fits:
  assumes "evaluate eng (frame_environment eng fr) e context lim p = Ok r" and "result_value r = Present v"
  shows "\<exists>bs. encode (backend eng) (lim\<lparr>max_document_bytes := min (max_document_bytes lim) (max_value_bytes p)\<rparr>) v = Ok bs \<and>
    length bs \<le> max_value_bytes p \<and> length bs \<le> max_output_bytes p"
proof -
  obtain m m' where m: "meter_new p lim = Ok m"
    and run: "run eng (frame_environment eng fr) e 1 None m = Ok (Present v, m')"
    using assms by (auto simp: evaluate_def)
  have "policy m = p" "codec m = lim\<lparr>max_document_bytes := min (max_document_bytes lim) (max_value_bytes p)\<rparr>"
    using m by (auto simp: meter_new_def split: if_splits)
  then show ?thesis using frame.run_result_fits [OF run] by simp
qed

theorem result_fits_witness:
  "\<exists>bs. encode reference (default_limits\<lparr>max_document_bytes := 64\<rparr>) (VArray [VBool True, VNull]) = Ok bs \<and> length bs \<le> 32"
  using result_fits [OF sample_run] by (auto simp: sample_engines_def sample_policy_def default_limits_def)

section \<open>Short circuits\<close>

definition decides :: "binary_operator \<Rightarrow> evaluation_value option \<Rightarrow> bool" where
  "decides op l \<longleftrightarrow>
     (op = OpAnd \<and> l = Some (Present (VBool False))) \<or> (op = OpOr \<and> l = Some (Present (VBool True)))"

lemma binary_left:
  assumes "yields (f l (depth + 1) (Some 0)) (Some x)" "decides op (Some x)"
  shows "eval_binary f op l r depth = f l (depth + 1) (Some 0)"
proof
  fix m
  show "eval_binary f op l r depth m = f l (depth + 1) (Some 0) m"
  proof (cases "f l (depth + 1) (Some 0) m")
    case (Ok p)
    obtain y m' where p: "p = (y, m')" by (cases p)
    have "y = x" using yieldsD [OF assms(1)] Ok p by simp
    then show ?thesis
      using assms(2) Ok p by (auto simp: eval_binary_def operand_def mbind_def mret_def decides_def)
  qed (simp_all add: eval_binary_def operand_def mbind_def)
qed

text \<open>C21. When the left operand of a conjunction means false or that of a disjunction means
  true, the right operand is never evaluated: any other expression in its place gives the same
  result, usage and error.\<close>

theorem right_operand_skipped:
  assumes "decides op (denote eng (frame_semantics fr) l)"
  shows "evaluate_admitted eng (frame_environment eng fr) (EBinary op l r) lim p =
    evaluate_admitted eng (frame_environment eng fr) (EBinary op l r') lim p"
proof -
  obtain x where x: "denote eng (frame_semantics fr) l = Some x"
    using assms by (auto simp: decides_def)
  have left: "eval_binary (run eng (frame_environment eng fr)) op l q 1 = run eng (frame_environment eng fr) l 2 (Some 0)" for q
    using binary_left [of "run eng (frame_environment eng fr)" l 1 x op q] frame.run_denotes [of eng fr l] assms x
    by (simp add: numeral_2_eq_2)
  have inner: "run_inner (run eng (frame_environment eng fr)) eng (frame_environment eng fr) (EBinary op l q) 1 =
      run eng (frame_environment eng fr) l 2 (Some 0)" for q
    by (simp only: run_inner_def expression.case left)
  have check: "env_check_result (frame_environment eng fr) x = (\<lambda>_. mret ())" for x
    by (simp add: frame_environment_def)
  have "run eng (frame_environment eng fr) (EBinary op l r) 1 None = run eng (frame_environment eng fr) (EBinary op l r') 1 None"
    by (rule ext) (simp only: run.simps [of _ _ "EBinary _ _ _"] run_around_def inner check)
  then show ?thesis by (simp add: evaluate_admitted_def)
qed

theorem right_operand_skipped_witness:
  "evaluate_admitted sample_engines (frame_environment sample_engines sample_frame)
      (EBinary OpAnd (ELiteral (LBoolean False)) (EFunctionRef (Digest []) (Ident ''f''))) default_limits sample_policy =
    evaluate_admitted sample_engines (frame_environment sample_engines sample_frame)
      (EBinary OpAnd (ELiteral (LBoolean False)) (ELiteral LNull)) default_limits sample_policy"
proof -
  have "decides OpAnd (denote sample_engines (frame_semantics sample_frame) (ELiteral (LBoolean False)))"
    by (simp add: decides_def)
  then show ?thesis by (rule right_operand_skipped)
qed

end
