(* ===== verification/Runtime_Identity.thy ===== *)
theory Runtime_Identity
  imports Type_Records Digests
begin

text \<open>
  \<open>identity.rs\<close>: the runtime identities, each the hash of a domain string, a version and its
  arguments. \<open>runtime_preimage\<close> is what \<open>hash\<close> feeds to SHA-256, header and children
  separately; \<open>preimage_encodes\<close> shows it is the canonical encoding of the whole array, so
  that no two subjects share a preimage.
\<close>

unbundle bit_operations_syntax

section \<open>Identities\<close>

datatype run_id = RunId (run_name: bytes)
datatype scope_instance_id = ScopeInstanceId (scope_digest: digest)
datatype invocation_id = InvocationId (invocation_digest: digest)
datatype attempt_id = AttemptId (attempt_digest: digest)
datatype wait_id = WaitId (wait_digest: digest)
datatype artifact_id = ArtifactId (artifact_digest: digest)
datatype value_digest = ValueDigest (content_digest: digest)

datatype identity_error =
  IdCodec cbor_error | IdEncoding encoding_limit_error | IdType type_error | IdCounterRange

definition run_id_new :: "bytes \<Rightarrow> limits \<Rightarrow> (identity_error, run_id) result" where
  "run_id_new s lim =
     attempt (map_err IdCodec (acc_new lim)) (\<lambda>n.
     attempt (map_err IdEncoding (acc_text lim s 0 n)) (\<lambda>_. Ok (RunId s)))"

definition artifact_id_from_str :: "bytes \<Rightarrow> (parse_digest_error, artifact_id) result" where
  "artifact_id_from_str s = attempt (digest_from_str s) (\<lambda>d. Ok (ArtifactId d))"

definition value_digest_from_str :: "bytes \<Rightarrow> (parse_digest_error, value_digest) result" where
  "value_digest_from_str s = attempt (digest_from_str s) (\<lambda>d. Ok (ValueDigest d))"

definition id_name :: "digest \<Rightarrow> value" where
  "id_name d = VText (digest_display d)"

definition id_counter :: "u64 \<Rightarrow> bool \<Rightarrow> (identity_error, value) result" where
  "id_counter number positive =
     (if positive \<and> number = 0 then Err IdCounterRange
      else attempt (ok_or IdCounterRange (i64_try_from number)) (\<lambda>i. Ok (VInteger i)))"

section \<open>The hash\<close>

text \<open>\<open>hash\<close> up to the digest: the accounting of the complete array, the assertion on the
  count, and the bytes of the successive \<open>update\<close> calls.\<close>

definition runtime_preimage :: "half \<Rightarrow> cbor2 \<Rightarrow> bytes \<Rightarrow> value list \<Rightarrow> limits \<Rightarrow> (identity_error, bytes) result" where
  "runtime_preimage h b domain args lim =
     (let children = VText (''htlk.'' @ domain) # VText ''0.1'' # args; count = length args + 2 in
      attempt (map_err IdCodec (acc_new lim)) (\<lambda>n0.
      attempt (map_err IdEncoding (acc_collection lim count 0 n0)) (\<lambda>n1.
      attempt (map_err IdEncoding (fold_result (\<lambda>child n. acc_value h lim child 1 n) children n1)) (\<lambda>_.
      if \<not> count < 24 then Panic
      else attempt (map_err IdCodec (map_result (encode b lim) children)) (\<lambda>parts.
        Ok (char_of (0x80 OR count) # concat parts))))))"

definition runtime_hash ::
  "(bytes \<Rightarrow> bytes) \<Rightarrow> half \<Rightarrow> cbor2 \<Rightarrow> bytes \<Rightarrow> value list \<Rightarrow> limits \<Rightarrow> (identity_error, digest) result" where
  "runtime_hash sha h b domain args lim =
     attempt (runtime_preimage h b domain args lim) (\<lambda>bs. Ok (Digest (sha bs)))"

text \<open>The parameters every constructor of an identity shares: SHA-256, binary16 and the codec.\<close>

record hashing =
  sha256 :: "bytes \<Rightarrow> bytes"
  half_crate :: half
  cbor_backend :: cbor2

definition id_hash :: "hashing \<Rightarrow> bytes \<Rightarrow> value list \<Rightarrow> limits \<Rightarrow> (identity_error, digest) result" where
  "id_hash H = runtime_hash (sha256 H) (half_crate H) (cbor_backend H)"

section \<open>Constructors\<close>

definition scope_root :: "hashing \<Rightarrow> run_id \<Rightarrow> limits \<Rightarrow> (identity_error, scope_instance_id) result" where
  "scope_root H run lim =
     attempt (id_hash H ''root_scope'' [VText (run_name run)] lim) (\<lambda>d. Ok (ScopeInstanceId d))"

definition scope_child :: "hashing \<Rightarrow> invocation_id \<Rightarrow> limits \<Rightarrow> (identity_error, scope_instance_id) result" where
  "scope_child H owner lim =
     attempt (id_hash H ''child_scope'' [id_name (invocation_digest owner)] lim) (\<lambda>d. Ok (ScopeInstanceId d))"

definition scope_iteration ::
  "hashing \<Rightarrow> invocation_id \<Rightarrow> u64 \<Rightarrow> limits \<Rightarrow> (identity_error, scope_instance_id) result" where
  "scope_iteration H owner index lim =
     attempt (id_counter index False) (\<lambda>c.
     attempt (id_hash H ''iteration'' [id_name (invocation_digest owner), c] lim) (\<lambda>d. Ok (ScopeInstanceId d)))"

definition scope_extended_root ::
  "hashing \<Rightarrow> run_id \<Rightarrow> u64 \<Rightarrow> limits \<Rightarrow> (identity_error, scope_instance_id) result" where
  "scope_extended_root H run extension lim =
     attempt (id_counter extension True) (\<lambda>c.
     attempt (id_hash H ''extended_root'' [VText (run_name run), c] lim) (\<lambda>d. Ok (ScopeInstanceId d)))"

definition invocation_new ::
  "hashing \<Rightarrow> scope_instance_id \<Rightarrow> ident \<Rightarrow> limits \<Rightarrow> (identity_error, invocation_id) result" where
  "invocation_new H scope node lim =
     attempt (id_hash H ''invocation'' [id_name (scope_digest scope), VText (as_str node)] lim) (\<lambda>d. Ok (InvocationId d))"

definition effect_key :: "hashing \<Rightarrow> invocation_id \<Rightarrow> limits \<Rightarrow> (identity_error, digest) result" where
  "effect_key H owner lim = id_hash H ''effect'' [id_name (invocation_digest owner)] lim"

definition attempt_new ::
  "hashing \<Rightarrow> invocation_id \<Rightarrow> u64 \<Rightarrow> limits \<Rightarrow> (identity_error, attempt_id) result" where
  "attempt_new H owner number lim =
     attempt (id_counter number True) (\<lambda>c.
     attempt (id_hash H ''attempt'' [id_name (invocation_digest owner), c] lim) (\<lambda>d. Ok (AttemptId d)))"

definition wait_for_purpose ::
  "hashing \<Rightarrow> invocation_id \<Rightarrow> bytes \<Rightarrow> u64 \<Rightarrow> limits \<Rightarrow> (identity_error, wait_id) result" where
  "wait_for_purpose H owner purpose generation lim =
     attempt (id_counter generation False) (\<lambda>c.
     attempt (id_hash H ''wait'' [id_name (invocation_digest owner), VText purpose, c] lim) (\<lambda>d. Ok (WaitId d)))"

definition wait_input :: "hashing \<Rightarrow> invocation_id \<Rightarrow> limits \<Rightarrow> (identity_error, wait_id) result" where
  "wait_input H owner lim = wait_for_purpose H owner ''input'' 0 lim"

definition wait_approval ::
  "hashing \<Rightarrow> invocation_id \<Rightarrow> u64 \<Rightarrow> limits \<Rightarrow> (identity_error, wait_id) result" where
  "wait_approval H owner generation lim = wait_for_purpose H owner ''approval'' generation lim"

definition value_digest_new ::
  "hashing \<Rightarrow> value_type \<Rightarrow> value \<Rightarrow> limits \<Rightarrow> (identity_error, value_digest) result" where
  "value_digest_new H t v lim =
     attempt (map_err IdType (type_value ContextValue lim t)) (\<lambda>tv.
     attempt (id_hash H ''value'' [tv, v] lim) (\<lambda>d. Ok (ValueDigest d)))"

definition artifact_node_output ::
  "hashing \<Rightarrow> invocation_id \<Rightarrow> ident \<Rightarrow> value_digest \<Rightarrow> limits \<Rightarrow> (identity_error, artifact_id) result" where
  "artifact_node_output H owner p content lim =
     attempt (id_hash H ''artifact''
       [id_name (invocation_digest owner), VText (as_str p), id_name (content_digest content)] lim) (\<lambda>d. Ok (ArtifactId d))"

definition artifact_run_input ::
  "hashing \<Rightarrow> run_id \<Rightarrow> u64 \<Rightarrow> ident \<Rightarrow> value_digest \<Rightarrow> limits \<Rightarrow> (identity_error, artifact_id) result" where
  "artifact_run_input H run extension p content lim =
     attempt (id_counter extension False) (\<lambda>c.
     attempt (id_hash H ''run_input''
       [VText (run_name run), c, VText (as_str p), id_name (content_digest content)] lim) (\<lambda>d. Ok (ArtifactId d)))"

definition host_request_digest ::
  "hashing \<Rightarrow> bytes \<Rightarrow> bytes \<Rightarrow> bytes \<Rightarrow> value \<Rightarrow> limits \<Rightarrow> (identity_error, digest) result" where
  "host_request_digest H caller operation target arguments lim =
     attempt (map_err IdCodec (acc_new lim)) (\<lambda>n.
     attempt (map_err IdEncoding (fold_result (\<lambda>t k. acc_text lim t 1 k) [caller, operation, target] n)) (\<lambda>_.
     id_hash H ''host_request'' [VText caller, VText operation, VText target, arguments] lim))"

section \<open>The preimage is one canonical array\<close>

definition identity_array :: "bytes \<Rightarrow> value list \<Rightarrow> value" where
  "identity_array domain args = VArray (VText (''htlk.'' @ domain) # VText ''0.1'' # args)"

lemma short_head: "n < 24 \<Longrightarrow> shortest_head 4 n = [char_of (0x80 OR n)]"
proof -
  assume "n < 24"
  then have "n \<in> set [0..<24]" by simp
  moreover have "\<forall>n \<in> set [0..<24]. shortest_head 4 n = [char_of (0x80 OR n)]" by code_simp
  ultimately show ?thesis by blast
qed

lemma map_result_encode:
  assumes "push_documented b" "usize_limits lim" "\<forall>v \<in> set vs. finite_floats v"
    and "max_depth lim \<le> max_supported_depth"
    and "\<forall>v \<in> set vs. vdepth v \<le> max_depth lim \<and> length (canon b v) \<le> max_document_bytes lim"
  shows "map_result (encode b lim) vs = Ok (map (canon b) vs)"
  using assms(3,5) by (induction vs) (auto simp: encode_Ok_iff [OF assms(1,2)] assms(4))

lemma canon_list_concat: "canon_list b vs = concat (map (canon b) vs)"
  by (induction vs) simp_all

lemma acc_children_Ok:
  assumes "half_documented h b" "narrowing_documented b" "max_document_bytes lim < usize_bound"
    and "\<forall>v \<in> set vs. finite_floats v" "n \<le> max_document_bytes lim"
  shows "fold_result (\<lambda>child k. acc_value h lim child 1 k) vs n = Ok n' \<longleftrightarrow>
    n' = n + length (canon_list b vs) \<and> (\<forall>v \<in> set vs. 1 + vdepth v \<le> max_depth lim) \<and> n' \<le> max_document_bytes lim"
  unfolding canon_list_length
  by (rule acc_fold_Ok) (use acc_value_Ok_iff [OF assms(1-3)] assms(4,5) in auto)

lemma runtime_preimage_Ok:
  assumes b: "cbor2_documented b" and h: "half_documented h b" and l: "usize_limits lim"
    and fin: "\<forall>v \<in> set args. finite_floats v" and short: "length args < 22"
  shows "runtime_preimage h b domain args lim = Ok bs \<longleftrightarrow> encode b lim (identity_array domain args) = Ok bs"
proof -
  let ?cs = "VText (''htlk.'' @ domain) # VText ''0.1'' # args" and ?n = "length args + 2"
  have pd: "push_documented b" "narrowing_documented b" using b by (auto simp: cbor2_documented_def)
  have mx: "max_document_bytes lim < usize_bound" using l by (simp add: usize_limits_def)
  have fins: "\<forall>v \<in> set ?cs. finite_floats v" using fin by simp
  have head: "shortest_head 4 (unat (word_of_nat ?n :: u64)) = [char_of (0x80 OR ?n)]"
  proof -
    have "unat (word_of_nat ?n :: u64) = ?n" by (rule unat_word_of_nat) (use short in simp)
    then show ?thesis using short_head [of ?n] short by simp
  qed
  have canon: "canon b (identity_array domain args) = char_of (0x80 OR ?n) # canon_list b ?cs"
    using head by (simp add: identity_array_def)
  have ge: "?n \<le> length (canon_list b ?cs)" using length_canon_list [of ?cs b] by simp
  have coll: "acc_collection lim ?n 0 0 = Ok k \<longleftrightarrow> k = 1 \<and> 1 + ?n \<le> max_document_bytes lim" for k
    using head mx by (auto simp: acc_collection_Ok [of lim _ 0 0 _ 4])
  have parts: "map_result (encode b lim) ?cs = Ok (map (canon b) ?cs)"
    if "max_depth lim \<le> max_supported_depth" "\<forall>v \<in> set ?cs. 1 + vdepth v \<le> max_depth lim"
      "1 + length (canon_list b ?cs) \<le> max_document_bytes lim"
  proof (rule map_result_encode [OF pd(1) l fins that(1)], intro ballI conjI)
    fix v assume v: "v \<in> set ?cs"
    show "vdepth v \<le> max_depth lim" using v that(2) by auto
    have "length (canon b v) \<le> sum_list (map (\<lambda>v. length (canon b v)) ?cs)"
      using v by (intro member_le_sum_list) auto
    then show "length (canon b v) \<le> max_document_bytes lim"
      using that(3) by (simp only: canon_list_length)
  qed
  have depth: "vdepth (identity_array domain args) \<le> max_depth lim \<longleftrightarrow> (\<forall>v \<in> set ?cs. 1 + vdepth v \<le> max_depth lim)"
    using vdepth_list_le [of 0 ?cs "max_depth lim"] by (simp add: identity_array_def del: vdepth_list.simps)
  have ff: "finite_floats (identity_array domain args)" using fin by (simp add: identity_array_def)
  show ?thesis (is "?l \<longleftrightarrow> ?r")
  proof
    assume ?l
    then obtain n2 where v: "max_depth lim \<le> max_supported_depth" and c: "1 + ?n \<le> max_document_bytes lim"
      and f: "fold_result (\<lambda>child n. acc_value h lim child 1 n) ?cs 1 = Ok n2"
      and bs: "attempt (map_err IdCodec (map_result (encode b lim) ?cs)) (\<lambda>parts. Ok (char_of (0x80 OR ?n) # concat parts)) = Ok bs"
      using short coll by (auto simp: runtime_preimage_def Let_def acc_new_def max_supported_depth_def simp del: map_result.simps fold_result.simps)
    have acc: "\<forall>v \<in> set ?cs. 1 + vdepth v \<le> max_depth lim" "1 + length (canon_list b ?cs) \<le> max_document_bytes lim"
      using acc_children_Ok [OF h pd(2) mx fins, THEN iffD1, OF _ f] c by simp_all
    show ?r
      unfolding encode_Ok_iff [OF pd(1) l ff] canon depth
      using bs acc v parts [OF v acc] by (auto simp: canon_list_concat)
  next
    assume ?r
    have e: "max_depth lim \<le> max_supported_depth" "\<forall>v \<in> set ?cs. 1 + vdepth v \<le> max_depth lim"
        "1 + length (canon_list b ?cs) \<le> max_document_bytes lim" "bs = char_of (0x80 OR ?n) # canon_list b ?cs"
      using \<open>?r\<close> depth unfolding encode_Ok_iff [OF pd(1) l ff] canon by auto
    have f: "fold_result (\<lambda>child n. acc_value h lim child 1 n) ?cs 1 = Ok (1 + length (canon_list b ?cs))"
      using e ge by (subst acc_children_Ok [OF h pd(2) mx fins]) auto
    have "acc_collection lim ?n 0 0 = Ok 1" using e(3) ge coll by auto
    then show ?l
      using f parts [OF e(1-3)] e short
      by (simp add: runtime_preimage_def Let_def acc_new_def max_supported_depth_def canon_list_concat
          del: map_result.simps fold_result.simps)
  qed
qed

section \<open>Subjects\<close>

text \<open>Everything the runtime names, with the domain and arguments it hashes.\<close>

datatype subject =
  SubRoot run_id | SubChild invocation_id | SubIteration invocation_id u64 | SubExtendedRoot run_id u64
| SubInvocation scope_instance_id ident | SubEffect invocation_id | SubAttempt invocation_id u64
| SubInputWait invocation_id | SubApproval invocation_id u64
| SubNodeOutput invocation_id ident value_digest | SubRunInput run_id u64 ident value_digest
| SubRequest bytes bytes bytes "value"

definition subject_digest :: "hashing \<Rightarrow> limits \<Rightarrow> subject \<Rightarrow> (identity_error, digest) result" where
  "subject_digest H lim s =
     (case s of
        SubRoot r \<Rightarrow> attempt (scope_root H r lim) (\<lambda>x. Ok (scope_digest x))
      | SubChild i \<Rightarrow> attempt (scope_child H i lim) (\<lambda>x. Ok (scope_digest x))
      | SubIteration i n \<Rightarrow> attempt (scope_iteration H i n lim) (\<lambda>x. Ok (scope_digest x))
      | SubExtendedRoot r n \<Rightarrow> attempt (scope_extended_root H r n lim) (\<lambda>x. Ok (scope_digest x))
      | SubInvocation sc n \<Rightarrow> attempt (invocation_new H sc n lim) (\<lambda>x. Ok (invocation_digest x))
      | SubEffect i \<Rightarrow> effect_key H i lim
      | SubAttempt i n \<Rightarrow> attempt (attempt_new H i n lim) (\<lambda>x. Ok (attempt_digest x))
      | SubInputWait i \<Rightarrow> attempt (wait_input H i lim) (\<lambda>x. Ok (wait_digest x))
      | SubApproval i n \<Rightarrow> attempt (wait_approval H i n lim) (\<lambda>x. Ok (wait_digest x))
      | SubNodeOutput i p c \<Rightarrow> attempt (artifact_node_output H i p c lim) (\<lambda>x. Ok (artifact_digest x))
      | SubRunInput r n p c \<Rightarrow> attempt (artifact_run_input H r n p c lim) (\<lambda>x. Ok (artifact_digest x))
      | SubRequest c m t v \<Rightarrow> host_request_digest H c m t v lim)"

definition subject_counter :: "u64 \<Rightarrow> value" where
  "subject_counter n = VInteger n"

definition subject_array :: "subject \<Rightarrow> value" where
  "subject_array s =
     (case s of
        SubRoot r \<Rightarrow> identity_array ''root_scope'' [VText (run_name r)]
      | SubChild i \<Rightarrow> identity_array ''child_scope'' [id_name (invocation_digest i)]
      | SubIteration i n \<Rightarrow> identity_array ''iteration'' [id_name (invocation_digest i), subject_counter n]
      | SubExtendedRoot r n \<Rightarrow> identity_array ''extended_root'' [VText (run_name r), subject_counter n]
      | SubInvocation sc n \<Rightarrow> identity_array ''invocation'' [id_name (scope_digest sc), VText (as_str n)]
      | SubEffect i \<Rightarrow> identity_array ''effect'' [id_name (invocation_digest i)]
      | SubAttempt i n \<Rightarrow> identity_array ''attempt'' [id_name (invocation_digest i), subject_counter n]
      | SubInputWait i \<Rightarrow> identity_array ''wait'' [id_name (invocation_digest i), VText ''input'', subject_counter 0]
      | SubApproval i n \<Rightarrow> identity_array ''wait'' [id_name (invocation_digest i), VText ''approval'', subject_counter n]
      | SubNodeOutput i p c \<Rightarrow>
          identity_array ''artifact'' [id_name (invocation_digest i), VText (as_str p), id_name (content_digest c)]
      | SubRunInput r n p c \<Rightarrow>
          identity_array ''run_input'' [VText (run_name r), subject_counter n, VText (as_str p), id_name (content_digest c)]
      | SubRequest c m t v \<Rightarrow> identity_array ''host_request'' [VText c, VText m, VText t, v])"

lemma digest_display_inject [simp]: "digest_display d = digest_display d' \<longleftrightarrow> d = d'"
proof
  assume "digest_display d = digest_display d'"
  then have "parse_pairs (concat (map hex_byte (as_bytes d))) = parse_pairs (concat (map hex_byte (as_bytes d')))"
    by (simp add: digest_display_def)
  then show "d = d'" by (simp add: parse_pairs_hex digest.expand)
qed simp

lemma id_name_inject [simp]: "id_name d = id_name d' \<longleftrightarrow> d = d'"
  by (simp add: id_name_def)

lemma as_str_inject [simp]: "as_str i = as_str j \<longleftrightarrow> i = j"
  by (auto intro: ident.expand)

lemma subject_array_inject: "subject_array s = subject_array t \<longleftrightarrow> s = t"
  by (cases s; cases t)
    (auto simp: subject_array_def identity_array_def subject_counter_def id_name_def
      intro: run_id.expand invocation_id.expand scope_instance_id.expand value_digest.expand)

text \<open>A successful digest is the hash of the canonical encoding of the subject's array.\<close>

definition subject_values :: "subject \<Rightarrow> value list" where
  "subject_values s = (case s of SubRequest c m t v \<Rightarrow> [v] | _ \<Rightarrow> [])"

lemma id_counter_Ok: "id_counter n p = Ok v \<Longrightarrow> v = subject_counter n"
  by (auto simp: id_counter_def subject_counter_def i64_try_from_def split: if_splits)

lemma id_hash_array:
  assumes "cbor2_documented (cbor_backend H)" "half_documented (half_crate H) (cbor_backend H)" "usize_limits lim"
    and "\<forall>v \<in> set args. finite_floats v" "length args < 22" "id_hash H domain args lim = Ok d"
  shows "\<exists>bs. encode (cbor_backend H) lim (identity_array domain args) = Ok bs \<and> d = Digest (sha256 H bs)"
  using assms(6) runtime_preimage_Ok [OF assms(1-5)] by (auto simp: id_hash_def runtime_hash_def)

lemma subject_digest_array:
  assumes "cbor2_documented (cbor_backend H)" "half_documented (half_crate H) (cbor_backend H)" "usize_limits lim"
    and "\<forall>v \<in> set (subject_values s). finite_floats v" "subject_digest H lim s = Ok d"
  shows "\<exists>bs. encode (cbor_backend H) lim (subject_array s) = Ok bs \<and> d = Digest (sha256 H bs)"
proof -
  note hash = id_hash_array [OF assms(1-3)]
  show ?thesis
    using assms(4,5)
    by (cases s)
      (auto simp: subject_digest_def subject_array_def subject_values_def scope_root_def scope_child_def scope_iteration_def
        scope_extended_root_def invocation_new_def effect_key_def attempt_new_def wait_input_def wait_approval_def
        wait_for_purpose_def artifact_node_output_def artifact_run_input_def host_request_digest_def id_name_def
        dest!: id_counter_Ok simp: subject_counter_def dest!: hash [rotated 2])
qed

section \<open>The properties\<close>

text \<open>Hashing an identity in pieces is hashing one canonical array: the bytes fed to
  SHA-256 are available under the limits exactly when the complete array is encodable under
  them, and are then its encoding.\<close>

theorem preimage_encodes:
  assumes "cbor2_documented b" "half_documented h b" "usize_limits lim"
    and "\<forall>v \<in> set args. finite_floats v" "length args < 22"
  shows "runtime_preimage h b domain args lim = Ok bs \<longleftrightarrow> encode b lim (identity_array domain args) = Ok bs"
  using assms by (rule runtime_preimage_Ok)

theorem preimage_encodes_witness:
  "runtime_preimage ref_half reference ''attempt'' [VText ''x'', VInteger 1] default_limits =
    Ok (canon reference (identity_array ''attempt'' [VText ''x'', VInteger 1]))"
proof -
  have "encode reference default_limits (identity_array ''attempt'' [VText ''x'', VInteger 1]) =
      Ok (canon reference (identity_array ''attempt'' [VText ''x'', VInteger 1]))" by code_simp
  then show ?thesis
    by (subst preimage_encodes [OF reference_documented ref_half_documented usize_default_limits]) simp_all
qed

text \<open>C8. No two subjects of the runtime share a preimage: the digests of two subjects are
  hashes of byte strings that are equal only for the same subject.\<close>

theorem identities_separated:
  assumes "cbor2_documented (cbor_backend H)" "half_documented (half_crate H) (cbor_backend H)"
    and "usize_limits lim" "usize_limits lim'" "wf_value (subject_array s)" "wf_value (subject_array t)"
    and "subject_digest H lim s = Ok d" "subject_digest H lim' t = Ok e"
  shows "\<exists>p q. encode (cbor_backend H) lim (subject_array s) = Ok p \<and> d = Digest (sha256 H p) \<and>
    encode (cbor_backend H) lim' (subject_array t) = Ok q \<and> e = Digest (sha256 H q) \<and> (p = q \<longleftrightarrow> s = t)"
proof -
  let ?b = "cbor_backend H"
  have fin: "\<forall>v \<in> set (subject_values u). finite_floats v" if "wf_value (subject_array u)" for u
    using that by (cases u) (auto simp: subject_values_def subject_array_def identity_array_def intro: wf_value_finite_floats)
  obtain p where p: "encode ?b lim (subject_array s) = Ok p" "d = Digest (sha256 H p)"
    using subject_digest_array [OF assms(1-3) fin [OF assms(5)] assms(7)] by blast
  obtain q where q: "encode ?b lim' (subject_array t) = Ok q" "e = Digest (sha256 H q)"
    using subject_digest_array [OF assms(1,2,4) fin [OF assms(6)] assms(8)] by blast
  have pd: "push_documented ?b" using assms(1) by (simp add: cbor2_documented_def)
  note ps = p(1) [unfolded encode_Ok_iff [OF pd assms(3) wf_value_finite_floats [OF assms(5)]]]
    and qs = q(1) [unfolded encode_Ok_iff [OF pd assms(4) wf_value_finite_floats [OF assms(6)]]]
  have "p = q \<longleftrightarrow> s = t"
  proof
    assume "p = q"
    then have "subject_array s = subject_array t"
      using ps qs assms(3) by (intro canon_inject [OF assms(1,5,6)]) (auto simp: usize_limits_def)
    then show "s = t" by (simp add: subject_array_inject)
  qed (use ps qs in simp)
  then show ?thesis using p q by blast
qed

definition sample_hashing :: hashing where
  "sample_hashing = \<lparr>sha256 = rev, half_crate = ref_half, cbor_backend = reference\<rparr>"

theorem identities_separated_witness:
  "\<exists>p q. subject_digest sample_hashing default_limits (SubRoot (RunId ''r'')) = Ok (Digest (rev p)) \<and>
    subject_digest sample_hashing default_limits (SubExtendedRoot (RunId ''r'') 1) = Ok (Digest (rev q)) \<and> p \<noteq> q"
proof -
  let ?s = "SubRoot (RunId ''r'')" and ?t = "SubExtendedRoot (RunId ''r'') 1"
  have w: "wf_value (subject_array ?s)" "wf_value (subject_array ?t)" by code_simp+
  have d: "subject_digest sample_hashing default_limits ?s = Ok (Digest (rev (canon reference (subject_array ?s))))"
      "subject_digest sample_hashing default_limits ?t = Ok (Digest (rev (canon reference (subject_array ?t))))" by code_simp+
  have h: "cbor2_documented (cbor_backend sample_hashing)" "half_documented (half_crate sample_hashing) (cbor_backend sample_hashing)"
    using reference_documented ref_half_documented by (simp_all add: sample_hashing_def)
  show ?thesis
    using identities_separated [OF h usize_default_limits usize_default_limits w d] d
    by (auto simp: sample_hashing_def)
qed

end
