(* ===== verification/Graph.thy ===== *)
theory Graph
  imports Templates Options
begin

text \<open>
  Graph records, \<open>graph/mod.rs\<close> and \<open>graph/wire.rs\<close>: port tables, edges, operations, nodes
  and scopes, their record builder with its running charge, and their parsers.
\<close>

section \<open>Data\<close>

datatype port_table = PortTable (port_entries: "(ident \<times> vport) list")

datatype edge_source = SrcInput ident | SrcOutput ident ident | SrcCarried ident
datatype edge_destination = DstInput ident ident | DstOutput ident | DstNext ident

record edge =
  edge_id :: ident
  edge_source :: edge_source
  edge_destination :: edge_destination
  edge_guard :: expression

datatype operation =
  OpEval expression
| OpMcp digest retry_policy
| OpScope digest
| OpLoop digest "(ident \<times> ident) list" expression u64
| OpWait bytes u64

record node =
  node_id :: ident
  node_inputs :: port_table
  node_outputs :: port_table
  node_guard :: expression
  node_preconditions :: expression
  node_postconditions :: expression
  node_limits :: execution_limits
  node_operation :: operation

record scope =
  scope_inputs :: port_table
  scope_outputs :: port_table
  scope_carried :: port_table
  scope_nodes :: "node list"
  scope_edges :: "edge list"
  scope_preconditions :: expression
  scope_postconditions :: expression
  scope_limits :: execution_limits

datatype graph_error =
  GrCodec cbor_error | GrIdentifier parse_identifier_error | GrDigest parse_digest_error | GrType type_error
| GrExpression expression_error | GrOptions execution_options_error | GrInvalidShape bytes | GrMissingField bytes
| GrUnknownField bytes | GrUnknownOperation | GrInvalidBound bytes | GrReservedNodeName | GrInvalidScopeRole
| GrDuplicateId bytes | GrNonCanonicalOrder bytes | GrUnknownEndpoint bytes | GrInvalidPorts bytes
| GrLimitExceeded limit_kind nat | GrAllocationFailed

definition truth :: expression where
  "truth = ELiteral (LBoolean True)"

definition edge_new :: "ident \<Rightarrow> edge_source \<Rightarrow> edge_destination \<Rightarrow> edge" where
  "edge_new i s d = \<lparr>edge_id = i, edge_source = s, edge_destination = d, edge_guard = truth\<rparr>"

definition edge_with_guard :: "edge \<Rightarrow> expression \<Rightarrow> edge" where
  "edge_with_guard e g = e\<lparr>edge_guard := g\<rparr>"

definition node_fields_new :: "ident \<Rightarrow> operation \<Rightarrow> node" where
  "node_fields_new i op =
     \<lparr>node_id = i, node_inputs = PortTable [], node_outputs = PortTable [], node_guard = truth,
      node_preconditions = truth, node_postconditions = truth, node_limits = limits_new, node_operation = op\<rparr>"

definition scope_fields_default :: scope where
  "scope_fields_default =
     \<lparr>scope_inputs = PortTable [], scope_outputs = PortTable [], scope_carried = PortTable [],
      scope_nodes = [], scope_edges = [], scope_preconditions = truth, scope_postconditions = truth,
      scope_limits = limits_new\<rparr>"

definition ports_get :: "port_table \<Rightarrow> bytes \<Rightarrow> vport option" where
  "ports_get t name =
     map_option (\<lambda>i. snd (port_entries t ! i))
       (bsearch (\<lambda>i. cmp (as_str (fst (port_entries t ! i))) name) 0 (length (port_entries t)))"

definition ports_len :: "port_table \<Rightarrow> nat" where
  "ports_len t = length (port_entries t)"

section \<open>Reading helpers\<close>

definition gr_limit :: "encoding_limit_error \<Rightarrow> graph_error" where
  "gr_limit e = GrLimitExceeded (acc_limit e) (acc_maximum e)"

definition gr_array :: "value \<Rightarrow> bytes \<Rightarrow> (graph_error, value list) result" where
  "gr_array v site = (case v of VArray vs \<Rightarrow> Ok vs | _ \<Rightarrow> Err (GrInvalidShape site))"

definition gr_text :: "value \<Rightarrow> bytes \<Rightarrow> (graph_error, bytes) result" where
  "gr_text v site = (case v of VText s \<Rightarrow> Ok s | _ \<Rightarrow> Err (GrInvalidShape site))"

definition gr_id :: "value \<Rightarrow> (graph_error, ident) result" where
  "gr_id v = attempt (gr_text v ''identifier'') (\<lambda>s. map_err GrIdentifier (identifier_new s))"

definition gr_digest :: "value \<Rightarrow> (graph_error, digest) result" where
  "gr_digest v = attempt (gr_text v ''digest'') (\<lambda>s. map_err GrDigest (digest_from_str s))"

definition gr_arity :: "value list \<Rightarrow> nat \<Rightarrow> (graph_error, unit) result" where
  "gr_arity vs n = (if length vs = n then Ok () else Err (GrInvalidShape ''constructor arity''))"

definition gr_bound :: "u64 \<Rightarrow> bytes \<Rightarrow> (graph_error, i64) result" where
  "gr_bound n site = (if n = 0 \<or> unat n > 2 ^ 63 - 1 then Err (GrInvalidBound site) else Ok n)"

definition read_bound :: "value \<Rightarrow> bytes \<Rightarrow> (graph_error, u64) result" where
  "read_bound v site =
     (case v of VInteger n \<Rightarrow> if 0 <s n then Ok n else Err (GrInvalidBound site) | _ \<Rightarrow> Err (GrInvalidBound site))"

definition closed_record :: "value \<Rightarrow> bytes \<Rightarrow> bytes list \<Rightarrow> (graph_error, cbor_map) result" where
  "closed_record v name fs =
     (case v of
        VMap m \<Rightarrow>
          if \<exists>p \<in> set m. fst p \<notin> set fs then Err (GrUnknownField name)
          else (case find (\<lambda>f. map_get m f = None) fs of Some f \<Rightarrow> Err (GrMissingField f) | None \<Rightarrow> Ok m)
      | _ \<Rightarrow> Err (GrInvalidShape name))"

definition gr_field :: "cbor_map \<Rightarrow> bytes \<Rightarrow> (graph_error, value) result" where
  "gr_field m key = expect (map_get m key)"

section \<open>Builder\<close>

definition g_new :: "limits \<Rightarrow> (graph_error, nat) result" where
  "g_new lim = map_err GrCodec (acc_new lim)"

definition g_collection :: "limits \<Rightarrow> nat \<Rightarrow> nat \<Rightarrow> nat \<Rightarrow> (graph_error, nat) result" where
  "g_collection lim len d n = map_err gr_limit (acc_collection lim len d n)"

definition g_string :: "limits \<Rightarrow> bytes \<Rightarrow> nat \<Rightarrow> nat \<Rightarrow> (graph_error, bytes \<times> nat) result" where
  "g_string lim s d n = attempt (map_err gr_limit (acc_text lim s d n)) (\<lambda>n'. Ok (s, n'))"

definition g_text :: "limits \<Rightarrow> bytes \<Rightarrow> nat \<Rightarrow> nat \<Rightarrow> (graph_error, value \<times> nat) result" where
  "g_text lim s d n = attempt (g_string lim s d n) (\<lambda>(t, n'). Ok (VText t, n'))"

definition g_integer :: "limits \<Rightarrow> i64 \<Rightarrow> nat \<Rightarrow> nat \<Rightarrow> (graph_error, value \<times> nat) result" where
  "g_integer lim i d n = attempt (map_err gr_limit (acc_integer lim i d n)) (\<lambda>n'. Ok (VInteger i, n'))"

definition g_tag :: "limits \<Rightarrow> bytes \<Rightarrow> nat \<Rightarrow> nat \<Rightarrow> nat \<Rightarrow> (graph_error, value list \<times> nat) result" where
  "g_tag lim tag len d n =
     attempt (g_collection lim len d n) (\<lambda>n1.
     attempt (g_text lim tag (d + 1) n1) (\<lambda>(v, n2). Ok ([v], n2)))"

definition g_child :: "half \<Rightarrow> limits \<Rightarrow> value \<Rightarrow> nat \<Rightarrow> nat \<Rightarrow> (graph_error, value \<times> nat) result" where
  "g_child h lim v d n = attempt (map_err gr_limit (acc_value h lim v d n)) (\<lambda>n'. Ok (v, n'))"

definition g_expression :: "half \<Rightarrow> limits \<Rightarrow> expression \<Rightarrow> nat \<Rightarrow> nat \<Rightarrow> (graph_error, value \<times> nat) result" where
  "g_expression h lim e d n = attempt (map_err GrExpression (expression_value h lim e)) (\<lambda>v. g_child h lim v d n)"

definition g_limits :: "half \<Rightarrow> limits \<Rightarrow> execution_limits \<Rightarrow> nat \<Rightarrow> nat \<Rightarrow> (graph_error, value \<times> nat) result" where
  "g_limits h lim l d n = attempt (map_err GrOptions (limits_to_value lim l)) (\<lambda>v. g_child h lim v d n)"

text \<open>A key followed by what it maps to.\<close>

definition g_pair :: "limits \<Rightarrow> bytes \<Rightarrow> (nat \<Rightarrow> nat \<Rightarrow> (graph_error, value \<times> nat) result) \<Rightarrow> nat \<Rightarrow> nat \<Rightarrow>
    (graph_error, (bytes \<times> value) \<times> nat) result" where
  "g_pair lim key f d n =
     attempt (g_string lim key d n) (\<lambda>(k, n1). attempt (f d n1) (\<lambda>(v, n2). Ok ((k, v), n2)))"

definition g_map :: "(bytes \<times> value) list \<times> nat \<Rightarrow> (graph_error, value \<times> nat) result" where
  "g_map = (\<lambda>(entries, n). attempt (map_err GrCodec (map_try_from_entries entries)) (\<lambda>m. Ok (VMap m, n)))"

definition g_ports :: "half \<Rightarrow> limits \<Rightarrow> (ident \<times> vport) list \<Rightarrow> nat \<Rightarrow> nat \<Rightarrow> (graph_error, value \<times> nat) result" where
  "g_ports h lim entries d n =
     attempt (g_collection lim (length entries) d n) (\<lambda>n1.
     attempt (fold_collect (\<lambda>(name, p) k. g_pair lim (as_str name)
         (\<lambda>d n. attempt (map_err GrType (port_value ContextValue lim p)) (\<lambda>v. g_child h lim v d n)) (d + 1) k) entries n1) g_map)"

definition g_tagged_text :: "limits \<Rightarrow> bytes \<Rightarrow> bytes \<Rightarrow> nat \<Rightarrow> nat \<Rightarrow> (graph_error, value \<times> nat) result" where
  "g_tagged_text lim tag s d n =
     attempt (g_tag lim tag 2 d n) (\<lambda>(vs, n1).
     attempt (g_text lim s (d + 1) n1) (\<lambda>(v, n2). Ok (VArray (vs @ [v]), n2)))"

definition g_tagged_texts :: "limits \<Rightarrow> bytes \<Rightarrow> bytes \<Rightarrow> bytes \<Rightarrow> nat \<Rightarrow> nat \<Rightarrow> (graph_error, value \<times> nat) result" where
  "g_tagged_texts lim tag s t d n =
     attempt (g_tag lim tag 3 d n) (\<lambda>(vs, n1).
     attempt (g_text lim s (d + 1) n1) (\<lambda>(v, n2).
     attempt (g_text lim t (d + 1) n2) (\<lambda>(w, n3). Ok (VArray (vs @ [v, w]), n3))))"

definition g_source :: "limits \<Rightarrow> edge_source \<Rightarrow> nat \<Rightarrow> nat \<Rightarrow> (graph_error, value \<times> nat) result" where
  "g_source lim s d n =
     (case s of
        SrcInput i \<Rightarrow> g_tagged_text lim ''input'' (as_str i) d n
      | SrcCarried i \<Rightarrow> g_tagged_text lim ''carried'' (as_str i) d n
      | SrcOutput i p \<Rightarrow> g_tagged_texts lim ''output'' (as_str i) (as_str p) d n)"

definition g_destination :: "limits \<Rightarrow> edge_destination \<Rightarrow> nat \<Rightarrow> nat \<Rightarrow> (graph_error, value \<times> nat) result" where
  "g_destination lim t d n =
     (case t of
        DstOutput i \<Rightarrow> g_tagged_text lim ''output'' (as_str i) d n
      | DstNext i \<Rightarrow> g_tagged_text lim ''next'' (as_str i) d n
      | DstInput i p \<Rightarrow> g_tagged_texts lim ''input'' (as_str i) (as_str p) d n)"

text \<open>The pairs of a record with fixed fields, built one after the other.\<close>

fun g_pairs :: "limits \<Rightarrow> (bytes \<times> (nat \<Rightarrow> nat \<Rightarrow> (graph_error, value \<times> nat) result)) list \<Rightarrow> nat \<Rightarrow> nat \<Rightarrow>
    (graph_error, (bytes \<times> value) list \<times> nat) result" where
  "g_pairs lim [] d n = Ok ([], n)"
| "g_pairs lim ((key, f) # fs) d n =
     attempt (g_pair lim key f d n) (\<lambda>(p, n1). attempt (g_pairs lim fs d n1) (\<lambda>(ps, n2). Ok (p # ps, n2)))"

definition g_edge :: "half \<Rightarrow> limits \<Rightarrow> edge \<Rightarrow> nat \<Rightarrow> nat \<Rightarrow> (graph_error, value \<times> nat) result" where
  "g_edge h lim e d n =
     attempt (g_collection lim 4 d n) (\<lambda>n1.
     attempt (g_pairs lim
       [(''id'', g_text lim (as_str (edge_id e))),
        (''source'', g_source lim (edge_source e)),
        (''destination'', g_destination lim (edge_destination e)),
        (''guard'', g_expression h lim (edge_guard e))] (d + 1) n1) g_map)"

definition g_loop :: "half \<Rightarrow> limits \<Rightarrow> digest \<Rightarrow> (ident \<times> ident) list \<Rightarrow> expression \<Rightarrow> u64 \<Rightarrow> nat \<Rightarrow> nat \<Rightarrow>
    (graph_error, value \<times> nat) result" where
  "g_loop h lim body initializers until max_iterations d n =
     attempt (gr_bound max_iterations ''max_iterations'') (\<lambda>k.
     attempt (g_tag lim ''loop'' 5 d n) (\<lambda>(vs, n1).
     attempt (g_text lim (digest_display body) (d + 1) n1) (\<lambda>(v, n2).
     attempt (g_collection lim (length initializers) (d + 1) n2) (\<lambda>n3.
     attempt (fold_collect (\<lambda>(carried, input). g_pair lim (as_str carried) (g_text lim (as_str input)) (d + 2)) initializers n3)
       (\<lambda>es. attempt (g_map es) (\<lambda>(entries, n4).
     attempt (g_expression h lim until (d + 1) n4) (\<lambda>(u, n5).
     attempt (g_integer lim k (d + 1) n5) (\<lambda>(i, n6). Ok (VArray (vs @ [v, entries, u, i]), n6)))))))))"

definition g_operation :: "half \<Rightarrow> limits \<Rightarrow> operation \<Rightarrow> nat \<Rightarrow> nat \<Rightarrow> (graph_error, value \<times> nat) result" where
  "g_operation h lim op d n =
     (case op of
        OpEval e \<Rightarrow>
          attempt (g_tag lim ''eval'' 2 d n) (\<lambda>(vs, n1).
          attempt (g_expression h lim e (d + 1) n1) (\<lambda>(v, n2). Ok (VArray (vs @ [v]), n2)))
      | OpMcp binding retry \<Rightarrow>
          attempt (g_tag lim ''mcp'' 3 d n) (\<lambda>(vs, n1).
          attempt (g_text lim (digest_display binding) (d + 1) n1) (\<lambda>(v, n2).
          attempt (map_err GrOptions (retry_to_value lim retry)) (\<lambda>r.
          attempt (g_child h lim r (d + 1) n2) (\<lambda>(w, n3). Ok (VArray (vs @ [v, w]), n3)))))
      | OpScope s \<Rightarrow> g_tagged_text lim ''scope'' (digest_display s) d n
      | OpLoop body initializers until max_iterations \<Rightarrow> g_loop h lim body initializers until max_iterations d n
      | OpWait topic timeout \<Rightarrow>
          attempt (gr_bound timeout ''timeout_ms'') (\<lambda>k.
          attempt (g_tag lim ''wait'' 3 d n) (\<lambda>(vs, n1).
          attempt (g_text lim topic (d + 1) n1) (\<lambda>(v, n2).
          attempt (g_integer lim k (d + 1) n2) (\<lambda>(w, n3). Ok (VArray (vs @ [v, w]), n3))))))"

definition reserved_names :: "bytes list" where
  "reserved_names =
     [''inputs'', ''outputs'', ''carried'', ''next'', ''length'', ''present'', ''status'', ''error'', ''render'', ''mcp'', ''predicates'']"

definition validate_node :: "node \<Rightarrow> (graph_error, unit) result" where
  "validate_node f =
     (let is_eval = (case node_operation f of OpEval _ \<Rightarrow> True | _ \<Rightarrow> False);
          is_mcp = (case node_operation f of OpMcp _ _ \<Rightarrow> True | _ \<Rightarrow> False);
          is_wait = (case node_operation f of OpWait _ _ \<Rightarrow> True | _ \<Rightarrow> False)
      in if as_str (node_id f) \<in> set reserved_names then Err GrReservedNodeName
      else attempt
        (if is_eval \<or> is_mcp \<or> is_wait then
           (case ports_get (node_outputs f) ''value'' of
              None \<Rightarrow> Err (GrInvalidPorts ''primitive value output'')
            | Some p \<Rightarrow>
                if ports_len (node_outputs f) \<noteq> 1 \<or> (\<not> is_eval \<and> \<not> port_required p)
                then Err (GrInvalidPorts ''primitive value output'') else Ok ())
         else Ok ()) (\<lambda>_.
      if is_wait \<and> (ports_len (node_inputs f) \<noteq> 1 \<or>
          \<not> (case ports_get (node_inputs f) ''request'' of
               Some p \<Rightarrow> port_required p \<and> port_type p = TBuiltin BJson | None \<Rightarrow> False))
      then Err (GrInvalidPorts ''wait request input'')
      else if is_mcp \<and> ports_len (node_inputs f) \<noteq> 0 \<and>
          (ports_len (node_inputs f) \<noteq> 1 \<or>
           \<not> (case ports_get (node_inputs f) ''arguments'' of Some p \<Rightarrow> port_required p | None \<Rightarrow> False))
      then Err (GrInvalidPorts ''MCP arguments input'') else Ok ()))"

definition g_node :: "half \<Rightarrow> limits \<Rightarrow> node \<Rightarrow> nat \<Rightarrow> nat \<Rightarrow> (graph_error, value \<times> nat) result" where
  "g_node h lim f d n =
     attempt (validate_node f) (\<lambda>_.
     attempt (g_collection lim 8 d n) (\<lambda>n1.
     attempt (g_pairs lim
       [(''id'', g_text lim (as_str (node_id f))),
        (''inputs'', g_ports h lim (port_entries (node_inputs f))),
        (''outputs'', g_ports h lim (port_entries (node_outputs f))),
        (''guard'', g_expression h lim (node_guard f)),
        (''preconditions'', g_expression h lim (node_preconditions f)),
        (''postconditions'', g_expression h lim (node_postconditions f)),
        (''limits'', g_limits h lim (node_limits f)),
        (''operation'', g_operation h lim (node_operation f))] (d + 1) n1) g_map))"

definition g_list :: "limits \<Rightarrow> ('a \<Rightarrow> nat \<Rightarrow> nat \<Rightarrow> (graph_error, value \<times> nat) result) \<Rightarrow> 'a list \<Rightarrow> nat \<Rightarrow> nat \<Rightarrow>
    (graph_error, value \<times> nat) result" where
  "g_list lim f xs d n =
     attempt (g_collection lim (length xs) d n) (\<lambda>n1.
     attempt (fold_collect (\<lambda>x. f x (d + 1)) xs n1) (\<lambda>(vs, n2). Ok (VArray vs, n2)))"

definition g_scope :: "half \<Rightarrow> limits \<Rightarrow> scope \<Rightarrow> nat \<Rightarrow> nat \<Rightarrow> (graph_error, value \<times> nat) result" where
  "g_scope h lim f d n =
     attempt (g_collection lim 8 d n) (\<lambda>n1.
     attempt (g_pairs lim
       [(''inputs'', g_ports h lim (port_entries (scope_inputs f))),
        (''outputs'', g_ports h lim (port_entries (scope_outputs f))),
        (''carried'', g_ports h lim (port_entries (scope_carried f))),
        (''nodes'', g_list lim (g_node h lim) (scope_nodes f)),
        (''edges'', g_list lim (g_edge h lim) (scope_edges f)),
        (''preconditions'', g_expression h lim (scope_preconditions f)),
        (''postconditions'', g_expression h lim (scope_postconditions f)),
        (''limits'', g_limits h lim (scope_limits f))] (d + 1) n1) g_map)"

text \<open>The entry points start a charge at depth zero.\<close>

definition g_record :: "(nat \<Rightarrow> nat \<Rightarrow> (graph_error, value \<times> nat) result) \<Rightarrow> limits \<Rightarrow> (graph_error, value) result" where
  "g_record f lim = attempt (g_new lim) (\<lambda>n. attempt (f 0 n) (\<lambda>(v, _). Ok v))"

definition ports_to_value :: "half \<Rightarrow> limits \<Rightarrow> port_table \<Rightarrow> (graph_error, value) result" where
  "ports_to_value h lim t = g_record (g_ports h lim (port_entries t)) lim"

definition edge_to_value :: "half \<Rightarrow> limits \<Rightarrow> edge \<Rightarrow> (graph_error, value) result" where
  "edge_to_value h lim e = g_record (g_edge h lim e) lim"

definition operation_to_value :: "half \<Rightarrow> limits \<Rightarrow> operation \<Rightarrow> (graph_error, value) result" where
  "operation_to_value h lim op = g_record (g_operation h lim op) lim"

definition node_to_value :: "half \<Rightarrow> limits \<Rightarrow> node \<Rightarrow> (graph_error, value) result" where
  "node_to_value h lim f = g_record (g_node h lim f) lim"

definition scope_to_value :: "half \<Rightarrow> limits \<Rightarrow> scope \<Rightarrow> (graph_error, value) result" where
  "scope_to_value h lim f = g_record (g_scope h lim f) lim"

section \<open>Parsers\<close>

definition parse_ports :: "cbor2 \<Rightarrow> limits \<Rightarrow> value \<Rightarrow> (graph_error, port_table) result" where
  "parse_ports b lim v =
     (case v of
        VMap m \<Rightarrow>
          attempt (map_result (\<lambda>(key, x).
            attempt (map_err GrIdentifier (identifier_new key)) (\<lambda>i.
            attempt (map_err GrType (port_from_value b ContextValue lim x)) (\<lambda>p. Ok (i, p)))) m) (\<lambda>entries.
          Ok (PortTable (sort_key fst entries)))
      | _ \<Rightarrow> Err (GrInvalidShape ''port table''))"

definition parse_source :: "value \<Rightarrow> (graph_error, edge_source) result" where
  "parse_source v =
     attempt (gr_array v ''source'') (\<lambda>vs.
     attempt (case vs of x # _ \<Rightarrow> gr_text x ''source tag'' | [] \<Rightarrow> Err (GrInvalidShape ''source'')) (\<lambda>tag.
     attempt (gr_arity vs (if tag = ''output'' then 3 else 2)) (\<lambda>_.
     if tag = ''input'' then attempt (gr_id (vs ! 1)) (\<lambda>i. Ok (SrcInput i))
     else if tag = ''output'' then attempt (gr_id (vs ! 1)) (\<lambda>i. attempt (gr_id (vs ! 2)) (\<lambda>p. Ok (SrcOutput i p)))
     else if tag = ''carried'' then attempt (gr_id (vs ! 1)) (\<lambda>i. Ok (SrcCarried i))
     else Err (GrInvalidShape ''source tag''))))"

definition parse_destination :: "value \<Rightarrow> (graph_error, edge_destination) result" where
  "parse_destination v =
     attempt (gr_array v ''destination'') (\<lambda>vs.
     attempt (case vs of x # _ \<Rightarrow> gr_text x ''destination tag'' | [] \<Rightarrow> Err (GrInvalidShape ''destination'')) (\<lambda>tag.
     attempt (gr_arity vs (if tag = ''input'' then 3 else 2)) (\<lambda>_.
     if tag = ''output'' then attempt (gr_id (vs ! 1)) (\<lambda>i. Ok (DstOutput i))
     else if tag = ''input'' then attempt (gr_id (vs ! 1)) (\<lambda>i. attempt (gr_id (vs ! 2)) (\<lambda>p. Ok (DstInput i p)))
     else if tag = ''next'' then attempt (gr_id (vs ! 1)) (\<lambda>i. Ok (DstNext i))
     else Err (GrInvalidShape ''destination tag''))))"

definition gr_expression :: "cbor2 \<Rightarrow> limits \<Rightarrow> cbor_map \<Rightarrow> bytes \<Rightarrow> (graph_error, expression) result" where
  "gr_expression b lim m key =
     attempt (gr_field m key) (\<lambda>v. map_err GrExpression (expression_from_value b lim v))"

definition parse_edge :: "cbor2 \<Rightarrow> limits \<Rightarrow> value \<Rightarrow> (graph_error, edge) result" where
  "parse_edge b lim v =
     attempt (closed_record v ''edge'' [''destination'', ''guard'', ''id'', ''source'']) (\<lambda>m.
     attempt (attempt (gr_field m ''id'') gr_id) (\<lambda>i.
     attempt (attempt (gr_field m ''source'') parse_source) (\<lambda>s.
     attempt (attempt (gr_field m ''destination'') parse_destination) (\<lambda>t.
     attempt (gr_expression b lim m ''guard'') (\<lambda>g.
     Ok \<lparr>edge_id = i, edge_source = s, edge_destination = t, edge_guard = g\<rparr>)))))"

definition operation_arity :: "bytes \<Rightarrow> nat option" where
  "operation_arity tag =
     (if tag \<in> {''eval'', ''scope''} then Some 2 else if tag \<in> {''mcp'', ''wait''} then Some 3
      else if tag = ''loop'' then Some 5 else None)"

definition parse_initializers :: "value \<Rightarrow> (graph_error, (ident \<times> ident) list) result" where
  "parse_initializers v =
     (case v of
        VMap m \<Rightarrow>
          attempt (map_result (\<lambda>(key, x).
            attempt (map_err GrIdentifier (identifier_new key)) (\<lambda>c. attempt (gr_id x) (\<lambda>i. Ok (c, i)))) m) (\<lambda>es.
          Ok (sort_key fst es))
      | _ \<Rightarrow> Err (GrInvalidShape ''loop initializers''))"

definition parse_operation :: "cbor2 \<Rightarrow> limits \<Rightarrow> value \<Rightarrow> (graph_error, operation) result" where
  "parse_operation b lim v =
     attempt (gr_array v ''operation'') (\<lambda>vs.
     attempt (case vs of x # _ \<Rightarrow> gr_text x ''operation tag'' | [] \<Rightarrow> Err GrUnknownOperation) (\<lambda>tag.
     attempt (ok_or GrUnknownOperation (operation_arity tag)) (\<lambda>k.
     attempt (gr_arity vs k) (\<lambda>_.
     if tag = ''eval'' then attempt (map_err GrExpression (expression_from_value b lim (vs ! 1))) (\<lambda>e. Ok (OpEval e))
     else if tag = ''mcp'' then
       attempt (gr_digest (vs ! 1)) (\<lambda>d.
       attempt (map_err GrOptions (retry_from_value b lim (vs ! 2))) (\<lambda>r. Ok (OpMcp d r)))
     else if tag = ''scope'' then attempt (gr_digest (vs ! 1)) (\<lambda>d. Ok (OpScope d))
     else if tag = ''wait'' then
       attempt (gr_text (vs ! 1) ''wait topic'') (\<lambda>t. attempt (read_bound (vs ! 2) ''timeout_ms'') (\<lambda>k. Ok (OpWait t k)))
     else
       attempt (gr_digest (vs ! 1)) (\<lambda>d.
       attempt (parse_initializers (vs ! 2)) (\<lambda>es.
       attempt (map_err GrExpression (expression_from_value b lim (vs ! 3))) (\<lambda>u.
       attempt (read_bound (vs ! 4) ''max_iterations'') (\<lambda>k. Ok (OpLoop d es u k)))))))))"

definition parse_node :: "cbor2 \<Rightarrow> limits \<Rightarrow> value \<Rightarrow> (graph_error, node) result" where
  "parse_node b lim v =
     attempt (closed_record v ''node'' [''guard'', ''id'', ''inputs'', ''limits'', ''operation'', ''outputs'',
       ''postconditions'', ''preconditions'']) (\<lambda>m.
     attempt (attempt (gr_field m ''operation'') (parse_operation b lim)) (\<lambda>op.
     attempt (attempt (gr_field m ''id'') gr_id) (\<lambda>i.
     attempt (attempt (gr_field m ''inputs'') (parse_ports b lim)) (\<lambda>ins.
     attempt (attempt (gr_field m ''outputs'') (parse_ports b lim)) (\<lambda>outs.
     attempt (gr_expression b lim m ''guard'') (\<lambda>g.
     attempt (gr_expression b lim m ''preconditions'') (\<lambda>pre.
     attempt (gr_expression b lim m ''postconditions'') (\<lambda>post.
     attempt (attempt (gr_field m ''limits'') (\<lambda>x. map_err GrOptions (limits_from_value b lim x))) (\<lambda>l.
     let f = \<lparr>node_id = i, node_inputs = ins, node_outputs = outs, node_guard = g, node_preconditions = pre,
       node_postconditions = post, node_limits = l, node_operation = op\<rparr>
     in attempt (validate_node f) (\<lambda>_. Ok f))))))))))"

fun ordered_from :: "ident option \<Rightarrow> ident list \<Rightarrow> bytes \<Rightarrow> (graph_error, unit) result" where
  "ordered_from previous [] kind = Ok ()"
| "ordered_from previous (i # is) kind =
     (if previous = Some i then Err (GrDuplicateId kind)
      else if (case previous of Some old \<Rightarrow> old > i | None \<Rightarrow> False) then Err (GrNonCanonicalOrder kind)
      else ordered_from (Some i) is kind)"

definition ordered :: "ident list \<Rightarrow> bytes \<Rightarrow> (graph_error, unit) result" where
  "ordered = ordered_from None"

definition parse_scope :: "cbor2 \<Rightarrow> limits \<Rightarrow> bool \<Rightarrow> value \<Rightarrow> (graph_error, scope) result" where
  "parse_scope b lim canonicalise v =
     attempt (closed_record v ''scope'' [''carried'', ''edges'', ''inputs'', ''limits'', ''nodes'', ''outputs'',
       ''postconditions'', ''preconditions'']) (\<lambda>m.
     attempt (attempt (attempt (gr_field m ''nodes'') (\<lambda>x. gr_array x ''nodes'')) (map_result (parse_node b lim))) (\<lambda>ns.
     attempt (attempt (attempt (gr_field m ''edges'') (\<lambda>x. gr_array x ''edges'')) (map_result (parse_edge b lim))) (\<lambda>es.
     let nodes = (if canonicalise then sort_key node_id ns else ns);
         edges = (if canonicalise then sort_key edge_id es else es) in
     attempt (ordered (map node_id nodes) ''node'') (\<lambda>_.
     attempt (ordered (map edge_id edges) ''edge'') (\<lambda>_.
     attempt (attempt (gr_field m ''inputs'') (parse_ports b lim)) (\<lambda>ins.
     attempt (attempt (gr_field m ''outputs'') (parse_ports b lim)) (\<lambda>outs.
     attempt (attempt (gr_field m ''carried'') (parse_ports b lim)) (\<lambda>car.
     attempt (gr_expression b lim m ''preconditions'') (\<lambda>pre.
     attempt (gr_expression b lim m ''postconditions'') (\<lambda>post.
     attempt (attempt (gr_field m ''limits'') (\<lambda>x. map_err GrOptions (limits_from_value b lim x))) (\<lambda>l.
     Ok \<lparr>scope_inputs = ins, scope_outputs = outs, scope_carried = car, scope_nodes = nodes, scope_edges = edges,
       scope_preconditions = pre, scope_postconditions = post, scope_limits = l\<rparr>)))))))))))"

section \<open>The public operations\<close>

definition ports_new :: "half \<Rightarrow> cbor2 \<Rightarrow> (ident \<times> vport) list \<Rightarrow> limits \<Rightarrow> (graph_error, port_table) result" where
  "ports_new h b entries lim = attempt (ports_to_value h lim (PortTable entries)) (parse_ports b lim)"

definition ports_from_value :: "cbor2 \<Rightarrow> limits \<Rightarrow> value \<Rightarrow> (graph_error, port_table) result" where
  "ports_from_value b = record_from_value b GrCodec (parse_ports b)"

definition ports_encode :: "half \<Rightarrow> cbor2 \<Rightarrow> limits \<Rightarrow> port_table \<Rightarrow> (graph_error, bytes) result" where
  "ports_encode h b = record_encode b GrCodec (ports_to_value h)"

definition ports_decode :: "cbor2 \<Rightarrow> limits \<Rightarrow> bytes \<Rightarrow> (graph_error, port_table) result" where
  "ports_decode b = record_decode b GrCodec (parse_ports b)"

definition edge_from_value :: "cbor2 \<Rightarrow> limits \<Rightarrow> value \<Rightarrow> (graph_error, edge) result" where
  "edge_from_value b = record_from_value b GrCodec (parse_edge b)"

definition edge_encode :: "half \<Rightarrow> cbor2 \<Rightarrow> limits \<Rightarrow> edge \<Rightarrow> (graph_error, bytes) result" where
  "edge_encode h b = record_encode b GrCodec (edge_to_value h)"

definition edge_decode :: "cbor2 \<Rightarrow> limits \<Rightarrow> bytes \<Rightarrow> (graph_error, edge) result" where
  "edge_decode b = record_decode b GrCodec (parse_edge b)"

definition operation_from_value :: "cbor2 \<Rightarrow> limits \<Rightarrow> value \<Rightarrow> (graph_error, operation) result" where
  "operation_from_value b = record_from_value b GrCodec (parse_operation b)"

definition operation_encode :: "half \<Rightarrow> cbor2 \<Rightarrow> limits \<Rightarrow> operation \<Rightarrow> (graph_error, bytes) result" where
  "operation_encode h b = record_encode b GrCodec (operation_to_value h)"

definition operation_decode :: "cbor2 \<Rightarrow> limits \<Rightarrow> bytes \<Rightarrow> (graph_error, operation) result" where
  "operation_decode b = record_decode b GrCodec (parse_operation b)"

definition node_new :: "half \<Rightarrow> cbor2 \<Rightarrow> node \<Rightarrow> limits \<Rightarrow> (graph_error, node) result" where
  "node_new h b f lim = attempt (node_to_value h lim f) (parse_node b lim)"

definition node_from_value :: "cbor2 \<Rightarrow> limits \<Rightarrow> value \<Rightarrow> (graph_error, node) result" where
  "node_from_value b = record_from_value b GrCodec (parse_node b)"

definition node_encode :: "half \<Rightarrow> cbor2 \<Rightarrow> limits \<Rightarrow> node \<Rightarrow> (graph_error, bytes) result" where
  "node_encode h b = record_encode b GrCodec (node_to_value h)"

definition node_decode :: "cbor2 \<Rightarrow> limits \<Rightarrow> bytes \<Rightarrow> (graph_error, node) result" where
  "node_decode b = record_decode b GrCodec (parse_node b)"

definition node_digest ::
  "(bytes \<Rightarrow> bytes) \<Rightarrow> half \<Rightarrow> cbor2 \<Rightarrow> limits \<Rightarrow> node \<Rightarrow> (graph_error, digest) result" where
  "node_digest sha h b lim f = attempt (node_to_value h lim f) (\<lambda>v. map_err GrCodec (record_digest sha b KNode v lim))"

definition scope_new :: "half \<Rightarrow> cbor2 \<Rightarrow> scope \<Rightarrow> limits \<Rightarrow> (graph_error, scope) result" where
  "scope_new h b f lim = attempt (scope_to_value h lim f) (parse_scope b lim True)"

definition scope_from_value :: "cbor2 \<Rightarrow> limits \<Rightarrow> value \<Rightarrow> (graph_error, scope) result" where
  "scope_from_value b = record_from_value b GrCodec (\<lambda>lim. parse_scope b lim False)"

definition scope_encode :: "half \<Rightarrow> cbor2 \<Rightarrow> limits \<Rightarrow> scope \<Rightarrow> (graph_error, bytes) result" where
  "scope_encode h b = record_encode b GrCodec (scope_to_value h)"

definition scope_decode :: "cbor2 \<Rightarrow> limits \<Rightarrow> bytes \<Rightarrow> (graph_error, scope) result" where
  "scope_decode b = record_decode b GrCodec (\<lambda>lim. parse_scope b lim False)"

definition scope_record_digest ::
  "(bytes \<Rightarrow> bytes) \<Rightarrow> half \<Rightarrow> cbor2 \<Rightarrow> limits \<Rightarrow> scope \<Rightarrow> (graph_error, digest) result" where
  "scope_record_digest sha h b lim f = attempt (scope_to_value h lim f) (\<lambda>v. map_err GrCodec (record_digest sha b KScope v lim))"

end
