(* ===== verification/Failures.thy ===== *)
theory Failures
  imports Evaluator Options
begin

text \<open>
  \<open>failure.rs\<close>: the stable failure classification with its fixed spelling and message, its
  derivation from evaluation errors, and the redacted failure record; and
  \<open>execution/retry.rs\<close>, the pure retry decision.
\<close>

section \<open>Failure codes\<close>

datatype failure_code =
  FExecutable | FDigest | FRetentionExpired | FProfile | FInput | FBindingConflict | FDependency
| FOutputMissing | FExpression | FExpressionAbsent | FExpressionLimit | FPreconditions | FPostconditions
| FMcpIdentity | FMcpDescriptor | FMcpTransport | FMcpTimeout | FMcpProtocol | FMcpToolError
| FDeclaredContract | FInferredSchema | FApplicationSchema | FOutputSchema | FEffectUncertain | FWaitExpired
| FApprovalDenied | FPolicy | FBudget | FBudgetUnsupported | FTimeout | FLoopLimit | FExtensionConflict
| FExtension | FIdempotencyConflict | FCancelled | FFenced | FInvariant

primrec failure_as_str :: "failure_code \<Rightarrow> bytes" where
  "failure_as_str FExecutable = ''E_EXECUTABLE''"
| "failure_as_str FDigest = ''E_DIGEST''"
| "failure_as_str FRetentionExpired = ''E_RETENTION_EXPIRED''"
| "failure_as_str FProfile = ''E_PROFILE''"
| "failure_as_str FInput = ''E_INPUT''"
| "failure_as_str FBindingConflict = ''E_BINDING_CONFLICT''"
| "failure_as_str FDependency = ''E_DEPENDENCY''"
| "failure_as_str FOutputMissing = ''E_OUTPUT_MISSING''"
| "failure_as_str FExpression = ''E_EXPRESSION''"
| "failure_as_str FExpressionAbsent = ''E_EXPRESSION_ABSENT''"
| "failure_as_str FExpressionLimit = ''E_EXPRESSION_LIMIT''"
| "failure_as_str FPreconditions = ''E_PRECONDITIONS''"
| "failure_as_str FPostconditions = ''E_POSTCONDITIONS''"
| "failure_as_str FMcpIdentity = ''MCP_IDENTITY''"
| "failure_as_str FMcpDescriptor = ''MCP_DESCRIPTOR''"
| "failure_as_str FMcpTransport = ''MCP_TRANSPORT''"
| "failure_as_str FMcpTimeout = ''MCP_TIMEOUT''"
| "failure_as_str FMcpProtocol = ''MCP_PROTOCOL''"
| "failure_as_str FMcpToolError = ''MCP_TOOL_ERROR''"
| "failure_as_str FDeclaredContract = ''MCP_DECLARED_CONTRACT''"
| "failure_as_str FInferredSchema = ''MCP_INFERRED_SCHEMA''"
| "failure_as_str FApplicationSchema = ''MCP_APPLICATION_SCHEMA''"
| "failure_as_str FOutputSchema = ''E_OUTPUT_SCHEMA''"
| "failure_as_str FEffectUncertain = ''E_EFFECT_UNCERTAIN''"
| "failure_as_str FWaitExpired = ''E_WAIT_EXPIRED''"
| "failure_as_str FApprovalDenied = ''E_APPROVAL_DENIED''"
| "failure_as_str FPolicy = ''E_POLICY''"
| "failure_as_str FBudget = ''E_BUDGET''"
| "failure_as_str FBudgetUnsupported = ''E_BUDGET_UNSUPPORTED''"
| "failure_as_str FTimeout = ''E_TIMEOUT''"
| "failure_as_str FLoopLimit = ''E_LOOP_LIMIT''"
| "failure_as_str FExtensionConflict = ''E_EXTENSION_CONFLICT''"
| "failure_as_str FExtension = ''E_EXTENSION''"
| "failure_as_str FIdempotencyConflict = ''E_IDEMPOTENCY_CONFLICT''"
| "failure_as_str FCancelled = ''E_CANCELLED''"
| "failure_as_str FFenced = ''E_FENCED''"
| "failure_as_str FInvariant = ''E_INVARIANT''"

primrec failure_text :: "failure_code \<Rightarrow> bytes" where
  "failure_text FExecutable = ''The executable is invalid or unsupported.''"
| "failure_text FDigest = ''Recorded content failed integrity verification.''"
| "failure_text FRetentionExpired = ''The artifact expired under deployment retention policy.''"
| "failure_text FProfile = ''The exact required implementation is unavailable.''"
| "failure_text FInput = ''An input violates its declared boundary.''"
| "failure_text FBindingConflict = ''More than one candidate guard selected a binding.''"
| "failure_text FDependency = ''A selected dependency failed or was cancelled.''"
| "failure_text FOutputMissing = ''A required boundary value is absent.''"
| "failure_text FExpression = ''An expression could not be evaluated.''"
| "failure_text FExpressionAbsent = ''An expression required a value that was absent.''"
| "failure_text FExpressionLimit = ''The deterministic expression allowance was exhausted.''"
| "failure_text FPreconditions = ''The input precondition was false.''"
| "failure_text FPostconditions = ''The proposed result postcondition was false.''"
| "failure_text FMcpIdentity = ''The connected server differs from its pinned identity.''"
| "failure_text FMcpDescriptor = ''The live operation differs from its pinned descriptor.''"
| "failure_text FMcpTransport = ''The external transport failed.''"
| "failure_text FMcpTimeout = ''The external attempt deadline expired.''"
| "failure_text FMcpProtocol = ''The external response violates the pinned protocol.''"
| "failure_text FMcpToolError = ''The external tool returned an error.''"
| "failure_text FDeclaredContract = ''The external tool violated its advertised output contract.''"
| "failure_text FInferredSchema = ''The selected data violates an explicitly enforced inferred contract.''"
| "failure_text FApplicationSchema = ''The required normalized application data is absent or invalid.''"
| "failure_text FOutputSchema = ''A proposed output violates its declared boundary.''"
| "failure_text FEffectUncertain = ''External delivery is uncertain and replay is not authorized.''"
| "failure_text FWaitExpired = ''The external input wait expired.''"
| "failure_text FApprovalDenied = ''Exact-action approval was denied or expired.''"
| "failure_text FPolicy = ''Deployment authorization denied the requested action.''"
| "failure_text FBudget = ''The applicable execution budget is exhausted.''"
| "failure_text FBudgetUnsupported = ''The requested hard budget cannot be enforced.''"
| "failure_text FTimeout = ''The admitted execution deadline expired.''"
| "failure_text FLoopLimit = ''The loop did not terminate within its iteration bound.''"
| "failure_text FExtensionConflict = ''The expected active graph is stale.''"
| "failure_text FExtension = ''The proposed extension is not a legal additive installation.''"
| "failure_text FIdempotencyConflict = ''The idempotency key identifies a different request.''"
| "failure_text FCancelled = ''Execution was cancelled.''"
| "failure_text FFenced = ''The result belongs to stale execution authority.''"
| "failure_text FInvariant = ''Execution cannot satisfy a verified runtime invariant.''"

definition failure_codes :: "failure_code list" where
  "failure_codes =
    [FExecutable, FDigest, FRetentionExpired, FProfile, FInput, FBindingConflict, FDependency, FOutputMissing,
     FExpression, FExpressionAbsent, FExpressionLimit, FPreconditions, FPostconditions, FMcpIdentity,
     FMcpDescriptor, FMcpTransport, FMcpTimeout, FMcpProtocol, FMcpToolError, FDeclaredContract,
     FInferredSchema, FApplicationSchema, FOutputSchema, FEffectUncertain, FWaitExpired, FApprovalDenied,
     FPolicy, FBudget, FBudgetUnsupported, FTimeout, FLoopLimit, FExtensionConflict, FExtension,
     FIdempotencyConflict, FCancelled, FFenced, FInvariant]"

datatype failure_record_error = FrShape | FrEncoding encoding_limit_error | FrCodec cbor_error

definition failure_from_str :: "bytes \<Rightarrow> (failure_record_error, failure_code) result" where
  "failure_from_str s = ok_or FrShape (find (\<lambda>c. failure_as_str c = s) failure_codes)"

datatype failure_boundary = BoundaryExpression | BoundaryInput | BoundaryOutput

definition for_evaluation :: "evaluation_error \<Rightarrow> failure_boundary \<Rightarrow> failure_code" where
  "for_evaluation e boundary =
     (case e of
        EvUnavailableSource \<Rightarrow> FDependency
      | EvRegistry \<Rightarrow> FProfile
      | EvAbsentOperand \<Rightarrow> FExpressionAbsent
      | EvOperandType \<Rightarrow>
          (case boundary of BoundaryExpression \<Rightarrow> FExpression | BoundaryInput \<Rightarrow> FInput | BoundaryOutput \<Rightarrow> FOutputSchema)
      | _ \<Rightarrow> if evaluation_error_code e = ''E_EXPRESSION_LIMIT'' then FExpressionLimit else FExpression)"

section \<open>The redacted record\<close>

record runtime_failure =
  failure_kind :: failure_code
  failure_message :: bytes

definition failure_new :: "failure_code \<Rightarrow> runtime_failure" where
  "failure_new c = \<lparr>failure_kind = c, failure_message = failure_text c\<rparr>"

definition failure_to_value :: "limits \<Rightarrow> runtime_failure \<Rightarrow> (failure_record_error, value) result" where
  "failure_to_value lim f =
     attempt (map_err FrCodec (acc_new lim)) (\<lambda>n0.
     attempt (map_err FrEncoding (acc_collection lim 2 0 n0)) (\<lambda>n1.
     attempt (map_err FrEncoding (fold_result (\<lambda>t n. acc_text lim t 1 n)
       [''code'', failure_as_str (failure_kind f), ''message'', failure_message f] n1)) (\<lambda>_.
     map_err FrCodec (attempt (map_try_from_entries
       [(''code'', VText (failure_as_str (failure_kind f))), (''message'', VText (failure_message f))]) (\<lambda>m. Ok (VMap m))))))"

definition failure_from_value :: "half \<Rightarrow> limits \<Rightarrow> value \<Rightarrow> (failure_record_error, runtime_failure) result" where
  "failure_from_value h lim v =
     attempt (map_err FrCodec (acc_new lim)) (\<lambda>n0.
     attempt (map_err FrEncoding (acc_value h lim v 0 n0)) (\<lambda>_.
     case v of
       VMap fs \<Rightarrow>
         (case (map_get fs ''code'', map_get fs ''message'') of
            (Some (VText code), Some (VText message)) \<Rightarrow>
              if length fs \<noteq> 2 then Err FrShape
              else attempt (failure_from_str code) (\<lambda>c. Ok \<lparr>failure_kind = c, failure_message = message\<rparr>)
          | _ \<Rightarrow> Err FrShape)
     | _ \<Rightarrow> Err FrShape))"

section \<open>Retry eligibility\<close>

text \<open>\<open>err()\<close> of \<open>execution/model.rs\<close>, the runtime's invariant violation.\<close>

definition err_invariant :: runtime_failure where
  "err_invariant = failure_new FInvariant"

definition retryable :: "failure_code \<Rightarrow> bool" where
  "retryable c \<longleftrightarrow> c \<in> {FMcpTransport, FMcpTimeout, FMcpProtocol, FMcpToolError, FOutputSchema, FDeclaredContract,
     FInferredSchema, FApplicationSchema, FPostconditions}"

definition replay_delay ::
  "retry_policy \<Rightarrow> u64 \<Rightarrow> failure_code \<Rightarrow> bool \<Rightarrow> (runtime_failure, u64 option) result" where
  "replay_delay retry number failure replay_safe =
     (if number = 0 \<or> number > max_attempts retry then Err err_invariant
      else if \<not> retryable failure \<or> \<not> replay_safe \<or> number = max_attempts retry \<or>
        failure_as_str failure \<notin> set (retry_on retry) then Ok None
      else let index = unat (number - 1) in
        if index < length (backoff_ms retry) then Ok (Some (backoff_ms retry ! index)) else Err err_invariant)"

section \<open>Codes and their spelling\<close>

lemma failure_codes_complete: "c \<in> set failure_codes"
  by (cases c) (simp_all add: failure_codes_def)

lemma failure_as_str_distinct: "distinct (map failure_as_str failure_codes)"
  by code_simp

lemma failure_as_str_inject [simp]: "failure_as_str c = failure_as_str d \<longleftrightarrow> c = d"
  using failure_as_str_distinct failure_codes_complete by (auto simp: distinct_map inj_on_def)

lemma failure_from_str_Ok [simp]: "failure_from_str s = Ok c \<longleftrightarrow> s = failure_as_str c"
proof
  assume "failure_from_str s = Ok c"
  then show "s = failure_as_str c" by (auto simp: failure_from_str_def find_Some_iff)
next
  assume "s = failure_as_str c"
  then obtain d where "find (\<lambda>c. failure_as_str c = s) failure_codes = Some d"
    using failure_codes_complete by (cases "find (\<lambda>c. failure_as_str c = s) failure_codes") (auto simp: find_None_iff)
  moreover from this have "d = c" using \<open>s = failure_as_str c\<close> by (auto simp: find_Some_iff)
  ultimately show "failure_from_str s = Ok c" by (simp add: failure_from_str_def)
qed

section \<open>The record round trip\<close>

lemma failure_entries_canonical:
  "map_canonical [(''code'', VText c), (''message'', VText t)]"
  by (simp add: map_canonical_def canon_key_def)

lemma failure_to_value_Ok:
  "failure_to_value lim f = Ok v \<Longrightarrow>
    v = VMap [(''code'', VText (failure_as_str (failure_kind f))), (''message'', VText (failure_message f))]"
  by (auto simp: failure_to_value_def map_try_from_entries_id [OF failure_entries_canonical])

lemma failure_get:
  "map_get [(''code'', VText c), (''message'', VText t)] k = map_of [(''code'', VText c), (''message'', VText t)] k"
  by (rule map_get_map_of [OF failure_entries_canonical])

lemma failure_roundtrip:
  assumes "failure_to_value lim f = Ok v"
  shows "failure_from_value h lim v = Ok f"
proof -
  obtain n0 n1 n2 where "acc_new lim = Ok n0" "acc_collection lim 2 0 n0 = Ok n1"
    "fold_result (\<lambda>t n. acc_text lim t 1 n) [''code'', failure_as_str (failure_kind f), ''message'', failure_message f] n1 = Ok n2"
    using assms by (auto simp: failure_to_value_def)
  then show ?thesis
    unfolding failure_to_value_Ok [OF assms]
    by (auto simp: failure_from_value_def failure_get numeral_2_eq_2)
qed

section \<open>Retry decisions\<close>

lemma wf_retry_delays:
  assumes "wf_retry r"
  shows "unat (max_attempts r - 1) \<le> length (backoff_ms r)"
  using assms by (simp add: wf_retry_def unat_of_nat)

lemma replay_delay_decides:
  assumes "wf_retry r" "number \<noteq> 0" "number \<le> max_attempts r"
  shows "replay_delay r number failure safe =
    Ok (if retryable failure \<and> safe \<and> number < max_attempts r \<and> failure_as_str failure \<in> set (retry_on r)
        then Some (backoff_ms r ! unat (number - 1)) else None)"
proof -
  have "unat (number - 1) < length (backoff_ms r)" if "number < max_attempts r"
  proof -
    have "max_attempts r \<noteq> 0" using assms(1) by (simp add: wf_retry_def)
    then have "number - 1 < max_attempts r - 1"
      using that assms(2) unat_gt_0 [of number]
      by (simp add: word_less_nat_alt unat_minus_one diff_less_mono)
    then show ?thesis using wf_retry_delays [OF assms(1)] by (simp add: word_less_nat_alt)
  qed
  then show ?thesis using assms(2,3) by (auto simp: replay_delay_def Let_def)
qed

section \<open>The property\<close>

text \<open>C27. For a valid policy and an attempt number within it the retry decision is never an
  error: it grants the policy's delay for that attempt exactly when the failure is retryable and
  listed, replay is safe and attempts are left, so that a policy's retries always run out.\<close>

theorem retry_decision:
  assumes "wf_retry r" "number \<noteq> 0" "number \<le> max_attempts r"
  shows "replay_delay r number failure safe =
    Ok (if retryable failure \<and> safe \<and> number < max_attempts r \<and> failure_as_str failure \<in> set (retry_on r)
        then Some (backoff_ms r ! unat (number - 1)) else None)"
  using assms by (rule replay_delay_decides)

definition sample_retry :: retry_policy where
  "sample_retry = \<lparr>max_attempts = 3, retry_on = [''MCP_TIMEOUT''], backoff_ms = [10, 20]\<rparr>"

theorem retry_decision_witness:
  "replay_delay sample_retry 2 FMcpTimeout True = Ok (Some 20) \<and> replay_delay sample_retry 3 FMcpTimeout True = Ok None"
proof -
  have w: "wf_retry sample_retry" by code_simp
  show ?thesis
    using retry_decision [OF w, of 2 FMcpTimeout True] retry_decision [OF w, of 3 FMcpTimeout True]
    by (simp add: sample_retry_def retryable_def)
qed

end
