(* ===== verification/Runtime_Records.thy ===== *)
theory Runtime_Records
  imports Runtime_Identity Graph Failures
begin

text \<open>
  \<open>records.rs\<close>: the invocation and run lifecycles, security label sets, frozen input
  manifests with their checkpoint codec, and tagged host inputs.
\<close>

section \<open>Lifecycles\<close>

datatype invocation_status = InvPending | InvActive | InvSucceeded | InvFailed | InvSkipped | InvCancelled

definition invocation_terminal :: "invocation_status \<Rightarrow> bool" where
  "invocation_terminal s \<longleftrightarrow> \<not> (s = InvPending \<or> s = InvActive)"

primrec invocation_as_str :: "invocation_status \<Rightarrow> bytes" where
  "invocation_as_str InvPending = ''pending''"
| "invocation_as_str InvActive = ''active''"
| "invocation_as_str InvSucceeded = ''succeeded''"
| "invocation_as_str InvFailed = ''failed''"
| "invocation_as_str InvSkipped = ''skipped''"
| "invocation_as_str InvCancelled = ''cancelled''"

definition invocation_can_transition :: "invocation_status \<Rightarrow> invocation_status \<Rightarrow> bool" where
  "invocation_can_transition s t \<longleftrightarrow>
     (s = InvPending \<and> (t = InvActive \<or> t = InvSkipped \<or> t = InvFailed \<or> t = InvCancelled)) \<or>
     (s = InvActive \<and> (t = InvSucceeded \<or> t = InvFailed \<or> t = InvCancelled))"

datatype run_status = RunRunning | RunSucceeded | RunFailed | RunCancelled

definition run_terminal :: "run_status \<Rightarrow> bool" where
  "run_terminal s \<longleftrightarrow> \<not> s = RunRunning"

primrec run_as_str :: "run_status \<Rightarrow> bytes" where
  "run_as_str RunRunning = ''running''"
| "run_as_str RunSucceeded = ''succeeded''"
| "run_as_str RunFailed = ''failed''"
| "run_as_str RunCancelled = ''cancelled''"

definition run_can_transition :: "run_status \<Rightarrow> run_status \<Rightarrow> bool" where
  "run_can_transition s t \<longleftrightarrow> s = RunRunning \<and> run_terminal t"

section \<open>Security labels\<close>

datatype runtime_record_error =
  RrManifest | RrInput | RrIntegrity | RrCodec cbor_error | RrEncoding encoding_limit_error
| RrIdentity identity_error | RrType type_error

datatype security_labels = SecurityLabels (labels: "bytes list")

definition rr_new :: "limits \<Rightarrow> (runtime_record_error, nat) result" where
  "rr_new lim = map_err RrCodec (acc_new lim)"

definition rr_collection :: "limits \<Rightarrow> nat \<Rightarrow> nat \<Rightarrow> nat \<Rightarrow> (runtime_record_error, nat) result" where
  "rr_collection lim len d n = map_err RrEncoding (acc_collection lim len d n)"

definition rr_texts :: "limits \<Rightarrow> bytes list \<Rightarrow> nat \<Rightarrow> nat \<Rightarrow> (runtime_record_error, nat) result" where
  "rr_texts lim ts d n = map_err RrEncoding (fold_result (\<lambda>t k. acc_text lim t d k) ts n)"

definition rr_value :: "half \<Rightarrow> limits \<Rightarrow> value \<Rightarrow> nat \<Rightarrow> nat \<Rightarrow> (runtime_record_error, nat) result" where
  "rr_value h lim v d n = map_err RrEncoding (acc_value h lim v d n)"

definition rr_map :: "(bytes \<times> value) list \<Rightarrow> (runtime_record_error, value) result" where
  "rr_map es = attempt (map_err RrCodec (map_try_from_entries es)) (\<lambda>m. Ok (VMap m))"

definition labels_new :: "bytes list \<Rightarrow> limits \<Rightarrow> (runtime_record_error, security_labels) result" where
  "labels_new ls lim =
     attempt (rr_new lim) (\<lambda>n0.
     attempt (rr_collection lim (length ls) 0 n0) (\<lambda>n1.
     attempt (rr_texts lim ls 1 n1) (\<lambda>_. Ok (SecurityLabels (remdups_adj (sort ls))))))"

definition labels_to_value :: "security_labels \<Rightarrow> limits \<Rightarrow> (runtime_record_error, value) result" where
  "labels_to_value s lim =
     attempt (rr_new lim) (\<lambda>n0.
     attempt (rr_collection lim (length (labels s)) 0 n0) (\<lambda>n1.
     attempt (rr_texts lim (labels s) 1 n1) (\<lambda>_. Ok (VArray (map VText (labels s))))))"

fun read_labels :: "bytes option \<Rightarrow> value list \<Rightarrow> (runtime_record_error, bytes list) result" where
  "read_labels previous [] = Ok []"
| "read_labels previous (v # vs) =
     (case v of
        VText l \<Rightarrow>
          if (case previous of Some p \<Rightarrow> l \<le> p | None \<Rightarrow> False) then Err RrManifest
          else attempt (read_labels (Some l) vs) (\<lambda>ls. Ok (l # ls))
      | _ \<Rightarrow> Err RrManifest)"

definition labels_from_value :: "half \<Rightarrow> value \<Rightarrow> limits \<Rightarrow> (runtime_record_error, security_labels) result" where
  "labels_from_value h v lim =
     attempt (rr_new lim) (\<lambda>n0.
     attempt (rr_value h lim v 0 n0) (\<lambda>_.
     case v of
       VArray vs \<Rightarrow> attempt (read_labels None vs) (\<lambda>ls. Ok (SecurityLabels ls))
     | _ \<Rightarrow> Err RrManifest))"

definition labels_digest :: "hashing \<Rightarrow> security_labels \<Rightarrow> limits \<Rightarrow> (runtime_record_error, digest) result" where
  "labels_digest H s lim =
     attempt (labels_to_value s lim) (\<lambda>v. map_err RrIdentity (id_hash H ''security_labels'' [v] lim))"

text \<open>The merge of two sorted sets, charging each distinct label before it is copied.\<close>

function (sequential) merge_labels :: "limits \<Rightarrow> nat \<Rightarrow> bytes list \<Rightarrow> bytes list \<Rightarrow> (runtime_record_error, bytes list) result" where
  "merge_labels lim n [] [] = Ok []"
| "merge_labels lim n (x # xs) (y # ys) =
     (case cmp x y of
        Less \<Rightarrow> attempt (map_err RrEncoding (acc_text lim x 1 n)) (\<lambda>n'.
          attempt (merge_labels lim n' xs (y # ys)) (\<lambda>ls. Ok (x # ls)))
      | Greater \<Rightarrow> attempt (map_err RrEncoding (acc_text lim y 1 n)) (\<lambda>n'.
          attempt (merge_labels lim n' (x # xs) ys) (\<lambda>ls. Ok (y # ls)))
      | Equal \<Rightarrow> attempt (map_err RrEncoding (acc_text lim x 1 n)) (\<lambda>n'.
          attempt (merge_labels lim n' xs ys) (\<lambda>ls. Ok (x # ls))))"
| "merge_labels lim n (x # xs) [] =
     attempt (map_err RrEncoding (acc_text lim x 1 n)) (\<lambda>n'. attempt (merge_labels lim n' xs []) (\<lambda>ls. Ok (x # ls)))"
| "merge_labels lim n [] (y # ys) =
     attempt (map_err RrEncoding (acc_text lim y 1 n)) (\<lambda>n'. attempt (merge_labels lim n' [] ys) (\<lambda>ls. Ok (y # ls)))"
  by pat_completeness auto
termination
  by (relation "measure (\<lambda>(lim, n, xs, ys). length xs + length ys)") auto

definition labels_union :: "security_labels \<Rightarrow> security_labels \<Rightarrow> limits \<Rightarrow> (runtime_record_error, security_labels) result" where
  "labels_union a b lim =
     attempt (rr_new lim) (\<lambda>n.
     attempt (merge_labels lim n (labels a) (labels b)) (\<lambda>ls. labels_new ls lim))"

definition labels_combine :: "security_labels list \<Rightarrow> limits \<Rightarrow> (runtime_record_error, security_labels) result" where
  "labels_combine sets lim =
     attempt (rr_new lim) (\<lambda>n0.
     attempt (fold_result (\<lambda>s n. attempt (rr_collection lim (length (labels s)) 0 n) (rr_texts lim (labels s) 1)) sets n0) (\<lambda>_.
     labels_new (concat (map labels sets)) lim))"

section \<open>Input manifests\<close>

datatype manifest_entry = EntryValue artifact_id value_digest security_labels | EntryAbsent

record input_manifest =
  manifest_entries :: "(ident \<times> manifest_entry) list"
  manifest_influence :: security_labels
  manifest_hash :: digest

definition entry_value :: "half \<Rightarrow> manifest_entry \<Rightarrow> bool \<Rightarrow> limits \<Rightarrow> (runtime_record_error, value) result" where
  "entry_value h entry metadata lim =
     attempt (case entry of
         EntryValue artifact content ls \<Rightarrow>
           (let es = [(''state'', VText ''value''), (''artifact_id'', VText (digest_display (artifact_digest artifact)))] in
            if metadata then attempt (labels_to_value ls lim) (\<lambda>lv.
              Ok (es @ [(''content_digest'', VText (digest_display (content_digest content))), (''security_labels'', lv)]))
            else Ok es)
       | EntryAbsent \<Rightarrow> Ok [(''state'', VText ''absent'')]) (\<lambda>es.
     attempt (rr_map es) (\<lambda>v.
     attempt (rr_new lim) (\<lambda>n.
     attempt (rr_value h lim v 0 n) (\<lambda>_. Ok v))))"

text \<open>The charge of the metadata before sorting.\<close>

definition entries_charge :: "half \<Rightarrow> limits \<Rightarrow> (ident \<times> manifest_entry) list \<Rightarrow> (runtime_record_error, nat) result" where
  "entries_charge h lim entries =
     attempt (rr_new lim) (\<lambda>n0.
     attempt (rr_collection lim (length entries) 0 n0) (\<lambda>n1.
     fold_result (\<lambda>(name, entry) n.
       attempt (rr_collection lim 2 1 n) (\<lambda>n2.
       attempt (rr_texts lim [as_str name] 2 n2) (\<lambda>n3.
       attempt (entry_value h entry True lim) (\<lambda>v. rr_value h lim v 2 n3)))) entries n1))"

definition entry_labels :: "manifest_entry \<Rightarrow> security_labels list" where
  "entry_labels entry = (case entry of EntryValue _ _ ls \<Rightarrow> [ls] | EntryAbsent \<Rightarrow> [])"

definition inventory_item ::
  "hashing \<Rightarrow> limits \<Rightarrow> (ident \<times> manifest_entry) \<times> (ident \<times> vport) \<Rightarrow> nat \<Rightarrow> (runtime_record_error, value \<times> nat) result" where
  "inventory_item H lim = (\<lambda>((name, entry), (declared, p)) n.
     if name \<noteq> declared \<or> (port_required p \<and> entry = EntryAbsent) then Err RrManifest
     else attempt (map_err RrType (port_value ContextValue lim p)) (\<lambda>pv.
       let es = [(''name'', VText (as_str name)), (''port'', pv)] in
       attempt (case entry of
           EntryValue _ content ls \<Rightarrow>
             attempt (labels_digest H ls lim) (\<lambda>ld.
             Ok (es @ [(''state'', VText ''value''), (''content_digest'', VText (digest_display (content_digest content))),
               (''label_digest'', VText (digest_display ld))]))
         | EntryAbsent \<Rightarrow> Ok (es @ [(''state'', VText ''absent'')])) (\<lambda>es'.
       attempt (rr_map es') (\<lambda>v.
       attempt (rr_value (half_crate H) lim v 1 n) (\<lambda>n'. Ok (v, n'))))))"

definition manifest_freeze ::
  "hashing \<Rightarrow> port_table \<Rightarrow> (ident \<times> manifest_entry) list \<Rightarrow> security_labels \<Rightarrow> limits \<Rightarrow>
    (runtime_record_error, input_manifest) result" where
  "manifest_freeze H ports entries0 influence0 lim =
     attempt (entries_charge (half_crate H) lim entries0) (\<lambda>n.
     let entries = sort_key fst entries0 in
     if length entries \<noteq> ports_len ports then Err RrManifest
     else attempt (labels_combine (influence0 # concat (map (\<lambda>(_, entry). entry_labels entry) entries)) lim) (\<lambda>influence.
     attempt (fold_collect (inventory_item H lim) (zip entries (port_entries ports)) n) (\<lambda>(inventory, _).
     attempt (labels_digest H influence lim) (\<lambda>d.
     attempt (map_err RrIdentity (id_hash H ''input'' [VArray inventory, VText (digest_display d)] lim)) (\<lambda>hash.
     Ok \<lparr>manifest_entries = entries, manifest_influence = influence, manifest_hash = hash\<rparr>)))))"

definition manifest_to_value :: "half \<Rightarrow> input_manifest \<Rightarrow> limits \<Rightarrow> (runtime_record_error, value) result" where
  "manifest_to_value h m lim =
     attempt (rr_new lim) (\<lambda>n0.
     attempt (rr_collection lim (length (manifest_entries m)) 0 n0) (\<lambda>n1.
     attempt (fold_collect (\<lambda>(name, entry) n.
       attempt (rr_texts lim [as_str name] 1 n) (\<lambda>n2.
       attempt (entry_value h entry False lim) (\<lambda>v.
       attempt (rr_value h lim v 1 n2) (\<lambda>n3. Ok ((as_str name, v), n3))))) (manifest_entries m) n1) (\<lambda>(es, _).
     rr_map es)))"

definition manifest_encode :: "half \<Rightarrow> cbor2 \<Rightarrow> input_manifest \<Rightarrow> limits \<Rightarrow> (runtime_record_error, bytes) result" where
  "manifest_encode h b m lim =
     attempt (rr_new lim) (\<lambda>n0.
     attempt (rr_collection lim 4 0 n0) (\<lambda>n1.
     attempt (rr_texts lim [''record_version'', ''0.1'', ''input_hash'', digest_display (manifest_hash m)] 1 n1) (\<lambda>n2.
     attempt (rr_texts lim [''influence_labels''] 1 n2) (\<lambda>n3.
     attempt (labels_to_value (manifest_influence m) lim) (\<lambda>influence.
     attempt (rr_value h lim influence 1 n3) (\<lambda>n4.
     attempt (rr_texts lim [''entries''] 1 n4) (\<lambda>n5.
     attempt (rr_collection lim (length (manifest_entries m)) 1 n5) (\<lambda>n6.
     attempt (fold_collect (\<lambda>(name, entry) n.
       attempt (rr_texts lim [as_str name] 2 n) (\<lambda>k2.
       attempt (entry_value h entry True lim) (\<lambda>v.
       attempt (rr_value h lim v 2 k2) (\<lambda>k3. Ok ((as_str name, v), k3))))) (manifest_entries m) n6) (\<lambda>(es, _).
     attempt (rr_map es) (\<lambda>ev.
     attempt (rr_map [(''record_version'', VText ''0.1''), (''input_hash'', VText (digest_display (manifest_hash m))),
       (''influence_labels'', influence), (''entries'', ev)]) (\<lambda>v.
     map_err RrCodec (encode b lim v))))))))))))"

definition parse_entry :: "half \<Rightarrow> limits \<Rightarrow> value \<Rightarrow> (runtime_record_error, manifest_entry) result" where
  "parse_entry h lim v =
     (case v of
        VMap fs \<Rightarrow>
          if map_get fs ''state'' = Some (VText ''absent'') \<and> length fs = 1 then Ok EntryAbsent
          else if map_get fs ''state'' = Some (VText ''value'') \<and> length fs = 4 then
            (case (map_get fs ''artifact_id'', map_get fs ''content_digest'', map_get fs ''security_labels'') of
               (Some (VText artifact), Some (VText content), Some ls) \<Rightarrow>
                 attempt (map_err (\<lambda>_. RrManifest) (artifact_id_from_str artifact)) (\<lambda>a.
                 attempt (map_err (\<lambda>_. RrManifest) (value_digest_from_str content)) (\<lambda>c.
                 attempt (labels_from_value h ls lim) (\<lambda>l. Ok (EntryValue a c l))))
             | _ \<Rightarrow> Err RrManifest)
          else Err RrManifest
      | _ \<Rightarrow> Err RrManifest)"

definition checkpoint_fields :: "value \<Rightarrow> (cbor_map \<times> value \<times> bytes) option" where
  "checkpoint_fields v =
     (case v of
        VMap r \<Rightarrow>
          if length r \<noteq> 4 \<or> map_get r ''record_version'' \<noteq> Some (VText ''0.1'') then None
          else (case (map_get r ''entries'', map_get r ''influence_labels'', map_get r ''input_hash'') of
              (Some (VMap es), Some il, Some (VText expected)) \<Rightarrow> Some (es, il, expected)
            | _ \<Rightarrow> None)
      | _ \<Rightarrow> None)"

definition manifest_decode ::
  "hashing \<Rightarrow> bytes \<Rightarrow> port_table \<Rightarrow> limits \<Rightarrow> (runtime_record_error, input_manifest) result" where
  "manifest_decode H bs ports lim =
     attempt (map_err RrCodec (decode (cbor_backend H) lim bs)) (\<lambda>v.
     attempt (ok_or RrManifest (checkpoint_fields v)) (\<lambda>(es, il, expected).
     attempt (labels_from_value (half_crate H) il lim) (\<lambda>influence.
     attempt (map_result (\<lambda>(name, x).
       attempt (parse_entry (half_crate H) lim x) (\<lambda>entry.
       attempt (map_err (\<lambda>_. RrManifest) (identifier_new name)) (\<lambda>i. Ok (i, entry)))) es) (\<lambda>parsed.
     attempt (map_err (\<lambda>_. RrManifest) (digest_from_str expected)) (\<lambda>d.
     attempt (manifest_freeze H ports parsed influence lim) (\<lambda>m.
     if manifest_hash m \<noteq> d \<or> manifest_influence m \<noteq> influence then Err RrIntegrity else Ok m))))))"

section \<open>Host inputs\<close>

datatype source_state = SsPending | SsValue artifact_id | SsAbsent | SsUnavailable runtime_failure

datatype input_value = InlineValue "value" | ArtifactValue artifact_id

definition input_from_value :: "half \<Rightarrow> value \<Rightarrow> limits \<Rightarrow> (runtime_record_error, input_value) result" where
  "input_from_value h v lim =
     attempt (rr_new lim) (\<lambda>n.
     attempt (rr_value h lim v 0 n) (\<lambda>_.
     case v of
       VMap fs \<Rightarrow>
         if length fs \<noteq> 2 then Err RrInput
         else if map_get fs ''kind'' = Some (VText ''inline'') then
           attempt (ok_or RrInput (map_get fs ''value'')) (\<lambda>x. Ok (InlineValue x))
         else if map_get fs ''kind'' = Some (VText ''artifact'') then
           (case map_get fs ''artifact_id'' of
              Some (VText s) \<Rightarrow> attempt (map_err (\<lambda>_. RrInput) (artifact_id_from_str s)) (\<lambda>a. Ok (ArtifactValue a))
            | _ \<Rightarrow> Err RrInput)
         else Err RrInput
     | _ \<Rightarrow> Err RrInput))"

definition input_to_value :: "half \<Rightarrow> input_value \<Rightarrow> limits \<Rightarrow> (runtime_record_error, value) result" where
  "input_to_value h i lim =
     attempt (rr_new lim) (\<lambda>n0.
     attempt (rr_collection lim 2 0 n0) (\<lambda>n1.
     attempt (rr_texts lim [''kind''] 1 n1) (\<lambda>n2.
     case i of
       InlineValue v \<Rightarrow>
         attempt (rr_texts lim [''inline'', ''value''] 1 n2) (\<lambda>n3.
         attempt (rr_value h lim v 1 n3) (\<lambda>_. rr_map [(''kind'', VText ''inline''), (''value'', v)]))
     | ArtifactValue a \<Rightarrow>
         attempt (rr_texts lim [''artifact'', ''artifact_id'', digest_display (artifact_digest a)] 1 n2) (\<lambda>_.
         rr_map [(''kind'', VText ''artifact''), (''artifact_id'', VText (digest_display (artifact_digest a)))]))))"

section \<open>Lifecycles as step relations\<close>

text \<open>The lifecycle the specification draws: admission, then exactly one outcome.\<close>

inductive invocation_step :: "invocation_status \<Rightarrow> invocation_status \<Rightarrow> bool" where
  admit: "invocation_step InvPending InvActive"
| skip: "invocation_step InvPending InvSkipped"
| refuse: "invocation_step InvPending InvFailed"
| withdraw: "invocation_step InvPending InvCancelled"
| succeed: "invocation_step InvActive InvSucceeded"
| fail: "invocation_step InvActive InvFailed"
| cancel: "invocation_step InvActive InvCancelled"

inductive_cases invocation_stepE: "invocation_step s t"

inductive_simps invocation_step_from [simp]:
  "invocation_step InvPending t" "invocation_step InvActive t" "invocation_step InvSucceeded t"
  "invocation_step InvFailed t" "invocation_step InvSkipped t" "invocation_step InvCancelled t"

lemma invocation_can_transition_step: "invocation_can_transition s t \<longleftrightarrow> invocation_step s t"
  by (cases s) (auto simp: invocation_can_transition_def)

definition stage :: "invocation_status \<Rightarrow> nat" where
  "stage s = (if s = InvPending then 0 else if s = InvActive then 1 else 2)"

lemma stage_step: "invocation_step s t \<Longrightarrow> stage s < stage t"
  by (erule invocation_stepE) (simp_all add: stage_def)

lemma stage_steps: "(invocation_step ^^ n) s t \<Longrightarrow> stage s + n \<le> stage t"
proof (induction n arbitrary: t)
  case (Suc n)
  then obtain u where "(invocation_step ^^ n) s u" "invocation_step u t" by auto
  then show ?case using Suc.IH [of u] stage_step [of u t] by simp
qed simp

lemma stage_bound: "stage s \<le> 2" "stage s = 2 \<longleftrightarrow> invocation_terminal s"
  by (auto simp: stage_def invocation_terminal_def)

section \<open>Label sets\<close>

lemma labels_new_Ok: "labels_new ls lim = Ok s \<Longrightarrow> labels s = sorted_list_of_set (set ls)"
  by (auto simp: labels_new_def remdups_adj_sort)

lemma merge_labels_set: "merge_labels lim n xs ys = Ok ls \<Longrightarrow> set ls = set xs \<union> set ys"
proof (induction lim n xs ys arbitrary: ls rule: merge_labels.induct)
  case (2 lim n x xs y ys)
  show ?case
  proof (cases "cmp x y")
    case Less
    with "2.prems" "2.IH"(1) show ?thesis by fastforce
  next
    case Equal
    then have "x = y" by simp
    obtain n' ls' where "map_err RrEncoding (acc_text lim x 1 n) = Ok n'" "merge_labels lim n' xs ys = Ok ls'" "ls = x # ls'"
      using "2.prems" unfolding merge_labels.simps Equal ordering.case by auto
    then show ?thesis using "2.IH"(2) [OF Equal, of n' ls'] \<open>x = y\<close> by auto
  next
    case Greater
    with "2.prems" "2.IH"(3) show ?thesis by fastforce
  qed
next
  case (3 lim n x xs)
  then show ?case by fastforce
next
  case (4 lim n y ys)
  then show ?case by fastforce
qed auto

lemma labels_union_Ok:
  "labels_union a b lim = Ok c \<Longrightarrow> labels c = sorted_list_of_set (set (labels a) \<union> set (labels b))"
  by (auto simp: labels_union_def dest!: merge_labels_set labels_new_Ok)

lemma labels_combine_Ok:
  "labels_combine sets lim = Ok c \<Longrightarrow> labels c = sorted_list_of_set (\<Union>s \<in> set sets. set (labels s))"
  by (auto simp: labels_combine_def dest!: labels_new_Ok)

lemma read_labels_Ok:
  "read_labels p vs = Ok ls \<Longrightarrow> vs = map VText ls \<and> strictly_sorted ls \<and> (\<forall>q l. p = Some q \<longrightarrow> l \<in> set ls \<longrightarrow> q < l)"
proof (induction p vs arbitrary: ls rule: read_labels.induct)
  case (2 p v vs)
  obtain l ls' where l: "v = VText l" "\<not> (case p of Some q \<Rightarrow> l \<le> q | None \<Rightarrow> False)"
    and r: "read_labels (Some l) vs = Ok ls'" and ls: "ls = l # ls'"
    using "2.prems" by (auto split: value_splits if_splits)
  have "vs = map VText ls' \<and> strictly_sorted ls' \<and> (\<forall>q m. Some l = Some q \<longrightarrow> m \<in> set ls' \<longrightarrow> q < m)"
    using "2.IH" l r by simp
  then show ?case using l ls by (auto split: option.splits dest: order.strict_trans)
qed simp

lemma labels_from_value_Ok:
  "labels_from_value h v lim = Ok s \<Longrightarrow> v = VArray (map VText (labels s)) \<and> strictly_sorted (labels s)"
  by (auto simp: labels_from_value_def split: value_splits dest!: read_labels_Ok)

section \<open>Frozen manifests\<close>

definition manifest_covers :: "port_table \<Rightarrow> input_manifest \<Rightarrow> bool" where
  "manifest_covers ports m \<longleftrightarrow>
     map fst (manifest_entries m) = map fst (port_entries ports) \<and>
     (\<forall>((_, entry), (_, p)) \<in> set (zip (manifest_entries m) (port_entries ports)). port_required p \<longrightarrow> entry \<noteq> EntryAbsent) \<and>
     strictly_sorted (labels (manifest_influence m)) \<and>
     (\<forall>(_, entry) \<in> set (manifest_entries m). \<forall>ls \<in> set (entry_labels entry). set (labels ls) \<subseteq> set (labels (manifest_influence m)))"

lemma inventory_covers:
  "fold_collect (inventory_item H lim) (zip es ps) n = Ok (vs, n') \<Longrightarrow> length es = length ps \<Longrightarrow>
    map fst es = map fst ps \<and> (\<forall>((_, entry), (_, p)) \<in> set (zip es ps). port_required p \<longrightarrow> entry \<noteq> EntryAbsent)"
proof (induction es ps arbitrary: n vs n' rule: list_induct2')
  case (4 e es p ps)
  obtain v n1 vs' where v: "inventory_item H lim (e, p) n = Ok (v, n1)"
    and r: "fold_collect (inventory_item H lim) (zip es ps) n1 = Ok (vs', n')"
    using "4.prems"(1) by auto
  have "fst e = fst p \<and> (port_required (snd p) \<longrightarrow> snd e \<noteq> EntryAbsent)"
    using v by (auto simp: inventory_item_def split: prod.splits if_splits)
  then show ?case using "4.IH" [OF r] "4.prems"(2) by (auto simp: split_def)
qed auto

lemma manifest_freeze_covers:
  assumes "manifest_freeze H ports es influence lim = Ok m"
  shows "manifest_covers ports m \<and> set (labels influence) \<subseteq> set (labels (manifest_influence m)) \<and>
    manifest_entries m = sort_key fst es"
proof -
  obtain n n' vs where len: "length (sort_key fst es) = ports_len ports"
    and inf: "labels_combine (influence # concat (map (\<lambda>(_, entry). entry_labels entry) (sort_key fst es))) lim = Ok (manifest_influence m)"
    and inv: "fold_collect (inventory_item H lim) (zip (sort_key fst es) (port_entries ports)) n = Ok (vs, n')"
    and es: "manifest_entries m = sort_key fst es"
    using assms by (auto simp: manifest_freeze_def Let_def split: if_splits)
  have l: "labels (manifest_influence m) = sorted_list_of_set
      (\<Union>s \<in> set (influence # concat (map (\<lambda>(_, entry). entry_labels entry) (sort_key fst es))). set (labels s))"
    using inf by (rule labels_combine_Ok)
  show ?thesis
    using inventory_covers [OF inv] len l
    by (fastforce simp: manifest_covers_def es ports_len_def split_def)
qed

lemma manifest_decode_freeze:
  assumes "manifest_decode H bs ports lim = Ok m"
  shows "\<exists>es. manifest_freeze H ports es (manifest_influence m) lim = Ok m"
  using assms by (auto simp: manifest_decode_def split: if_splits)

section \<open>The properties\<close>

text \<open>C14. The transition check of the code is the specified lifecycle, in which a terminal
  outcome never changes, every run has at most two steps and a state is stuck exactly when it
  is terminal.\<close>

theorem lifecycle_ends:
  "(\<forall>s t. invocation_can_transition s t \<longleftrightarrow> invocation_step s t) \<and>
   (\<forall>s n t. (invocation_can_transition ^^ n) s t \<longrightarrow> n \<le> 2 \<and> (invocation_terminal s \<longrightarrow> t = s)) \<and>
   (\<forall>s. invocation_terminal s \<longleftrightarrow> (\<nexists>t. invocation_can_transition s t))"
proof (intro conjI allI impI)
  have step: "invocation_can_transition = invocation_step" by (intro ext invocation_can_transition_step)
  fix s t n
  show "invocation_can_transition s t \<longleftrightarrow> invocation_step s t" by (rule invocation_can_transition_step)
  show "invocation_terminal s \<longleftrightarrow> (\<nexists>t. invocation_can_transition s t)"
    unfolding step by (cases s) (auto simp: invocation_terminal_def)
  assume n: "(invocation_can_transition ^^ n) s t"
  then have b: "stage s + n \<le> 2" using stage_steps [of n s t] stage_bound(1) [of t] by (simp add: step)
  then show "n \<le> 2" by simp
  assume "invocation_terminal s"
  then have "n = 0" using b stage_bound(2) [of s] by simp
  then show "t = s" using n by simp
qed

theorem lifecycle_ends_witness:
  "(invocation_can_transition ^^ 2) InvPending InvSucceeded \<and> (2::nat) \<le> 2 \<and> \<not> invocation_can_transition InvSucceeded InvFailed"
proof -
  have run: "(invocation_can_transition ^^ 2) InvPending InvSucceeded"
    by (auto simp: numeral_2_eq_2 invocation_can_transition_step OO_def)
  moreover have "\<not> invocation_can_transition InvSucceeded InvFailed"
    using lifecycle_ends by (auto simp: invocation_terminal_def)
  ultimately show ?thesis by simp
qed

text \<open>C28. Combining label sets loses no protection and adds none: the result is the union of
  the sets, in canonical order.\<close>

theorem combine_is_union:
  assumes "labels_combine sets lim = Ok c"
  shows "labels c = sorted_list_of_set (\<Union>s \<in> set sets. set (labels s))"
  using assms by (rule labels_combine_Ok)

theorem combine_is_union_witness:
  "labels_combine [SecurityLabels [''b''], SecurityLabels [], SecurityLabels [''a'', ''b'']] default_limits =
    Ok (SecurityLabels [''a'', ''b'']) \<and> sorted_list_of_set {''a'', ''b''} = [''a'', ''b'' :: bytes]"
proof -
  have c: "labels_combine [SecurityLabels [''b''], SecurityLabels [], SecurityLabels [''a'', ''b'']] default_limits =
      Ok (SecurityLabels [''a'', ''b''])" by code_simp
  then show ?thesis using combine_is_union [OF c] by (simp add: insert_commute)
qed

text \<open>C13. A manifest restored from a checkpoint covers the declared ports one for one, gives a
  value to every required port, carries the labels of all its values in its influence, and is
  the one that freezing its entries gives, hash included.\<close>

theorem restored_manifest_sound:
  assumes "manifest_decode H bs ports lim = Ok m"
  shows "manifest_covers ports m \<and> (\<exists>es. manifest_freeze H ports es (manifest_influence m) lim = Ok m)"
  using manifest_decode_freeze [OF assms] manifest_freeze_covers by blast

definition checkpoint_hashing :: hashing where
  "checkpoint_hashing = \<lparr>sha256 = (\<lambda>bs. replicate 32 CHR ''h''), half_crate = ref_half, cbor_backend = reference\<rparr>"

definition sample_manifest :: input_manifest where
  "sample_manifest = \<lparr>manifest_entries = [(Ident ''b'', EntryAbsent)], manifest_influence = SecurityLabels [''q''],
     manifest_hash = Digest (replicate 32 CHR ''h'')\<rparr>"

theorem restored_manifest_sound_witness:
  "\<exists>bs. manifest_encode ref_half reference sample_manifest default_limits = Ok bs \<and>
     manifest_decode checkpoint_hashing bs (PortTable [(Ident ''b'', Port (TBuiltin BNull) False)]) default_limits = Ok sample_manifest \<and>
     manifest_covers (PortTable [(Ident ''b'', Port (TBuiltin BNull) False)]) sample_manifest"
proof -
  let ?t = "PortTable [(Ident ''b'', Port (TBuiltin BNull) False)]"
  let ?v = "VMap [(''entries'', VMap [(''b'', VMap [(''state'', VText ''absent'')])]),
      (''input_hash'', VText (digest_display (manifest_hash sample_manifest))),
      (''record_version'', VText ''0.1''), (''influence_labels'', VArray [VText ''q''])]"
  have e: "manifest_encode ref_half reference sample_manifest default_limits = Ok (canon reference ?v)" by code_simp
  have "decode reference default_limits (canon reference ?v) = Ok ?v" by code_simp
  moreover have "checkpoint_fields ?v = Some ([(''b'', VMap [(''state'', VText ''absent'')])], VArray [VText ''q''],
      digest_display (manifest_hash sample_manifest))" by code_simp
  moreover have "labels_from_value ref_half (VArray [VText ''q'']) default_limits = Ok (SecurityLabels [''q''])" by code_simp
  moreover have "parse_entry ref_half default_limits (VMap [(''state'', VText ''absent'')]) = Ok EntryAbsent" by code_simp
  moreover have "identifier_new ''b'' = Ok (Ident ''b'')" by code_simp
  moreover have "digest_from_str (digest_display (manifest_hash sample_manifest)) = Ok (manifest_hash sample_manifest)" by code_simp
  moreover have "manifest_freeze checkpoint_hashing ?t [(Ident ''b'', EntryAbsent)] (SecurityLabels [''q'']) default_limits =
      Ok sample_manifest" by code_simp
  ultimately have d: "manifest_decode checkpoint_hashing (canon reference ?v) ?t default_limits = Ok sample_manifest"
    by (simp add: manifest_decode_def checkpoint_hashing_def sample_manifest_def)
  show ?thesis using e d restored_manifest_sound [OF d] by blast
qed

end
