(* ===== verification/Binding.thy ===== *)
theory Binding
  imports Runtime_Records
begin

text \<open>
  \<open>binding.rs\<close>: the selection of one source among guarded candidate edges, and the
  admission of an invocation's inputs. Guards and sources are functions of the edge. The
  refinement to \<open>binding_meaning\<close>, a decision without budgets or evidence, is proved here.
\<close>

section \<open>Data\<close>

text \<open>\<open>FailureCause\<close> of \<open>failure.rs\<close>.\<close>

record failure_cause =
  cause_invocation :: invocation_id
  cause_code :: failure_code
  cause_location :: "json_pointer option"

datatype guard_state = GPending | GValue bool | GError runtime_failure

record guard_evaluation =
  guard_state :: guard_state
  guard_influence :: security_labels
  guard_causes :: "failure_cause list"

record labeled_source =
  source_state :: source_state
  source_influence :: security_labels
  source_cause :: "failure_cause option"

record binding_failure =
  failed_edge :: ident
  binding_error :: runtime_failure
  source_error :: "runtime_failure option"
  failure_causes :: "failure_cause list"

datatype binding_decision =
  DecPending "ident list" "ident option" "binding_failure list" security_labels
| DecValue ident artifact_id security_labels
| DecAbsent "ident option" security_labels
| DecFailed "binding_failure list" security_labels

datatype reducer_error = RdInvalidPlan | RdCodec cbor_error | RdEncoding encoding_limit_error | RdMetadata runtime_record_error

definition decision_pending :: "binding_decision \<Rightarrow> bool" where
  "decision_pending d = (case d of DecPending _ _ _ _ \<Rightarrow> True | _ \<Rightarrow> False)"

definition decision_influence :: "binding_decision \<Rightarrow> security_labels" where
  "decision_influence d =
     (case d of DecPending _ _ _ i \<Rightarrow> i | DecValue _ _ i \<Rightarrow> i | DecAbsent _ i \<Rightarrow> i | DecFailed _ i \<Rightarrow> i)"

section \<open>Selection\<close>

definition rd_new :: "limits \<Rightarrow> (reducer_error, nat) result" where
  "rd_new lim = map_err RdCodec (acc_new lim)"

definition rd_collection :: "limits \<Rightarrow> nat \<Rightarrow> nat \<Rightarrow> nat \<Rightarrow> (reducer_error, nat) result" where
  "rd_collection lim len d n = map_err RdEncoding (acc_collection lim len d n)"

definition rd_texts :: "limits \<Rightarrow> bytes list \<Rightarrow> nat \<Rightarrow> nat \<Rightarrow> (reducer_error, nat) result" where
  "rd_texts lim ts d n = map_err RdEncoding (fold_result (\<lambda>t k. acc_text lim t d k) ts n)"

definition rd_value :: "half \<Rightarrow> limits \<Rightarrow> value \<Rightarrow> nat \<Rightarrow> nat \<Rightarrow> (reducer_error, nat) result" where
  "rd_value h lim v d n = map_err RdEncoding (acc_value h lim v d n)"

definition rd_labels :: "half \<Rightarrow> limits \<Rightarrow> security_labels \<Rightarrow> nat \<Rightarrow> nat \<Rightarrow> (reducer_error, nat) result" where
  "rd_labels h lim s d n = attempt (map_err RdMetadata (labels_to_value s lim)) (\<lambda>v. rd_value h lim v d n)"

definition rd_failure :: "half \<Rightarrow> limits \<Rightarrow> runtime_failure \<Rightarrow> nat \<Rightarrow> nat \<Rightarrow> (reducer_error, nat) result" where
  "rd_failure h lim f d n = attempt (map_err (\<lambda>_. RdInvalidPlan) (failure_to_value lim f)) (\<lambda>v. rd_value h lim v d n)"

definition cause_texts :: "failure_cause \<Rightarrow> bytes list" where
  "cause_texts c =
     [digest_display (invocation_digest (cause_invocation c)), failure_as_str (cause_code c)] @
     (case cause_location c of None \<Rightarrow> [] | Some p \<Rightarrow> [pointer_display p])"

definition check_causes :: "limits \<Rightarrow> failure_cause list \<Rightarrow> nat \<Rightarrow> (reducer_error, nat) result" where
  "check_causes lim causes n =
     attempt (rd_collection lim (length causes) 1 n) (\<lambda>n1.
     fold_result (\<lambda>c k. rd_texts lim (cause_texts c) 2 k) causes n1)"

text \<open>The charge of one guard in the loop over the sorted edges.\<close>

definition guard_charge :: "half \<Rightarrow> limits \<Rightarrow> guard_evaluation \<Rightarrow> nat \<Rightarrow> (reducer_error, nat) result" where
  "guard_charge h lim g n =
     attempt (rd_labels h lim (guard_influence g) 1 n) (\<lambda>n1.
     attempt (check_causes lim (guard_causes g) n1) (\<lambda>n2.
     case guard_state g of GError e \<Rightarrow> rd_failure h lim e 1 n2 | _ \<Rightarrow> Ok n2))"

definition guard_failure :: "ident \<Rightarrow> guard_evaluation \<Rightarrow> binding_failure list" where
  "guard_failure e g =
     (case guard_state g of
        GError f \<Rightarrow> [\<lparr>failed_edge = e, binding_error = f, source_error = None, failure_causes = guard_causes g\<rparr>]
      | _ \<Rightarrow> [])"

datatype binding_selection =
  Settled binding_decision
| Source ident security_labels nat

text \<open>The precedence among the evaluated guards: pending, error, conflict, absence, selection.\<close>

definition selection_of ::
  "ident list \<Rightarrow> (ident \<Rightarrow> guard_evaluation) \<Rightarrow> security_labels \<Rightarrow> nat \<Rightarrow> binding_selection" where
  "selection_of edges gd influence n =
     (let pending = filter (\<lambda>e. guard_state (gd e) = GPending) edges;
          selected = filter (\<lambda>e. guard_state (gd e) = GValue True) edges;
          failures = concat (map (\<lambda>e. guard_failure e (gd e)) edges) in
      if pending \<noteq> [] then Settled (DecPending pending None failures influence)
      else if failures \<noteq> [] then Settled (DecFailed failures influence)
      else if length selected > 1 then
        Settled (DecFailed (map (\<lambda>e. \<lparr>failed_edge = e, binding_error = failure_new FBindingConflict,
          source_error = None, failure_causes = []\<rparr>) selected) influence)
      else (case selected of [] \<Rightarrow> Settled (DecAbsent None influence) | e # _ \<Rightarrow> Source e influence n))"

definition select_binding ::
  "half \<Rightarrow> ident list \<Rightarrow> (ident \<Rightarrow> guard_evaluation) \<Rightarrow> limits \<Rightarrow> (reducer_error, binding_selection) result" where
  "select_binding h candidates gd lim =
     attempt (rd_new lim) (\<lambda>n0.
     attempt (rd_collection lim (length candidates) 0 n0) (\<lambda>n1.
     attempt (rd_texts lim (map as_str candidates) 1 n1) (\<lambda>n2.
     let edges = sort candidates in
     if any_pair (=) edges then Err RdInvalidPlan
     else attempt (fold_result (\<lambda>e k. guard_charge h lim (gd e) k) edges n2) (\<lambda>n3.
     attempt (map_err RdMetadata (labels_combine (map (\<lambda>e. guard_influence (gd e)) edges) lim)) (\<lambda>influence.
     Ok (selection_of edges gd influence n3))))))"

definition resolve_selected ::
  "half \<Rightarrow> limits \<Rightarrow> ident \<Rightarrow> security_labels \<Rightarrow> nat \<Rightarrow> labeled_source \<Rightarrow> (reducer_error, binding_decision) result" where
  "resolve_selected h lim e influence0 n src =
     attempt (rd_labels h lim (source_influence src) 1 n) (\<lambda>n1.
     attempt (case source_cause src of Some c \<Rightarrow> check_causes lim [c] n1 | None \<Rightarrow> Ok n1) (\<lambda>n2.
     attempt (map_err RdMetadata (labels_union influence0 (source_influence src) lim)) (\<lambda>influence.
     case source_state src of
       SsPending \<Rightarrow> Ok (DecPending [e] (Some e) [] influence)
     | SsValue a \<Rightarrow> Ok (DecValue e a influence)
     | SsAbsent \<Rightarrow> Ok (DecAbsent (Some e) influence)
     | SsUnavailable f \<Rightarrow>
         attempt (rd_failure h lim f 1 n2) (\<lambda>_.
         Ok (DecFailed [\<lparr>failed_edge = e, binding_error = failure_new FDependency, source_error = Some f,
           failure_causes = (case source_cause src of Some c \<Rightarrow> [c] | None \<Rightarrow> [])\<rparr>] influence)))))"

definition reduce_binding ::
  "half \<Rightarrow> ident list \<Rightarrow> (ident \<Rightarrow> guard_evaluation) \<Rightarrow> (ident \<Rightarrow> labeled_source) \<Rightarrow> limits \<Rightarrow>
    (reducer_error, binding_decision) result" where
  "reduce_binding h candidates gd source lim =
     attempt (select_binding h candidates gd lim) (\<lambda>s.
     case s of
       Settled d \<Rightarrow> Ok d
     | Source e influence n \<Rightarrow> resolve_selected h lim e influence n (source e))"

section \<open>Admission\<close>

record input_failure =
  input_port :: ident
  input_failures :: "binding_failure list"

datatype admission_decision =
  AdmPending
| AdmGuardSkipped security_labels
| AdmGuardFailed guard_evaluation
| AdmInputsFailed "input_failure list" security_labels
| AdmRequiredAbsent "ident list" security_labels
| AdmInputsReady security_labels

definition cause_charge :: "half \<Rightarrow> limits \<Rightarrow> binding_failure \<Rightarrow> nat \<Rightarrow> (reducer_error, nat) result" where
  "cause_charge h lim c n =
     attempt (rd_failure h lim (binding_error c) 1 n) (\<lambda>n1.
     attempt (case source_error c of Some f \<Rightarrow> rd_failure h lim f 1 n1 | None \<Rightarrow> Ok n1) (\<lambda>n2.
     check_causes lim (failure_causes c) n2))"

text \<open>The loop over the declared ports; it collects failing and absent inputs.\<close>

definition admit_decision ::
  "half \<Rightarrow> limits \<Rightarrow> ident \<Rightarrow> vport \<Rightarrow> binding_decision \<Rightarrow> input_failure list \<times> ident list \<times> nat \<Rightarrow>
    (reducer_error, input_failure list \<times> ident list \<times> nat) result" where
  "admit_decision h lim name p d = (\<lambda>(failures, absent, n).
     case d of
       DecFailed causes _ \<Rightarrow>
         if causes = [] \<or> any_pair (\<lambda>a b. failed_edge a \<ge> failed_edge b) causes
         then Err RdInvalidPlan
         else attempt (fold_result (cause_charge h lim) causes n) (\<lambda>n2.
           Ok (failures @ [\<lparr>input_port = name, input_failures = causes\<rparr>], absent, n2))
     | DecAbsent _ _ \<Rightarrow> Ok (failures, if port_required p then absent @ [name] else absent, n)
     | DecValue _ _ _ \<Rightarrow> Ok (failures, absent, n)
     | DecPending _ _ _ _ \<Rightarrow> Err RdInvalidPlan)"

definition admit_port ::
  "half \<Rightarrow> limits \<Rightarrow> (ident \<times> binding_decision) list \<Rightarrow> ident \<times> vport \<Rightarrow> input_failure list \<times> ident list \<times> nat \<Rightarrow>
    (reducer_error, input_failure list \<times> ident list \<times> nat) result" where
  "admit_port h lim bindings = (\<lambda>(name, p) (failures, absent, n).
     attempt (rd_texts lim [as_str name] 1 n) (\<lambda>n1.
     attempt (expect (map_of bindings name)) (\<lambda>d.
     admit_decision h lim name p d (failures, absent, n1))))"

definition reduce_admission ::
  "half \<Rightarrow> guard_evaluation \<Rightarrow> port_table \<Rightarrow> (ident \<times> binding_decision) list \<Rightarrow> limits \<Rightarrow>
    (reducer_error, admission_decision) result" where
  "reduce_admission h g ports bindings lim =
     attempt (rd_new lim) (\<lambda>k0.
     attempt (rd_labels h lim (guard_influence g) 0 k0) (\<lambda>k1.
     attempt (check_causes lim (guard_causes g) k1) (\<lambda>k2.
     attempt (case guard_state g of GError e \<Rightarrow> rd_failure h lim e 0 k2 | _ \<Rightarrow> Ok k2) (\<lambda>_.
     if guard_state g = GPending then Ok AdmPending
     else if guard_state g = GValue False then Ok (AdmGuardSkipped (guard_influence g))
     else if guard_state g \<noteq> GValue True then Ok (AdmGuardFailed g)
     else if length bindings \<noteq> ports_len ports \<or> (\<exists>p \<in> set bindings. ports_get ports (as_str (fst p)) = None)
     then Err RdInvalidPlan
     else if \<exists>p \<in> set bindings. decision_pending (snd p) then Ok AdmPending
     else attempt (map_err RdMetadata (labels_combine (guard_influence g # map (\<lambda>p. decision_influence (snd p)) bindings) lim)) (\<lambda>influence.
     attempt (rd_new lim) (\<lambda>n0.
     attempt (rd_collection lim (ports_len ports) 0 n0) (\<lambda>n1.
     attempt (fold_result (admit_port h lim bindings) (port_entries ports) ([], [], n1)) (\<lambda>(failures, absent, _).
     if failures \<noteq> [] then Ok (AdmInputsFailed failures influence)
     else if absent \<noteq> [] then Ok (AdmRequiredAbsent absent influence)
     else Ok (AdmInputsReady influence)))))))))"

section \<open>The specification\<close>

text \<open>The decision alone: what is pending, what failed, or the one selected source.\<close>

datatype binding_shape =
  ShPending "ident list" "ident option"
| ShValue ident artifact_id
| ShAbsent "ident option"
| ShFailed "(ident \<times> failure_code) list"

fun shape :: "binding_decision \<Rightarrow> binding_shape" where
  "shape (DecPending es e _ _) = ShPending es e"
| "shape (DecValue e a _) = ShValue e a"
| "shape (DecAbsent e _) = ShAbsent e"
| "shape (DecFailed fs _) = ShFailed (map (\<lambda>f. (failed_edge f, failure_kind (binding_error f))) fs)"

definition source_meaning :: "ident \<Rightarrow> source_state \<Rightarrow> binding_shape" where
  "source_meaning e s =
     (case s of SsPending \<Rightarrow> ShPending [e] (Some e) | SsValue a \<Rightarrow> ShValue e a | SsAbsent \<Rightarrow> ShAbsent (Some e)
      | SsUnavailable _ \<Rightarrow> ShFailed [(e, FDependency)])"

definition error_edges :: "(ident \<Rightarrow> guard_evaluation) \<Rightarrow> ident list \<Rightarrow> (ident \<times> failure_code) list" where
  "error_edges gd edges =
     concat (map (\<lambda>e. case guard_state (gd e) of GError f \<Rightarrow> [(e, failure_kind f)] | _ \<Rightarrow> []) edges)"

definition binding_meaning ::
  "ident list \<Rightarrow> (ident \<Rightarrow> guard_evaluation) \<Rightarrow> (ident \<Rightarrow> labeled_source) \<Rightarrow> binding_shape" where
  "binding_meaning edges gd source =
     (let pending = filter (\<lambda>e. guard_state (gd e) = GPending) edges;
          selected = filter (\<lambda>e. guard_state (gd e) = GValue True) edges in
      if pending \<noteq> [] then ShPending pending None
      else if error_edges gd edges \<noteq> [] then ShFailed (error_edges gd edges)
      else (case selected of
          [] \<Rightarrow> ShAbsent None
        | [e] \<Rightarrow> source_meaning e (source_state (source e))
        | es \<Rightarrow> ShFailed (map (\<lambda>e. (e, FBindingConflict)) es)))"

text \<open>The protection a decision carries: that of every guard, and of the source it read.\<close>

definition binding_protection ::
  "ident list \<Rightarrow> (ident \<Rightarrow> guard_evaluation) \<Rightarrow> (ident \<Rightarrow> labeled_source) \<Rightarrow> bytes set" where
  "binding_protection edges gd source =
     (\<Union>e \<in> set edges. set (labels (guard_influence (gd e)))) \<union>
     (if (\<forall>e \<in> set edges. \<exists>v. guard_state (gd e) = GValue v)
      then (case filter (\<lambda>e. guard_state (gd e) = GValue True) edges of
          [e] \<Rightarrow> set (labels (source_influence (source e))) | _ \<Rightarrow> {}) else {})"

section \<open>Lemmas\<close>

lemma failure_new_kind [simp]: "failure_kind (failure_new c) = c"
  by (simp add: failure_new_def)

lemma guard_failures_shape:
  "map (\<lambda>f. (failed_edge f, failure_kind (binding_error f))) (concat (map (\<lambda>e. guard_failure e (gd e)) edges)) =
    error_edges gd edges"
  by (induction edges) (auto simp: error_edges_def guard_failure_def split: guard_state.splits)

lemma guard_failures_empty:
  "concat (map (\<lambda>e. guard_failure e (gd e)) edges) = [] \<longleftrightarrow> error_edges gd edges = []"
  using guard_failures_shape [of gd edges] by (metis map_is_Nil_conv)

lemma all_settled:
  "filter (\<lambda>e. guard_state (gd e) = GPending) edges = [] \<Longrightarrow> error_edges gd edges = [] \<Longrightarrow>
    \<forall>e \<in> set edges. \<exists>v. guard_state (gd e) = GValue v"
  by (auto simp: error_edges_def filter_empty_conv split: guard_state.splits) (metis guard_state.exhaust)

lemma not_all_settled:
  "error_edges gd edges \<noteq> [] \<Longrightarrow> \<not> (\<forall>e \<in> set edges. \<exists>v. guard_state (gd e) = GValue v)"
  by (auto simp: error_edges_def split: guard_state.splits)

lemma resolve_selected_shape:
  assumes "resolve_selected h lim e influence n src = Ok d"
  shows "shape d = source_meaning e (source_state src) \<and>
    labels (decision_influence d) = sorted_list_of_set (set (labels influence) \<union> set (labels (source_influence src)))"
  using assms
  by (auto simp: resolve_selected_def source_meaning_def decision_influence_def split: source_state.splits
      dest!: labels_union_Ok)

lemma reduce_binding_meaning:
  assumes "reduce_binding h candidates gd source lim = Ok d"
  shows "shape d = binding_meaning (sort candidates) gd source \<and>
    labels (decision_influence d) = sorted_list_of_set (binding_protection (sort candidates) gd source)"
proof -
  let ?es = "sort candidates"
  let ?sel = "filter (\<lambda>e. guard_state (gd e) = GValue True) ?es"
  obtain s where s: "select_binding h candidates gd lim = Ok s"
    and d: "(case s of Settled d \<Rightarrow> Ok d | Source e influence n \<Rightarrow> resolve_selected h lim e influence n (source e)) = Ok d"
    using assms by (auto simp: reduce_binding_def)
  obtain n3 infl where infl: "labels_combine (map (\<lambda>e. guard_influence (gd e)) ?es) lim = Ok infl"
    and sel: "selection_of ?es gd infl n3 = s"
    using s by (auto simp: select_binding_def Let_def split: if_splits)
  note sel = sel [unfolded selection_of_def Let_def]
  have l: "labels infl = sorted_list_of_set (\<Union>e \<in> set ?es. set (labels (guard_influence (gd e))))"
    using labels_combine_Ok [OF infl] by simp
  consider (pending) "filter (\<lambda>e. guard_state (gd e) = GPending) ?es \<noteq> []"
    | (failed) "filter (\<lambda>e. guard_state (gd e) = GPending) ?es = []" "error_edges gd ?es \<noteq> []"
    | (settled) "filter (\<lambda>e. guard_state (gd e) = GPending) ?es = []" "error_edges gd ?es = []" by blast
  then show ?thesis
  proof cases
    case pending
    then obtain e where "e \<in> set ?es" "guard_state (gd e) = GPending" by (auto simp: filter_empty_conv)
    then have "\<not> (\<forall>e \<in> set ?es. \<exists>v. guard_state (gd e) = GValue v)" by force
    then show ?thesis using pending sel d l by (auto simp: binding_meaning_def binding_protection_def decision_influence_def)
  next
    case failed
    then show ?thesis
      using sel d l not_all_settled [of gd ?es]
      by (auto simp: binding_meaning_def binding_protection_def decision_influence_def guard_failures_empty guard_failures_shape
        simp del: concat_eq_Nil_conv)
  next
    case settled
    note all = all_settled [OF settled]
    show ?thesis
    proof (cases ?sel)
      case Nil
      then show ?thesis
        using settled sel d l all by (auto simp: binding_meaning_def binding_protection_def decision_influence_def guard_failures_empty simp del: concat_eq_Nil_conv)
    next
      case (Cons e es)
      show ?thesis
      proof (cases es)
        case Nil
        then have "resolve_selected h lim e infl n3 (source e) = Ok d"
          using settled sel d Cons by (auto simp: guard_failures_empty simp del: concat_eq_Nil_conv)
        then show ?thesis
          using resolve_selected_shape settled Cons Nil l all
          by (auto simp: binding_meaning_def binding_protection_def)
      next
        case (Cons e' es')
        then show ?thesis
          using settled sel d l all \<open>?sel = e # es\<close>
          by (auto simp: binding_meaning_def binding_protection_def decision_influence_def guard_failures_empty simp del: concat_eq_Nil_conv)
      qed
    qed
  qed
qed

section \<open>Order of the candidates\<close>

definition text_cost :: "bytes \<Rightarrow> nat" where
  "text_cost t = header_size (word_of_nat (length t)) + length t"

lemma acc_add_eq:
  "acc_add a c m k = (if a + c < usize_bound \<and> a + c \<le> m then Ok (a + c) else Err \<lparr>acc_limit = k, acc_maximum = m\<rparr>)"
  by (auto simp: acc_add_def acc_check_def checked_add_def ok_or_def)

lemma acc_text_eq:
  "acc_text lim t d n =
    (if \<not> d \<le> max_depth lim then Err \<lparr>acc_limit = Depth, acc_maximum = max_depth lim\<rparr>
     else if n + text_cost t < usize_bound \<and> n + text_cost t \<le> max_document_bytes lim then Ok (n + text_cost t)
     else Err \<lparr>acc_limit = DocumentBytes, acc_maximum = max_document_bytes lim\<rparr>)"
  by (auto simp: acc_text_def acc_enter_def acc_check_def acc_bytes_def acc_add_eq text_cost_def)

lemma acc_texts_eq:
  "fold_result (\<lambda>t k. acc_text lim t d k) ts n =
    (if ts = [] then Ok n
     else if \<not> d \<le> max_depth lim then Err \<lparr>acc_limit = Depth, acc_maximum = max_depth lim\<rparr>
     else if n + sum_list (map text_cost ts) < usize_bound \<and> n + sum_list (map text_cost ts) \<le> max_document_bytes lim
     then Ok (n + sum_list (map text_cost ts))
     else Err \<lparr>acc_limit = DocumentBytes, acc_maximum = max_document_bytes lim\<rparr>)"
  by (induction ts arbitrary: n) (auto simp: acc_text_eq add.assoc)

lemma rd_texts_perm: "mset ts = mset us \<Longrightarrow> rd_texts lim ts d n = rd_texts lim us d n"
proof -
  assume p: "mset ts = mset us"
  then have "sum_list (map text_cost ts) = sum_list (map text_cost us)"
    by (metis mset_map sum_mset_sum_list)
  moreover have "ts = [] \<longleftrightarrow> us = []" using p by (metis mset_zero_iff)
  ultimately show ?thesis by (simp add: rd_texts_def acc_texts_eq)
qed

lemma select_binding_perm:
  assumes "mset cs = mset ds"
  shows "select_binding h cs gd lim = select_binding h ds gd lim"
proof -
  have "rd_texts lim (map as_str cs) 1 n = rd_texts lim (map as_str ds) 1 n" for n
    using assms by (intro rd_texts_perm) simp
  moreover have "sort cs = sort ds" using assms by (metis properties_for_sort sorted_sort mset_sort)
  ultimately show ?thesis
    using mset_eq_length [OF assms] by (simp add: select_binding_def)
qed

section \<open>Admitted inputs\<close>

lemma admit_decision_grows:
  "admit_decision h lim name p d (fs, ab, n) = Ok (fs', ab', n') \<Longrightarrow> (\<exists>gs. fs' = fs @ gs) \<and> (\<exists>bs. ab' = ab @ bs)"
  by (cases d) (auto simp: admit_decision_def split: if_splits)

lemma admit_decision_ready:
  "admit_decision h lim name p d ([], [], n) = Ok ([], [], n') \<Longrightarrow>
    (\<exists>e a i. d = DecValue e a i) \<or> (\<not> port_required p \<and> (\<exists>e i. d = DecAbsent e i))"
  by (cases d) (auto simp: admit_decision_def split: if_splits)

lemma admit_port_Ok:
  "admit_port h lim bs x (fs, ab, n) = Ok r \<Longrightarrow>
    \<exists>d n1. map_of bs (fst x) = Some d \<and> admit_decision h lim (fst x) (snd x) d (fs, ab, n1) = Ok r"
  by (cases x) (auto simp: admit_port_def)

lemma admit_port_grows:
  "admit_port h lim bs x (fs, ab, n) = Ok (fs', ab', n') \<Longrightarrow> (\<exists>gs. fs' = fs @ gs) \<and> (\<exists>bs. ab' = ab @ bs)"
  using admit_port_Ok admit_decision_grows by metis

lemma admit_ports_grow:
  "fold_result (admit_port h lim bs) ps (fs, ab, n) = Ok (fs', ab', n') \<Longrightarrow> (\<exists>gs. fs' = fs @ gs) \<and> (\<exists>bs. ab' = ab @ bs)"
proof (induction ps arbitrary: fs ab n)
  case (Cons x ps)
  obtain fs1 ab1 n1 where x: "admit_port h lim bs x (fs, ab, n) = Ok (fs1, ab1, n1)"
    and r: "fold_result (admit_port h lim bs) ps (fs1, ab1, n1) = Ok (fs', ab', n')"
    using Cons.prems by auto
  show ?case using admit_port_grows [OF x] Cons.IH [OF r] by auto
qed simp

text \<open>What an input binding must be for the invocation to be ready.\<close>

definition input_ready :: "(ident \<times> binding_decision) list \<Rightarrow> ident \<times> vport \<Rightarrow> bool" where
  "input_ready bs = (\<lambda>(name, p).
     (\<exists>e a i. map_of bs name = Some (DecValue e a i)) \<or>
     (\<not> port_required p \<and> (\<exists>e i. map_of bs name = Some (DecAbsent e i))))"

lemma admit_ports_ready:
  "fold_result (admit_port h lim bs) ps ([], [], n) = Ok ([], [], n') \<Longrightarrow> x \<in> set ps \<Longrightarrow> input_ready bs x"
proof (induction ps arbitrary: n)
  case (Cons y ps)
  obtain fs1 ab1 n1 where y: "admit_port h lim bs y ([], [], n) = Ok (fs1, ab1, n1)"
    and r: "fold_result (admit_port h lim bs) ps (fs1, ab1, n1) = Ok ([], [], n')"
    using Cons.prems(1) by auto
  have e: "fs1 = []" "ab1 = []" using admit_ports_grow [OF r] by auto
  have "input_ready bs y"
    using admit_port_Ok [OF y] e by (cases y) (auto simp: input_ready_def dest!: admit_decision_ready)
  then show ?case using Cons.IH r e Cons.prems(2) by auto
qed simp

lemma reduce_admission_ready:
  assumes "reduce_admission h g ports bindings lim = Ok (AdmInputsReady influence)"
  shows "guard_state g = GValue True \<and> (\<forall>x \<in> set (port_entries ports). input_ready bindings x) \<and>
    labels influence = sorted_list_of_set (set (labels (guard_influence g)) \<union>
      (\<Union>p \<in> set bindings. set (labels (decision_influence (snd p)))))"
proof -
  obtain n1 n2 where t: "guard_state g = GValue True"
    and c: "labels_combine (guard_influence g # map (\<lambda>p. decision_influence (snd p)) bindings) lim = Ok influence"
    and f: "fold_result (admit_port h lim bindings) (port_entries ports) ([], [], n1) = Ok ([], [], n2)"
    using assms by (auto simp: reduce_admission_def split: if_splits)
  show ?thesis
    using t admit_ports_ready [OF f] labels_combine_Ok [OF c] by auto
qed

section \<open>The properties\<close>

text \<open>C38. A binding decision is the specified one: pending guards first, then errors, then
  conflicts, then absence or the single selected source; and its influence is the union of the
  labels of every guard and of the source it read.\<close>

theorem binding_refines:
  assumes "reduce_binding h candidates gd source lim = Ok d"
  shows "shape d = binding_meaning (sort candidates) gd source \<and>
    labels (decision_influence d) = sorted_list_of_set (binding_protection (sort candidates) gd source)"
  using assms by (rule reduce_binding_meaning)

definition sample_guard :: "ident \<Rightarrow> guard_evaluation" where
  "sample_guard e = \<lparr>guard_state = GValue (e = Ident ''b''), guard_influence = SecurityLabels [as_str e], guard_causes = []\<rparr>"

definition sample_source :: "ident \<Rightarrow> labeled_source" where
  "sample_source e = \<lparr>source_state = SsAbsent, source_influence = SecurityLabels [''s''], source_cause = None\<rparr>"

theorem binding_refines_witness:
  "reduce_binding ref_half [Ident ''c'', Ident ''b''] sample_guard sample_source default_limits =
      Ok (DecAbsent (Some (Ident ''b'')) (SecurityLabels [''b'', ''c'', ''s''])) \<and>
    binding_meaning [Ident ''b'', Ident ''c''] sample_guard sample_source = ShAbsent (Some (Ident ''b''))"
proof -
  have d: "reduce_binding ref_half [Ident ''c'', Ident ''b''] sample_guard sample_source default_limits =
      Ok (DecAbsent (Some (Ident ''b'')) (SecurityLabels [''b'', ''c'', ''s'']))" by code_simp
  have "sort [Ident ''c'', Ident ''b''] = [Ident ''b'', Ident ''c'']" by code_simp
  then show ?thesis using d binding_refines [OF d] by simp
qed

text \<open>C39. The order in which candidate edges are listed never matters: any permutation gives
  the same decision, the same evidence or the same error.\<close>

theorem binding_order_independent:
  assumes "mset cs = mset ds"
  shows "reduce_binding h cs gd source lim = reduce_binding h ds gd source lim"
  by (simp add: reduce_binding_def select_binding_perm [OF assms])

theorem binding_order_independent_witness:
  "reduce_binding ref_half [Ident ''c'', Ident ''b''] sample_guard sample_source default_limits =
    reduce_binding ref_half [Ident ''b'', Ident ''c''] sample_guard sample_source default_limits"
  by (rule binding_order_independent) simp

text \<open>C40. An invocation is ready only when its guard is true, every required input has a value
  and every other one a value or a settled absence; readiness carries the labels of the guard
  and of all bindings.\<close>

theorem admission_ready:
  assumes "reduce_admission h g ports bindings lim = Ok (AdmInputsReady influence)"
  shows "guard_state g = GValue True \<and> (\<forall>x \<in> set (port_entries ports). input_ready bindings x) \<and>
    labels influence = sorted_list_of_set (set (labels (guard_influence g)) \<union>
      (\<Union>p \<in> set bindings. set (labels (decision_influence (snd p)))))"
  using assms by (rule reduce_admission_ready)

theorem admission_ready_witness:
  "reduce_admission ref_half (sample_guard (Ident ''b'')) (PortTable [(Ident ''p'', Port (TBuiltin BNull) False)])
      [(Ident ''p'', DecAbsent None (SecurityLabels [''a'']))] default_limits =
    Ok (AdmInputsReady (SecurityLabels [''a'', ''b''])) \<and>
   input_ready [(Ident ''p'', DecAbsent None (SecurityLabels [''a'']))] (Ident ''p'', Port (TBuiltin BNull) False)"
proof -
  have d: "reduce_admission ref_half (sample_guard (Ident ''b'')) (PortTable [(Ident ''p'', Port (TBuiltin BNull) False)])
      [(Ident ''p'', DecAbsent None (SecurityLabels [''a'']))] default_limits =
    Ok (AdmInputsReady (SecurityLabels [''a'', ''b'']))" by code_simp
  then show ?thesis using admission_ready [OF d] by simp
qed

end
