(* ===== verification/Scope_Graph.thy ===== *)
theory Scope_Graph
  imports Graph Json_Pointer
begin

text \<open>
  The admission of one scope use: the role and endpoint checks of \<open>htlk-analyzer/src/context.rs\<close>
  and the local verification of \<open>graph_verify.rs\<close>, which types every expression site, groups
  the candidate edges of every destination, and orders the complete wait graph. The type
  checker, the manifests of libraries and the native sizes of the derived entries are
  parameters; everything the verifier itself decides is written out.
\<close>

section \<open>Roles and endpoints\<close>

datatype scope_context = Ordinary | LoopBody

definition require_port :: "port_table \<Rightarrow> ident \<Rightarrow> bytes \<Rightarrow> (graph_error, unit) result" where
  "require_port table name site =
     (if ports_get table (as_str name) \<noteq> None then Ok () else Err (GrUnknownEndpoint site))"

text \<open>\<open>truth\<close>: the test for the literal \<open>true\<close>.\<close>

definition is_truth :: "expression \<Rightarrow> bool" where
  "is_truth e = (case e of ELiteral (LBoolean True) \<Rightarrow> True | _ \<Rightarrow> False)"

text \<open>The map from node names; a later node replaces an earlier one of the same name.\<close>

definition scope_node :: "scope \<Rightarrow> ident \<Rightarrow> node option" where
  "scope_node s name = find (\<lambda>n. node_id n = name) (rev (scope_nodes s))"

definition role_check :: "scope \<Rightarrow> scope_context \<Rightarrow> (graph_error, unit) result" where
  "role_check s c =
     (if c = Ordinary \<and> port_entries (scope_carried s) \<noteq> [] then Err GrInvalidScopeRole
      else if c = LoopBody \<and>
        (scope_limits s \<noteq> limits_new \<or> \<not> is_truth (scope_preconditions s) \<or> \<not> is_truth (scope_postconditions s))
      then Err GrInvalidScopeRole else Ok ())"

definition initializer_checks :: "node \<Rightarrow> (graph_error, unit) result" where
  "initializer_checks n =
     (case node_operation n of
        OpLoop _ initializers _ _ \<Rightarrow>
          fold_result (\<lambda>(_, i) _. require_port (node_inputs n) i ''loop initializer input'') initializers ()
      | _ \<Rightarrow> Ok ())"

definition source_check :: "scope \<Rightarrow> scope_context \<Rightarrow> edge_source \<Rightarrow> (graph_error, unit) result" where
  "source_check s c source =
     (case source of
        SrcInput n \<Rightarrow> require_port (scope_inputs s) n ''scope input''
      | SrcCarried n \<Rightarrow>
          if c \<noteq> LoopBody then Err GrInvalidScopeRole else require_port (scope_carried s) n ''carried source''
      | SrcOutput node port \<Rightarrow>
          attempt (ok_or (GrUnknownEndpoint ''source node'') (scope_node s node)) (\<lambda>n.
          require_port (node_outputs n) port ''source output''))"

definition destination_check :: "scope \<Rightarrow> scope_context \<Rightarrow> edge_destination \<Rightarrow> (graph_error, unit) result" where
  "destination_check s c destination =
     (case destination of
        DstOutput n \<Rightarrow> require_port (scope_outputs s) n ''scope output''
      | DstNext n \<Rightarrow>
          if c \<noteq> LoopBody then Err GrInvalidScopeRole else require_port (scope_carried s) n ''next destination''
      | DstInput node port \<Rightarrow>
          attempt (ok_or (GrUnknownEndpoint ''destination node'') (scope_node s node)) (\<lambda>n.
          require_port (node_inputs n) port ''destination input''))"

text \<open>Checks run in order, each after its location has been stored in \<open>path\<close>.\<close>

fun run_checks :: "bytes \<Rightarrow> (bytes \<times> ('e, unit) result) list \<Rightarrow> bytes \<times> ('e, unit) result" where
  "run_checks path [] = (path, Ok ())"
| "run_checks path ((here, r) # rs) =
     (case r of Ok _ \<Rightarrow> run_checks here rs | _ \<Rightarrow> (here, r))"

definition scope_at :: "scope \<Rightarrow> scope_context \<Rightarrow> bytes \<Rightarrow> bytes \<times> (graph_error, unit) result" where
  "scope_at s c base =
     run_checks base
       ([(base, role_check s c)] @
        map (\<lambda>(index, n). (base @ ''/nodes/'' @ dec_digits index @ ''/operation'', initializer_checks n))
          (enumerate 0 (scope_nodes s)) @
        concat (map (\<lambda>(index, e).
            [(base @ ''/edges/'' @ dec_digits index @ ''/source'', source_check s c (edge_source e)),
             (base @ ''/edges/'' @ dec_digits index @ ''/destination'', destination_check s c (edge_destination e))])
          (enumerate 0 (scope_edges s))))"

definition scope_check :: "scope \<Rightarrow> scope_context \<Rightarrow> (graph_error, unit) result" where
  "scope_check s c = snd (scope_at s c [])"

section \<open>Sites and wait events\<close>

datatype expression_site =
  SitePreconditions | SitePostconditions | SiteNodeGuard ident | SiteNodePreconditions ident
| SiteNodePostconditions ident | SiteEval ident | SiteEdgeGuard ident | SiteEdgeBoundary ident | SiteUntil

datatype wait_vertex =
  WAdmission ident | WInput ident ident | WOutcome ident | WOutput ident | WNext ident | WUntil | WCompletion

text \<open>The derived order: variants in their order, then the fields.\<close>

fun vertex_key :: "wait_vertex \<Rightarrow> nat \<times> bytes \<times> bytes" where
  "vertex_key (WAdmission n) = (0, as_str n, [])"
| "vertex_key (WInput n p) = (1, as_str n, as_str p)"
| "vertex_key (WOutcome n) = (2, as_str n, [])"
| "vertex_key (WOutput n) = (3, as_str n, [])"
| "vertex_key (WNext n) = (4, as_str n, [])"
| "vertex_key WUntil = (5, [], [])"
| "vertex_key WCompletion = (6, [], [])"

lemma vertex_key_inject: "vertex_key a = vertex_key b \<Longrightarrow> a = b"
  by (cases a; cases b) (auto intro: ident.expand)

instantiation wait_vertex :: linorder
begin

definition less_eq_wait_vertex :: "wait_vertex \<Rightarrow> wait_vertex \<Rightarrow> bool" where
  "less_eq_wait_vertex a b \<longleftrightarrow> vertex_key a \<le> vertex_key b"

definition less_wait_vertex :: "wait_vertex \<Rightarrow> wait_vertex \<Rightarrow> bool" where
  "less_wait_vertex a b \<longleftrightarrow> vertex_key a < vertex_key b"

instance
  by standard (auto simp: less_eq_wait_vertex_def less_wait_vertex_def intro: vertex_key_inject)

end

text \<open>An ordered set is its ascending list, an ordered map its list of entries.\<close>

definition set_insert :: "'a::linorder \<Rightarrow> 'a list \<Rightarrow> 'a list" where
  "set_insert x xs = (if x \<in> set xs then xs else insort x xs)"

definition map_insert :: "'k::linorder \<Rightarrow> 'v \<Rightarrow> ('k \<times> 'v) list \<Rightarrow> ('k \<times> 'v) list" where
  "map_insert k v m = insort_key fst (k, v) (filter (\<lambda>p. fst p \<noteq> k) m)"

section \<open>Parameters and state\<close>

record 'l type_environment =
  env_references :: "value_reference \<Rightarrow> vport option"
  env_outcomes :: "ident set"
  env_libraries :: "digest \<Rightarrow> 'l option"
  env_templates :: "digest \<Rightarrow> prompt_template option"

definition empty_environment :: "'l type_environment" where
  "empty_environment =
     \<lparr>env_references = (\<lambda>_. None), env_outcomes = {}, env_libraries = (\<lambda>_. None), env_templates = (\<lambda>_. None)\<rparr>"

text \<open>The type checker's conversions of other components' errors, as \<open>ExpressionTypeError\<close> has
  them; \<open>'e\<close> stands for its remaining variants.\<close>

datatype 'e type_check_error = TcType type_error | TcExpression expression_error | TcOther 'e

text \<open>
  \<open>tc_check\<close> is \<open>check_expression_with_options\<close> with the schemas and regular expression
  options of the document, \<open>tc_boundary\<close> is \<open>check_expression_with_schemas\<close>; an analysis has a
  stored size. \<open>vertex_bytes\<close> and \<open>port_bytes\<close> are the native sizes of two entry types.
\<close>

record ('a, 'l, 'e) verifier =
  vf_half :: half
  vf_codec :: cbor2
  vf_limits :: limits
  vertex_bytes :: nat
  port_bytes :: nat
  vf_libraries :: "digest \<Rightarrow> 'l option"
  vf_templates :: "digest \<Rightarrow> prompt_template option"
  library_encode :: "'l \<Rightarrow> limits \<Rightarrow> ('e type_check_error, bytes) result"
  tc_check :: "expression \<Rightarrow> expression_context \<Rightarrow> 'l type_environment \<Rightarrow> vport \<Rightarrow> limits \<Rightarrow>
    ('e type_check_error \<times> nat list, 'a) result"
  tc_boundary :: "expression \<Rightarrow> expression_context \<Rightarrow> 'l type_environment \<Rightarrow> vport \<Rightarrow> limits \<Rightarrow>
    ('e type_check_error, 'a) result"
  stored_size :: "'a \<Rightarrow> limits \<Rightarrow> ('e type_check_error, nat) result"

datatype 'e verification_kind =
  KGraph graph_error | KExpression "'e type_check_error" | KUnknownReference | KUseContext | KSelfOutcome
| KMissingCandidate wait_vertex | KUnconditionalWriters wait_vertex | KCycle | KUnobservable ident | KLimit

record 'e scope_verification_error =
  error_site :: "expression_site option"
  error_path :: "nat list option"
  error_kind :: "'e verification_kind"

type_synonym ('e, 'b) verified = "('e scope_verification_error, 'b) result"

definition verification_error :: "'e verification_kind \<Rightarrow> 'e scope_verification_error" where
  "verification_error k = \<lparr>error_site = None, error_path = None, error_kind = k\<rparr>"

abbreviation fail_with :: "'e verification_kind \<Rightarrow> ('e, 'b) verified" where
  "fail_with k \<equiv> Err (verification_error k)"

definition expression_failure :: "'e type_check_error \<Rightarrow> 'e scope_verification_error" where
  "expression_failure e = verification_error (KExpression e)"

record group =
  group_port :: vport
  group_candidates :: "ident list"
  group_unconditional :: nat

record 'a boundary_plan =
  boundary_edge :: ident
  boundary_source :: vport
  boundary_destination :: vport
  boundary_analysis :: 'a

record binding_plan =
  plan_destination :: wait_vertex
  plan_candidates :: "ident list"
  plan_required :: bool
  plan_exclusive :: bool

definition needs_uniqueness_check :: "binding_plan \<Rightarrow> bool" where
  "needs_uniqueness_check p \<longleftrightarrow> length (plan_candidates p) > 1"

definition may_overlap :: "binding_plan \<Rightarrow> bool" where
  "may_overlap p \<longleftrightarrow> needs_uniqueness_check p \<and> \<not> plan_exclusive p"

text \<open>The checker with the collections of \<open>verify_scope_graph_options\<close>.\<close>

record ('a, 'l) checker =
  ck_bytes :: nat
  ck_expressions :: "expression_site \<Rightarrow> 'a option"
  ck_environments :: "expression_site \<Rightarrow> 'l type_environment option"
  ck_dependencies :: "(wait_vertex \<times> wait_vertex) list"
  ck_vertices :: "wait_vertex list"
  ck_groups :: "(wait_vertex \<times> group) list"
  ck_observed :: "wait_vertex list"
  ck_boundaries :: "'a boundary_plan list"

record ('a, 'l) scope_graph_plan =
  plan_vertices :: "wait_vertex list"
  plan_dependencies :: "(nat \<times> nat) list"
  plan_order :: "nat list"
  plan_expressions :: "expression_site \<Rightarrow> 'a option"
  plan_environments :: "expression_site \<Rightarrow> 'l type_environment option"
  plan_bindings :: "binding_plan list"
  plan_boundaries :: "'a boundary_plan list"
  plan_bytes :: nat

section \<open>Budget\<close>

definition saturating_add :: "nat \<Rightarrow> nat \<Rightarrow> nat" where
  "saturating_add a b = min (a + b) (usize_bound - 1)"

definition saturating_mul :: "nat \<Rightarrow> nat \<Rightarrow> nat" where
  "saturating_mul a b = min (a * b) (usize_bound - 1)"

definition budget_charge :: "limits \<Rightarrow> nat \<Rightarrow> nat \<Rightarrow> ('e, nat) verified" where
  "budget_charge lim bytes n =
     (case Option.bind (checked_add n bytes) (\<lambda>k. checked_add k 1) of
        None \<Rightarrow> fail_with KLimit
      | Some k \<Rightarrow> if k > max_document_bytes lim then fail_with KLimit else Ok k)"

definition vertex_size :: "('a, 'l, 'e) verifier \<Rightarrow> wait_vertex \<Rightarrow> nat" where
  "vertex_size vf v =
     saturating_add (vertex_bytes vf)
       (case v of
          WAdmission n \<Rightarrow> length (as_str n) | WOutcome n \<Rightarrow> length (as_str n)
        | WOutput n \<Rightarrow> length (as_str n) | WNext n \<Rightarrow> length (as_str n)
        | WInput n p \<Rightarrow> saturating_add (length (as_str n)) (length (as_str p))
        | WUntil \<Rightarrow> 0 | WCompletion \<Rightarrow> 0)"

definition budget_port :: "('a, 'l, 'e) verifier \<Rightarrow> vport \<Rightarrow> nat \<Rightarrow> ('e, nat) verified" where
  "budget_port vf p n =
     attempt (map_err (\<lambda>e. expression_failure (TcType e))
       (value_type_encode (vf_codec vf) ContextValue (vf_limits vf) (port_type p))) (\<lambda>b.
     budget_charge (vf_limits vf) (saturating_add (length b) (port_bytes vf)) n)"

definition ck_charge :: "('a, 'l, 'e) verifier \<Rightarrow> nat \<Rightarrow> ('a, 'l) checker \<Rightarrow>
    ('e, ('a, 'l) checker) verified" where
  "ck_charge vf bytes c = attempt (budget_charge (vf_limits vf) bytes (ck_bytes c)) (\<lambda>n. Ok (c\<lparr>ck_bytes := n\<rparr>))"

definition ck_port :: "('a, 'l, 'e) verifier \<Rightarrow> vport \<Rightarrow> ('a, 'l) checker \<Rightarrow>
    ('e, ('a, 'l) checker) verified" where
  "ck_port vf p c = attempt (budget_port vf p (ck_bytes c)) (\<lambda>n. Ok (c\<lparr>ck_bytes := n\<rparr>))"

definition add_dependency :: "('a, 'l, 'e) verifier \<Rightarrow> wait_vertex \<Rightarrow> wait_vertex \<Rightarrow> ('a, 'l) checker \<Rightarrow>
    ('e, ('a, 'l) checker) verified" where
  "add_dependency vf a b c =
     attempt (ck_charge vf (saturating_add (vertex_size vf a) (vertex_size vf b)) c) (\<lambda>c.
     Ok (c\<lparr>ck_dependencies := set_insert (a, b) (ck_dependencies c)\<rparr>))"

section \<open>One expression site\<close>

definition sc_node :: "scope \<Rightarrow> ident \<Rightarrow> ('e, node) verified" where
  "sc_node s name = ok_or (verification_error KUnknownReference) (scope_node s name)"

definition sc_reference :: "scope \<Rightarrow> value_reference \<Rightarrow> node option \<Rightarrow> ('e, vport) verified" where
  "sc_reference s r own =
     attempt (case r of
         RInput name \<Rightarrow> Ok (ports_get (case own of None \<Rightarrow> scope_inputs s | Some n \<Rightarrow> node_inputs n) (as_str name))
       | RScopeOutput name \<Rightarrow> Ok (ports_get (case own of None \<Rightarrow> scope_outputs s | Some n \<Rightarrow> node_outputs n) (as_str name))
       | RCarried name \<Rightarrow> Ok (ports_get (scope_carried s) (as_str name))
       | RNext name \<Rightarrow> Ok (ports_get (scope_carried s) (as_str name))
       | ROutput node port \<Rightarrow> attempt (sc_node s node) (\<lambda>n. Ok (ports_get (node_outputs n) (as_str port))))
       (ok_or (verification_error KUnknownReference))"

text \<open>The state of the walk over one expression: environment, dependencies, budget.\<close>

type_synonym 'l site_state = "'l type_environment \<times> wait_vertex list \<times> nat"

definition site_library :: "('a, 'l, 'e) verifier \<Rightarrow> digest \<Rightarrow> 'l site_state \<Rightarrow>
    ('e, 'l site_state) verified" where
  "site_library vf d = (\<lambda>(env, deps, n).
     if env_libraries env d \<noteq> None then Ok (env, deps, n)
     else
       attempt (ok_or (verification_error KUnknownReference) (vf_libraries vf d)) (\<lambda>l.
       attempt (map_err expression_failure (library_encode vf l (vf_limits vf))) (\<lambda>b.
       attempt (budget_charge (vf_limits vf) (length b) n) (\<lambda>n1.
       Ok (env\<lparr>env_libraries := (env_libraries env)(d \<mapsto> l)\<rparr>, deps, n1)))))"

definition site_template :: "('a, 'l, 'e) verifier \<Rightarrow> digest \<Rightarrow> 'l site_state \<Rightarrow>
    ('e, 'l site_state) verified" where
  "site_template vf d = (\<lambda>(env, deps, n).
     if env_templates env d \<noteq> None then Ok (env, deps, n)
     else
       attempt (ok_or (verification_error KUnknownReference) (vf_templates vf d)) (\<lambda>t.
       attempt (map_err (\<lambda>e. expression_failure (TcExpression e)) (template_encode (vf_codec vf) (vf_limits vf) t)) (\<lambda>b.
       attempt (budget_charge (vf_limits vf) (length b) n) (\<lambda>n1.
       Ok (env\<lparr>env_templates := (env_templates env)(d \<mapsto> t)\<rparr>, deps, n1)))))"

definition reference_events :: "node option \<Rightarrow> value_reference \<Rightarrow> wait_vertex list" where
  "reference_events own r =
     (case r of
        ROutput node _ \<Rightarrow> [WOutcome node]
      | RScopeOutput name \<Rightarrow> if own = None then [WOutput name] else []
      | RNext name \<Rightarrow> [WNext name]
      | _ \<Rightarrow> [])"

definition site_reference :: "('a, 'l, 'e) verifier \<Rightarrow> scope \<Rightarrow> node option \<Rightarrow> value_reference \<Rightarrow> 'l site_state \<Rightarrow>
    ('e, 'l site_state) verified" where
  "site_reference vf s own r = (\<lambda>(env, deps, n).
     attempt
       (if env_references env r \<noteq> None then Ok (env, n)
        else
          attempt (sc_reference s r own) (\<lambda>p.
          attempt (budget_port vf p n) (\<lambda>n1. Ok (env\<lparr>env_references := (env_references env)(r \<mapsto> p)\<rparr>, n1)))) (\<lambda>(env1, n1).
     Ok (env1, fold set_insert (reference_events own r) deps, n1)))"

definition site_outcome :: "scope \<Rightarrow> expression_site \<Rightarrow> ident \<Rightarrow> 'l site_state \<Rightarrow>
    ('e, 'l site_state) verified" where
  "site_outcome s site name = (\<lambda>(env, deps, n).
     attempt (sc_node s name) (\<lambda>_.
     if site = SiteNodeGuard name then fail_with KSelfOutcome
     else Ok (env\<lparr>env_outcomes := insert name (env_outcomes env)\<rparr>, set_insert (WOutcome name) deps, n)))"

definition site_node :: "('a, 'l, 'e) verifier \<Rightarrow> scope \<Rightarrow> expression_site \<Rightarrow> node option \<Rightarrow> expression \<Rightarrow> 'l site_state \<Rightarrow>
    ('e, 'l site_state) verified" where
  "site_node vf s site own e st =
     (case e of
        ERef r _ \<Rightarrow> site_reference vf s own r st
      | EStatus name \<Rightarrow> site_outcome s site name st
      | EError name \<Rightarrow> site_outcome s site name st
      | ECall (FLibrary d _) _ \<Rightarrow> site_library vf d st
      | EFunctionRef d _ \<Rightarrow> site_library vf d st
      | ERender d _ \<Rightarrow> site_template vf d st
      | _ \<Rightarrow> Ok st)"

text \<open>One iteration: the node, then a charge for the path of every child it pushes.\<close>

definition site_visit :: "('a, 'l, 'e) verifier \<Rightarrow> scope \<Rightarrow> expression_site \<Rightarrow> node option \<Rightarrow> expression \<Rightarrow> nat list \<Rightarrow>
    'l site_state \<Rightarrow> ('e, 'l site_state) verified" where
  "site_visit vf s site own e path = (\<lambda>(env, deps, n).
     attempt (budget_charge (vf_limits vf) 8 n) (\<lambda>n1.
     attempt (site_node vf s site own e (env, deps, n1)) (\<lambda>(env1, deps1, n2).
     attempt (fold_result (\<lambda>_. budget_charge (vf_limits vf) (saturating_add (8 * length path) 8)) (expression_children e) n2) (\<lambda>n3.
     Ok (env1, deps1, n3)))))"

definition at_path :: "nat list \<Rightarrow> 'e scope_verification_error \<Rightarrow> 'e scope_verification_error" where
  "at_path path e = (case error_path e of None \<Rightarrow> e\<lparr>error_path := Some path\<rparr> | Some _ \<Rightarrow> e)"

definition child_paths :: "expression \<Rightarrow> nat list \<Rightarrow> (expression \<times> nat list) list" where
  "child_paths e path = map (\<lambda>(index, child). (child, path @ [index])) (enumerate 0 (expression_children e))"

definition weight :: "expression \<Rightarrow> nat" where
  "weight e = Suc (2 * size e)"

lemma weight_children: "sum_list (map weight (expression_children e)) < weight e"
proof -
  have *: "sum_list (map (\<lambda>x. weight (snd x)) fs) \<le> 2 * size_list (size_prod (\<lambda>x. 0) size) fs" for fs :: "('c \<times> expression) list"
    by (induction fs) (auto simp: weight_def)
  have **: "sum_list (map weight es) \<le> 2 * size_list size es" for es :: "expression list"
    by (induction es) (auto simp: weight_def)
  show ?thesis
  proof (cases e)
    case (EList es) then show ?thesis using ** [of es] by (simp add: weight_def [of "EList es"])
  next
    case (ECall f es) then show ?thesis using ** [of es] by (simp add: weight_def [of "ECall f es"])
  next
    case (ERecord fs) then show ?thesis using * [of fs] by (simp add: weight_def [of "ERecord fs"] comp_def)
  next
    case (ERender d fs) then show ?thesis using * [of fs] by (simp add: weight_def [of "ERender d fs"] comp_def)
  qed (simp_all add: weight_def)
qed

lemma child_paths_weight: "map (weight \<circ> fst) (child_paths e path) = map weight (expression_children e)"
  by (rule nth_equalityI) (auto simp: child_paths_def nth_enumerate_eq)

text \<open>The \<open>while\<close> loop; the head of the list is the top of the stack \<open>pending\<close>.\<close>

function site_walk :: "('a, 'l, 'e) verifier \<Rightarrow> scope \<Rightarrow> expression_site \<Rightarrow> node option \<Rightarrow> (expression \<times> nat list) list \<Rightarrow>
    'l site_state \<Rightarrow> ('e, 'l site_state) verified" where
  "site_walk vf s site own [] st = Ok st"
| "site_walk vf s site own ((e, path) # pending) st =
     attempt (map_err (at_path path) (site_visit vf s site own e path st)) (\<lambda>st1.
     site_walk vf s site own (child_paths e path @ pending) st1)"
  by pat_completeness auto
termination
  by (relation "measure (\<lambda>(vf, s, site, own, pending, st). sum_list (map (weight \<circ> fst) pending))")
    (simp_all add: child_paths_weight weight_children del: map_map)

definition site_check :: "('a, 'l, 'e) verifier \<Rightarrow> expression \<Rightarrow> expression_context \<Rightarrow> vport \<Rightarrow> 'l type_environment \<Rightarrow> nat \<Rightarrow>
    ('e, 'a \<times> nat) verified" where
  "site_check vf e context expected env n =
     attempt (map_err (\<lambda>(err, path). (expression_failure err)\<lparr>error_path := Some path\<rparr>)
       (tc_check vf e context env expected (vf_limits vf))) (\<lambda>a.
     attempt (map_err (at_path []) (attempt (map_err expression_failure (stored_size vf a (vf_limits vf))) (\<lambda>k.
       budget_charge (vf_limits vf) k n))) (\<lambda>n1. Ok (a, n1)))"

definition analyze :: "('a, 'l, 'e) verifier \<Rightarrow> scope \<Rightarrow> expression_site \<Rightarrow> expression \<Rightarrow> expression_context \<Rightarrow> node option \<Rightarrow>
    vport \<Rightarrow> ('a, 'l) checker \<Rightarrow> ('e, wait_vertex list \<times> ('a, 'l) checker) verified" where
  "analyze vf s site e context own expected c =
     map_err (\<lambda>err. err\<lparr>error_site := Some site\<rparr>)
       (attempt (site_walk vf s site own [(e, [])] (empty_environment, [], ck_bytes c)) (\<lambda>(env, deps, n).
        attempt (site_check vf e context expected env n) (\<lambda>(a, n1).
        Ok (deps, c\<lparr>ck_bytes := n1, ck_expressions := (ck_expressions c)(site \<mapsto> a),
          ck_environments := (ck_environments c)(site \<mapsto> env)\<rparr>))))"

section \<open>Exclusive guards\<close>

definition literal_variant :: "scalar_literal \<Rightarrow> nat" where
  "literal_variant l =
     (case l of LString _ \<Rightarrow> 0 | LInteger _ \<Rightarrow> 1 | LFloat _ \<Rightarrow> 2 | LBoolean _ \<Rightarrow> 3 | LNull \<Rightarrow> 4 | LBytes _ \<Rightarrow> 5)"

definition equality_guard :: "expression \<Rightarrow> (expression \<times> scalar_literal) option" where
  "equality_guard e =
     (case e of
        EBinary OpEq left right \<Rightarrow>
          (case right of ELiteral l \<Rightarrow> Some (left, l)
           | _ \<Rightarrow> (case left of ELiteral l \<Rightarrow> Some (right, l) | _ \<Rightarrow> None))
      | _ \<Rightarrow> None)"

definition exclusive_guards :: "expression \<Rightarrow> expression \<Rightarrow> bool" where
  "exclusive_guards a b \<longleftrightarrow>
     a = ENot b \<or> b = ENot a \<or> a = ELiteral (LBoolean False) \<or> b = ELiteral (LBoolean False) \<or>
     (case (equality_guard a, equality_guard b) of
        (Some (x, l), Some (y, k)) \<Rightarrow> x = y \<and> literal_variant l = literal_variant k \<and> l \<noteq> k
      | _ \<Rightarrow> False)"

fun pairs_of :: "'a list \<Rightarrow> ('a \<times> 'a) list" where
  "pairs_of [] = []"
| "pairs_of (x # xs) = map (Pair x) xs @ pairs_of xs"

text \<open>The loop \<open>'pairs\<close>, which stops at the first pair that may overlap.\<close>

fun exclusive_pairs :: "('a, 'l, 'e) verifier \<Rightarrow> (ident \<Rightarrow> expression option) \<Rightarrow> (ident \<times> ident) list \<Rightarrow> nat \<Rightarrow>
    ('e, bool \<times> nat) verified" where
  "exclusive_pairs vf guards [] n = Ok (True, n)"
| "exclusive_pairs vf guards ((a, b) # ps) n =
     attempt (expect (guards a)) (\<lambda>ga.
     attempt (expect (guards b)) (\<lambda>gb.
     attempt (map_err (\<lambda>e. expression_failure (TcExpression e)) (expression_encode (vf_half vf) (vf_codec vf) (vf_limits vf) ga)) (\<lambda>ea.
     attempt (map_err (\<lambda>e. expression_failure (TcExpression e)) (expression_encode (vf_half vf) (vf_codec vf) (vf_limits vf) gb)) (\<lambda>eb.
     attempt (budget_charge (vf_limits vf) (saturating_add (length ea) (length eb)) n) (\<lambda>n1.
     if \<not> exclusive_guards ga gb then Ok (False, n1) else exclusive_pairs vf guards ps n1)))))"

section \<open>Building the wait graph\<close>

definition boolean_port :: vport where
  "boolean_port = Port (TBuiltin BBoolean) True"

definition open_group :: "('a, 'l, 'e) verifier \<Rightarrow> wait_vertex \<Rightarrow> vport \<Rightarrow> nat \<Rightarrow> ('a, 'l) checker \<Rightarrow>
    ('e, ('a, 'l) checker) verified" where
  "open_group vf v p copies c =
     attempt (ck_charge vf (saturating_mul (vertex_size vf v) copies) c) (\<lambda>c1.
     attempt (ck_port vf p c1) (\<lambda>c2.
     Ok (c2\<lparr>ck_groups := map_insert v \<lparr>group_port = p, group_candidates = [], group_unconditional = 0\<rparr> (ck_groups c2),
       ck_vertices := set_insert v (ck_vertices c2)\<rparr>)))"

definition declare_boundary :: "('a, 'l, 'e) verifier \<Rightarrow> (ident \<Rightarrow> wait_vertex) \<Rightarrow> ident \<times> vport \<Rightarrow> ('a, 'l) checker \<Rightarrow>
    ('e, ('a, 'l) checker) verified" where
  "declare_boundary vf vertex = (\<lambda>(name, p) c.
     open_group vf (vertex name) p 3 (c\<lparr>ck_observed := set_insert (vertex name) (ck_observed c)\<rparr>))"

definition add_dependencies :: "('a, 'l, 'e) verifier \<Rightarrow> wait_vertex list \<Rightarrow> wait_vertex \<Rightarrow> ('a, 'l) checker \<Rightarrow>
    ('e, ('a, 'l) checker) verified" where
  "add_dependencies vf deps v = fold_result (\<lambda>d. add_dependency vf d v) deps"

definition declare_input :: "('a, 'l, 'e) verifier \<Rightarrow> ident \<Rightarrow> ident \<times> vport \<Rightarrow> ('a, 'l) checker \<Rightarrow>
    ('e, ('a, 'l) checker) verified" where
  "declare_input vf i = (\<lambda>(name, p) c.
     attempt (open_group vf (WInput i name) p 2 c) (\<lambda>c1.
     attempt (add_dependency vf (WAdmission i) (WInput i name) c1) (\<lambda>c2.
     add_dependency vf (WInput i name) (WOutcome i) c2)))"

definition post_context :: "operation \<Rightarrow> expression_context" where
  "post_context op =
     (case op of OpScope _ \<Rightarrow> CWrapperPostconditions | OpLoop _ _ _ _ \<Rightarrow> CLoopPostconditions | _ \<Rightarrow> CPrimitivePostconditions)"

definition analyze_eval :: "('a, 'l, 'e) verifier \<Rightarrow> scope \<Rightarrow> node \<Rightarrow> ('a, 'l) checker \<Rightarrow>
    ('e, ('a, 'l) checker) verified" where
  "analyze_eval vf s n c =
     (case node_operation n of
        OpEval e \<Rightarrow>
          attempt (ok_or (verification_error KUnknownReference) (ports_get (node_outputs n) ''value'')) (\<lambda>p.
          attempt (analyze vf s (SiteEval (node_id n)) e CEval (Some n) p c) (\<lambda>(_, c1). Ok c1))
      | _ \<Rightarrow> Ok c)"

definition declare_node :: "('a, 'l, 'e) verifier \<Rightarrow> scope \<Rightarrow> expression_context \<Rightarrow> node \<Rightarrow> ('a, 'l) checker \<Rightarrow>
    ('e, ('a, 'l) checker) verified" where
  "declare_node vf s guard_context n c =
     (let i = node_id n in
      attempt (add_dependency vf (WAdmission i) (WOutcome i)
        (c\<lparr>ck_vertices := set_insert (WOutcome i) (set_insert (WAdmission i) (ck_vertices c))\<rparr>)) (\<lambda>c1.
      attempt (add_dependency vf (WOutcome i) WCompletion c1) (\<lambda>c2.
      attempt (fold_result (declare_input vf i) (port_entries (node_inputs n)) c2) (\<lambda>c3.
      attempt (analyze vf s (SiteNodeGuard i) (node_guard n) guard_context None boolean_port c3) (\<lambda>(deps, c4).
      attempt (add_dependencies vf deps (WAdmission i) c4) (\<lambda>c5.
      attempt (analyze vf s (SiteNodePreconditions i) (node_preconditions n) CPreconditions (Some n) boolean_port c5) (\<lambda>(_, c6).
      attempt (analyze vf s (SiteNodePostconditions i) (node_postconditions n) (post_context (node_operation n)) (Some n)
        boolean_port c6) (\<lambda>(_, c7). analyze_eval vf s n c7))))))))"

definition destination_vertex :: "edge_destination \<Rightarrow> wait_vertex" where
  "destination_vertex d =
     (case d of DstInput node port \<Rightarrow> WInput node port | DstOutput port \<Rightarrow> WOutput port | DstNext port \<Rightarrow> WNext port)"

definition source_reference :: "edge_source \<Rightarrow> value_reference" where
  "source_reference s =
     (case s of SrcInput port \<Rightarrow> RInput port | SrcOutput node port \<Rightarrow> ROutput node port | SrcCarried port \<Rightarrow> RCarried port)"

definition add_candidate :: "edge \<Rightarrow> group \<Rightarrow> group" where
  "add_candidate e g =
     g\<lparr>group_candidates := group_candidates g @ [edge_id e],
       group_unconditional := group_unconditional g + (if is_truth (edge_guard e) then 1 else 0)\<rparr>"

definition edge_group :: "edge \<Rightarrow> (wait_vertex \<times> group) list \<Rightarrow> (wait_vertex \<times> group) list" where
  "edge_group e = map (\<lambda>(v, g). (v, if v = destination_vertex (edge_destination e) then add_candidate e g else g))"

text \<open>The whole-port compatibility of one edge, with absence left to the binding.\<close>

definition check_boundary :: "('a, 'l, 'e) verifier \<Rightarrow> edge \<Rightarrow> vport \<Rightarrow> vport \<Rightarrow> ('a, 'l) checker \<Rightarrow>
    ('e, ('a, 'l) checker) verified" where
  "check_boundary vf e source target c =
     (let temporary = RInput (Ident ''source'');
          lim = vf_limits vf in
      attempt (ck_port vf source c) (\<lambda>c1.
      attempt (map_err (\<lambda>e. expression_failure (TcExpression e)) (expression_new (vf_half vf) (ERef temporary []) lim)) (\<lambda>x.
      attempt (ck_port vf target c1) (\<lambda>c2.
      attempt (map_err (\<lambda>err. (expression_failure err)\<lparr>error_site := Some (SiteEdgeBoundary (edge_id e))\<rparr>)
        (tc_boundary vf x CEval (empty_environment\<lparr>env_references := [temporary \<mapsto> source]\<rparr>)
          (Port (port_type target) False) lim)) (\<lambda>a.
      attempt (map_err expression_failure (stored_size vf a lim)) (\<lambda>k.
      attempt (ck_charge vf k c2) (\<lambda>c3.
      attempt (ck_port vf target c3) (\<lambda>c4.
      Ok (c4\<lparr>ck_boundaries := ck_boundaries c4 @
        [\<lparr>boundary_edge = edge_id e, boundary_source = source, boundary_destination = target, boundary_analysis = a\<rparr>]\<rparr>)))))))))"

definition edge_source_wait :: "('a, 'l, 'e) verifier \<Rightarrow> edge \<Rightarrow> ('a, 'l) checker \<Rightarrow> ('e, ('a, 'l) checker) verified" where
  "edge_source_wait vf e c =
     (case edge_source e of
        SrcOutput node _ \<Rightarrow> add_dependency vf (WOutcome node) (destination_vertex (edge_destination e)) c
      | _ \<Rightarrow> Ok c)"

definition add_edge :: "('a, 'l, 'e) verifier \<Rightarrow> scope \<Rightarrow> expression_context \<Rightarrow> edge \<Rightarrow> ('a, 'l) checker \<Rightarrow>
    ('e, ('a, 'l) checker) verified" where
  "add_edge vf s guard_context e c =
     (let d = destination_vertex (edge_destination e) in
      attempt (ok_or (verification_error KUnknownReference) (map_of (ck_groups c) d)) (\<lambda>g.
      attempt (ck_charge vf (length (as_str (edge_id e))) c) (\<lambda>c1.
      attempt (edge_source_wait vf e (c1\<lparr>ck_groups := edge_group e (ck_groups c1)\<rparr>)) (\<lambda>c2.
      attempt (sc_reference s (source_reference (edge_source e)) None) (\<lambda>source.
      attempt (ck_port vf source c2) (\<lambda>c3.
      attempt (check_boundary vf e source (group_port g) c3) (\<lambda>c4.
      attempt (analyze vf s (SiteEdgeGuard (edge_id e)) (edge_guard e) guard_context None boolean_port c4) (\<lambda>(deps, c5).
      add_dependencies vf deps d c5))))))))"

definition bind_group :: "('a, 'l, 'e) verifier \<Rightarrow> scope \<Rightarrow> bool \<Rightarrow> wait_vertex \<times> group \<Rightarrow> ('a, 'l) checker \<Rightarrow>
    ('e, binding_plan \<times> ('a, 'l) checker) verified" where
  "bind_group vf s has_until = (\<lambda>(v, g) c.
     if port_required (group_port g) \<and> group_candidates g = [] then fail_with (KMissingCandidate v)
     else if group_unconditional g > 1 then fail_with (KUnconditionalWriters v)
     else
       attempt (case v of
           WOutput _ \<Rightarrow> add_dependency vf v (if has_until then WUntil else WCompletion) c
         | WNext _ \<Rightarrow> add_dependency vf v (if has_until then WUntil else WCompletion) c
         | _ \<Rightarrow> Ok c) (\<lambda>c1.
       attempt (exclusive_pairs vf (\<lambda>i. map_option edge_guard (find (\<lambda>e. edge_id e = i) (rev (scope_edges s))))
         (pairs_of (group_candidates g)) (ck_bytes c1)) (\<lambda>(exclusive, n).
       Ok (\<lparr>plan_destination = v, plan_candidates = group_candidates g, plan_required = port_required (group_port g),
           plan_exclusive = exclusive\<rparr>, c1\<lparr>ck_bytes := n\<rparr>))))"

definition add_until :: "('a, 'l, 'e) verifier \<Rightarrow> scope \<Rightarrow> expression \<Rightarrow> ('a, 'l) checker \<Rightarrow>
    ('e, ('a, 'l) checker) verified" where
  "add_until vf s u c =
     attempt (fold_result (\<lambda>n. add_dependency vf (WOutcome (node_id n)) WUntil) (scope_nodes s) c) (\<lambda>c1.
     attempt (analyze vf s SiteUntil u CLoopUntil None boolean_port c1) (\<lambda>(deps, c2).
     attempt (add_dependencies vf deps WUntil (c2\<lparr>ck_observed := fold set_insert deps (ck_observed c2)\<rparr>)) (\<lambda>c3.
     add_dependency vf WUntil WCompletion c3)))"

section \<open>Ordering the wait graph\<close>

definition vertex_index :: "wait_vertex list \<Rightarrow> wait_vertex \<Rightarrow> nat option" where
  "vertex_index vs v = map_of (zip vs [0..<length vs]) v"

text \<open>Adjacency in both directions, the in-degrees, and the indexed dependencies.\<close>

type_synonym wiring = "nat list list \<times> nat list list \<times> nat list \<times> (nat \<times> nat) list"

definition wire :: "wait_vertex list \<Rightarrow> wait_vertex \<times> wait_vertex \<Rightarrow> wiring \<Rightarrow> ('e, wiring) verified" where
  "wire vs = (\<lambda>(a, b) (forward, reverse, degrees, deps).
     attempt (ok_or (verification_error KUnknownReference) (vertex_index vs a)) (\<lambda>i.
     attempt (ok_or (verification_error KUnknownReference) (vertex_index vs b)) (\<lambda>j.
     Ok (forward[i := forward ! i @ [j]], reverse[j := reverse ! j @ [i]], degrees[j := degrees ! j + 1], deps @ [(i, j)]))))"

definition relax :: "limits \<Rightarrow> nat \<Rightarrow> nat list \<times> nat list \<times> nat \<Rightarrow>
    ('e, nat list \<times> nat list \<times> nat) verified" where
  "relax lim next = (\<lambda>(ready, degrees, n).
     attempt (budget_charge lim 0 n) (\<lambda>n1.
     if next \<ge> length degrees \<or> degrees ! next = 0 then Panic
     else
       let d = degrees ! next - 1 in
       Ok (if d = 0 then set_insert next ready else ready, degrees[next := d], n1)))"

lemma length_set_insert: "length (set_insert x xs) \<le> Suc (length xs)"
  by (simp add: set_insert_def)

lemma sum_list_decrement:
  "i < length ds \<Longrightarrow> ds ! i = Suc d \<Longrightarrow> Suc (sum_list (ds[i := d])) = sum_list ds"
  by (induction ds arbitrary: i) (auto split: nat.splits simp: nth_Cons)

lemma relax_decreases:
  "relax lim i (ready, ds, n) = Ok (ready', ds', n') \<Longrightarrow> length ready' + sum_list ds' \<le> length ready + sum_list ds"
  using sum_list_decrement [of i ds "ds ! i - 1"] length_set_insert [of i ready]
  by (auto simp: relax_def Let_def split: if_splits)

lemma relax_all_decreases:
  "fold_result (relax lim) xs (ready, ds, n) = Ok (ready', ds', n') \<Longrightarrow> length ready' + sum_list ds' \<le> length ready + sum_list ds"
proof (induction xs arbitrary: ready ds n)
  case (Cons x xs)
  then show ?case by (auto dest!: relax_decreases) (meson order.trans)
qed simp

text \<open>The \<open>while\<close> loop that pops the least ready vertex. A degree never goes below zero, so
  every insertion into \<open>ready\<close> is paid for by a degree.\<close>

function kahn :: "limits \<Rightarrow> nat list list \<Rightarrow> nat list \<Rightarrow> nat list \<Rightarrow> nat list \<Rightarrow> nat \<Rightarrow>
    ('e, nat list \<times> nat) verified" where
  "kahn lim forward [] degrees order n = Ok (order, n)"
| "kahn lim forward (i # ready) degrees order n =
     attempt (budget_charge lim 8 n) (\<lambda>n1.
     attempt (expect (if i < length forward then Some (forward ! i) else None)) (\<lambda>next.
     attempt (fold_result (relax lim) next (ready, degrees, n1)) (\<lambda>(ready1, degrees1, n2).
     kahn lim forward ready1 degrees1 (order @ [i]) n2)))"
  by pat_completeness auto
termination
  by (relation "measure (\<lambda>(lim, forward, ready, degrees, order, n). length ready + sum_list degrees)")
    (auto dest!: relax_all_decreases)

text \<open>The vertices from which an observed one is reached, backwards from those.\<close>

function observe :: "limits \<Rightarrow> nat list list \<Rightarrow> nat list \<Rightarrow> nat list \<Rightarrow> nat \<Rightarrow>
    ('e, nat list \<times> nat) verified" where
  "observe lim reverse [] live n = Ok (live, n)"
| "observe lim reverse (i # pending) live n =
     attempt (budget_charge lim 0 n) (\<lambda>n1.
     if i \<in> set live then observe lim reverse pending live n1
     else if i < length reverse then observe lim reverse (rev (reverse ! i) @ pending) (set_insert i live) n1
     else Panic)"
  by pat_completeness auto
termination
proof (relation "inv_image (less_than <*lex*> less_than)
    (\<lambda>(lim, reverse, pending, live, n). (card ({..<length reverse} - set live), length pending))", goal_cases)
  case (3 lim reverse i pending live n x)
  then have "{..<length reverse} - set (set_insert i live) \<subset> {..<length reverse} - set live"
    by (auto simp: set_insert_def set_insort_key)
  then show ?case by (simp add: psubset_card_mono)
qed auto

definition order_graph :: "('a, 'l, 'e) verifier \<Rightarrow> scope \<Rightarrow> ('a, 'l) checker \<Rightarrow>
    ('e, (nat \<times> nat) list \<times> nat list \<times> nat) verified" where
  "order_graph vf s c =
     (let vs = ck_vertices c; k = length vs; lim = vf_limits vf in
      attempt (fold_result (wire vs) (ck_dependencies c) (replicate k [], replicate k [], replicate k 0, []))
        (\<lambda>(forward, reverse, degrees, deps).
      attempt (kahn lim forward (filter (\<lambda>i. degrees ! i = 0) [0..<k]) degrees [] (ck_bytes c)) (\<lambda>(order, n1).
      if length order \<noteq> k then fail_with KCycle
      else
        attempt (observe lim reverse (rev (List.map_filter (vertex_index vs) (ck_observed c))) [] n1) (\<lambda>(live, n2).
        attempt (fold_result (\<lambda>n _.
            attempt (expect (vertex_index vs (WOutcome (node_id n)))) (\<lambda>i.
            if i \<notin> set live then fail_with (KUnobservable (node_id n)) else Ok ())) (scope_nodes s) ()) (\<lambda>_.
        Ok (deps, order, n2))))))"

section \<open>Verification of a scope use\<close>

definition initial_checker :: "('a, 'l) checker" where
  "initial_checker =
     \<lparr>ck_bytes = 0, ck_expressions = (\<lambda>_. None), ck_environments = (\<lambda>_. None), ck_dependencies = [],
      ck_vertices = [WCompletion], ck_groups = [], ck_observed = [], ck_boundaries = []\<rparr>"

definition build_graph :: "('a, 'l, 'e) verifier \<Rightarrow> scope \<Rightarrow> scope_context \<Rightarrow> expression option \<Rightarrow>
    ('e, binding_plan list \<times> ('a, 'l) checker) verified" where
  "build_graph vf s role until =
     (let guard_context = CGuard (role = LoopBody) in
      attempt (fold_result (declare_boundary vf WOutput) (port_entries (scope_outputs s)) initial_checker) (\<lambda>c1.
      attempt (if role = LoopBody
        then fold_result (declare_boundary vf WNext) (port_entries (scope_carried s))
          (c1\<lparr>ck_vertices := set_insert WUntil (ck_vertices c1)\<rparr>)
        else Ok c1) (\<lambda>c2.
      attempt (analyze vf s SitePreconditions (scope_preconditions s) CPreconditions None boolean_port c2) (\<lambda>(_, c3).
      attempt (analyze vf s SitePostconditions (scope_postconditions s) CScopePostconditions None boolean_port c3) (\<lambda>(post, c4).
      attempt (add_dependencies vf post WCompletion (c4\<lparr>ck_observed := fold set_insert post (ck_observed c4)\<rparr>)) (\<lambda>c5.
      attempt (fold_result (declare_node vf s guard_context) (scope_nodes s) c5) (\<lambda>c6.
      attempt (fold_result (add_edge vf s guard_context) (scope_edges s) c6) (\<lambda>c7.
      attempt (fold_collect (bind_group vf s (until \<noteq> None)) (ck_groups c7) c7) (\<lambda>(bindings, c8).
      attempt (case until of Some u \<Rightarrow> add_until vf s u c8 | None \<Rightarrow> Ok c8) (\<lambda>c9.
      Ok (bindings, c9)))))))))))"

definition verify_scope_graph :: "('a, 'l, 'e) verifier \<Rightarrow> scope \<Rightarrow> scope_context \<Rightarrow> expression option \<Rightarrow>
    ('e, ('a, 'l) scope_graph_plan) verified" where
  "verify_scope_graph vf s role until =
     attempt (map_err (\<lambda>e. verification_error (KGraph e)) (scope_to_value (vf_half vf) (vf_limits vf) s)) (\<lambda>_.
     attempt (map_err (\<lambda>e. verification_error (KGraph e)) (scope_check s role)) (\<lambda>_.
     if (role = LoopBody) \<noteq> (until \<noteq> None) then fail_with KUseContext
     else
       attempt (build_graph vf s role until) (\<lambda>(bindings, c).
       attempt (order_graph vf s c) (\<lambda>(deps, order, n).
       Ok \<lparr>plan_vertices = ck_vertices c, plan_dependencies = deps, plan_order = order,
           plan_expressions = ck_expressions c, plan_environments = ck_environments c, plan_bindings = bindings,
           plan_boundaries = ck_boundaries c, plan_bytes = n\<rparr>))))"

end
