(* ===== verification/Wait_Order.thy ===== *)
theory Wait_Order
  imports Scope_Graph
begin

text \<open>
  The two loops on the indexed wait graph. \<open>wired\<close> is what the wiring builds, \<open>kahn\<close> returns a
  topological order of a set of vertices that is everything exactly when the graph has no
  cycle, and \<open>observe\<close> computes the vertices from which an observed one is reached.
\<close>

section \<open>Ordered sets\<close>

lemma set_set_insert [simp]: "set (set_insert x xs) = insert x (set xs)"
  by (auto simp: set_insert_def set_insort_key)

lemma distinct_set_insert [simp]: "distinct xs \<Longrightarrow> distinct (set_insert x xs)"
  by (auto simp: set_insert_def distinct_insort)

lemma sorted_set_insert [simp]: "sorted xs \<Longrightarrow> sorted (set_insert x xs)"
  by (auto simp: set_insert_def sorted_insort)

lemma set_fold_insert [simp]: "set (fold set_insert xs ys) = set xs \<union> set ys"
  by (induction xs arbitrary: ys) auto

section \<open>Wiring\<close>

definition edge_count :: "(nat \<times> nat) list \<Rightarrow> nat set \<Rightarrow> nat \<Rightarrow> nat" where
  "edge_count ds X j = length (filter (\<lambda>p. snd p = j \<and> fst p \<notin> X) ds)"

definition wired :: "nat \<Rightarrow> wiring \<Rightarrow> bool" where
  "wired k = (\<lambda>(forward, reverse, degrees, ds).
     length forward = k \<and> length reverse = k \<and> length degrees = k \<and> (\<forall>(x, y) \<in> set ds. x < k \<and> y < k) \<and>
     (\<forall>i < k. forward ! i = map snd (filter (\<lambda>p. fst p = i) ds) \<and>
       reverse ! i = map fst (filter (\<lambda>p. snd p = i) ds) \<and> degrees ! i = edge_count ds {} i))"

lemma vertex_index_less: "vertex_index vs v = Some i \<Longrightarrow> i < length vs \<and> vs ! i = v"
  unfolding vertex_index_def by (drule map_of_SomeD) (auto simp: in_set_zip)

lemma vertex_index_nth: "distinct vs \<Longrightarrow> i < length vs \<Longrightarrow> vertex_index vs (vs ! i) = Some i"
  unfolding vertex_index_def by (rule map_of_is_SomeI) (auto simp: in_set_zip)

lemma vertex_index_mem: "v \<in> set vs \<Longrightarrow> \<exists>i. vertex_index vs v = Some i"
  unfolding vertex_index_def by (metis length_upt map_of_zip_is_None minus_nat.diff_0 not_None_eq)

lemma wire_step:
  assumes "wired (length vs) (fw, rv, dg, ds)" "wire vs (a, b) (fw, rv, dg, ds) = Ok w"
  shows "wired (length vs) w \<and> (\<exists>i j. vertex_index vs a = Some i \<and> vertex_index vs b = Some j \<and>
    snd (snd (snd w)) = ds @ [(i, j)])"
  using assms
  by (auto simp: wire_def wired_def nth_list_update edge_count_def dest: vertex_index_less)

lemma wire_all:
  assumes "wired (length vs) (fw, rv, dg, ds)" "fold_result (wire vs) D (fw, rv, dg, ds) = (Ok (fw', rv', dg', ds') :: ('e, wiring) verified)"
  shows "wired (length vs) (fw', rv', dg', ds') \<and>
    list_all2 (\<lambda>(a, b) (i, j). vertex_index vs a = Some i \<and> vertex_index vs b = Some j) D (drop (length ds) ds') \<and>
    take (length ds) ds' = ds"
  using assms
proof (induction D arbitrary: fw rv dg ds)
  case (Cons p D)
  obtain a b where p: "p = (a, b)" by (cases p)
  from Cons.prems(2) obtain fw1 rv1 dg1 ds1 where w: "wire vs (a, b) (fw, rv, dg, ds) = (Ok (fw1, rv1, dg1, ds1) :: ('e, wiring) verified)"
    and r: "fold_result (wire vs) D (fw1, rv1, dg1, ds1) = (Ok (fw', rv', dg', ds') :: ('e, wiring) verified)"
    by (auto simp: p)
  obtain i j where ij: "wired (length vs) (fw1, rv1, dg1, ds1)" "vertex_index vs a = Some i" "vertex_index vs b = Some j"
    "ds1 = ds @ [(i, j)]" using wire_step [OF Cons.prems(1) w] by auto
  have IH: "list_all2 (\<lambda>(a, b) (i, j). vertex_index vs a = Some i \<and> vertex_index vs b = Some j) D (drop (length ds1) ds')"
    "take (length ds1) ds' = ds1" "wired (length vs) (fw', rv', dg', ds')" using Cons.IH [OF ij(1) r] by auto
  have "ds' = ds @ (i, j) # drop (length ds1) ds'"
    using IH(2) ij(4) by (metis append.assoc append_Cons append_Nil append_take_drop_id)
  then have "drop (length ds) ds' = (i, j) # drop (length ds1) ds'" "take (length ds) ds' = ds"
    by (metis append_eq_conv_conj)+
  then show ?case using IH ij by (simp add: p)
qed simp

lemma wired_empty: "wired k (replicate k [], replicate k [], replicate k 0, [])"
  by (simp add: wired_def edge_count_def)

section \<open>The topological order\<close>

lemma relax_Ok:
  "relax lim x (ready, dg, n) = Ok (ready', dg', n') \<Longrightarrow>
    x < length dg \<and> dg ! x > 0 \<and> dg' = dg[x := dg ! x - 1] \<and> ready' = (if dg ! x = 1 then set_insert x ready else ready)"
  by (auto simp: relax_def Let_def split: if_splits)

lemma relax_all_Ok:
  assumes "fold_result (relax lim) xs (ready, dg, n) = (Ok (ready', dg', n') :: ('e, _) verified)"
  shows "length dg' = length dg \<and> (\<forall>j < length dg. dg' ! j + count_list xs j = dg ! j) \<and>
    set ready' = set ready \<union> {j \<in> set xs. dg' ! j = 0} \<and> set xs \<subseteq> {..<length dg} \<and>
    (distinct ready \<longrightarrow> distinct ready')"
  using assms
proof (induction xs arbitrary: ready dg n)
  case (Cons x xs)
  obtain r1 d1 n1 where x: "relax lim x (ready, dg, n) = (Ok (r1, d1, n1) :: ('e, _) verified)"
    and r: "fold_result (relax lim) xs (r1, d1, n1) = (Ok (ready', dg', n') :: ('e, _) verified)"
    using Cons.prems by auto
  note x = relax_Ok [OF x]
  note IH = Cons.IH [OF r]
  have l: "length d1 = length dg" using x by simp
  have eq: "dg' ! j + count_list (x # xs) j = dg ! j" if "j < length dg" for j
    using that x IH l by (auto simp: nth_list_update split: if_splits)
  have "set ready' = set ready \<union> {j \<in> set (x # xs). dg' ! j = 0}"
  proof (cases "dg ! x = 1")
    case True
    then have "dg' ! x = 0" using eq [of x] x by simp
    then show ?thesis using True x IH by auto
  next
    case False
    have "x \<in> set xs" if "dg' ! x = 0"
    proof -
      have "count_list xs x \<noteq> 0" using that eq [of x] x False by auto
      then show ?thesis by (simp add: count_list_0_iff)
    qed
    then show ?thesis using False x IH by auto
  qed
  then show ?case using eq x IH l by auto
qed simp

text \<open>Everything ordered has its predecessors before it.\<close>

definition topological :: "(nat \<times> nat) list \<Rightarrow> nat list \<Rightarrow> bool" where
  "topological ds order \<longleftrightarrow>
     distinct order \<and> (\<forall>p y q x. order = p @ y # q \<longrightarrow> (x, y) \<in> set ds \<longrightarrow> x \<in> set p)"

definition kahn_invariant :: "nat \<Rightarrow> (nat \<times> nat) list \<Rightarrow> nat list \<Rightarrow> nat list \<Rightarrow> nat list \<Rightarrow> bool" where
  "kahn_invariant k ds ready dg order \<longleftrightarrow>
     topological ds order \<and> distinct ready \<and> length dg = k \<and>
     (\<forall>j < k. dg ! j = edge_count ds (set order) j) \<and>
     set ready \<inter> set order = {} \<and> set ready \<union> set order = {j. j < k \<and> dg ! j = 0}"

lemma edge_count_insert:
  "i \<notin> X \<Longrightarrow> edge_count ds (insert i X) j + count_list (map snd (filter (\<lambda>p. fst p = i) ds)) j = edge_count ds X j"
  by (induction ds) (auto simp: edge_count_def)

lemma edge_count_zero: "edge_count ds X j = 0 \<longleftrightarrow> (\<forall>x. (x, j) \<in> set ds \<longrightarrow> x \<in> X)"
  by (auto simp: edge_count_def filter_empty_conv)

lemma topological_snoc:
  assumes "topological ds order" "i \<notin> set order" "edge_count ds (set order) i = 0"
  shows "topological ds (order @ [i])"
proof -
  have "x \<in> set p" if "order @ [i] = p @ y # q" "(x, y) \<in> set ds" for p y q x
  proof (cases q rule: rev_cases)
    case Nil
    then show ?thesis using that assms(3) by (auto simp: edge_count_zero)
  next
    case (snoc q' z)
    then have "order = p @ y # q'" using that(1) by simp
    then show ?thesis using assms(1) that(2) unfolding topological_def by blast
  qed
  then show ?thesis using assms unfolding topological_def by auto
qed

lemma kahn_step:
  assumes inv: "kahn_invariant k ds (i # ready) dg order"
    and fw: "fw = map snd (filter (\<lambda>p. fst p = i) ds)"
    and r: "fold_result (relax lim) fw (ready, dg, n) = Ok (ready1, dg1, n1)"
  shows "kahn_invariant k ds ready1 dg1 (order @ [i])"
proof -
  note R = relax_all_Ok [OF r]
  have i: "i < k" "dg ! i = 0" "i \<notin> set order" "i \<notin> set ready"
    using inv unfolding kahn_invariant_def by auto
  have len: "length dg = k" using inv by (simp add: kahn_invariant_def)
  have deg: "dg1 ! j = edge_count ds (set (order @ [i])) j" if "j < k" for j
  proof -
    have "dg1 ! j + count_list fw j = edge_count ds (set order) j"
      using R inv that len unfolding kahn_invariant_def by auto
    moreover have "edge_count ds (insert i (set order)) j + count_list fw j = edge_count ds (set order) j"
      unfolding fw using i(3) by (rule edge_count_insert)
    ultimately show ?thesis by simp
  qed
  have zero: "dg ! j = 0 \<longleftrightarrow> dg1 ! j = 0 \<and> j \<notin> set fw" if "j < k" for j
    using R that len by (metis add_is_0 count_list_0_iff)
  have top: "topological ds (order @ [i])"
    using inv i unfolding kahn_invariant_def by (intro topological_snoc) auto
  have d: "distinct ready1" "set ready1 = set ready \<union> {j \<in> set fw. dg1 ! j = 0}" "set fw \<subseteq> {..<k}"
    using R inv len unfolding kahn_invariant_def by auto
  have split: "set (i # ready) \<union> set order = {j. j < k \<and> dg ! j = 0}" "set (i # ready) \<inter> set order = {}"
    using inv unfolding kahn_invariant_def by auto
  have "set ready1 \<inter> set (order @ [i]) = {}" using d(2) split zero i d(3) by auto
  moreover have "set ready1 \<union> set (order @ [i]) = {j. j < k \<and> dg1 ! j = 0}"
    using d(2,3) split(1) zero by auto
  ultimately show ?thesis
    unfolding kahn_invariant_def using top d(1) deg R len by auto
qed

lemma kahn_Ok:
  assumes "kahn lim fw ready dg order n = (Ok (order', n') :: ('e, _) verified)" "kahn_invariant k ds ready dg order"
    and "\<And>i. i < k \<Longrightarrow> fw ! i = map snd (filter (\<lambda>p. fst p = i) ds)" "length fw = k"
  shows "\<exists>dg'. kahn_invariant k ds [] dg' order'"
  using assms
proof (induction lim fw ready dg order n rule: kahn.induct [where ?'a = 'e])
  case (2 lim fw i ready dg order n)
  then obtain n1 ready1 dg1 n2 where r: "fold_result (relax lim) (fw ! i) (ready, dg, n1) = (Ok (ready1, dg1, n2) :: ('e, _) verified)"
    and b: "budget_charge lim 8 n = (Ok n1 :: ('e, _) verified)"
    and k: "kahn lim fw ready1 dg1 (order @ [i]) n2 = (Ok (order', n') :: ('e, _) verified)" and i: "i < k"
    by (auto split: if_splits)
  have "kahn_invariant k ds ready1 dg1 (order @ [i])"
    using kahn_step [OF "2.prems"(2) "2.prems"(3) [OF i] r] .
  moreover have "expect (if i < length fw then Some (fw ! i) else None) = (Ok (fw ! i) :: ('e, _) verified)"
    using i "2.prems"(4) by simp
  ultimately show ?case
    using "2.IH" [OF b _ r refl refl _ _ "2.prems"(3) "2.prems"(4)] k by blast
qed auto

lemma kahn_start:
  assumes "wired k (fw, rv, dg, ds)"
  shows "kahn_invariant k ds (filter (\<lambda>i. dg ! i = 0) [0..<k]) dg []"
  using assms by (auto simp: kahn_invariant_def wired_def topological_def)

text \<open>The order is complete exactly on acyclic graphs.\<close>

definition position :: "'a list \<Rightarrow> 'a \<Rightarrow> nat" where
  "position xs x = length (takeWhile (\<lambda>y. y \<noteq> x) xs)"

lemma topological_position:
  assumes "topological ds order" "(x, y) \<in> set ds" "y \<in> set order"
  shows "x \<in> set order \<and> position order x < position order y"
proof -
  obtain p q where o: "order = p @ y # q" "y \<notin> set p" using assms(3) by (metis split_list_first)
  then have x: "x \<in> set p" using assms(1,2) unfolding topological_def by blast
  then obtain p1 p2 where p: "p = p1 @ x # p2" "x \<notin> set p1" by (metis split_list_first)
  have "position order x = length p1" "position order y = length p"
    using o p by (auto simp: position_def takeWhile_append)
  then show ?thesis using o x p by simp
qed

lemma complete_iff_acyclic:
  assumes "kahn_invariant k ds [] dg order" "\<forall>(x, y) \<in> set ds. x < k \<and> y < k"
  shows "length order = k \<longleftrightarrow> acyclic (set ds)"
proof -
  have top: "topological ds order" and o: "set order = {j. j < k \<and> edge_count ds (set order) j = 0}"
    using assms(1) unfolding kahn_invariant_def by auto
  then have sub: "set order \<subseteq> {..<k}" by auto
  have dist: "distinct order" using top by (simp add: topological_def)
  have full: "length order = k \<longleftrightarrow> set order = {..<k}"
    using sub dist by (metis card_lessThan card_subset_eq distinct_card finite_lessThan)
  show ?thesis
  proof
    assume "length order = k"
    then have all: "set order = {..<k}" using full by simp
    have "set ds \<subseteq> measure (position order)"
      using topological_position [OF top] assms(2) all by fastforce
    then show "acyclic (set ds)" using wf_acyclic [OF wf_measure] acyclic_subset by blast
  next
    assume "acyclic (set ds)"
    then have wf: "wf (set ds)" by (simp add: finite_acyclic_wf)
    have "{..<k} - set order = {}"
    proof (rule ccontr)
      assume ne: "{..<k} - set order \<noteq> {}"
      then obtain m where m: "m \<in> {..<k} - set order" "\<And>x. (x, m) \<in> set ds \<Longrightarrow> x \<notin> {..<k} - set order"
        using wf by (metis (no_types, lifting) wf_eq_minimal ex_in_conv)
      then have "edge_count ds (set order) m \<noteq> 0" using o by auto
      then obtain x where "(x, m) \<in> set ds" "x \<notin> set order" by (auto simp: edge_count_zero)
      then show False using m assms(2) by auto
    qed
    then show "length order = k" using full sub by auto
  qed
qed

section \<open>The observed vertices\<close>

lemma observe_Ok:
  assumes "observe lim rv pending live n = (Ok (live', n') :: ('e, _) verified)"
    and "\<And>i. i < length rv \<Longrightarrow> rv ! i = map fst (filter (\<lambda>p. snd p = i) ds)"
    and "\<And>x y. (x, y) \<in> set ds \<Longrightarrow> y \<in> set live \<Longrightarrow> x \<in> set live \<union> set pending"
  shows "set live' = {i. \<exists>v \<in> set pending \<union> set live. (i, v) \<in> (set ds)\<^sup>*}"
  using assms
proof (induction lim rv pending live n rule: observe.induct [where ?'a = 'e])
  case (1 lim rv live n)
  have "i \<in> set live" if "(i, v) \<in> (set ds)\<^sup>*" "v \<in> set live" for i v
    using that "1.prems"(3) by (induction rule: converse_rtrancl_induct) auto
  then show ?case using "1.prems"(1) by auto
next
  case (2 lim rv i pending live n)
  then obtain n1 where b: "budget_charge lim 0 n = (Ok n1 :: ('e, _) verified)" by auto
  show ?case
  proof (cases "i \<in> set live")
    case True
    then have "set live' = {j. \<exists>v \<in> set pending \<union> set live. (j, v) \<in> (set ds)\<^sup>*}"
      using 2 b by auto
    then show ?thesis using True by auto
  next
    case False
    then have i: "i < length rv" using "2.prems"(1) b by (auto split: if_splits)
    have pred: "set (rev (rv ! i)) = {x. (x, i) \<in> set ds}" using "2.prems"(2) [OF i] by force
    have "set live' = {j. \<exists>v \<in> set (rev (rv ! i) @ pending) \<union> set (set_insert i live). (j, v) \<in> (set ds)\<^sup>*}"
    proof (rule "2.IH"(2) [OF b False i])
      show "observe lim rv (rev (rv ! i) @ pending) (set_insert i live) n1 = (Ok (live', n') :: ('e, _) verified)"
        using "2.prems"(1) b False i by simp
      show "x \<in> set (set_insert i live) \<union> set (rev (rv ! i) @ pending)"
        if "(x, y) \<in> set ds" "y \<in> set (set_insert i live)" for x y
        using that pred "2.prems"(3) [of x y] by auto
    qed (rule "2.prems"(2))
    also have "\<dots> = {j. \<exists>v \<in> set (i # pending) \<union> set live. (j, v) \<in> (set ds)\<^sup>*}"
      using pred by (auto intro: rtrancl_into_rtrancl)
    finally show ?thesis .
  qed
qed

end
