(* ===== verification/Scope_Waits.thy ===== *)
theory Scope_Waits
  imports Wait_Order Context_Properties
begin

text \<open>
  What the wait graph of a scope use is. \<open>scope_waits\<close> reads the relation off the scope record:
  admissions, inputs, outcomes and boundaries, and every outcome or boundary a guard or a
  contract mentions anywhere inside. The builder constructs exactly this relation.
\<close>

section \<open>The specification\<close>

definition node_events :: "node option \<Rightarrow> expression \<Rightarrow> wait_vertex list" where
  "node_events own e =
     (case e of ERef r _ \<Rightarrow> reference_events own r | EStatus i \<Rightarrow> [WOutcome i] | EError i \<Rightarrow> [WOutcome i] | _ \<Rightarrow> [])"

text \<open>The events an expression waits for: those of all its subexpressions.\<close>

definition expression_events :: "node option \<Rightarrow> expression \<Rightarrow> wait_vertex set" where
  "expression_events own e = {v. \<exists>path x. subexpression e path = Some x \<and> v \<in> set (node_events own x)}"

definition node_waits :: "node \<Rightarrow> (wait_vertex \<times> wait_vertex) set" where
  "node_waits n =
     (let i = node_id n in
      {(WAdmission i, WOutcome i), (WOutcome i, WCompletion)} \<union>
      (\<Union>p \<in> set (port_entries (node_inputs n)). {(WAdmission i, WInput i (fst p)), (WInput i (fst p), WOutcome i)}) \<union>
      (\<lambda>v. (v, WAdmission i)) ` expression_events None (node_guard n))"

definition edge_waits :: "edge \<Rightarrow> (wait_vertex \<times> wait_vertex) set" where
  "edge_waits e =
     (let d = destination_vertex (edge_destination e) in
      (case edge_source e of SrcOutput n _ \<Rightarrow> {(WOutcome n, d)} | _ \<Rightarrow> {}) \<union>
      (\<lambda>v. (v, d)) ` expression_events None (edge_guard e))"

definition boundary_events :: "scope \<Rightarrow> expression option \<Rightarrow> wait_vertex set" where
  "boundary_events s until =
     (\<lambda>p. WOutput (fst p)) ` set (port_entries (scope_outputs s)) \<union>
     (if until = None then {} else (\<lambda>p. WNext (fst p)) ` set (port_entries (scope_carried s)))"

definition until_waits :: "scope \<Rightarrow> expression option \<Rightarrow> (wait_vertex \<times> wait_vertex) set" where
  "until_waits s until =
     (case until of
        None \<Rightarrow> {}
      | Some u \<Rightarrow> (\<lambda>n. (WOutcome (node_id n), WUntil)) ` set (scope_nodes s) \<union>
          (\<lambda>v. (v, WUntil)) ` expression_events None u \<union> {(WUntil, WCompletion)})"

definition scope_waits :: "scope \<Rightarrow> expression option \<Rightarrow> (wait_vertex \<times> wait_vertex) set" where
  "scope_waits s until =
     (\<lambda>v. (v, WCompletion)) ` expression_events None (scope_postconditions s) \<union>
     (\<Union>n \<in> set (scope_nodes s). node_waits n) \<union> (\<Union>e \<in> set (scope_edges s). edge_waits e) \<union>
     (\<lambda>v. (v, if until = None then WCompletion else WUntil)) ` boundary_events s until \<union> until_waits s until"

definition node_vertices :: "node \<Rightarrow> wait_vertex set" where
  "node_vertices n =
     {WAdmission (node_id n), WOutcome (node_id n)} \<union>
     (\<lambda>p. WInput (node_id n) (fst p)) ` set (port_entries (node_inputs n))"

definition scope_events :: "scope \<Rightarrow> expression option \<Rightarrow> wait_vertex set" where
  "scope_events s until =
     {WCompletion} \<union> (if until = None then {} else {WUntil}) \<union> boundary_events s until \<union>
     (\<Union>n \<in> set (scope_nodes s). node_vertices n)"

text \<open>What the outside reads: public outputs, next values, and the events of contracts.\<close>

definition observed_events :: "scope \<Rightarrow> expression option \<Rightarrow> wait_vertex set" where
  "observed_events s until =
     boundary_events s until \<union> expression_events None (scope_postconditions s) \<union>
     (case until of None \<Rightarrow> {} | Some u \<Rightarrow> expression_events None u)"

section \<open>Events of an expression\<close>

lemma expression_events_children:
  "expression_events own e =
    set (node_events own e) \<union> (\<Union>x \<in> set (expression_children e). expression_events own x)"
proof (intro equalityI subsetI)
  fix v assume "v \<in> expression_events own e"
  then obtain p x where p: "subexpression e p = Some x" "v \<in> set (node_events own x)"
    unfolding expression_events_def by auto
  then show "v \<in> set (node_events own e) \<union> (\<Union>x \<in> set (expression_children e). expression_events own x)"
    by (cases p) (auto simp: expression_events_def split: if_splits intro!: bexI [rotated, OF nth_mem])
next
  fix v assume "v \<in> set (node_events own e) \<union> (\<Union>x \<in> set (expression_children e). expression_events own x)"
  then consider "v \<in> set (node_events own e)"
    | i p x where "i < length (expression_children e)" "subexpression (expression_children e ! i) p = Some x"
      "v \<in> set (node_events own x)"
    unfolding expression_events_def by (fastforce simp: in_set_conv_nth [of _ "expression_children e"])
  then show "v \<in> expression_events own e"
  proof cases
    case 1
    then show ?thesis unfolding expression_events_def by (auto intro!: exI [of _ "[]"])
  next
    case (2 i p x)
    then show ?thesis unfolding expression_events_def by (auto intro!: exI [of _ "i # p"])
  qed
qed

lemma site_node_deps:
  "site_node vf s site own e (env, deps, n) = Ok (env', deps', n') \<Longrightarrow> set deps' = set deps \<union> set (node_events own e)"
  by (auto simp: site_node_def site_reference_def site_outcome_def site_library_def site_template_def node_events_def
      reference_events_def split: expression.splits function_id.splits if_splits value_reference.splits)

lemma site_visit_deps:
  "site_visit vf s site own e path (env, deps, n) = Ok (env', deps', n') \<Longrightarrow> set deps' = set deps \<union> set (node_events own e)"
  by (auto simp: site_visit_def dest!: site_node_deps)

lemma child_paths_events:
  "(\<Union>p \<in> set (child_paths e path). expression_events own (fst p)) =
    (\<Union>x \<in> set (expression_children e). expression_events own x)"
proof -
  have "map fst (child_paths e path) = expression_children e"
    by (rule nth_equalityI) (auto simp: child_paths_def nth_enumerate_eq)
  then show ?thesis by (metis SUP_image set_map comp_def image_image)
qed

lemma site_walk_deps:
  "site_walk vf s site own pending (env, deps, n) = Ok (env', deps', n') \<Longrightarrow>
    set deps' = set deps \<union> (\<Union>p \<in> set pending. expression_events own (fst p))"
proof (induction vf s site own pending "(env, deps, n)" arbitrary: env deps n rule: site_walk.induct)
  case (2 vf s site own e path pending)
  obtain env1 deps1 n1 where v: "site_visit vf s site own e path (env, deps, n) = Ok (env1, deps1, n1)"
    and w: "site_walk vf s site own (child_paths e path @ pending) (env1, deps1, n1) = Ok (env', deps', n')"
    using "2.prems" by auto
  have "set deps' = set deps1 \<union> (\<Union>p \<in> set (child_paths e path @ pending). expression_events own (fst p))"
    using "2.hyps" v w by simp
  then show ?case
    using site_visit_deps [OF v] expression_events_children [of own e] child_paths_events [of own e path] by auto
qed simp

section \<open>What each step adds\<close>

definition grows :: "('a, 'l) checker \<Rightarrow> ('a, 'l) checker \<Rightarrow> (wait_vertex \<times> wait_vertex) set \<Rightarrow> wait_vertex set \<Rightarrow>
    wait_vertex set \<Rightarrow> ((wait_vertex \<times> group) list \<Rightarrow> (wait_vertex \<times> group) list) \<Rightarrow> bool" where
  "grows c c' D V W h \<longleftrightarrow>
     set (ck_dependencies c') = set (ck_dependencies c) \<union> D \<and> set (ck_vertices c') = set (ck_vertices c) \<union> V \<and>
     (distinct (ck_vertices c) \<longrightarrow> distinct (ck_vertices c')) \<and> set (ck_observed c') = set (ck_observed c) \<union> W \<and>
     ck_groups c' = h (ck_groups c)"

lemma grows_refl: "grows c c {} {} {} (\<lambda>g. g)"
  by (simp add: grows_def)

lemma grows_trans [trans]:
  "grows c c' D V W h \<Longrightarrow> grows c' c'' D' V' W' h' \<Longrightarrow> grows c c'' (D \<union> D') (V \<union> V') (W \<union> W') (h' \<circ> h)"
  by (auto simp: grows_def)

lemma grows_fold:
  assumes "\<And>x c c'. x \<in> set xs \<Longrightarrow> f x c = Ok c' \<Longrightarrow> grows c c' (D x) (V x) (W x) (h x)" "fold_result f xs c = Ok c'"
  shows "grows c c' (\<Union>x \<in> set xs. D x) (\<Union>x \<in> set xs. V x) (\<Union>x \<in> set xs. W x) (fold h xs)"
  using assms
proof (induction xs arbitrary: c)
  case (Cons x xs)
  obtain c1 where x: "f x c = Ok c1" and r: "fold_result f xs c1 = Ok c'" using Cons.prems(2) by auto
  have "grows c c1 (D x) (V x) (W x) (h x)" using x by (intro Cons.prems(1)) simp_all
  moreover have "grows c1 c' (\<Union>x \<in> set xs. D x) (\<Union>x \<in> set xs. V x) (\<Union>x \<in> set xs. W x) (fold h xs)"
    using r by (intro Cons.IH Cons.prems(1)) simp_all
  ultimately show ?case by (simp add: grows_def Un_assoc)
qed (simp add: grows_def)

lemma ck_charge_grows: "ck_charge vf b c = Ok c' \<Longrightarrow> grows c c' {} {} {} (\<lambda>g. g)"
  by (auto simp: ck_charge_def grows_def)

lemma ck_port_grows: "ck_port vf p c = Ok c' \<Longrightarrow> grows c c' {} {} {} (\<lambda>g. g)"
  by (auto simp: ck_port_def grows_def)

lemma add_dependency_grows: "add_dependency vf a b c = Ok c' \<Longrightarrow> grows c c' {(a, b)} {} {} (\<lambda>g. g)"
  by (auto simp: add_dependency_def ck_charge_def grows_def)

lemma fold_same: "fold (\<lambda>_ g. g) xs = (\<lambda>g. g)"
  by (induction xs) auto

lemma add_dependencies_grows:
  assumes "add_dependencies vf deps v c = Ok c'"
  shows "grows c c' ((\<lambda>d. (d, v)) ` set deps) {} {} (\<lambda>g. g)"
proof -
  have "grows c c' (\<Union>d \<in> set deps. {(d, v)}) (\<Union>d \<in> set deps. {}) (\<Union>d \<in> set deps. {}) (fold (\<lambda>_ g. g) deps)"
    using assms unfolding add_dependencies_def by (rule grows_fold [rotated]) (rule add_dependency_grows)
  then show ?thesis by (simp add: fold_same UNION_singleton_eq_range)
qed

lemma analyze_grows:
  assumes "analyze vf s site e ctx own expected c = Ok (deps, c')"
  shows "set deps = expression_events own e \<and> grows c c' {} {} {} (\<lambda>g. g)"
  using assms by (auto simp: analyze_def grows_def simp del: site_walk.simps dest!: site_walk_deps)

text \<open>Every group starts empty.\<close>

definition new_group :: "vport \<Rightarrow> group" where
  "new_group p = \<lparr>group_port = p, group_candidates = [], group_unconditional = 0\<rparr>"

lemma open_group_grows:
  "open_group vf v p k c = Ok c' \<Longrightarrow> grows c c' {} {v} {} (map_insert v (new_group p))"
  by (auto simp: open_group_def ck_charge_def ck_port_def grows_def new_group_def)

lemma declare_boundary_grows:
  "declare_boundary vf f x c = Ok c' \<Longrightarrow>
    grows c c' {} {f (fst x)} {f (fst x)} (map_insert (f (fst x)) (new_group (snd x)))"
  by (cases x) (auto simp: declare_boundary_def grows_def dest!: open_group_grows)

lemma declare_boundaries_grows:
  assumes "fold_result (declare_boundary vf f) xs c = Ok c'"
  shows "grows c c' {} ((\<lambda>x. f (fst x)) ` set xs) ((\<lambda>x. f (fst x)) ` set xs)
    (fold (\<lambda>x. map_insert (f (fst x)) (new_group (snd x))) xs)"
proof -
  have "grows c c' (\<Union>x \<in> set xs. {}) (\<Union>x \<in> set xs. {f (fst x)}) (\<Union>x \<in> set xs. {f (fst x)})
      (fold (\<lambda>x. map_insert (f (fst x)) (new_group (snd x))) xs)"
    using assms by (rule grows_fold [rotated]) (rule declare_boundary_grows)
  then show ?thesis by (simp add: UNION_singleton_eq_range)
qed

lemma declare_input_grows:
  assumes "declare_input vf i x c = Ok c'"
  shows "grows c c' {(WAdmission i, WInput i (fst x)), (WInput i (fst x), WOutcome i)} {WInput i (fst x)} {}
    (map_insert (WInput i (fst x)) (new_group (snd x)))"
proof -
  obtain c1 c2 where "open_group vf (WInput i (fst x)) (snd x) 2 c = Ok c1"
    "add_dependency vf (WAdmission i) (WInput i (fst x)) c1 = Ok c2"
    "add_dependency vf (WInput i (fst x)) (WOutcome i) c2 = Ok c'"
    using assms by (cases x) (auto simp: declare_input_def)
  from open_group_grows [OF this(1)] add_dependency_grows [OF this(2)] add_dependency_grows [OF this(3)]
  show ?thesis by (auto simp: grows_def)
qed

definition input_groups :: "node \<Rightarrow> (wait_vertex \<times> group) list \<Rightarrow> (wait_vertex \<times> group) list" where
  "input_groups n =
     fold (\<lambda>x. map_insert (WInput (node_id n) (fst x)) (new_group (snd x))) (port_entries (node_inputs n))"

lemma declare_inputs_grows:
  assumes "fold_result (declare_input vf (node_id n)) (port_entries (node_inputs n)) c = Ok c'"
  shows "grows c c'
    (\<Union>x \<in> set (port_entries (node_inputs n)). {(WAdmission (node_id n), WInput (node_id n) (fst x)),
      (WInput (node_id n) (fst x), WOutcome (node_id n))})
    ((\<lambda>x. WInput (node_id n) (fst x)) ` set (port_entries (node_inputs n))) {} (input_groups n)"
proof -
  let ?xs = "port_entries (node_inputs n)" and ?i = "node_id n"
  have "grows c c' (\<Union>x \<in> set ?xs. {(WAdmission ?i, WInput ?i (fst x)), (WInput ?i (fst x), WOutcome ?i)})
      (\<Union>x \<in> set ?xs. {WInput ?i (fst x)}) (\<Union>x \<in> set ?xs. {})
      (fold (\<lambda>x. map_insert (WInput ?i (fst x)) (new_group (snd x))) ?xs)"
    using assms by (rule grows_fold [rotated]) (rule declare_input_grows)
  then show ?thesis by (simp add: UNION_singleton_eq_range input_groups_def)
qed

lemma analyze_eval_grows: "analyze_eval vf s n c = Ok c' \<Longrightarrow> grows c c' {} {} {} (\<lambda>g. g)"
  by (auto simp: analyze_eval_def grows_refl split: operation.splits dest!: analyze_grows)

lemma declare_node_grows:
  assumes "declare_node vf s ctx n c = Ok c'"
  shows "grows c c' (node_waits n) (node_vertices n) {} (input_groups n)"
proof -
  let ?i = "node_id n"
  let ?c = "c\<lparr>ck_vertices := set_insert (WOutcome ?i) (set_insert (WAdmission ?i) (ck_vertices c))\<rparr>"
  obtain c1 c2 c3 c4 c5 c6 c7 deps deps1 deps2 where
    "add_dependency vf (WAdmission ?i) (WOutcome ?i) ?c = Ok c1"
    "add_dependency vf (WOutcome ?i) WCompletion c1 = Ok c2"
    "fold_result (declare_input vf ?i) (port_entries (node_inputs n)) c2 = Ok c3"
    "analyze vf s (SiteNodeGuard ?i) (node_guard n) ctx None boolean_port c3 = Ok (deps, c4)"
    "add_dependencies vf deps (WAdmission ?i) c4 = Ok c5"
    "analyze vf s (SiteNodePreconditions ?i) (node_preconditions n) CPreconditions (Some n) boolean_port c5 = Ok (deps1, c6)"
    "analyze vf s (SiteNodePostconditions ?i) (node_postconditions n) (post_context (node_operation n)) (Some n)
      boolean_port c6 = Ok (deps2, c7)"
    "analyze_eval vf s n c7 = Ok c'"
    using assms by (auto simp: declare_node_def Let_def)
  note steps = add_dependency_grows [OF this(1)] add_dependency_grows [OF this(2)] declare_inputs_grows [OF this(3)]
    analyze_grows [OF this(4)] add_dependencies_grows [OF this(5)] analyze_grows [OF this(6)] analyze_grows [OF this(7)]
    analyze_eval_grows [OF this(8)]
  show ?thesis
    using steps unfolding grows_def node_waits_def node_vertices_def Let_def
    by (simp add: insert_commute Un_ac)
qed

lemma check_boundary_grows: "check_boundary vf e source target c = Ok c' \<Longrightarrow> grows c c' {} {} {} (\<lambda>g. g)"
  by (auto simp: check_boundary_def Let_def ck_port_def ck_charge_def grows_def)

lemma add_edge_grows:
  assumes "add_edge vf s ctx e c = Ok c'"
  shows "grows c c' (edge_waits e) {} {} (edge_group e)"
proof -
  let ?d = "destination_vertex (edge_destination e)"
  obtain target c1 c2 c3 c4 c5 source deps where
    a: "ck_charge vf (length (as_str (edge_id e))) c = Ok c1"
    and b: "edge_source_wait vf e (c1\<lparr>ck_groups := edge_group e (ck_groups c1)\<rparr>) = Ok c2"
    and rest: "ck_port vf source c2 = Ok c3" "check_boundary vf e source target c3 = Ok c4"
    "analyze vf s (SiteEdgeGuard (edge_id e)) (edge_guard e) ctx None boolean_port c4 = Ok (deps, c5)"
    "add_dependencies vf deps ?d c5 = Ok c'"
    using assms by (auto simp: add_edge_def Let_def)
  have w: "grows (c1\<lparr>ck_groups := edge_group e (ck_groups c1)\<rparr>) c2
      (case edge_source e of SrcOutput n _ \<Rightarrow> {(WOutcome n, ?d)} | _ \<Rightarrow> {}) {} {} (\<lambda>g. g)"
    using b by (cases "edge_source e") (auto simp: edge_source_wait_def grows_refl dest: add_dependency_grows)
  show ?thesis
    using ck_charge_grows [OF a] w ck_port_grows [OF rest(1)] check_boundary_grows [OF rest(2)] analyze_grows [OF rest(3)]
      add_dependencies_grows [OF rest(4)]
    unfolding grows_def edge_waits_def Let_def by (simp add: Un_ac)
qed

lemma add_until_grows:
  assumes "add_until vf s u c = Ok c'"
  shows "grows c c' (until_waits s (Some u)) {} (expression_events None u) (\<lambda>g. g)"
proof -
  obtain c1 c2 c3 deps where
    o: "fold_result (\<lambda>n. add_dependency vf (WOutcome (node_id n)) WUntil) (scope_nodes s) c = Ok c1"
    and a: "analyze vf s SiteUntil u CLoopUntil None boolean_port c1 = Ok (deps, c2)"
    and d: "add_dependencies vf deps WUntil (c2\<lparr>ck_observed := fold set_insert deps (ck_observed c2)\<rparr>) = Ok c3"
    and e: "add_dependency vf WUntil WCompletion c3 = Ok c'"
    using assms by (auto simp: add_until_def)
  have "grows c c1 (\<Union>n \<in> set (scope_nodes s). {(WOutcome (node_id n), WUntil)}) (\<Union>n \<in> set (scope_nodes s). {})
      (\<Union>n \<in> set (scope_nodes s). {}) (fold (\<lambda>_ g. g) (scope_nodes s))"
    using o by (rule grows_fold [rotated]) (rule add_dependency_grows)
  then have g: "grows c c1 ((\<lambda>n. (WOutcome (node_id n), WUntil)) ` set (scope_nodes s)) {} {} (\<lambda>g. g)"
    by (simp add: fold_same UNION_singleton_eq_range)
  show ?thesis
    using g analyze_grows [OF a] add_dependencies_grows [OF d] add_dependency_grows [OF e]
    unfolding grows_def until_waits_def by (simp add: Un_ac)
qed

section \<open>Bindings\<close>

text \<open>What a binding plan says of its group.\<close>

definition plan_of_group :: "scope \<Rightarrow> wait_vertex \<times> group \<Rightarrow> binding_plan \<Rightarrow> bool" where
  "plan_of_group s = (\<lambda>(v, g) b.
     plan_destination b = v \<and> plan_candidates b = group_candidates g \<and> plan_required b = port_required (group_port g) \<and>
     (plan_required b \<longrightarrow> plan_candidates b \<noteq> []) \<and> group_unconditional g \<le> 1 \<and>
     (plan_exclusive b \<longrightarrow> (\<forall>(x, y) \<in> set (pairs_of (plan_candidates b)). \<exists>ex ey. ex \<in> set (scope_edges s) \<and>
        ey \<in> set (scope_edges s) \<and> edge_id ex = x \<and> edge_id ey = y \<and> exclusive_guards (edge_guard ex) (edge_guard ey))))"

lemma exclusive_pairs_Ok:
  "exclusive_pairs vf guards ps n = Ok (True, n') \<Longrightarrow>
    (x, y) \<in> set ps \<Longrightarrow> \<exists>gx gy. guards x = Some gx \<and> guards y = Some gy \<and> exclusive_guards gx gy"
  by (induction vf guards ps n rule: exclusive_pairs.induct) (auto split: if_splits)

lemma guard_of_edge:
  "map_option edge_guard (find (\<lambda>e. edge_id e = i) (rev es)) = Some g \<Longrightarrow> \<exists>e \<in> set es. edge_id e = i \<and> edge_guard e = g"
  by (auto simp: find_Some_iff) (metis nth_mem set_rev length_rev)

lemma bind_group_Ok:
  assumes "bind_group vf s b vg c = Ok (plan, c')"
  shows "plan_of_group s vg plan \<and> grows c c'
    (case fst vg of WOutput _ \<Rightarrow> {(fst vg, if b then WUntil else WCompletion)}
     | WNext _ \<Rightarrow> {(fst vg, if b then WUntil else WCompletion)} | _ \<Rightarrow> {}) {} {} (\<lambda>g. g)"
proof -
  obtain v g where vg: "vg = (v, g)" by (cases vg)
  let ?f = "if b then WUntil else WCompletion"
  obtain c1 ex n where
    dep: "(case v of WOutput _ \<Rightarrow> add_dependency vf v ?f c | WNext _ \<Rightarrow> add_dependency vf v ?f c | _ \<Rightarrow> Ok c) = Ok c1"
    and ex: "exclusive_pairs vf (\<lambda>i. map_option edge_guard (find (\<lambda>e. edge_id e = i) (rev (scope_edges s))))
      (pairs_of (group_candidates g)) (ck_bytes c1) = Ok (ex, n)"
    and plan: "plan = \<lparr>plan_destination = v, plan_candidates = group_candidates g,
      plan_required = port_required (group_port g), plan_exclusive = ex\<rparr>"
    and c': "c' = c1\<lparr>ck_bytes := n\<rparr>"
    and g: "port_required (group_port g) \<longrightarrow> group_candidates g \<noteq> []" "group_unconditional g \<le> 1"
    using assms by (auto simp: bind_group_def vg split: if_splits)
  have pair: "\<exists>ex ey. ex \<in> set (scope_edges s) \<and> ey \<in> set (scope_edges s) \<and> edge_id ex = x \<and> edge_id ey = y \<and>
      exclusive_guards (edge_guard ex) (edge_guard ey)" if "ex" "(x, y) \<in> set (pairs_of (group_candidates g))" for x y
  proof -
    have "exclusive_pairs vf (\<lambda>i. map_option edge_guard (find (\<lambda>e. edge_id e = i) (rev (scope_edges s))))
        (pairs_of (group_candidates g)) (ck_bytes c1) = Ok (True, n)"
      using ex that(1) by simp
    from exclusive_pairs_Ok [OF this that(2)] obtain gx gy where
      gx: "map_option edge_guard (find (\<lambda>e. edge_id e = x) (rev (scope_edges s))) = Some gx"
      and gy: "map_option edge_guard (find (\<lambda>e. edge_id e = y) (rev (scope_edges s))) = Some gy"
      and x: "exclusive_guards gx gy" by blast
    show ?thesis using guard_of_edge [OF gx] guard_of_edge [OF gy] x by blast
  qed
  have "plan_of_group s vg plan" using plan g pair by (auto simp: plan_of_group_def vg)
  moreover have "grows c c1 (case v of WOutput _ \<Rightarrow> {(v, ?f)} | WNext _ \<Rightarrow> {(v, ?f)} | _ \<Rightarrow> {}) {} {} (\<lambda>g. g)"
    using dep by (cases v) (auto simp: grows_refl dest: add_dependency_grows)
  ultimately show ?thesis by (auto simp: c' vg grows_def split: wait_vertex.splits)
qed

definition final_waits :: "bool \<Rightarrow> wait_vertex \<Rightarrow> (wait_vertex \<times> wait_vertex) set" where
  "final_waits b v =
     (case v of WOutput _ \<Rightarrow> {(v, if b then WUntil else WCompletion)} | WNext _ \<Rightarrow> {(v, if b then WUntil else WCompletion)} | _ \<Rightarrow> {})"

lemma bind_groups_Ok:
  assumes "fold_collect (bind_group vf s b) gs c = Ok (plans, c')"
  shows "list_all2 (plan_of_group s) gs plans \<and> grows c c' (\<Union>vg \<in> set gs. final_waits b (fst vg)) {} {} (\<lambda>g. g)"
  using assms
proof (induction gs arbitrary: c plans)
  case (Cons vg gs)
  obtain p c1 ps where "bind_group vf s b vg c = Ok (p, c1)" "fold_collect (bind_group vf s b) gs c1 = Ok (ps, c')"
    "plans = p # ps" using Cons.prems by auto
  from bind_group_Ok [OF this(1)] Cons.IH [OF this(2)] this(3) show ?case
    by (auto simp: grows_def final_waits_def)
qed (simp add: grows_refl)

section \<open>Groups\<close>

lemma keys_map_insert [simp]: "fst ` set (map_insert k v m) = insert k (fst ` set m)"
  by (auto simp: map_insert_def set_insort_key image_iff)

lemma distinct_map_insert [simp]: "distinct (map fst m) \<Longrightarrow> distinct (map fst (map_insert k v m))"
  unfolding map_insert_def
  by (simp add: distinct_map inj_on_def distinct_insort) (auto simp: set_insort_key distinct_insort distinct_map inj_on_def)

definition boundary_groups :: "scope \<Rightarrow> expression option \<Rightarrow> (wait_vertex \<times> group) list" where
  "boundary_groups s until =
     (let outputs = fold (\<lambda>x. map_insert (WOutput (fst x)) (new_group (snd x))) (port_entries (scope_outputs s)) [] in
      if until = None then outputs
      else fold (\<lambda>x. map_insert (WNext (fst x)) (new_group (snd x))) (port_entries (scope_carried s)) outputs)"

definition scope_groups :: "scope \<Rightarrow> expression option \<Rightarrow> (wait_vertex \<times> group) list" where
  "scope_groups s until = fold edge_group (scope_edges s) (fold input_groups (scope_nodes s) (boundary_groups s until))"

text \<open>All groups start empty under distinct keys.\<close>

definition fresh :: "(wait_vertex \<times> group) list \<Rightarrow> bool" where
  "fresh gs \<longleftrightarrow> distinct (map fst gs) \<and> (\<forall>(v, g) \<in> set gs. group_candidates g = [] \<and> group_unconditional g = 0)"

lemma fresh_insert: "fresh gs \<Longrightarrow> fresh (map_insert k (new_group p) gs)"
  unfolding fresh_def by (rule conjI) (simp, auto simp: map_insert_def set_insort_key new_group_def)

lemma fresh_inserts:
  "fresh gs \<Longrightarrow> fresh (fold (\<lambda>x. map_insert (f (fst x)) (new_group (snd x))) xs gs) \<and>
    fst ` set (fold (\<lambda>x. map_insert (f (fst x)) (new_group (snd x))) xs gs) = fst ` set gs \<union> (\<lambda>x. f (fst x)) ` set xs"
  by (induction xs arbitrary: gs) (auto simp: fresh_insert)

lemma fresh_inputs:
  "fresh gs \<Longrightarrow> fresh (fold input_groups ns gs) \<and> fst ` set (fold input_groups ns gs) =
    fst ` set gs \<union> (\<Union>n \<in> set ns. (\<lambda>x. WInput (node_id n) (fst x)) ` set (port_entries (node_inputs n)))"
proof (induction ns arbitrary: gs)
  case (Cons n ns)
  have "fresh (input_groups n gs)" "fst ` set (input_groups n gs) =
      fst ` set gs \<union> (\<lambda>x. WInput (node_id n) (fst x)) ` set (port_entries (node_inputs n))"
    unfolding input_groups_def using fresh_inserts [OF Cons.prems] by blast+
  then show ?case using Cons.IH by auto
qed simp

lemma fresh_boundaries:
  "fresh (boundary_groups s until) \<and> fst ` set (boundary_groups s until) = boundary_events s until"
proof -
  have e: "fresh []" by (simp add: fresh_def)
  note o = fresh_inserts [OF e, of WOutput "port_entries (scope_outputs s)"]
  show ?thesis
    using o fresh_inserts [OF conjunct1 [OF o], of WNext "port_entries (scope_carried s)"]
    by (simp add: boundary_groups_def boundary_events_def Let_def)
qed

lemma fold_edge_group:
  "fold edge_group es gs =
    map (\<lambda>(v, g). (v, fold add_candidate (filter (\<lambda>e. destination_vertex (edge_destination e) = v) es) g)) gs"
  by (induction es arbitrary: gs) (auto simp: edge_group_def comp_def)

lemma fold_add_candidate:
  "group_candidates (fold add_candidate es g) = group_candidates g @ map edge_id es \<and>
   group_unconditional (fold add_candidate es g) = group_unconditional g + length (filter (is_truth \<circ> edge_guard) es) \<and>
   group_port (fold add_candidate es g) = group_port g"
  by (induction es arbitrary: g) (auto simp: add_candidate_def)

definition group_events :: "scope \<Rightarrow> expression option \<Rightarrow> wait_vertex set" where
  "group_events s until =
     boundary_events s until \<union>
     (\<Union>n \<in> set (scope_nodes s). (\<lambda>x. WInput (node_id n) (fst x)) ` set (port_entries (node_inputs n)))"

definition edges_to :: "scope \<Rightarrow> wait_vertex \<Rightarrow> edge list" where
  "edges_to s v = filter (\<lambda>e. destination_vertex (edge_destination e) = v) (scope_edges s)"

lemma scope_groups_facts:
  "fst ` set (scope_groups s until) = group_events s until \<and> distinct (map fst (scope_groups s until)) \<and>
   (\<forall>(v, g) \<in> set (scope_groups s until). group_candidates g = map edge_id (edges_to s v) \<and>
     group_unconditional g = length (filter (is_truth \<circ> edge_guard) (edges_to s v)))"
proof -
  let ?gs = "fold input_groups (scope_nodes s) (boundary_groups s until)"
  have f: "fresh ?gs" "fst ` set ?gs = group_events s until"
    using fresh_inputs [of "boundary_groups s until" "scope_nodes s"] fresh_boundaries [of s until]
    by (auto simp: group_events_def)
  have "map fst (scope_groups s until) = map fst ?gs"
    by (auto simp: scope_groups_def fold_edge_group)
  then have "fst ` set (scope_groups s until) = fst ` set ?gs" "distinct (map fst (scope_groups s until))"
    using f(1) by (metis set_map, simp add: fresh_def)
  then show ?thesis
    using f by (auto simp: scope_groups_def fold_edge_group fold_add_candidate edges_to_def fresh_def)
qed

section \<open>The complete graph\<close>

lemma final_waits_groups:
  "(\<Union>v \<in> group_events s until. final_waits (until \<noteq> None) v) =
    (\<lambda>v. (v, if until = None then WCompletion else WUntil)) ` boundary_events s until"
  by (auto simp: group_events_def boundary_events_def final_waits_def)

lemma build_graph_Ok:
  assumes b: "build_graph vf s role until = Ok (plans, c)" and role: "role = LoopBody \<longleftrightarrow> until \<noteq> None"
  shows "set (ck_dependencies c) = scope_waits s until \<and> set (ck_vertices c) = scope_events s until \<and>
    distinct (ck_vertices c) \<and> set (ck_observed c) = observed_events s until \<and>
    list_all2 (plan_of_group s) (scope_groups s until) plans"
proof -
  let ?g = "CGuard (role = LoopBody)"
  obtain c1 c2 c3 c4 c5 c6 c7 c8 pre post where
    s1: "fold_result (declare_boundary vf WOutput) (port_entries (scope_outputs s)) initial_checker = Ok c1"
    and s2: "(if role = LoopBody then fold_result (declare_boundary vf WNext) (port_entries (scope_carried s))
          (c1\<lparr>ck_vertices := set_insert WUntil (ck_vertices c1)\<rparr>) else Ok c1) = Ok c2"
    and s3: "analyze vf s SitePreconditions (scope_preconditions s) CPreconditions None boolean_port c2 = Ok (pre, c3)"
    and s4: "analyze vf s SitePostconditions (scope_postconditions s) CScopePostconditions None boolean_port c3 = Ok (post, c4)"
    and s5: "add_dependencies vf post WCompletion (c4\<lparr>ck_observed := fold set_insert post (ck_observed c4)\<rparr>) = Ok c5"
    and s6: "fold_result (declare_node vf s ?g) (scope_nodes s) c5 = Ok c6"
    and s7: "fold_result (add_edge vf s ?g) (scope_edges s) c6 = Ok c7"
    and s8: "fold_collect (bind_group vf s (until \<noteq> None)) (ck_groups c7) c7 = Ok (plans, c8)"
    and s9: "(case until of Some u \<Rightarrow> add_until vf s u c8 | None \<Rightarrow> Ok c8) = Ok c"
    using b by (auto simp: build_graph_def Let_def simp del: not_None_eq)
  note g1 = declare_boundaries_grows [OF s1]
  have g2: "grows c1 c2 {} ((if until = None then {} else {WUntil}) \<union>
        (if until = None then {} else (\<lambda>x. WNext (fst x)) ` set (port_entries (scope_carried s))))
      (if until = None then {} else (\<lambda>x. WNext (fst x)) ` set (port_entries (scope_carried s)))
      (if until = None then (\<lambda>g. g)
       else fold (\<lambda>x. map_insert (WNext (fst x)) (new_group (snd x))) (port_entries (scope_carried s)))"
  proof (cases until)
    case None
    then show ?thesis using s2 role by (simp add: grows_refl)
  next
    case (Some u)
    then have "fold_result (declare_boundary vf WNext) (port_entries (scope_carried s))
        (c1\<lparr>ck_vertices := set_insert WUntil (ck_vertices c1)\<rparr>) = Ok c2"
      using s2 role by simp
    from declare_boundaries_grows [OF this] show ?thesis
      using Some by (simp add: grows_def)
  qed
  note g3 = conjunct2 [OF analyze_grows [OF s3]]
  note g4 = conjunct2 [OF analyze_grows [OF s4]]
  have post: "set post = expression_events None (scope_postconditions s)" using analyze_grows [OF s4] by simp
  have g5: "grows c4 c5 ((\<lambda>v. (v, WCompletion)) ` expression_events None (scope_postconditions s)) {}
      (expression_events None (scope_postconditions s)) (\<lambda>g. g)"
    using add_dependencies_grows [OF s5] by (simp add: grows_def post Un_commute)
  have g6: "grows c5 c6 (\<Union>n \<in> set (scope_nodes s). node_waits n) (\<Union>n \<in> set (scope_nodes s). node_vertices n)
      (\<Union>n \<in> set (scope_nodes s). {}) (fold input_groups (scope_nodes s))"
    using s6 by (rule grows_fold [rotated]) (rule declare_node_grows)
  have g7: "grows c6 c7 (\<Union>e \<in> set (scope_edges s). edge_waits e) (\<Union>e \<in> set (scope_edges s). {})
      (\<Union>e \<in> set (scope_edges s). {}) (fold edge_group (scope_edges s))"
    using s7 by (rule grows_fold [rotated]) (rule add_edge_grows)
  note g8 = bind_groups_Ok [OF s8]
  have g9: "grows c8 c (until_waits s until) {} (case until of None \<Rightarrow> {} | Some u \<Rightarrow> expression_events None u) (\<lambda>g. g)"
    using s9 by (cases until) (auto simp: grows_refl until_waits_def [of _ None] dest: add_until_grows)
  note G7 = grows_trans [OF grows_trans [OF grows_trans [OF grows_trans [OF grows_trans [OF grows_trans [OF g1 g2] g3] g4] g5] g6] g7]
  have groups: "ck_groups c7 = scope_groups s until"
    using G7 by (cases until) (simp_all add: grows_def scope_groups_def boundary_groups_def initial_checker_def Let_def)
  note G = grows_trans [OF grows_trans [OF G7 conjunct2 [OF g8]] g9]
  have fw: "(\<Union>vg \<in> set (ck_groups c7). final_waits (until \<noteq> None) (fst vg)) =
      (\<lambda>v. (v, if until = None then WCompletion else WUntil)) ` boundary_events s until"
    using final_waits_groups [of until s] scope_groups_facts [of s until] unfolding groups by (metis SUP_image comp_def image_image)
  have "set (ck_dependencies c) = scope_waits s until"
    using G unfolding grows_def fw scope_waits_def by (simp add: initial_checker_def Un_ac)
  moreover have "set (ck_vertices c) = scope_events s until \<and> distinct (ck_vertices c)"
    using G unfolding grows_def scope_events_def boundary_events_def by (auto simp: initial_checker_def)
  moreover have "set (ck_observed c) = observed_events s until"
    using G unfolding grows_def observed_events_def boundary_events_def by (simp add: initial_checker_def Un_ac)
  ultimately show ?thesis using g8 unfolding groups by simp
qed

end
