(* ===== verification/Scope_Properties.thy ===== *)
theory Scope_Properties
  imports Scope_Waits Evaluator_Semantics Cbor_Reference
begin

text \<open>
  What admission of a scope use establishes: the derived graph is the specified one, it is
  ordered topologically exactly when it has no cycle, so that work can always proceed, every
  node is observed, every destination has the candidates the edges give it, and guards called
  exclusive never hold together.
\<close>

section \<open>Indices and vertices\<close>

lemma trancl_image:
  assumes "inj_on f A" "R \<subseteq> A \<times> A"
  shows "(x, y) \<in> (map_prod f f ` R)\<^sup>+ \<longleftrightarrow> (\<exists>a b. x = f a \<and> y = f b \<and> (a, b) \<in> R\<^sup>+)"
proof
  assume "(x, y) \<in> (map_prod f f ` R)\<^sup>+"
  then show "\<exists>a b. x = f a \<and> y = f b \<and> (a, b) \<in> R\<^sup>+"
  proof (induction rule: trancl_induct)
    case (base y)
    then show ?case by auto
  next
    case (step y z)
    then obtain a b c d where *: "x = f a" "y = f b" "(a, b) \<in> R\<^sup>+" "y = f c" "z = f d" "(c, d) \<in> R" by auto
    have "b \<in> A" using *(3) assms(2) by (metis tranclD2 mem_Sigma_iff subsetD)
    then have "b = c" using * assms by (metis inj_onD mem_Sigma_iff subsetD)
    then have "(a, d) \<in> R\<^sup>+" using * by simp
    then show ?case using * by blast
  qed
next
  assume "\<exists>a b. x = f a \<and> y = f b \<and> (a, b) \<in> R\<^sup>+"
  then obtain a b where ab: "x = f a" "y = f b" "(a, b) \<in> R\<^sup>+" by auto
  from ab(3) have "(f a, f b) \<in> (map_prod f f ` R)\<^sup>+"
    by (induction rule: trancl_induct) (force intro: trancl.intros)+
  then show "(x, y) \<in> (map_prod f f ` R)\<^sup>+" using ab by simp
qed

lemma acyclic_image:
  assumes "inj_on f A" "R \<subseteq> A \<times> A"
  shows "acyclic (map_prod f f ` R) \<longleftrightarrow> acyclic R"
proof -
  have "a = b" if "f a = f b" "(a, b) \<in> R\<^sup>+" for a b
  proof -
    have "a \<in> A" "b \<in> A" using that(2) assms(2) by (metis tranclD mem_Sigma_iff subsetD, metis tranclD2 mem_Sigma_iff subsetD)
    then show ?thesis using that(1) assms(1) by (simp add: inj_onD)
  qed
  then show ?thesis unfolding acyclic_def trancl_image [OF assms] by metis
qed

lemma rtrancl_image: "(a, b) \<in> R\<^sup>* \<Longrightarrow> (f a, f b) \<in> (map_prod f f ` R)\<^sup>*"
  by (induction rule: rtrancl_induct) (force intro: rtrancl.intros)+

definition vertex_pairs :: "wait_vertex list \<Rightarrow> (nat \<times> nat) list \<Rightarrow> (wait_vertex \<times> wait_vertex) set" where
  "vertex_pairs vs ds = map_prod (nth vs) (nth vs) ` set ds"

lemma wired_pairs:
  assumes "list_all2 (\<lambda>(a, b) (i, j). vertex_index vs a = Some i \<and> vertex_index vs b = Some j) D ds"
  shows "vertex_pairs vs ds = set D"
  using assms
proof (induction rule: list_all2_induct)
  case (Cons p D q ds)
  then show ?case by (cases p; cases q) (auto simp: vertex_pairs_def dest!: vertex_index_less)
qed (simp add: vertex_pairs_def)

section \<open>The ordered graph\<close>

lemma sorted_graph:
  fixes c :: "('a, 'l) checker"
  defines "vs \<equiv> ck_vertices c"
  assumes w: "fold_result (wire vs) D (replicate (length vs) [], replicate (length vs) [], replicate (length vs) 0, []) =
      (Ok (fw, rv, dg, ds) :: ('e, wiring) verified)"
    and k: "kahn lim fw (filter (\<lambda>i. dg ! i = 0) [0..<length vs]) dg [] n = (Ok (order, n1) :: ('e, _) verified)"
    and d: "distinct vs"
  shows "wired (length vs) (fw, rv, dg, ds) \<and> vertex_pairs vs ds = set D \<and> topological ds order \<and>
    set order \<subseteq> {..<length vs} \<and> (length order = length vs \<longleftrightarrow> acyclic (set D))"
proof -
  have W: "wired (length vs) (fw, rv, dg, ds)"
    and L: "list_all2 (\<lambda>(a, b) (i, j). vertex_index vs a = Some i \<and> vertex_index vs b = Some j) D ds"
    using wire_all [OF wired_empty w] by auto
  have pairs: "vertex_pairs vs ds = set D" using L by (rule wired_pairs)
  have bounds: "\<forall>(i, j) \<in> set ds. i < length vs \<and> j < length vs" using W by (auto simp: wired_def)
  obtain dg' where inv: "kahn_invariant (length vs) ds [] dg' order"
    using kahn_Ok [OF k kahn_start [OF W]] W by (auto simp: wired_def)
  have "acyclic (set D) \<longleftrightarrow> acyclic (set ds)"
    unfolding pairs [symmetric] vertex_pairs_def using d bounds
    by (intro acyclic_image [where A = "{..<length vs}"]) (auto simp: inj_on_def nth_eq_iff_index_eq)
  then show ?thesis
    using W pairs inv complete_iff_acyclic [OF inv bounds] by (auto simp: kahn_invariant_def)
qed

definition observed_check :: "wait_vertex list \<Rightarrow> nat list \<Rightarrow> node \<Rightarrow> unit \<Rightarrow> ('e, unit) verified" where
  "observed_check vs live n _ =
     attempt (expect (vertex_index vs (WOutcome (node_id n)))) (\<lambda>i.
     if i \<notin> set live then fail_with (KUnobservable (node_id n)) else Ok ())"

lemma observed_checks:
  "fold_result (observed_check vs live) ns u = Ok u' \<Longrightarrow> m \<in> set ns \<Longrightarrow>
    \<exists>i \<in> set live. vertex_index vs (WOutcome (node_id m)) = Some i"
  by (induction ns arbitrary: u) (auto simp: observed_check_def split: if_splits)

lemma order_graph_Ok:
  fixes vf :: "('a, 'l, 'e) verifier"
  assumes "order_graph vf s c = Ok (ds, order, n)" and d: "distinct (ck_vertices c)"
  shows "vertex_pairs (ck_vertices c) ds = set (ck_dependencies c) \<and>
    set order = {..<length (ck_vertices c)} \<and> topological ds order \<and> acyclic (set (ck_dependencies c)) \<and>
    (\<forall>(i, j) \<in> set ds. i < length (ck_vertices c) \<and> j < length (ck_vertices c)) \<and>
    (\<forall>m \<in> set (scope_nodes s). \<exists>v \<in> set (ck_observed c). (WOutcome (node_id m), v) \<in> (set (ck_dependencies c))\<^sup>*)"
proof -
  let ?vs = "ck_vertices c" and ?k = "length (ck_vertices c)" and ?lim = "vf_limits vf"
  obtain fw rv dg n1 live n2 where
    w: "fold_result (wire ?vs) (ck_dependencies c) (replicate ?k [], replicate ?k [], replicate ?k 0, []) =
      (Ok (fw, rv, dg, ds) :: ('e, wiring) verified)"
    and k: "kahn ?lim fw (filter (\<lambda>i. dg ! i = 0) [0..<?k]) dg [] (ck_bytes c) = (Ok (order, n1) :: ('e, _) verified)"
    and len: "length order = ?k"
    and o: "observe ?lim rv (rev (List.map_filter (vertex_index ?vs) (ck_observed c))) [] n1 = (Ok (live, n2) :: ('e, _) verified)"
    and chk: "fold_result (observed_check ?vs live) (scope_nodes s) () = (Ok () :: ('e, unit) verified)"
    using assms(1) unfolding order_graph_def observed_check_def [abs_def] Let_def by (auto split: if_splits)
  note S = sorted_graph [OF w k d]
  have pairs: "vertex_pairs ?vs ds = set (ck_dependencies c)" using S by simp
  have full: "set order = {..<?k}"
    using S len by (intro card_subset_eq) (auto simp: topological_def distinct_card)
  have live: "set live = {i. \<exists>v \<in> set (List.map_filter (vertex_index ?vs) (ck_observed c)). (i, v) \<in> (set ds)\<^sup>*}"
    using observe_Ok [OF o, of ds] S by (auto simp: wired_def)
  have "\<exists>v \<in> set (ck_observed c). (WOutcome (node_id m), v) \<in> (set (ck_dependencies c))\<^sup>*" if mem: "m \<in> set (scope_nodes s)" for m
  proof -
    obtain i v j where i: "vertex_index ?vs (WOutcome (node_id m)) = Some i" "(i, j) \<in> (set ds)\<^sup>*"
      and v: "v \<in> set (ck_observed c)" "vertex_index ?vs v = Some j"
      using observed_checks [OF chk mem] unfolding live by (auto simp: map_filter_def)
    have "(?vs ! i, ?vs ! j) \<in> (set (ck_dependencies c))\<^sup>*"
      using rtrancl_image [OF i(2), of "nth ?vs"] pairs by (simp add: vertex_pairs_def)
    then show ?thesis using i v vertex_index_less by metis
  qed
  moreover have "\<forall>(i, j) \<in> set ds. i < ?k \<and> j < ?k" using S by (auto simp: wired_def)
  ultimately show ?thesis using pairs full S len by blast
qed

section \<open>Errors of the loops\<close>

text \<open>No step before the comparison of the order reports a cycle.\<close>

abbreviation no_cycle_error :: "('e, 'b) verified \<Rightarrow> bool" where
  "no_cycle_error r \<equiv> \<forall>e. r = Err e \<longrightarrow> error_kind e \<noteq> KCycle"

lemma budget_charge_error [simp]: "budget_charge lim b n = Err e \<Longrightarrow> error_kind e = KLimit"
  by (auto simp: budget_charge_def verification_error_def split: option.splits if_splits)

lemma relax_error: "relax lim i st = Err e \<Longrightarrow> error_kind e = KLimit"
  by (cases st) (auto simp: relax_def Let_def attempt_eq_Err split: if_splits)

lemma fold_error: "(\<And>x s e. f x s = Err e \<Longrightarrow> P e) \<Longrightarrow> fold_result f xs s = Err e \<Longrightarrow> P e"
  by (induction xs arbitrary: s) (auto simp: attempt_eq_Err)

lemma kahn_error: "kahn lim fw ready dg order n = (Err e :: ('e, _) verified) \<Longrightarrow> error_kind e = KLimit"
proof (induction lim fw ready dg order n rule: kahn.induct [where ?'a = 'e])
  case (2 lim fw i ready dg order n)
  then show ?case
    by (auto simp: attempt_eq_Err expect_def dest!: fold_error [rotated, where P = "\<lambda>e. error_kind e = KLimit"] split: if_splits
        intro: relax_error)
qed simp

lemma wire_error: "wire vs p st = Err e \<Longrightarrow> error_kind e = KUnknownReference"
  by (cases p; cases st) (auto simp: wire_def attempt_eq_Err ok_or_def verification_error_def split: option.splits)

lemma observe_error: "observe lim rv pending live n = (Err e :: ('e, _) verified) \<Longrightarrow> error_kind e = KLimit"
proof (induction lim rv pending live n rule: observe.induct [where ?'a = 'e])
  case (2 lim rv i pending live n)
  then show ?case by (auto simp: attempt_eq_Err split: if_splits)
qed simp

lemma observed_check_error: "observed_check vs live n u = Err e \<Longrightarrow> error_kind e \<noteq> KCycle"
  by (auto simp: observed_check_def attempt_eq_Err expect_def verification_error_def split: option.splits if_splits)

lemma order_graph_cycle:
  fixes vf :: "('a, 'l, 'e) verifier"
  assumes "order_graph vf s c = Err e" "error_kind e = KCycle" and d: "distinct (ck_vertices c)"
  shows "\<not> acyclic (set (ck_dependencies c))"
proof -
  let ?vs = "ck_vertices c" and ?k = "length (ck_vertices c)" and ?lim = "vf_limits vf"
  have "no_cycle_error (fold_result (wire ?vs) (ck_dependencies c) (replicate ?k [], replicate ?k [], replicate ?k 0, []) :: ('e, _) verified)"
    by (auto dest: fold_error [rotated, where P = "\<lambda>e. error_kind e = KUnknownReference"] wire_error)
  moreover have "no_cycle_error (kahn ?lim fw ready dg order n :: ('e, _) verified)" for fw ready dg order n
    by (auto dest: kahn_error)
  moreover have "no_cycle_error (observe ?lim rv pending live n :: ('e, _) verified)" for rv pending live n
    by (auto dest: observe_error)
  moreover have "no_cycle_error (fold_result (observed_check ?vs live) (scope_nodes s) () :: ('e, unit) verified)" for live
    by (auto dest: fold_error [rotated, where P = "\<lambda>e. error_kind e \<noteq> KCycle"] observed_check_error)
  ultimately obtain fw rv dg ds order n1 where
    w: "fold_result (wire ?vs) (ck_dependencies c) (replicate ?k [], replicate ?k [], replicate ?k 0, []) =
      (Ok (fw, rv, dg, ds) :: ('e, wiring) verified)"
    and k: "kahn ?lim fw (filter (\<lambda>i. dg ! i = 0) [0..<?k]) dg [] (ck_bytes c) = (Ok (order, n1) :: ('e, _) verified)"
    and len: "length order \<noteq> ?k"
    using assms(1,2) unfolding order_graph_def observed_check_def [abs_def] Let_def
    by (auto simp: attempt_eq_Err split: if_splits)
  show ?thesis using sorted_graph [OF w k d] len by simp
qed

section \<open>Exclusive guards\<close>

text \<open>Distinct normalised floats compare unequal.\<close>

lemma f64_eq_parts: "take_bit 63 (a :: f64) = take_bit 63 b \<Longrightarrow> bit a 63 = bit b 63 \<Longrightarrow> a = b"
proof (rule bit_word_eqI)
  fix n assume a: "take_bit 63 a = take_bit 63 b" "bit a 63 = bit b 63" and n: "n < LENGTH(64)"
  show "bit a n = bit b n"
  proof (cases "n = 63")
    case False
    then have "n < 63" using n by simp
    then show ?thesis using a(1) by (metis bit_take_bit_iff)
  qed (use a in simp)
qed

lemma opposite:
  "a \<noteq> b \<Longrightarrow> (if a then - int m else int m) = (if b then - int n else int n) \<Longrightarrow> m = 0 \<and> n = 0"
  by (cases a; cases b) simp_all

lemma rank_inject:
  assumes "wf_float f" "wf_float g" "f64_rank (float_get f) = f64_rank (float_get g)"
  shows "f = g"
proof -
  let ?a = "float_get f" and ?b = "float_get g"
  have "?a = ?b"
  proof (cases "f64_is_sign_negative ?a = f64_is_sign_negative ?b")
    case True
    then have "uint (take_bit 63 ?a) = uint (take_bit 63 ?b)"
      using assms(3) by (auto simp: f64_rank_def Let_def split: if_splits)
    then have "take_bit 63 ?a = take_bit 63 ?b" by (rule unsigned_word_eqI)
    then show ?thesis using True f64_eq_parts by (simp add: f64_is_sign_negative_def)
  next
    case False
    have rank: "f64_rank x = (if f64_is_sign_negative x then - int (unat (take_bit 63 x)) else int (unat (take_bit 63 x)))" for x
      by (simp add: f64_rank_def Let_def)
    have "unat (take_bit 63 ?a) = 0 \<and> unat (take_bit 63 ?b) = 0"
      using False assms(3) unfolding rank by (rule opposite)
    then have "f64_is_zero ?a" "f64_is_zero ?b" by (simp_all add: f64_is_zero_def unsigned_eq_0_iff)
    then show ?thesis using assms(1,2) by (simp add: wf_float_def)
  qed
  then show ?thesis by (rule finite_float.expand)
qed

definition wf_literal :: "scalar_literal \<Rightarrow> bool" where
  "wf_literal l = (case l of LFloat f \<Rightarrow> wf_float f | _ \<Rightarrow> True)"

definition holds :: "engines \<Rightarrow> semantics \<Rightarrow> expression \<Rightarrow> bool" where
  "holds eng S e \<longleftrightarrow> denote eng S e = Some (Present (VBool True))"

text \<open>A literal compared equal to a value determines it, up to the identity of floats.\<close>

lemma compared_literals:
  assumes "comparable OpEq v (literal_meaning l) = Some (Some Equal)" "comparable OpEq v (literal_meaning k) = Some (Some Equal)"
    and "literal_variant l = literal_variant k" "wf_literal l" "wf_literal k"
  shows "l = k"
  using assms
  by (cases l; cases k; cases v)
    (auto simp: comparable_def literal_variant_def wf_literal_def f64_partial_cmp_def dest!: signed_word_eqI
      split: if_splits intro: rank_inject)

lemma comparable_sym: "comparable OpEq v w = Some (Some Equal) \<Longrightarrow> comparable OpEq w v = Some (Some Equal)"
  by (cases v; cases w) (auto simp: comparable_def f64_partial_cmp_def split: if_splits)

lemma equality_holds:
  assumes "equality_guard e = Some (x, l)" "holds eng S e"
  shows "\<exists>v. denote eng S x = Some (Present v) \<and> comparable OpEq v (literal_meaning l) = Some (Some Equal)"
proof -
  have strict: "\<exists>v. r = Some (Present v) \<and> f v = Some (Present w)" if "strict f r = Some (Present w)" for f r w
    using that by (cases "(f, r)" rule: strict.cases) auto
  obtain left right where e: "e = EBinary OpEq left right"
    using assms(1) by (auto simp: equality_guard_def split: expression.splits binary_operator.splits)
  have "binary_meaning OpEq (denote eng S left) (denote eng S right) = Some (Present (VBool True))"
    using assms(2) by (simp add: holds_def e)
  then obtain a b where ab: "denote eng S left = Some (Present a)" "denote eng S right = Some (Present b)"
    "comparable OpEq a b = Some (Some Equal)"
    by (auto simp: binary_meaning_def order_result_def split: option.splits dest!: strict)
  show ?thesis
    using assms(1) ab comparable_sym [of a b]
    by (auto simp: equality_guard_def e split: expression.splits)
qed

lemma exclusive_guards_sound:
  assumes "exclusive_guards a b" "\<And>x l. equality_guard a = Some (x, l) \<Longrightarrow> wf_literal l"
    "\<And>x l. equality_guard b = Some (x, l) \<Longrightarrow> wf_literal l"
  shows "\<not> (holds eng S a \<and> holds eng S b)"
proof
  assume h: "holds eng S a \<and> holds eng S b"
  show False
  proof (cases "equality_guard a")
    case None
    then show ?thesis using assms(1) h by (auto simp: exclusive_guards_def holds_def)
  next
    case (Some p)
    obtain x l where p: "equality_guard a = Some (x, l)" using Some by (cases p) auto
    show ?thesis
    proof (cases "equality_guard b")
      case None
      then show ?thesis using assms(1) h p by (auto simp: exclusive_guards_def holds_def)
    next
      case (Some q)
      obtain y k where q: "equality_guard b = Some (y, k)" using Some by (cases q) auto
      have "\<not> (x = y \<and> literal_variant l = literal_variant k \<and> l \<noteq> k)"
        using equality_holds [OF p conjunct1 [OF h]] equality_holds [OF q conjunct2 [OF h]] compared_literals assms(2) [OF p] assms(3) [OF q]
        by auto
      then show ?thesis using assms(1) h p q by (auto simp: exclusive_guards_def holds_def)
    qed
  qed
qed

text \<open>Building the graph never reports a cycle either.\<close>

definition calm :: "('e, 'b) verified \<Rightarrow> bool" where
  "calm r \<longleftrightarrow> no_cycle_error r"

named_theorems calm_intros \<open>steps that report no cycle\<close>

lemma calm_simps [simp, calm_intros]: "calm (Ok x)" "calm Panic" "k \<noteq> KCycle \<Longrightarrow> calm (fail_with k)"
  by (simp_all add: calm_def verification_error_def)

lemma calm_attempt [calm_intros]: "calm m \<Longrightarrow> (\<And>x. m = Ok x \<Longrightarrow> calm (f x)) \<Longrightarrow> calm (attempt m f)"
  by (auto simp: calm_def attempt_eq_Err)

lemma calm_map_err [calm_intros]: "(\<And>e. error_kind (g e) \<noteq> KCycle) \<Longrightarrow> calm (map_err g m)"
  by (auto simp: calm_def map_err_eq_Err)

lemma calm_keep [calm_intros]: "(\<And>e. error_kind (g e) = error_kind e) \<Longrightarrow> calm m \<Longrightarrow> calm (map_err g m)"
  by (auto simp: calm_def map_err_eq_Err)

lemma calm_fold [calm_intros]: "(\<And>x s. calm (f x s)) \<Longrightarrow> calm (fold_result f xs s)"
  by (induction xs arbitrary: s) (auto intro: calm_intros)

lemma calm_collect [calm_intros]: "(\<And>x s. calm (f x s)) \<Longrightarrow> calm (fold_collect f xs s)"
  by (induction xs arbitrary: s) (auto intro!: calm_intros split: prod.splits)

lemma calm_ok_or [calm_intros]: "k \<noteq> KCycle \<Longrightarrow> calm (ok_or (verification_error k) m)"
  by (cases m) auto

lemma calm_expect [calm_intros]: "calm (expect m)"
  by (cases m) auto

lemma failure_kinds [simp]: "error_kind (expression_failure e) = KExpression e" "error_kind (verification_error k) = k"
  "error_kind (at_path path err) = error_kind err"
  by (simp_all add: expression_failure_def verification_error_def at_path_def split: option.splits)

lemma calm_charge [calm_intros]: "calm (budget_charge lim b n)"
  by (auto simp: calm_def dest: budget_charge_error)

lemma calm_port [calm_intros]: "calm (budget_port vf p n)"
  by (auto simp: budget_port_def intro!: calm_intros)

lemma calm_ck [calm_intros]: "calm (ck_charge vf b c)" "calm (ck_port vf p c)" "calm (add_dependency vf v w c)"
  by (auto simp: ck_charge_def ck_port_def add_dependency_def intro!: calm_intros)

lemma calm_reference [calm_intros]: "calm (sc_reference s r own)" "calm (sc_node s i)"
  by (auto simp: sc_reference_def sc_node_def intro!: calm_intros split: value_reference.splits)

lemma calm_site_node [calm_intros]: "calm (site_node vf s site own e st)"
  by (cases st) (auto simp: site_node_def site_reference_def site_outcome_def site_library_def site_template_def
      intro!: calm_intros split: expression.splits function_id.splits)

lemma calm_site_walk [calm_intros]: "calm (site_walk vf s site own pending st)"
proof (induction vf s site own pending st rule: site_walk.induct)
  case (2 vf s site own e path pending st)
  have "calm (site_visit vf s site own e path st)"
    by (cases st) (auto simp: site_visit_def intro!: calm_intros split: prod.splits)
  then show ?case using 2 by (auto simp: calm_def attempt_eq_Err map_err_eq_Err)
qed simp

lemma calm_site_check [calm_intros]: "calm (site_check vf e ctx p env n)"
  unfolding site_check_def
proof (rule calm_attempt, goal_cases)
  case (2 a)
  have "calm (map_err (at_path []) (attempt (map_err expression_failure (stored_size vf a (vf_limits vf)))
      (\<lambda>k. budget_charge (vf_limits vf) k n)))"
    by (rule calm_keep) (auto intro!: calm_intros)
  then show ?case by (auto intro!: calm_attempt)
qed (auto intro: calm_map_err)

lemma calm_analyze [calm_intros]: "calm (analyze vf s site e ctx own p c)"
  unfolding analyze_def
  by (rule calm_keep) (auto simp del: site_walk.simps intro!: calm_intros split: prod.splits)

lemma calm_nodes [calm_intros]: "calm (declare_node vf s ctx n c)"
  by (auto simp: declare_node_def Let_def declare_input_def open_group_def add_dependencies_def analyze_eval_def
      intro!: calm_intros split: prod.splits operation.splits)

lemma calm_boundaries [calm_intros]: "calm (declare_boundary vf f x c)"
  by (cases x) (auto simp: declare_boundary_def open_group_def intro!: calm_intros)

lemma calm_edges [calm_intros]: "calm (add_edge vf s ctx e c)"
  by (auto simp: add_edge_def Let_def edge_source_wait_def check_boundary_def add_dependencies_def
      intro!: calm_intros split: prod.splits edge_source.splits)

lemma calm_pairs [calm_intros]: "calm (exclusive_pairs vf guards ps n)"
  by (induction vf guards ps n rule: exclusive_pairs.induct) (auto intro!: calm_intros)

lemma calm_bind [calm_intros]: "calm (bind_group vf s b vg c)"
  by (cases vg) (auto simp: bind_group_def intro!: calm_intros split: prod.splits wait_vertex.splits)

lemma build_graph_calm: "calm (build_graph vf s role until)"
  by (auto simp: build_graph_def Let_def add_dependencies_def add_until_def intro!: calm_intros split: prod.splits option.splits)

section \<open>Declared destinations\<close>

definition declared_ports :: "scope \<Rightarrow> expression option \<Rightarrow> (wait_vertex \<times> vport) set" where
  "declared_ports s until =
     (\<lambda>x. (WOutput (fst x), snd x)) ` set (port_entries (scope_outputs s)) \<union>
     (if until = None then {} else (\<lambda>x. (WNext (fst x), snd x)) ` set (port_entries (scope_carried s))) \<union>
     (\<Union>n \<in> set (scope_nodes s). (\<lambda>x. (WInput (node_id n) (fst x), snd x)) ` set (port_entries (node_inputs n)))"

definition group_ports :: "(wait_vertex \<times> group) list \<Rightarrow> (wait_vertex \<times> vport) set" where
  "group_ports gs = (\<lambda>(v, g). (v, group_port g)) ` set gs"

lemma group_ports_Nil [simp]: "group_ports [] = {}"
  by (simp add: group_ports_def)

lemma group_ports_insert: "group_ports (map_insert v (new_group p) gs) \<subseteq> insert (v, p) (group_ports gs)"
  by (auto simp: group_ports_def map_insert_def set_insort_key new_group_def)

lemma group_ports_inserts:
  "group_ports (fold (\<lambda>x. map_insert (f (fst x)) (new_group (snd x))) xs gs) \<subseteq>
    group_ports gs \<union> (\<lambda>x. (f (fst x), snd x)) ` set xs"
proof (induction xs arbitrary: gs)
  case (Cons x xs)
  then show ?case using group_ports_insert [of "f (fst x)" "snd x" gs] by (simp add: subset_iff) blast
qed simp

lemma group_ports_inputs:
  "group_ports (fold input_groups ns gs) \<subseteq> group_ports gs \<union>
    (\<Union>n \<in> set ns. (\<lambda>x. (WInput (node_id n) (fst x), snd x)) ` set (port_entries (node_inputs n)))"
proof (induction ns arbitrary: gs)
  case (Cons n ns)
  have "group_ports (input_groups n gs) \<subseteq>
      group_ports gs \<union> (\<lambda>x. (WInput (node_id n) (fst x), snd x)) ` set (port_entries (node_inputs n))"
    unfolding input_groups_def by (rule group_ports_inserts)
  then show ?case using Cons.IH [of "input_groups n gs"] by (simp add: subset_iff) blast
qed simp

lemma group_ports_edges: "group_ports (fold edge_group es gs) = group_ports gs"
  by (auto simp: group_ports_def fold_edge_group fold_add_candidate image_image case_prod_unfold)

lemma scope_group_ports: "group_ports (scope_groups s until) \<subseteq> declared_ports s until"
proof -
  have "group_ports (boundary_groups s until) \<subseteq> (\<lambda>x. (WOutput (fst x), snd x)) ` set (port_entries (scope_outputs s)) \<union>
      (if until = None then {} else (\<lambda>x. (WNext (fst x), snd x)) ` set (port_entries (scope_carried s)))"
    using group_ports_inserts [of WOutput "port_entries (scope_outputs s)" "[]"]
      group_ports_inserts [of WNext "port_entries (scope_carried s)"
        "fold (\<lambda>x. map_insert (WOutput (fst x)) (new_group (snd x))) (port_entries (scope_outputs s)) []"]
    by (cases until) (simp_all add: boundary_groups_def Let_def subset_iff, blast)
  then show ?thesis
    using group_ports_inputs [of "scope_nodes s" "boundary_groups s until"]
    unfolding scope_groups_def group_ports_edges declared_ports_def by blast
qed

lemma group_events_declared: "group_events s until = fst ` declared_ports s until"
  by (simp add: group_events_def boundary_events_def declared_ports_def image_Un image_UN image_image)

section \<open>A verified scope use\<close>

lemma verify_parts:
  assumes "verify_scope_graph vf s role until = Ok p"
  shows "\<exists>c. set (ck_dependencies c) = scope_waits s until \<and> set (ck_observed c) = observed_events s until \<and>
    plan_vertices p = ck_vertices c \<and> set (ck_vertices c) = scope_events s until \<and> distinct (ck_vertices c) \<and>
    list_all2 (plan_of_group s) (scope_groups s until) (plan_bindings p) \<and>
    order_graph vf s c = Ok (plan_dependencies p, plan_order p, plan_bytes p)"
proof -
  obtain c where b: "build_graph vf s role until = Ok (plan_bindings p, c)" and r: "role = LoopBody \<longleftrightarrow> until \<noteq> None"
    and o: "order_graph vf s c = Ok (plan_dependencies p, plan_order p, plan_bytes p)" and v: "plan_vertices p = ck_vertices c"
    using assms by (auto simp: verify_scope_graph_def split: if_splits simp del: not_None_eq)
  show ?thesis using build_graph_Ok [OF b r] o v by blast
qed

lemma verify_order:
  assumes "verify_scope_graph vf s role until = Ok p"
  shows "set (plan_vertices p) = scope_events s until \<and> distinct (plan_vertices p) \<and>
    vertex_pairs (plan_vertices p) (plan_dependencies p) = scope_waits s until \<and>
    set (plan_order p) = {..<length (plan_vertices p)} \<and> topological (plan_dependencies p) (plan_order p) \<and>
    acyclic (scope_waits s until) \<and> finite (scope_waits s until) \<and>
    (\<forall>n \<in> set (scope_nodes s). \<exists>v \<in> observed_events s until. (WOutcome (node_id n), v) \<in> (scope_waits s until)\<^sup>*)"
proof -
  obtain c where c: "set (ck_dependencies c) = scope_waits s until" "set (ck_observed c) = observed_events s until"
    "plan_vertices p = ck_vertices c" "set (ck_vertices c) = scope_events s until" and d: "distinct (ck_vertices c)"
    and o: "order_graph vf s c = Ok (plan_dependencies p, plan_order p, plan_bytes p)"
    using verify_parts [OF assms] by blast
  have "finite (scope_waits s until)" unfolding c(1) [symmetric] by simp
  then show ?thesis using order_graph_Ok [OF o d] c d by simp
qed

lemma verify_bindings:
  assumes "verify_scope_graph vf s role until = Ok p" "b \<in> set (plan_bindings p)"
  shows "\<exists>g. (plan_destination b, g) \<in> set (scope_groups s until) \<and> plan_of_group s (plan_destination b, g) b"
proof -
  have l: "list_all2 (plan_of_group s) (scope_groups s until) (plan_bindings p)" using verify_parts [OF assms(1)] by blast
  obtain i where i: "i < length (plan_bindings p)" "plan_bindings p ! i = b" using assms(2) by (auto simp: in_set_conv_nth)
  obtain v g where g: "scope_groups s until ! i = (v, g)" by (cases "scope_groups s until ! i")
  have "plan_of_group s (v, g) b" using list_all2_nthD2 [OF l i(1)] i(2) g by simp
  moreover have "(v, g) \<in> set (scope_groups s until)" using g i(1) list_all2_lengthD [OF l] by (metis nth_mem)
  moreover have "plan_destination b = v" using calculation(1) by (simp add: plan_of_group_def)
  ultimately show ?thesis by blast
qed

lemma verify_cycle:
  fixes vf :: "('a, 'l, 'e) verifier"
  assumes "verify_scope_graph vf s role until = Err e" "error_kind e = KCycle"
  shows "\<not> acyclic (scope_waits s until)"
proof -
  obtain plans c where b: "build_graph vf s role until = Ok (plans, c)" and r: "role = LoopBody \<longleftrightarrow> until \<noteq> None"
    and o: "order_graph vf s c = Err e"
    using assms build_graph_calm [of vf s role until, unfolded calm_def]
    by (auto simp: verify_scope_graph_def attempt_eq_Err map_err_eq_Err split: if_splits simp del: not_None_eq)
  then show ?thesis using order_graph_cycle [OF o assms(2)] build_graph_Ok [OF b r] by simp
qed

lemma verify_edges:
  assumes "verify_scope_graph vf s role until = Ok p" "(u, v) \<in> scope_waits s until"
  shows "u \<in> set (plan_vertices p) \<and> v \<in> set (plan_vertices p)"
proof -
  obtain c where c: "plan_vertices p = ck_vertices c" "distinct (ck_vertices c)"
    and o: "order_graph vf s c = Ok (plan_dependencies p, plan_order p, plan_bytes p)"
    using verify_parts [OF assms(1)] by blast
  have "\<forall>(i, j) \<in> set (plan_dependencies p). i < length (ck_vertices c) \<and> j < length (ck_vertices c)"
    using order_graph_Ok [OF o c(2)] by blast
  moreover have "(u, v) \<in> vertex_pairs (ck_vertices c) (plan_dependencies p)"
    using verify_order [OF assms(1)] assms(2) c(1) by simp
  ultimately show ?thesis unfolding vertex_pairs_def c(1) by auto
qed

lemma pairs_of_mem: "i < j \<Longrightarrow> j < length xs \<Longrightarrow> (xs ! i, xs ! j) \<in> set (pairs_of xs)"
proof (induction xs arbitrary: i j)
  case (Cons x xs)
  then show ?case by (cases i; cases j) auto
qed simp

lemma one_true_guard:
  assumes "length (filter (is_truth \<circ> edge_guard) es) \<le> 1" "distinct (map edge_id es)"
    and "a \<in> set es" "b \<in> set es" "is_truth (edge_guard a)" "is_truth (edge_guard b)"
  shows "a = b"
proof -
  let ?fs = "filter (is_truth \<circ> edge_guard) es"
  have "distinct es" using assms(2) by (simp add: distinct_map)
  then have "card (set ?fs) \<le> 1" using assms(1) distinct_card [of ?fs] distinct_filter by metis
  moreover have "a \<in> set ?fs" "b \<in> set ?fs" using assms by auto
  ultimately show ?thesis using card_le_Suc0_iff_eq [OF List.finite_set, of ?fs] by auto
qed

text \<open>Candidates of a plan called exclusive are pairwise exclusive.\<close>

lemma exclusive_candidates:
  assumes "plan_of_group s (v, g) b" "plan_exclusive b" "distinct (map edge_id (scope_edges s))"
    and "plan_candidates b = map edge_id (edges_to s v)" "x \<in> set (edges_to s v)" "y \<in> set (edges_to s v)" "x \<noteq> y"
  shows "exclusive_guards (edge_guard x) (edge_guard y) \<or> exclusive_guards (edge_guard y) (edge_guard x)"
proof -
  have all: "\<forall>(x, y) \<in> set (pairs_of (plan_candidates b)). \<exists>ex ey. ex \<in> set (scope_edges s) \<and>
      ey \<in> set (scope_edges s) \<and> edge_id ex = x \<and> edge_id ey = y \<and> exclusive_guards (edge_guard ex) (edge_guard ey)"
    using assms(1,2) by (simp add: plan_of_group_def)
  have pair: "exclusive_guards (edge_guard x) (edge_guard y)"
    if "i < j" "j < length (edges_to s v)" "x = edges_to s v ! i" "y = edges_to s v ! j" for i j x y
  proof -
    have mem: "(edge_id x, edge_id y) \<in> set (pairs_of (plan_candidates b))"
      using pairs_of_mem [of i j "plan_candidates b"] that assms(4) by simp
    obtain ex ey where e: "ex \<in> set (scope_edges s)" "ey \<in> set (scope_edges s)" "edge_id ex = edge_id x" "edge_id ey = edge_id y"
      "exclusive_guards (edge_guard ex) (edge_guard ey)"
      using bspec [OF all mem] by auto
    have "x \<in> set (scope_edges s)" "y \<in> set (scope_edges s)"
      using that by (auto simp: edges_to_def dest: nth_mem) (metis (no_types, lifting) filter_is_subset nth_mem order.strict_trans subsetD)+
    then have "ex = x" "ey = y" using e assms(3) by (auto simp: distinct_map inj_on_def)
    then show ?thesis using e by simp
  qed
  obtain i j where "i < length (edges_to s v)" "x = edges_to s v ! i" "j < length (edges_to s v)" "y = edges_to s v ! j"
    using assms(5,6) by (auto simp: in_set_conv_nth)
  then show ?thesis using pair assms(7) by (metis nat_neq_iff)
qed

section \<open>A sample scope\<close>

text \<open>One calculation feeding the public output, under a type checker that accepts.\<close>

definition sample_verifier :: "(unit, unit, unit) verifier" where
  "sample_verifier =
     \<lparr>vf_half = ref_half, vf_codec = reference, vf_limits = default_limits, vertex_bytes = 56, port_bytes = 40,
      vf_libraries = (\<lambda>_. None), vf_templates = (\<lambda>_. None), library_encode = (\<lambda>_ _. Ok []),
      tc_check = (\<lambda>_ _ _ _ _. Ok ()), tc_boundary = (\<lambda>_ _ _ _ _. Ok ()), stored_size = (\<lambda>_ _. Ok 0)\<rparr>"

definition string_port :: vport where
  "string_port = Port (TBuiltin BString) True"

definition sample_node :: node where
  "sample_node =
     (node_fields_new (Ident ''a'') (OpEval (ELiteral (LString ''v''))))\<lparr>node_outputs := PortTable [(Ident ''value'', string_port)]\<rparr>"

definition sample_edge :: edge where
  "sample_edge = edge_new (Ident ''e'') (SrcOutput (Ident ''a'') (Ident ''value'')) (DstOutput (Ident ''o''))"

definition sample_scope :: scope where
  "sample_scope =
     scope_fields_default\<lparr>scope_outputs := PortTable [(Ident ''o'', string_port)], scope_nodes := [sample_node],
       scope_edges := [sample_edge]\<rparr>"

definition accepted :: "('e, 'b) result \<Rightarrow> bool" where
  "accepted r = (case r of Ok _ \<Rightarrow> True | _ \<Rightarrow> False)"

lemma acceptedE: "accepted r \<Longrightarrow> (\<And>x. r = Ok x \<Longrightarrow> P) \<Longrightarrow> P"
  by (cases r) (auto simp: accepted_def)

lemma sample_record: "accepted (scope_to_value ref_half default_limits sample_scope)"
  by code_simp

lemma sample_roles: "scope_check sample_scope Ordinary = Ok ()"
  by code_simp

lemma sample_graph: "accepted (attempt (build_graph sample_verifier sample_scope Ordinary None)
    (\<lambda>(bindings, c). order_graph sample_verifier sample_scope c))"
  by code_simp

lemma sample_limits: "vf_half sample_verifier = ref_half" "vf_limits sample_verifier = default_limits"
  by (simp_all add: sample_verifier_def)

lemma sample_verified: "\<exists>p. verify_scope_graph sample_verifier sample_scope Ordinary None = Ok p"
proof -
  obtain v where "scope_to_value ref_half default_limits sample_scope = Ok v" by (rule acceptedE [OF sample_record])
  moreover obtain r where "attempt (build_graph sample_verifier sample_scope Ordinary None)
      (\<lambda>(bindings, c). order_graph sample_verifier sample_scope c) = Ok r" by (rule acceptedE [OF sample_graph])
  ultimately show ?thesis
    by (cases r) (auto simp: verify_scope_graph_def sample_roles sample_limits)
qed

lemma subexpression_literal: "subexpression (ELiteral l) p = Some x \<longleftrightarrow> p = [] \<and> x = ELiteral l"
  by (cases p) auto

lemma literal_events [simp]: "expression_events own (ELiteral l) = {}"
  by (auto simp: expression_events_def subexpression_literal node_events_def)

lemma sample_waits:
  "scope_waits sample_scope None =
    {(WAdmission (Ident ''a''), WOutcome (Ident ''a'')), (WOutcome (Ident ''a''), WCompletion),
     (WOutcome (Ident ''a''), WOutput (Ident ''o'')), (WOutput (Ident ''o''), WCompletion)}"
  by (auto simp: scope_waits_def sample_scope_def scope_fields_default_def sample_node_def node_fields_new_def sample_edge_def
      edge_new_def truth_def node_waits_def edge_waits_def boundary_events_def until_waits_def destination_vertex_def Let_def)

lemma sample_events:
  "scope_events sample_scope None = {WCompletion, WOutput (Ident ''o''), WAdmission (Ident ''a''), WOutcome (Ident ''a'')}"
  by (auto simp: scope_events_def sample_scope_def scope_fields_default_def sample_node_def node_fields_new_def
      boundary_events_def node_vertices_def)

definition cyclic_scope :: scope where
  "cyclic_scope =
     sample_scope\<lparr>scope_nodes := [sample_node\<lparr>node_inputs := PortTable [(Ident ''x'', string_port)]\<rparr>],
       scope_edges := [sample_edge, edge_new (Ident ''f'') (SrcOutput (Ident ''a'') (Ident ''value'')) (DstInput (Ident ''a'') (Ident ''x''))]\<rparr>"

definition rejected_as :: "'e verification_kind \<Rightarrow> ('e, 'b) verified \<Rightarrow> bool" where
  "rejected_as k r = (case r of Err e \<Rightarrow> error_kind e = k | _ \<Rightarrow> False)"

lemma rejected_as_iff: "rejected_as k r \<longleftrightarrow> (\<exists>e. r = Err e \<and> error_kind e = k)"
  by (cases r) (auto simp: rejected_as_def)

lemma verify_unfold:
  assumes "accepted (scope_to_value (vf_half vf) (vf_limits vf) s)" "scope_check s role = Ok ()" "role = LoopBody \<longleftrightarrow> until \<noteq> None"
  shows "verify_scope_graph vf s role until =
    attempt (build_graph vf s role until) (\<lambda>(bindings, c).
    attempt (order_graph vf s c) (\<lambda>(deps, order, n).
    Ok \<lparr>plan_vertices = ck_vertices c, plan_dependencies = deps, plan_order = order, plan_expressions = ck_expressions c,
      plan_environments = ck_environments c, plan_bindings = bindings, plan_boundaries = ck_boundaries c, plan_bytes = n\<rparr>))"
  using assms by (auto simp: verify_scope_graph_def elim!: acceptedE)

lemma cyclic_record: "accepted (scope_to_value ref_half default_limits cyclic_scope)"
  by code_simp

lemma cyclic_roles: "scope_check cyclic_scope Ordinary = Ok ()"
  by code_simp

lemma cyclic_graph: "rejected_as KCycle (attempt (build_graph sample_verifier cyclic_scope Ordinary None)
    (\<lambda>(bindings, c). order_graph sample_verifier cyclic_scope c))"
  by code_simp

text \<open>Two edges guarded by different statuses of the node they read.\<close>

definition status_edge :: "bytes \<Rightarrow> bytes \<Rightarrow> edge" where
  "status_edge i status =
     edge_with_guard (edge_new (Ident i) (SrcOutput (Ident ''a'') (Ident ''value'')) (DstOutput (Ident ''o'')))
       (EBinary OpEq (EStatus (Ident ''a'')) (ELiteral (LString status)))"

definition status_scope :: scope where
  "status_scope = sample_scope\<lparr>scope_edges := [status_edge ''e'' ''failed'', status_edge ''f'' ''succeeded'']\<rparr>"

lemma status_record: "accepted (scope_to_value ref_half default_limits status_scope)"
  by code_simp

lemma status_roles: "scope_check status_scope Ordinary = Ok ()"
  by code_simp

definition bindings_of :: "(('e, binding_plan list \<times> ('a, 'l) checker) verified) \<Rightarrow> binding_plan list" where
  "bindings_of r = (case r of Ok (bindings, _) \<Rightarrow> bindings | _ \<Rightarrow> [])"

lemma status_graph: "accepted (attempt (build_graph sample_verifier status_scope Ordinary None)
    (\<lambda>(bindings, c). order_graph sample_verifier status_scope c))"
  by code_simp

lemma status_bindings: "bindings_of (build_graph sample_verifier status_scope Ordinary None) =
    [\<lparr>plan_destination = WOutput (Ident ''o''), plan_candidates = [Ident ''e'', Ident ''f''], plan_required = True,
      plan_exclusive = True\<rparr>]"
  by code_simp

lemma status_verified:
  "\<exists>p. verify_scope_graph sample_verifier status_scope Ordinary None = Ok p \<and>
    plan_bindings p = [\<lparr>plan_destination = WOutput (Ident ''o''), plan_candidates = [Ident ''e'', Ident ''f''],
      plan_required = True, plan_exclusive = True\<rparr>]"
proof -
  obtain bindings c where b: "build_graph sample_verifier status_scope Ordinary None = Ok (bindings, c)"
      "accepted (order_graph sample_verifier status_scope c)"
    using status_graph by (cases "build_graph sample_verifier status_scope Ordinary None") (auto simp: accepted_def)
  obtain deps order n where o: "order_graph sample_verifier status_scope c = Ok (deps, order, n)"
    by (rule acceptedE [OF b(2)]) auto
  show ?thesis
    using status_bindings b(1) o verify_unfold [of sample_verifier status_scope Ordinary None] status_record status_roles
    by (simp add: bindings_of_def sample_limits)
qed

section \<open>The properties\<close>

text \<open>C5. The plan of an accepted scope use is exactly the specified wait graph: its vertices
  are the events of the scope, its indexed dependencies are the waits that the ports, edges,
  guards and contracts require, and its order lists every vertex once, after all it waits for.\<close>

theorem wait_graph_exact:
  assumes "verify_scope_graph vf s role until = Ok p"
  shows "set (plan_vertices p) = scope_events s until \<and> distinct (plan_vertices p) \<and>
    vertex_pairs (plan_vertices p) (plan_dependencies p) = scope_waits s until \<and>
    set (plan_order p) = {..<length (plan_vertices p)} \<and> topological (plan_dependencies p) (plan_order p)"
  using verify_order [OF assms] by blast

theorem wait_graph_exact_witness:
  "\<exists>p. verify_scope_graph sample_verifier sample_scope Ordinary None = Ok p \<and>
    set (plan_vertices p) = {WCompletion, WOutput (Ident ''o''), WAdmission (Ident ''a''), WOutcome (Ident ''a'')} \<and>
    vertex_pairs (plan_vertices p) (plan_dependencies p) = scope_waits sample_scope None"
proof -
  obtain p where p: "verify_scope_graph sample_verifier sample_scope Ordinary None = Ok p" using sample_verified by blast
  show ?thesis using wait_graph_exact [OF p] p sample_events by auto
qed

text \<open>C6. An accepted scope use can always proceed: as long as some event has not settled,
  there is an unsettled event everything of which it waits for has settled.\<close>

theorem scope_progress:
  assumes "verify_scope_graph vf s role until = Ok p" "settled \<subset> scope_events s until"
  shows "\<exists>v \<in> scope_events s until - settled. \<forall>u. (u, v) \<in> scope_waits s until \<longrightarrow> u \<in> settled"
proof -
  note V = verify_order [OF assms(1)]
  have wf: "wf (scope_waits s until)" using V by (simp add: finite_acyclic_wf)
  have sub: "scope_waits s until \<subseteq> scope_events s until \<times> scope_events s until"
  proof -
    have "u \<in> set (plan_vertices p) \<and> v \<in> set (plan_vertices p)" if "(u, v) \<in> scope_waits s until" for u v
      using verify_edges [OF assms(1) that] .
    then show ?thesis using V by auto
  qed
  obtain x where "x \<in> scope_events s until - settled" using assms(2) by blast
  then obtain v where "v \<in> scope_events s until - settled"
    "\<And>u. (u, v) \<in> scope_waits s until \<Longrightarrow> u \<notin> scope_events s until - settled"
    by (rule wfE_min [OF wf]) blast
  then show ?thesis using sub by blast
qed

theorem scope_progress_witness:
  "\<exists>v \<in> {WCompletion, WOutput (Ident ''o''), WOutcome (Ident ''a'')}.
    \<forall>u. (u, v) \<in> scope_waits sample_scope None \<longrightarrow> u \<in> {WAdmission (Ident ''a'')}"
proof -
  obtain p where p: "verify_scope_graph sample_verifier sample_scope Ordinary None = Ok p" using sample_verified by blast
  have "{WAdmission (Ident ''a'')} \<subset> scope_events sample_scope None" by (auto simp: sample_events)
  from scope_progress [OF p this] show ?thesis unfolding sample_events by auto
qed

text \<open>C12. In an accepted scope use the outcome of every node leads, through the waits, to
  something the outside reads: a public output, a next value, or an event of a contract.\<close>

theorem nodes_observed:
  assumes "verify_scope_graph vf s role until = Ok p" "n \<in> set (scope_nodes s)"
  shows "\<exists>v \<in> observed_events s until. (WOutcome (node_id n), v) \<in> (scope_waits s until)\<^sup>*"
  using verify_order [OF assms(1)] assms(2) by blast

theorem nodes_observed_witness:
  "\<exists>v \<in> observed_events sample_scope None. (WOutcome (Ident ''a''), v) \<in> (scope_waits sample_scope None)\<^sup>*"
proof -
  obtain p where p: "verify_scope_graph sample_verifier sample_scope Ordinary None = Ok p" using sample_verified by blast
  have n: "sample_node \<in> set (scope_nodes sample_scope)" "node_id sample_node = Ident ''a''"
    by (simp_all add: sample_scope_def scope_fields_default_def sample_node_def node_fields_new_def)
  show ?thesis using nodes_observed [OF p n(1)] n(2) by simp
qed

text \<open>C18. A scope use is rejected as cyclic only if its specified wait graph has a cycle, and
  an accepted one has none.\<close>

theorem cycle_exact:
  assumes "(\<exists>p. verify_scope_graph vf s role until = Ok p) \<or>
    (\<exists>e. verify_scope_graph vf s role until = Err e \<and> error_kind e = KCycle)"
  shows "(\<exists>p. verify_scope_graph vf s role until = Ok p) \<longleftrightarrow> acyclic (scope_waits s until)"
  using assms verify_order verify_cycle by (metis result.distinct(1))

theorem cycle_exact_witness:
  "(\<exists>e. verify_scope_graph sample_verifier cyclic_scope Ordinary None = Err e \<and> error_kind e = KCycle) \<and>
    \<not> acyclic (scope_waits cyclic_scope None)"
proof -
  have "\<exists>e. verify_scope_graph sample_verifier cyclic_scope Ordinary None = Err e \<and> error_kind e = KCycle"
    using cyclic_graph verify_unfold [of sample_verifier cyclic_scope Ordinary None] cyclic_record cyclic_roles
    by (auto simp: rejected_as_iff sample_limits attempt_eq_Err split: prod.splits)
  then show ?thesis using cycle_exact [of sample_verifier cyclic_scope Ordinary None] by force
qed

text \<open>C19. The binding plans of an accepted scope use cover its destinations: there is one for
  each declared output, next value and node input, its candidates are the edges to it in their
  order, a required destination has at least one, and at most one has the guard \<open>true\<close>.\<close>

theorem bindings_complete:
  assumes "verify_scope_graph vf s role until = Ok p"
  shows "distinct (map plan_destination (plan_bindings p)) \<and>
    set (map plan_destination (plan_bindings p)) = fst ` declared_ports s until \<and>
    (\<forall>b \<in> set (plan_bindings p).
      (\<exists>port. (plan_destination b, port) \<in> declared_ports s until \<and> plan_required b = port_required port) \<and>
      plan_candidates b = map edge_id (edges_to s (plan_destination b)) \<and>
      (plan_required b \<longrightarrow> edges_to s (plan_destination b) \<noteq> []) \<and>
      length (filter (is_truth \<circ> edge_guard) (edges_to s (plan_destination b))) \<le> 1)"
proof -
  have l: "list_all2 (plan_of_group s) (scope_groups s until) (plan_bindings p)" using verify_parts [OF assms] by blast
  have d: "map plan_destination (plan_bindings p) = map fst (scope_groups s until)"
    using l by (induction rule: list_all2_induct) (auto simp: plan_of_group_def)
  note G = scope_groups_facts [of s until]
  have b: "(\<exists>port. (plan_destination b, port) \<in> declared_ports s until \<and> plan_required b = port_required port) \<and>
      plan_candidates b = map edge_id (edges_to s (plan_destination b)) \<and>
      (plan_required b \<longrightarrow> edges_to s (plan_destination b) \<noteq> []) \<and>
      length (filter (is_truth \<circ> edge_guard) (edges_to s (plan_destination b))) \<le> 1" if mem: "b \<in> set (plan_bindings p)" for b
  proof -
    obtain g where g: "(plan_destination b, g) \<in> set (scope_groups s until)" "plan_of_group s (plan_destination b, g) b"
      using verify_bindings [OF assms mem] by blast
    have "(plan_destination b, group_port g) \<in> declared_ports s until"
      using g(1) scope_group_ports [of s until] by (force simp: group_ports_def)
    moreover have "group_candidates g = map edge_id (edges_to s (plan_destination b)) \<and>
        group_unconditional g = length (filter (is_truth \<circ> edge_guard) (edges_to s (plan_destination b)))"
      using G g(1) by blast
    ultimately show ?thesis using g(2) by (auto simp: plan_of_group_def)
  qed
  have "set (map plan_destination (plan_bindings p)) = fst ` declared_ports s until"
    using G by (simp only: d set_map group_events_declared [symmetric])
  then show ?thesis using G b d by auto
qed

theorem bindings_complete_witness:
  "\<exists>p. verify_scope_graph sample_verifier status_scope Ordinary None = Ok p \<and>
    set (map plan_destination (plan_bindings p)) = fst ` declared_ports status_scope None"
  using status_verified bindings_complete [of sample_verifier status_scope Ordinary None] by blast

text \<open>C11. Guards that the plan calls exclusive never hold together: two different candidate
  edges of such a binding do not both evaluate to true, in any frame.\<close>

theorem exclusive_never_conflict:
  assumes "verify_scope_graph vf s role until = Ok p" "b \<in> set (plan_bindings p)" "plan_exclusive b"
    and "distinct (map edge_id (scope_edges s))"
    and "\<And>e x l. e \<in> set (scope_edges s) \<Longrightarrow> equality_guard (edge_guard e) = Some (x, l) \<Longrightarrow> wf_literal l"
    and "e1 \<in> set (edges_to s (plan_destination b))" "e2 \<in> set (edges_to s (plan_destination b))" "e1 \<noteq> e2"
  shows "\<not> (holds eng S (edge_guard e1) \<and> holds eng S (edge_guard e2))"
proof -
  obtain g where g: "(plan_destination b, g) \<in> set (scope_groups s until)" "plan_of_group s (plan_destination b, g) b"
    using verify_bindings [OF assms(1,2)] by blast
  have "group_candidates g = map edge_id (edges_to s (plan_destination b))" using scope_groups_facts [of s until] g(1) by blast
  then have c: "plan_candidates b = map edge_id (edges_to s (plan_destination b))" using g(2) by (simp add: plan_of_group_def)
  have m: "e1 \<in> set (scope_edges s)" "e2 \<in> set (scope_edges s)" using assms(6,7) by (auto simp: edges_to_def)
  show ?thesis
    using exclusive_candidates [OF g(2) assms(3,4) c assms(6,7,8)] exclusive_guards_sound assms(5) m by metis
qed

theorem exclusive_never_conflict_witness:
  "\<forall>eng S. \<not> (holds eng S (edge_guard (status_edge ''e'' ''failed'')) \<and>
    holds eng S (edge_guard (status_edge ''f'' ''succeeded'')))"
proof -
  have guards: "edge_guard (status_edge i st) = EBinary OpEq (EStatus (Ident ''a'')) (ELiteral (LString st))" for i st
    by (simp add: status_edge_def edge_with_guard_def edge_new_def)
  obtain p where p: "verify_scope_graph sample_verifier status_scope Ordinary None = Ok p"
    "plan_bindings p = [\<lparr>plan_destination = WOutput (Ident ''o''), plan_candidates = [Ident ''e'', Ident ''f''],
      plan_required = True, plan_exclusive = True\<rparr>]"
    using status_verified by blast
  have edges: "scope_edges status_scope = [status_edge ''e'' ''failed'', status_edge ''f'' ''succeeded'']"
    by (simp add: status_scope_def sample_scope_def)
  have status: "edge_id (status_edge i st) = Ident i" "edge_destination (status_edge i st) = DstOutput (Ident ''o'')" for i st
    by (simp_all add: status_edge_def edge_with_guard_def edge_new_def)
  have b: "hd (plan_bindings p) \<in> set (plan_bindings p)" "plan_exclusive (hd (plan_bindings p))"
    by (simp_all add: p(2))
  have w: "wf_literal l" if "e \<in> set (scope_edges status_scope)" "equality_guard (edge_guard e) = Some (x, l)" for e x l
    using that by (auto simp: edges guards equality_guard_def wf_literal_def)
  have d: "distinct (map edge_id (scope_edges status_scope))" by (simp add: edges status)
  have e: "status_edge ''e'' ''failed'' \<in> set (edges_to status_scope (plan_destination (hd (plan_bindings p))))"
    "status_edge ''f'' ''succeeded'' \<in> set (edges_to status_scope (plan_destination (hd (plan_bindings p))))"
    by (simp_all add: status edges_to_def edges p(2) destination_vertex_def)
  have "edge_id (status_edge ''e'' ''failed'') \<noteq> edge_id (status_edge ''f'' ''succeeded'')" by (simp add: status)
  then have n: "status_edge ''e'' ''failed'' \<noteq> status_edge ''f'' ''succeeded''" by metis
  show ?thesis using exclusive_never_conflict [OF p(1) b d _ e n] w by blast
qed

end
