(* ===== verification/Json.thy ===== *)
theory Json
  imports Json_Pointer Floats
begin

text \<open>
  Bounded JSON text, \<open>json.rs\<close>: the parser with its byte offsets, the numeric profile, and
  the RFC 8785 writer. The decoding and escaping of one string (crate \<open>serde_json\<close>) and the
  shortest decimal of a float (crate \<open>ryu_js\<close>) are parameters; \<open>str::parse\<close> for \<open>f64\<close> is
  correctly rounded decimal conversion, written out below.
\<close>

section \<open>Decimal numbers and binary64\<close>

text \<open>The value of a finite float is its significand times a power of two.\<close>

definition f64_significand :: "f64 \<Rightarrow> nat" where
  "f64_significand x = (let m = unat (take_bit 52 x) in if f64_exponent x = 0 then m else m + 2 ^ 52)"

definition f64_scale :: "f64 \<Rightarrow> int" where
  "f64_scale x = int (max 1 (f64_exponent x)) - 1075"

text \<open>\<open>x.fract() == 0.0\<close> and \<open>x.abs()\<close>, \<open>x as i64\<close> for integral \<open>x\<close>.\<close>

definition f64_is_integral :: "f64 \<Rightarrow> bool" where
  "f64_is_integral x \<longleftrightarrow> f64_scale x \<ge> 0 \<or> 2 ^ nat (- f64_scale x) dvd f64_significand x"

definition f64_integral_abs :: "f64 \<Rightarrow> nat" where
  "f64_integral_abs x =
     (if f64_scale x \<ge> 0 then f64_significand x * 2 ^ nat (f64_scale x)
      else f64_significand x div 2 ^ nat (- f64_scale x))"

definition f64_to_int :: "f64 \<Rightarrow> int" where
  "f64_to_int x = (if f64_is_sign_negative x then - int (f64_integral_abs x) else int (f64_integral_abs x))"

text \<open>The float nearest to \<open>p / q\<close>, ties to even; past the largest finite one, infinity.\<close>

definition round_div :: "nat \<Rightarrow> nat \<Rightarrow> nat" where
  "round_div a b =
     (let d = a div b; r = 2 * (a mod b) in if r > b \<or> (r = b \<and> odd d) then d + 1 else d)"

definition ratio_exponent :: "nat \<Rightarrow> nat \<Rightarrow> int" where
  "ratio_exponent p q =
     (let e = int (top_bit p) - int (top_bit q) in
      if (if e \<ge> 0 then p \<ge> q * 2 ^ nat e else p * 2 ^ nat (- e) \<ge> q) then e else e - 1)"

definition f64_of_ratio :: "bool \<Rightarrow> nat \<Rightarrow> nat \<Rightarrow> f64" where
  "f64_of_ratio negative p q =
     (let k = min (52 - ratio_exponent p q) 1074;
          m = (if k \<ge> 0 then round_div (p * 2 ^ nat k) q else round_div p (q * 2 ^ nat (- k)));
          bits = (if p = 0 then 0 else min (nat (1074 - k) * 2 ^ 52 + m) (2047 * 2 ^ 52)) in
      word_of_nat (bits + (if negative then 2 ^ 63 else 0)))"

definition f64_of_int :: "int \<Rightarrow> f64" where
  "f64_of_int i = f64_of_ratio (i < 0) (nat \<bar>i\<bar>) 1"

text \<open>\<open>str::parse\<close>: an optional sign, then digits; for a float also a fraction and an
  exponent. The spellings of infinity and NaN do not occur in the tokens parsed here.\<close>

definition sign_split :: "bytes \<Rightarrow> bool \<times> bytes" where
  "sign_split s = (case s of c # r \<Rightarrow> if c = CHR ''-'' then (True, r) else if c = CHR ''+'' then (False, r) else (False, s)
     | [] \<Rightarrow> (False, []))"

definition all_digits :: "bytes \<Rightarrow> bool" where
  "all_digits s \<longleftrightarrow> s \<noteq> [] \<and> list_all is_digit s"

definition int_value :: "bool \<Rightarrow> bytes \<Rightarrow> int" where
  "int_value negative s = (if negative then - int (decimal_value s) else int (decimal_value s))"

definition i64_parse :: "bytes \<Rightarrow> i64 option" where
  "i64_parse s =
     (let (negative, r) = sign_split s in
      if \<not> all_digits r then None
      else let i = int_value negative r in
        if - (2 ^ 63) \<le> i \<and> i < 2 ^ 63 then Some (word_of_int i) else None)"

definition exponent_parse :: "bytes \<Rightarrow> int option" where
  "exponent_parse s =
     (case s of
        [] \<Rightarrow> Some 0
      | c # r \<Rightarrow>
          if c = CHR ''e'' \<or> c = CHR ''E'' then
            (let (negative, ds) = sign_split r in if all_digits ds then Some (int_value negative ds) else None)
          else None)"

definition f64_parse :: "bytes \<Rightarrow> f64 option" where
  "f64_parse s =
     (let (negative, r) = sign_split s;
          whole = takeWhile is_digit r;
          r1 = dropWhile is_digit r;
          part = (case r1 of c # r2 \<Rightarrow> if c = CHR ''.'' then takeWhile is_digit r2 else [] | [] \<Rightarrow> []);
          r3 = (case r1 of c # r2 \<Rightarrow> if c = CHR ''.'' then dropWhile is_digit r2 else r1 | [] \<Rightarrow> []) in
      if whole @ part = [] then None
      else
        map_option (\<lambda>e.
            let x = e - int (length part); d = decimal_value (whole @ part) in
            if x \<ge> 0 then f64_of_ratio negative (d * 10 ^ nat x) 1 else f64_of_ratio negative d (10 ^ nat (- x)))
          (exponent_parse r3))"

section \<open>Errors and bounds\<close>

datatype json_error =
  JsonCodec cbor_error | JsonInvalidUtf8 nat | JsonSyntax nat | JsonDuplicateKey nat | JsonUnsafeNumber
| JsonUnsupportedValue | JsonNonCanonical | JsonLimitExceeded limit_kind nat | JsonAllocationFailed | JsonSerialization

definition json_check :: "nat \<Rightarrow> nat \<Rightarrow> limit_kind \<Rightarrow> (json_error, unit) result" where
  "json_check n m k = (if n > m then Err (JsonLimitExceeded k m) else Ok ())"

definition json_add :: "nat \<Rightarrow> nat \<Rightarrow> nat \<Rightarrow> limit_kind \<Rightarrow> (json_error, nat) result" where
  "json_add a b m k =
     attempt (ok_or (JsonLimitExceeded k m) (checked_add a b)) (\<lambda>n.
     attempt (json_check n m k) (\<lambda>_. Ok n))"

text \<open>\<open>unquote\<close> is \<open>serde_json::from_slice\<close> on one string literal, \<open>quote\<close> what
  \<open>serde_json::to_writer\<close> writes for a string.\<close>

record json_engine =
  unquote :: "bytes \<Rightarrow> bytes option"
  quote :: "bytes \<Rightarrow> bytes"
  shortest :: "f64 \<Rightarrow> bytes"

section \<open>Parsing\<close>

text \<open>
  A parser takes what is left of the input; \<open>n\<close> is the length of the whole input, so that
  the position is \<open>n\<close> less the length of the rest.
\<close>

definition is_space :: "byte \<Rightarrow> bool" where
  "is_space c \<longleftrightarrow> c = CHR '' '' \<or> c = CHR 0x09 \<or> c = CHR 0x0D \<or> c = CHR 0x0A"

definition space :: "bytes \<Rightarrow> bytes" where
  "space r = dropWhile is_space r"

definition syntax_at :: "nat \<Rightarrow> bytes \<Rightarrow> (json_error, 'a) result" where
  "syntax_at n r = Err (JsonSyntax (n - length r))"

definition eat :: "nat \<Rightarrow> byte \<Rightarrow> bytes \<Rightarrow> (json_error, bytes) result" where
  "eat n b r =
     (case space r of
        c # r1 \<Rightarrow> if c = b then Ok r1 else syntax_at n (space r)
      | [] \<Rightarrow> syntax_at n [])"

definition json_word :: "nat \<Rightarrow> bytes \<Rightarrow> bytes \<Rightarrow> (json_error, bytes) result" where
  "json_word n w r = (if take (length w) r = w then Ok (drop (length w) r) else syntax_at n r)"

definition hex_digit :: "byte \<Rightarrow> nat option" where
  "hex_digit c =
     (let k = (of_char c :: nat) in
      if 48 \<le> k \<and> k \<le> 57 then Some (k - 48)
      else if 97 \<le> k \<and> k \<le> 102 then Some (k - 97 + 10)
      else if 65 \<le> k \<and> k \<le> 70 then Some (k - 65 + 10) else None)"

fun hex_digits :: "nat \<Rightarrow> nat \<Rightarrow> nat \<Rightarrow> bytes \<Rightarrow> (json_error, nat \<times> bytes) result" where
  "hex_digits n 0 acc r = Ok (acc, r)"
| "hex_digits n (Suc k) acc r =
     (case r of
        [] \<Rightarrow> syntax_at n r
      | c # r1 \<Rightarrow> (case hex_digit c of None \<Rightarrow> syntax_at n r | Some d \<Rightarrow> hex_digits n k (16 * acc + d) r1))"

definition hex4 :: "nat \<Rightarrow> bytes \<Rightarrow> (json_error, nat \<times> bytes) result" where
  "hex4 n r = hex_digits n 4 0 r"

definition len_utf8 :: "nat \<Rightarrow> nat" where
  "len_utf8 c = (if c < 0x80 then 1 else if c < 0x800 then 2 else if c < 0x10000 then 3 else 4)"

definition unicode_escape :: "nat \<Rightarrow> bytes \<Rightarrow> (json_error, nat \<times> bytes) result" where
  "unicode_escape n r =
     attempt (hex4 n r) (\<lambda>(high, r1).
     attempt (if 0xD800 \<le> high \<and> high \<le> 0xDBFF then
         (if take 2 r1 \<noteq> [CHR 0x5C, CHR ''u''] then syntax_at n r1
          else attempt (hex4 n (drop 2 r1)) (\<lambda>(low, r2).
            if low < 0xDC00 \<or> 0xDFFF < low then syntax_at n r2
            else Ok (0x10000 + (high - 0xD800) * 1024 + low - 0xDC00, r2)))
       else Ok (high, r1)) (\<lambda>(point, r2).
     if 0xD800 \<le> point \<and> point \<le> 0xDFFF \<or> 0x10FFFF < point then syntax_at n r2 else Ok (len_utf8 point, r2)))"

text \<open>One byte or escape of a string, with the number of bytes it decodes to.\<close>

definition string_unit :: "nat \<Rightarrow> byte \<Rightarrow> bytes \<Rightarrow> (json_error, nat \<times> bytes) result" where
  "string_unit n c r =
     (if (of_char c :: nat) \<le> 31 then syntax_at n (c # r)
      else if c = CHR 0x5C then
        (case r of
           [] \<Rightarrow> syntax_at n r
         | d # r1 \<Rightarrow>
             if d \<in> set [CHR 0x22, CHR 0x5C, CHR ''/'', CHR ''b'', CHR ''f'', CHR ''n'', CHR ''r'', CHR ''t''] then Ok (1, r1)
             else if d = CHR ''u'' then unicode_escape n r1 else syntax_at n r)
      else Ok (1, r))"

lemma hex_digits_length: "hex_digits n k acc r = Ok (v, r') \<Longrightarrow> length r' \<le> length r"
  by (induction n k acc r rule: hex_digits.induct) (force simp: syntax_at_def split: list.splits option.splits)+

lemma string_unit_length: "string_unit n c r = Ok (k, r') \<Longrightarrow> length r' \<le> length r"
  by (auto simp: string_unit_def unicode_escape_def hex4_def syntax_at_def split: list.splits if_splits
      dest!: hex_digits_length)

function scan_string :: "limits \<Rightarrow> nat \<Rightarrow> nat \<Rightarrow> bytes \<Rightarrow> (json_error, bytes) result" where
  "scan_string lim n decoded [] = syntax_at n []"
| "scan_string lim n decoded (c # r) =
     (if c = CHR 0x22 then Ok r
      else attempt (string_unit n c r) (\<lambda>(count, r1).
        attempt (json_add decoded count (max_document_bytes lim) DocumentBytes) (\<lambda>decoded1.
        scan_string lim n decoded1 r1)))"
  by pat_completeness auto
termination
  by (relation "measure (\<lambda>(lim, n, decoded, r). length r)") (auto dest: string_unit_length)

definition json_string :: "json_engine \<Rightarrow> limits \<Rightarrow> nat \<Rightarrow> bytes \<Rightarrow> (json_error, bytes \<times> bytes) result" where
  "json_string eng lim n r =
     (let r0 = space r in
      attempt (eat n (CHR 0x22) r0) (\<lambda>r1.
      attempt (scan_string lim n 0 r1) (\<lambda>r2.
      attempt (ok_or (JsonSyntax (n - length r0)) (unquote eng (take (length r0 - length r2) r0))) (\<lambda>s.
      Ok (s, r2)))))"

section \<open>The numeric profile\<close>

definition safe :: nat where
  "safe = 2 ^ 53 - 1"

definition native_number :: "f64 \<Rightarrow> (json_error, value) result" where
  "native_number x =
     (if \<not> f64_is_finite x then Err JsonUnsafeNumber
      else if f64_is_integral x then
        (if f64_integral_abs x > safe then Err JsonUnsafeNumber else Ok (VInteger (word_of_int (f64_to_int x))))
      else attempt (map_err (\<lambda>_. JsonUnsafeNumber) (finite_float_new x)) (\<lambda>f. Ok (VFloat f)))"

definition saturate :: "int \<Rightarrow> int" where
  "saturate i = max (- (2 ^ 63)) (min (2 ^ 63 - 1) i)"

text \<open>\<open>check_integral_token\<close>: an integral token is exact only up to the largest safe integer.
  The significant digits are written by index into an array of sixteen.\<close>

definition write_digits :: "bytes \<Rightarrow> (json_error, bytes) result" where
  "write_digits ds =
     fold_result (\<lambda>(i, c) decimal. if i < length decimal then Ok (decimal[i := c]) else Panic) (enumerate 0 ds)
       (replicate 16 (CHR ''0''))"

definition check_integral_token :: "bytes \<Rightarrow> int \<Rightarrow> (json_error, unit) result" where
  "check_integral_token mantissa exponent =
     (let fraction = int (length (drop 1 (dropWhile (\<lambda>c. c \<noteq> CHR ''.'') mantissa)));
          digits = filter is_digit mantissa;
          leading = length (takeWhile (\<lambda>c. c = CHR ''0'') digits);
          significant = rev (dropWhile (\<lambda>c. c = CHR ''0'') (rev (drop leading digits))) in
      if significant = [] then Ok ()
      else
        let trailing = length digits - leading - length significant;
            shift = saturate (saturate (exponent - fraction) + int trailing);
            width = saturate (int (length significant) + shift) in
        if shift < 0 then Ok ()
        else if width > 16 then Err JsonUnsafeNumber
        else if width = 16 then
          attempt (write_digits significant) (\<lambda>decimal.
          if decimal > ''9007199254740991'' then Err JsonUnsafeNumber else Ok ())
        else Ok ())"

definition json_exponent :: "nat \<Rightarrow> bytes \<Rightarrow> (json_error, int \<times> bytes) result" where
  "json_exponent n r =
     (case r of
        c # r1 \<Rightarrow>
          if c = CHR ''e'' \<or> c = CHR ''E'' then
            (let (negative, r2) = sign_split r1; ds = takeWhile is_digit r2; r3 = dropWhile is_digit r2;
                 e = foldl (\<lambda>k d. saturate (saturate (k * 10) + int (of_char d - 48))) 0 ds in
             if ds = [] then syntax_at n r3 else Ok (if negative then - e else e, r3))
          else Ok (0, r)
      | [] \<Rightarrow> Ok (0, r))"

definition json_mantissa :: "nat \<Rightarrow> bytes \<Rightarrow> (json_error, bytes) result" where
  "json_mantissa n r =
     (let r1 = (case r of c # r' \<Rightarrow> if c = CHR ''-'' then r' else r | [] \<Rightarrow> []) in
      attempt (case r1 of
          [] \<Rightarrow> syntax_at n r1
        | c # r' \<Rightarrow> if c = CHR ''0'' then Ok r' else if is_digit c then Ok (dropWhile is_digit r1) else syntax_at n r1) (\<lambda>r2.
      case r2 of
        c # r3 \<Rightarrow>
          if c = CHR ''.'' then
            (let r4 = dropWhile is_digit r3 in if r4 = r3 then syntax_at n r4 else Ok r4)
          else Ok r2
      | [] \<Rightarrow> Ok r2))"

definition ascii_token :: "bytes \<Rightarrow> (json_error, bytes) result" where
  "ascii_token b = expect (if utf8_valid b then Some b else None)"

definition json_number :: "nat \<Rightarrow> bytes \<Rightarrow> (json_error, value \<times> bytes) result" where
  "json_number n r =
     attempt (json_mantissa n r) (\<lambda>r1.
     attempt (json_exponent n r1) (\<lambda>(exponent, r2).
     attempt (check_integral_token (take (length r - length r1) r) exponent) (\<lambda>_.
     attempt (ascii_token (take (length r - length r2) r)) (\<lambda>token.
     attempt (ok_or JsonUnsafeNumber (f64_parse token)) (\<lambda>x.
     attempt (native_number x) (\<lambda>v. Ok (v, r2)))))))"

section \<open>Values\<close>

text \<open>The loops over the members of a list and of an object; \<open>fuel\<close> is the number of bytes
  left, of which every round takes at least one.\<close>

fun json_items :: "(bytes \<Rightarrow> (json_error, value \<times> bytes) result) \<Rightarrow> nat \<Rightarrow> nat \<Rightarrow> value list \<Rightarrow> bytes \<Rightarrow>
    (json_error, value list \<times> bytes) result" where
  "json_items member n 0 acc r = Panic"
| "json_items member n (Suc fuel) acc r =
     attempt (member r) (\<lambda>(v, r1).
     let s = space r1 in
     if take 1 s = '']'' then Ok (acc @ [v], drop 1 s)
     else attempt (eat n (CHR '','') s) (json_items member n fuel (acc @ [v])))"

definition json_list :: "(bytes \<Rightarrow> (json_error, value \<times> bytes) result) \<Rightarrow> nat \<Rightarrow> bytes \<Rightarrow>
    (json_error, value \<times> bytes) result" where
  "json_list member n r =
     attempt (eat n (CHR ''['') r) (\<lambda>r1.
     let s = space r1 in
     if take 1 s = '']'' then Ok (VArray [], drop 1 s)
     else attempt (json_items member n (Suc (length s)) [] s) (\<lambda>(vs, r3). Ok (VArray vs, r3)))"

definition json_enter :: "limits \<Rightarrow> nat \<Rightarrow> (json_error, unit) result" where
  "json_enter lim room = (if room = 0 then Err (JsonLimitExceeded Depth (max_depth lim)) else Ok ())"

fun json_fields :: "json_engine \<Rightarrow> limits \<Rightarrow> nat \<Rightarrow> (bytes \<Rightarrow> (json_error, value \<times> bytes) result) \<Rightarrow> nat \<Rightarrow> nat \<Rightarrow> cbor_map \<Rightarrow>
    bytes \<Rightarrow> (json_error, cbor_map \<times> bytes) result" where
  "json_fields eng lim room member n 0 acc r = Panic"
| "json_fields eng lim room member n (Suc fuel) acc r =
     attempt (json_enter lim room) (\<lambda>_.
     attempt (json_string eng lim n (space r)) (\<lambda>(k, r1).
     if k \<in> fst ` set acc then Err (JsonDuplicateKey (n - length (space r)))
     else
       attempt (eat n (CHR '':'') r1) (\<lambda>r2.
       attempt (member r2) (\<lambda>(v, r3).
       let acc1 = insort_key fst (k, v) acc; s = space r3 in
       if take 1 s = ''}'' then Ok (acc1, drop 1 s)
       else attempt (eat n (CHR '','') s) (json_fields eng lim room member n fuel acc1)))))"

definition json_object :: "json_engine \<Rightarrow> limits \<Rightarrow> nat \<Rightarrow> (bytes \<Rightarrow> (json_error, value \<times> bytes) result) \<Rightarrow> nat \<Rightarrow> bytes \<Rightarrow>
    (json_error, value \<times> bytes) result" where
  "json_object eng lim room member n r =
     attempt (eat n (CHR ''{'') r) (\<lambda>r1.
     let s = space r1 in
     if take 1 s = ''}'' then Ok (VMap [], drop 1 s)
     else
       attempt (json_fields eng lim room member n (Suc (length s)) [] s) (\<lambda>(fs, r3).
       attempt (map_err JsonCodec (map_try_from_entries fs)) (\<lambda>m. Ok (VMap m, r3))))"

text \<open>\<open>room\<close> is one more than the levels left: \<open>max_depth + 1 - depth\<close>.\<close>

fun json_value :: "json_engine \<Rightarrow> limits \<Rightarrow> nat \<Rightarrow> nat \<Rightarrow> bytes \<Rightarrow> (json_error, value \<times> bytes) result" where
  "json_value eng lim n 0 r = attempt (json_enter lim 0) (\<lambda>_. Panic)"
| "json_value eng lim n (Suc room) r =
     (let s = space r in
      case s of
        [] \<Rightarrow> syntax_at n s
      | c # _ \<Rightarrow>
          if c = CHR 0x22 then attempt (json_string eng lim n s) (\<lambda>(t, r1). Ok (VText t, r1))
          else if c = CHR ''['' then json_list (json_value eng lim n room) n s
          else if c = CHR ''{'' then json_object eng lim room (json_value eng lim n room) n s
          else if c = CHR ''t'' then attempt (json_word n ''true'' s) (\<lambda>r1. Ok (VBool True, r1))
          else if c = CHR ''f'' then attempt (json_word n ''false'' s) (\<lambda>r1. Ok (VBool False, r1))
          else if c = CHR ''n'' then attempt (json_word n ''null'' s) (\<lambda>r1. Ok (VNull, r1))
          else if c = CHR ''-'' \<or> is_digit c then json_number n s
          else syntax_at n s)"

section \<open>Writing\<close>

text \<open>\<open>str::encode_utf16\<close> on valid UTF-8.\<close>

fun code_points :: "bytes \<Rightarrow> nat list" where
  "code_points [] = []"
| "code_points (a # r) =
     (let k = (of_char a :: nat); low = (\<lambda>c :: byte. (of_char c :: nat) mod 64) in
      if k < 0x80 then k # code_points r
      else if k < 0xE0 then (case r of b # r1 \<Rightarrow> (k mod 32 * 64 + low b) # code_points r1 | _ \<Rightarrow> [])
      else if k < 0xF0 then
        (case r of b # c # r1 \<Rightarrow> (k mod 16 * 4096 + low b * 64 + low c) # code_points r1 | _ \<Rightarrow> [])
      else
        (case r of b # c # d # r1 \<Rightarrow> (k mod 8 * 262144 + low b * 4096 + low c * 64 + low d) # code_points r1 | _ \<Rightarrow> []))"

definition utf16_units :: "nat \<Rightarrow> nat list" where
  "utf16_units c =
     (if c < 0x10000 then [c] else [0xD800 + (c - 0x10000) div 1024, 0xDC00 + (c - 0x10000) mod 1024])"

definition encode_utf16 :: "bytes \<Rightarrow> nat list" where
  "encode_utf16 s = concat (map utf16_units (code_points s))"

text \<open>\<open>Output\<close> is the bytes written so far, below the ceiling.\<close>

definition json_append :: "limits \<Rightarrow> bytes \<Rightarrow> bytes \<Rightarrow> (json_error, bytes) result" where
  "json_append lim b out =
     attempt (json_add (length out) (length b) (max_document_bytes lim) DocumentBytes) (\<lambda>_. Ok (out @ b))"

definition json_comma :: "limits \<Rightarrow> nat \<Rightarrow> bytes \<Rightarrow> (json_error, bytes) result" where
  "json_comma lim i out = (if i \<noteq> 0 then json_append lim '','' out else Ok out)"

definition json_scalar :: "json_engine \<Rightarrow> limits \<Rightarrow> value \<Rightarrow> bytes \<Rightarrow> (json_error, bytes) result" where
  "json_scalar eng lim v out =
     (case v of
        VNull \<Rightarrow> json_append lim ''null'' out
      | VBool True \<Rightarrow> json_append lim ''true'' out
      | VBool False \<Rightarrow> json_append lim ''false'' out
      | VText s \<Rightarrow> json_append lim (quote eng s) out
      | VInteger i \<Rightarrow>
          if nat \<bar>sint i\<bar> > safe then Err JsonUnsafeNumber
          else json_append lim (shortest eng (f64_of_int (sint i))) out
      | VFloat f \<Rightarrow>
          attempt (native_number (float_get f)) (\<lambda>_. json_append lim (shortest eng (float_get f)) out)
      | _ \<Rightarrow> Err JsonUnsupportedValue)"

definition utf16_sorted :: "cbor_map \<Rightarrow> cbor_map" where
  "utf16_sorted m = sort_key (\<lambda>p. encode_utf16 (fst p)) m"

lemma enumerate_size: "(i, x) \<in> set (enumerate n xs) \<Longrightarrow> size x < Suc (size_list size xs)"
  by (force simp: in_set_enumerate_eq intro: size_list_estimation' le_imp_less_Suc)

lemma entry_size:
  assumes "(i, k, x) \<in> set (enumerate n (utf16_sorted m))"
  shows "size x < Suc (size_list (size_prod (\<lambda>b. 0) size) m)"
proof -
  have "(k, x) \<in> set (utf16_sorted m)"
    using assms nth_mem [of "i - n" "utf16_sorted m"] by (auto simp: in_set_enumerate_eq)
  then have "(k, x) \<in> set m" by (simp add: utf16_sorted_def)
  then show ?thesis using size_list_estimation' [of "(k, x)" m "size x" "size_prod (\<lambda>b. 0) size"] by simp
qed

function (sequential) json_write :: "json_engine \<Rightarrow> limits \<Rightarrow> nat \<Rightarrow> value \<Rightarrow> bytes \<Rightarrow> (json_error, bytes) result" where
  "json_write eng lim room (VArray vs) out =
     attempt (json_enter lim room) (\<lambda>_.
     attempt (json_append lim ''['' out) (\<lambda>out1.
     attempt (fold_result (\<lambda>(i, x) o1.
         attempt (json_comma lim i o1) (json_write eng lim (room - 1) x)) (enumerate 0 vs) out1) (\<lambda>out2.
     json_append lim '']'' out2)))"
| "json_write eng lim room (VMap m) out =
     attempt (json_enter lim room) (\<lambda>_.
     attempt (json_add (length out) (length m) (max_document_bytes lim) DocumentBytes) (\<lambda>_.
     attempt (json_append lim ''{'' out) (\<lambda>out1.
     attempt (fold_result (\<lambda>(i, k, x) o1.
         attempt (json_comma lim i o1) (\<lambda>o2.
         attempt (json_enter lim (room - 1)) (\<lambda>_.
         attempt (json_append lim (quote eng k) o2) (\<lambda>o3.
         attempt (json_append lim '':'' o3) (json_write eng lim (room - 1) x))))) (enumerate 0 (utf16_sorted m)) out1) (\<lambda>out2.
     json_append lim ''}'' out2))))"
| "json_write eng lim room v out = attempt (json_enter lim room) (\<lambda>_. json_scalar eng lim v out)"
  by pat_completeness auto
termination
  by (relation "measure (\<lambda>(eng, lim, room, v, out). size v)") (auto dest: enumerate_size entry_size)

definition json_room :: "limits \<Rightarrow> nat" where
  "json_room lim = max_depth lim + 1"

definition encode_json :: "json_engine \<Rightarrow> limits \<Rightarrow> value \<Rightarrow> (json_error, bytes) result" where
  "encode_json eng lim v =
     attempt (map_err JsonCodec (limits_validate lim)) (\<lambda>_. json_write eng lim (json_room lim) v [])"

section \<open>Documents\<close>

record json_document =
  json_bytes :: bytes
  json_data :: "value"

definition json_new :: "json_engine \<Rightarrow> limits \<Rightarrow> bytes \<Rightarrow> (json_error, json_document) result" where
  "json_new eng lim b =
     attempt (map_err JsonCodec (limits_validate lim)) (\<lambda>_.
     attempt (json_check (length b) (max_document_bytes lim) DocumentBytes) (\<lambda>_.
     attempt (case utf8_error_at b of Some k \<Rightarrow> Err (JsonInvalidUtf8 k) | None \<Rightarrow> Ok ()) (\<lambda>_.
     attempt (json_value eng lim (length b) (json_room lim) b) (\<lambda>(v, r).
     if space r \<noteq> [] then syntax_at (length b) (space r)
     else attempt (encode_json eng lim v) (\<lambda>out. Ok \<lparr>json_bytes = out, json_data = v\<rparr>)))))"

definition json_decode :: "json_engine \<Rightarrow> limits \<Rightarrow> bytes \<Rightarrow> (json_error, json_document) result" where
  "json_decode eng lim b =
     attempt (json_new eng lim b) (\<lambda>d. if json_bytes d \<noteq> b then Err JsonNonCanonical else Ok d)"

definition json_from_value :: "json_engine \<Rightarrow> limits \<Rightarrow> value \<Rightarrow> (json_error, json_document) result" where
  "json_from_value eng lim v = attempt (encode_json eng lim v) (json_decode eng lim)"

definition json_digest :: "(bytes \<Rightarrow> digest) \<Rightarrow> json_document \<Rightarrow> digest" where
  "json_digest hash d = hash (json_bytes d)"

end
