(* ===== verification/Diagnostics.thy ===== *)
theory Diagnostics
  imports Json
begin

text \<open>
  Compiler reports, \<open>htlk-compiler/src/diagnostic.rs\<close>: source spans, report locations with
  their order, the constructors of failures and the canonical order of a report. Also the
  prose of codec and JSON errors, which failures quote.
\<close>

section \<open>Prose of errors\<close>

definition reason_display :: "canonicality_reason option \<Rightarrow> bytes" where
  "reason_display r =
     (case r of
        None \<Rightarrow> ''CBOR value does not use its required canonical encoding''
      | Some NonminimalHeader \<Rightarrow> ''CBOR integer or length header is wider than necessary''
      | Some IndefiniteLength \<Rightarrow> ''The CBOR header uses an indefinite-length marker, which HTLK does not allow''
      | Some WideFloat \<Rightarrow> ''CBOR floating-point encoding is wider than necessary''
      | Some NegativeZero \<Rightarrow> ''CBOR encodes negative zero, but canonical encoding requires positive zero''
      | Some WideSimple \<Rightarrow> ''CBOR Boolean or null encoding is wider than necessary'')"

definition kind_display :: "cbor_error \<Rightarrow> bytes" where
  "kind_display e =
     (case err_kind e of
        UnexpectedEnd \<Rightarrow> ''CBOR input ended before the value was complete''
      | TrailingData \<Rightarrow> ''CBOR input contains bytes after the complete top-level value''
      | InvalidUtf8 \<Rightarrow> ''CBOR text is not valid UTF-8''
      | UnsupportedType \<Rightarrow> ''The CBOR type is not supported by the HTLK profile in this position''
      | IntegerOutOfRange \<Rightarrow> ''CBOR integer is outside the signed 64-bit range''
      | NonFiniteFloat \<Rightarrow> ''CBOR floating-point value is NaN or infinite''
      | NonCanonicalEncoding \<Rightarrow> reason_display (err_reason e)
      | DuplicateMapKey \<Rightarrow> ''CBOR map contains a duplicate key''
      | MapKeyOutOfOrder \<Rightarrow> ''CBOR map keys are not in canonical order''
      | LimitExceeded DocumentBytes m \<Rightarrow> ''CBOR document size exceeds the configured maximum of '' @ dec_digits m @ '' bytes''
      | LimitExceeded Depth m \<Rightarrow> ''CBOR nesting exceeds the configured maximum depth of '' @ dec_digits m
      | InvalidLimits \<Rightarrow> ''The configured CBOR depth limit exceeds the supported maximum of '' @ dec_digits max_supported_depth
      | AllocationFailed \<Rightarrow> ''Could not allocate memory to process the CBOR value'')"

definition cbor_error_display :: "cbor_error \<Rightarrow> bytes" where
  "cbor_error_display e =
     kind_display e @ (case error_offset e of Some n \<Rightarrow> '' at byte '' @ dec_digits n | None \<Rightarrow> []) @ ''.''"

definition limit_kind_debug :: "limit_kind \<Rightarrow> bytes" where
  "limit_kind_debug k = (case k of DocumentBytes \<Rightarrow> ''DocumentBytes'' | Depth \<Rightarrow> ''Depth'')"

definition json_error_display :: "json_error \<Rightarrow> bytes" where
  "json_error_display e =
     (case e of
        JsonCodec c \<Rightarrow> ''JSON limits: '' @ cbor_error_display c
      | JsonInvalidUtf8 n \<Rightarrow> ''invalid JSON UTF-8 at byte '' @ dec_digits n
      | JsonSyntax n \<Rightarrow> ''invalid JSON syntax at byte '' @ dec_digits n
      | JsonDuplicateKey n \<Rightarrow> ''duplicate JSON key at byte '' @ dec_digits n
      | JsonUnsafeNumber \<Rightarrow> ''number violates HTLK JSON numeric profile''
      | JsonUnsupportedValue \<Rightarrow> ''native bytes are not JSON values''
      | JsonNonCanonical \<Rightarrow> ''JSON document is not canonical JCS''
      | JsonLimitExceeded k m \<Rightarrow> ''JSON limit exceeded: '' @ limit_kind_debug k @ '' ('' @ dec_digits m @ '')''
      | JsonAllocationFailed \<Rightarrow> ''JSON allocation failed''
      | JsonSerialization \<Rightarrow> ''JSON serialization failed'')"

section \<open>Locations\<close>

datatype source_location = Inline | Module digest bytes bytes

record source_span =
  span_source :: source_location
  start_byte :: nat
  end_byte :: nat

datatype diagnostic_location = SourceSpan source_span | SourceBundlePath bytes | CanonicalRecordPath bytes

text \<open>The derived orders, as keys: variants in their order, then the fields.\<close>

definition source_key :: "source_location \<Rightarrow> nat \<times> bytes \<times> bytes \<times> bytes" where
  "source_key s = (case s of Inline \<Rightarrow> (0, [], [], []) | Module d m p \<Rightarrow> (1, as_bytes d, m, p))"

definition span_key :: "source_span \<Rightarrow> (nat \<times> bytes \<times> bytes \<times> bytes) \<times> nat \<times> nat" where
  "span_key s = (source_key (span_source s), start_byte s, end_byte s)"

definition location_key :: "diagnostic_location \<Rightarrow> nat \<times> bytes \<times> (nat \<times> bytes \<times> bytes \<times> bytes) \<times> nat \<times> nat" where
  "location_key l =
     (case l of
        CanonicalRecordPath p \<Rightarrow> (0, p, (0, [], [], []), 0, 0)
      | SourceBundlePath p \<Rightarrow> (1, p, (0, [], [], []), 0, 0)
      | SourceSpan s \<Rightarrow> (2, [], span_key s))"

section \<open>Diagnostics\<close>

datatype diagnostic_severity = SeverityError | SeverityWarning

record diagnostic =
  diag_code :: bytes
  diag_severity :: diagnostic_severity
  diag_message :: bytes
  diag_location :: diagnostic_location
  diag_related :: "diagnostic_location list"

type_synonym compilation_failure = "diagnostic list"

definition compile_fail :: "bytes \<Rightarrow> bytes \<Rightarrow> compilation_failure" where
  "compile_fail code m =
     [\<lparr>diag_code = code, diag_severity = SeverityError, diag_message = m, diag_location = CanonicalRecordPath [],
       diag_related = []\<rparr>]"

definition related_to :: "bytes \<Rightarrow> bytes \<Rightarrow> source_span \<Rightarrow> compilation_failure" where
  "related_to code m s = map (\<lambda>d. d\<lparr>diag_related := diag_related d @ [SourceSpan s]\<rparr>) (compile_fail code m)"

text \<open>\<open>lexer::at\<close>, and the change of its code.\<close>

definition failure_at :: "bytes \<Rightarrow> source_location \<Rightarrow> nat \<Rightarrow> nat \<Rightarrow> compilation_failure" where
  "failure_at m source a b =
     map (\<lambda>d. d\<lparr>diag_location := SourceSpan \<lparr>span_source = source, start_byte = a, end_byte = b\<rparr>\<rparr>) (compile_fail ''C_SYNTAX'' m)"

definition with_code :: "bytes \<Rightarrow> compilation_failure \<Rightarrow> compilation_failure" where
  "with_code code ds = (case ds of d # r \<Rightarrow> d\<lparr>diag_code := code\<rparr> # r | [] \<Rightarrow> [])"

definition diagnostic_key :: "diagnostic \<Rightarrow>
    (nat \<times> bytes \<times> (nat \<times> bytes \<times> bytes \<times> bytes) \<times> nat \<times> nat) \<times> bytes \<times> bytes \<times>
    (nat \<times> bytes \<times> (nat \<times> bytes \<times> bytes \<times> bytes) \<times> nat \<times> nat) list" where
  "diagnostic_key d = (location_key (diag_location d), diag_code d, diag_message d, map location_key (diag_related d))"

text \<open>\<open>sort\<close>: a stable sort by location, code, message and related locations, then \<open>dedup\<close>.\<close>

definition sort_diagnostics :: "diagnostic list \<Rightarrow> diagnostic list" where
  "sort_diagnostics ds = remdups_adj (sort_key diagnostic_key ds)"

text \<open>\<open>Display\<close> of a failure: one line for each diagnostic.\<close>

definition failure_display :: "compilation_failure \<Rightarrow> bytes" where
  "failure_display ds =
     concat (map (\<lambda>(i, d). (if i \<noteq> 0 then [CHR 0x0A] else []) @ diag_code d @ '': '' @ diag_message d) (enumerate 0 ds))"

lemma location_key_inject: "location_key a = location_key b \<Longrightarrow> a = b"
  by (cases a; cases b)
    (auto simp: location_key_def span_key_def source_key_def intro!: source_span.equality digest.expand split: source_location.splits)

lemma map_location_key_inject: "map location_key as = map location_key bs \<Longrightarrow> as = bs"
  using location_key_inject by (metis injI list.inj_map_strong)

lemma diagnostic_key_inject:
  "diagnostic_key a = diagnostic_key b \<Longrightarrow> diag_severity a = diag_severity b \<Longrightarrow> a = b"
proof -
  assume k: "diagnostic_key a = diagnostic_key b" and s: "diag_severity a = diag_severity b"
  have "diag_location a = diag_location b" "diag_related a = diag_related b"
    by (rule location_key_inject map_location_key_inject; use k in \<open>simp add: diagnostic_key_def\<close>)+
  then show "a = b" using k s by (simp add: diagnostic_key_def)
qed

lemma remdups_adj_map_on: "inj_on f (set xs) \<Longrightarrow> remdups_adj (map f xs) = map f (remdups_adj xs)"
  by (induction xs rule: remdups_adj.induct) (auto simp: inj_on_def)

text \<open>Reports do not depend on the order in which their entries were found, when entries with
  the same key have the same severity.\<close>

lemma sort_diagnostics_canonical:
  assumes "set as = set bs" and "\<And>a b. a \<in> set as \<Longrightarrow> b \<in> set as \<Longrightarrow> diagnostic_key a = diagnostic_key b \<Longrightarrow> diag_severity a = diag_severity b"
  shows "sort_diagnostics as = sort_diagnostics bs"
proof -
  let ?f = diagnostic_key
  have inj: "inj_on ?f (set as)"
  proof (rule inj_onI)
    show "a = b" if "a \<in> set as" "b \<in> set as" "?f a = ?f b" for a b
      using diagnostic_key_inject [OF that(3) assms(2) [OF that]] .
  qed
  have keys: "map ?f (sort_diagnostics ds) = sorted_list_of_set (?f ` set as)" if "set ds = set as" for ds
  proof -
    have "map ?f (sort_diagnostics ds) = remdups_adj (map ?f (sort_key ?f ds))"
      unfolding sort_diagnostics_def by (rule remdups_adj_map_on [symmetric]) (use inj that in simp)
    also have "map ?f (sort_key ?f ds) = sort (map ?f ds)"
      by (rule properties_for_sort [symmetric]) simp_all
    finally show ?thesis using that by (simp add: remdups_adj_sort)
  qed
  have s: "set (sort_diagnostics ds) = set ds" for ds by (simp add: sort_diagnostics_def)
  have "map ?f (sort_diagnostics as) = map ?f (sort_diagnostics bs)" using keys assms(1) by simp
  then show ?thesis by (rule map_inj_on) (use inj s assms(1) in simp)
qed

end
