(* ===== verification/Lexer.thy ===== *)
theory Lexer
  imports Diagnostics "HOL-Library.Sublist"
begin

text \<open>
  Lexical analysis, \<open>htlk-compiler/src/lexer.rs\<close>. The source is UTF-8; a scanner takes what is
  left of it, so that with \<open>n\<close> the length of the source the position is \<open>n\<close> less the length
  of the rest. String literals are decoded by the JSON parser.
\<close>

section \<open>Tokens\<close>

datatype token = Word bytes | StringToken bytes | TripleString bytes | Number bytes | Regex bytes bytes | Symbol bytes

record 'a located =
  item :: 'a
  item_span :: source_span

record lexer =
  lx_engine :: json_engine
  lx_limits :: limits
  lx_location :: source_location
  lx_length :: nat

definition lex_position :: "lexer \<Rightarrow> bytes \<Rightarrow> nat" where
  "lex_position lx r = lx_length lx - length r"

definition lex_failure :: "lexer \<Rightarrow> bytes \<Rightarrow> bytes \<Rightarrow> bytes \<Rightarrow> compilation_failure" where
  "lex_failure lx m from to = failure_at m (lx_location lx) (lex_position lx from) (lex_position lx to)"

definition lex_fail :: "lexer \<Rightarrow> bytes \<Rightarrow> bytes \<Rightarrow> bytes \<Rightarrow> (compilation_failure, 'a) result" where
  "lex_fail lx m from to = Err (lex_failure lx m from to)"

definition starts_with :: "bytes \<Rightarrow> bytes \<Rightarrow> bool" where
  "starts_with w r \<longleftrightarrow> take (length w) r = w"

text \<open>
  A \<open>str\<close> is sliced at character boundaries only: \<open>source[p..]\<close> and \<open>source[start..p]\<close> panic at
  an offset inside a character, and so does \<open>chars().next().expect(..)\<close> at the end.
  \<open>char_width\<close> is the number of bytes of the character that starts with \<open>c\<close>.
\<close>

definition boundary :: "bytes \<Rightarrow> bool" where
  "boundary r \<longleftrightarrow> (case r of c # _ \<Rightarrow> \<not> continuation c | [] \<Rightarrow> True)"

definition str_from :: "bytes \<Rightarrow> (compilation_failure, bytes) result" where
  "str_from r = (if boundary r then Ok r else Panic)"

definition str_range :: "bytes \<Rightarrow> bytes \<Rightarrow> (compilation_failure, bytes) result" where
  "str_range r q = (if boundary r \<and> boundary q then Ok (take (length r - length q) r) else Panic)"

definition char_width :: "byte \<Rightarrow> nat" where
  "char_width c =
     (let k = (of_char c :: nat) in if k < 0x80 then 1 else if k < 0xE0 then 2 else if k < 0xF0 then 3 else 4)"

definition next_char :: "bytes \<Rightarrow> (compilation_failure, bytes \<times> bytes) result" where
  "next_char r =
     attempt (str_from r) (\<lambda>s.
     case s of [] \<Rightarrow> Panic | c # _ \<Rightarrow> Ok (take (char_width c) r, drop (char_width c) r))"

lemma next_char_rest:
  "next_char r = Ok (ch, q) \<Longrightarrow> boundary r \<and> r \<noteq> [] \<and> ch = take (char_width (hd r)) r \<and> q = drop (char_width (hd r)) r"
  by (cases r) (auto simp: next_char_def str_from_def split: if_splits)

lemma next_char_length: "next_char r = Ok (ch, q) \<Longrightarrow> length q < length r"
  using next_char_rest [of r ch q] by (auto simp: char_width_def Let_def)

definition is_alphabetic :: "byte \<Rightarrow> bool" where
  "is_alphabetic c \<longleftrightarrow> (let k = (of_char c :: nat) in 65 \<le> k \<and> k \<le> 90 \<or> 97 \<le> k \<and> k \<le> 122)"

definition is_word_char :: "byte \<Rightarrow> bool" where
  "is_word_char c \<longleftrightarrow> is_alphabetic c \<or> is_digit c \<or> c = CHR ''_''"

definition is_line_end :: "byte \<Rightarrow> bool" where
  "is_line_end c \<longleftrightarrow> c = CHR 0x0D \<or> c = CHR 0x0A"

section \<open>Trivia\<close>

text \<open>What follows the first \<open>]]\<close>.\<close>

fun after_close :: "bytes \<Rightarrow> bytes option" where
  "after_close [] = None"
| "after_close (c # r) = (if starts_with '']]'' (c # r) then Some (drop 1 r) else after_close r)"

text \<open>White space, block comments and line comments; \<open>None\<close> where a token starts.\<close>

definition skip_trivia :: "lexer \<Rightarrow> bytes \<Rightarrow> (compilation_failure, bytes option) result" where
  "skip_trivia lx r =
     (case r of
        [] \<Rightarrow> Ok None
      | c # q \<Rightarrow>
          if is_space c then Ok (Some q)
          else
            attempt (str_from r) (\<lambda>s.
            if starts_with ''--[['' s then
              attempt (str_from (drop 4 r)) (\<lambda>t.
              case after_close t of
                None \<Rightarrow> lex_fail lx ''unterminated block comment'' r []
              | Some q1 \<Rightarrow> Ok (Some q1))
            else if starts_with ''--'' s then Ok (Some (dropWhile (\<lambda>c. \<not> is_line_end c) r))
            else Ok None))"

section \<open>Strings\<close>

definition quotes :: bytes where
  "quotes = [CHR 0x22, CHR 0x22, CHR 0x22]"

definition escape_triple :: "bool \<Rightarrow> bytes \<Rightarrow> bytes" where
  "escape_triple triple ch =
     (if triple \<and> ch = [CHR 0x0A] then [CHR 0x5C, CHR ''n'']
      else if triple \<and> ch = [CHR 0x0D] then [CHR 0x5C, CHR ''r'']
      else if triple \<and> ch = [CHR 0x22] then [CHR 0x5C, CHR 0x22]
      else ch)"

text \<open>Whether the literal ends here, and after how many bytes.\<close>

definition string_end :: "bool \<Rightarrow> bytes \<Rightarrow> (compilation_failure, nat option) result" where
  "string_end triple r =
     (if \<not> triple \<and> take 1 r = [CHR 0x22] then Ok (Some 1)
      else if triple then attempt (str_from r) (\<lambda>s. Ok (if starts_with quotes s then Some 3 else None))
      else Ok None)"

function string_body :: "lexer \<Rightarrow> bool \<Rightarrow> bytes \<Rightarrow> bytes \<Rightarrow> bytes \<Rightarrow> (compilation_failure, bytes \<times> bytes) result" where
  "string_body lx triple start encoded r =
     (if r = [] then lex_fail lx ''unterminated string'' start []
      else
        attempt (string_end triple r) (\<lambda>closing.
        case closing of
          Some n \<Rightarrow> Ok (encoded, drop n r)
        | None \<Rightarrow>
            attempt (next_char r) (\<lambda>(ch, r1).
            if ch = [CHR 0x5C] then
              (if r1 = [] then lex_fail lx ''unterminated escape'' start []
               else attempt (next_char r1) (\<lambda>(c, r2). string_body lx triple start (encoded @ ch @ c) r2))
            else string_body lx triple start (encoded @ escape_triple triple ch) r1)))"
  by pat_completeness auto
termination
  by (relation "measure (\<lambda>(lx, triple, start, encoded, r). length r)")
    (auto dest!: next_char_length)

declare string_body.simps [simp del]

definition string_token :: "lexer \<Rightarrow> bytes \<Rightarrow> (compilation_failure, token \<times> bytes) result" where
  "string_token lx r =
     attempt (str_from r) (\<lambda>s.
     let triple = starts_with quotes s in
     attempt (string_body lx triple r [CHR 0x22] (drop (if triple then 3 else 1) r)) (\<lambda>(encoded, r1).
     attempt (map_err (\<lambda>e. lex_failure lx (json_error_display e) r r1)
       (json_new (lx_engine lx) (lx_limits lx) (encoded @ [CHR 0x22]))) (\<lambda>doc.
     attempt (expect (case json_data doc of VText s \<Rightarrow> Some s | _ \<Rightarrow> None)) (\<lambda>s.
     Ok (if triple then TripleString s else StringToken s, r1)))))"

section \<open>Regular expressions\<close>

function regex_body :: "lexer \<Rightarrow> bytes \<Rightarrow> bytes \<Rightarrow> bytes \<Rightarrow> (compilation_failure, bytes \<times> bytes) result" where
  "regex_body lx start pattern r =
     (if r = [] then lex_fail lx ''unterminated regex'' start []
      else
        attempt (next_char r) (\<lambda>(ch, r1).
        if ch = ''/'' then Ok (pattern, r1)
        else if ch = [CHR 0x0D] \<or> ch = [CHR 0x0A] then lex_fail lx ''line ending in regex'' start r1
        else if ch = [CHR 0x5C] then
          (if r1 = [] then lex_fail lx ''unterminated regex'' start []
           else
             attempt (next_char r1) (\<lambda>(c, r2).
             if c = [CHR 0x0D] \<or> c = [CHR 0x0A] then lex_fail lx ''line ending in regex'' start r2
             else regex_body lx start (pattern @ (if c \<noteq> ''/'' then [CHR 0x5C] else []) @ c) r2))
        else regex_body lx start (pattern @ ch) r1))"
  by pat_completeness auto
termination
  by (relation "measure (\<lambda>(lx, start, pattern, r). length r)") (auto dest!: next_char_length)

declare regex_body.simps [simp del]

definition regex_token :: "lexer \<Rightarrow> bytes \<Rightarrow> (compilation_failure, token \<times> bytes) result" where
  "regex_token lx r =
     attempt (regex_body lx r [] (drop 1 r)) (\<lambda>(pattern, r1).
     let r2 = dropWhile is_alphabetic r1 in
     attempt (str_range r1 r2) (\<lambda>flags.
     if \<not> set flags \<subseteq> set ''ims'' \<or> \<not> distinct flags then
       map_err (with_code ''C_REGEX'') (lex_fail lx ''invalid or repeated regex flag'' r r2)
     else Ok (Regex pattern flags, r2)))"

section \<open>Numbers and symbols\<close>

definition number_fraction :: "bytes \<Rightarrow> bytes" where
  "number_fraction r =
     (case r of c # d # q \<Rightarrow> if c = CHR ''.'' \<and> is_digit d then dropWhile is_digit (d # q) else r | _ \<Rightarrow> r)"

definition number_exponent :: "lexer \<Rightarrow> bytes \<Rightarrow> bytes \<Rightarrow> (compilation_failure, bytes) result" where
  "number_exponent lx start r =
     (case r of
        c # q \<Rightarrow>
          if c = CHR ''e'' \<or> c = CHR ''E'' then
            (let digits = (case q of s # q1 \<Rightarrow> if s = CHR ''+'' \<or> s = CHR ''-'' then q1 else q | [] \<Rightarrow> []);
                 r1 = dropWhile is_digit digits in
             if r1 = digits then lex_fail lx ''missing exponent'' start r1 else Ok r1)
          else Ok r
      | [] \<Rightarrow> Ok r)"

definition byte_at :: "bytes \<Rightarrow> (compilation_failure, byte) result" where
  "byte_at r = (case r of [] \<Rightarrow> Panic | c # _ \<Rightarrow> Ok c)"

definition number_token :: "lexer \<Rightarrow> bytes \<Rightarrow> (compilation_failure, token \<times> bytes) result" where
  "number_token lx r =
     attempt (byte_at r) (\<lambda>c.
     let r1 = (if c = CHR ''-'' then drop 1 r else r) in
     attempt (byte_at r1) (\<lambda>d.
     let r2 = (if d = CHR ''0'' then drop 1 r1 else dropWhile is_digit r1) in
     attempt (number_exponent lx r (number_fraction r2)) (\<lambda>r3.
     if r3 \<noteq> [] \<and> is_word_char (hd r3) then lex_fail lx ''invalid numeric token'' r r3
     else attempt (str_range r r3) (\<lambda>w. Ok (Number w, r3)))))"

definition symbol_token :: "lexer \<Rightarrow> bytes \<Rightarrow> (compilation_failure, token \<times> bytes) result" where
  "symbol_token lx r =
     (if take 2 r \<in> {''=='', ''!='', ''<='', ''>=''} then Ok (Symbol (take 2 r), drop 2 r)
      else if set (take 1 r) \<subseteq> set ''{}()[]=,.&@<>'' then
        attempt (str_range r (drop 1 r)) (\<lambda>w. Ok (Symbol w, drop 1 r))
      else attempt (next_char r) (\<lambda>(ch, r1). lex_fail lx ''invalid source character'' r r1))"

definition word_token :: "bytes \<Rightarrow> (compilation_failure, token \<times> bytes) result" where
  "word_token r =
     (let q = dropWhile is_word_char r in attempt (str_range r q) (\<lambda>w. Ok (Word w, q)))"

definition number_start :: "bytes \<Rightarrow> bool" where
  "number_start r \<longleftrightarrow>
     (case r of c # q \<Rightarrow> is_digit c \<or> (c = CHR ''-'' \<and> (case q of d # _ \<Rightarrow> is_digit d | [] \<Rightarrow> False)) | [] \<Rightarrow> False)"

text \<open>One token at the start of a rest that is neither empty nor trivia.\<close>

definition lex_token :: "lexer \<Rightarrow> bytes \<Rightarrow> (compilation_failure, token \<times> bytes) result" where
  "lex_token lx r =
     (if take 1 r = [CHR 0x22] then string_token lx r
      else if take 1 r = ''/'' then regex_token lx r
      else if is_alphabetic (hd r) then word_token r
      else if number_start r then number_token lx r
      else symbol_token lx r)"

section \<open>What a scanner leaves\<close>

lemma suffix_of_drop: "suffix q (drop n r) \<Longrightarrow> suffix q r"
  by (meson suffix_drop suffix_order.trans)

lemma strict_suffix_drop: "r \<noteq> [] \<Longrightarrow> 0 < n \<Longrightarrow> strict_suffix (drop n r) r"
proof -
  assume "r \<noteq> []" "0 < n"
  then have "length (drop n r) < length r" by simp
  then have "drop n r \<noteq> r" by fastforce
  then show ?thesis by (simp add: strict_suffix_def suffix_drop)
qed

lemma next_char_suffix: "next_char r = Ok (ch, q) \<Longrightarrow> suffix q r"
  using next_char_rest suffix_drop by metis

lemma string_end_Some: "string_end triple r = Ok (Some n) \<Longrightarrow> n = (if triple then 3 else 1)"
  by (auto simp: string_end_def split: if_splits)

lemma string_body_suffix: "string_body lx triple start encoded r = Ok (e, q) \<Longrightarrow> suffix q r"
proof (induction lx triple start encoded r rule: string_body.induct)
  case (1 lx triple start encoded r)
  obtain closing where c: "string_end triple r = Ok closing" and r: "r \<noteq> []"
    using "1.prems" by (subst (asm) string_body.simps) (auto simp: lex_fail_def split: if_splits)
  show ?case
  proof (cases closing)
    case (Some n)
    then have "q = drop n r" using "1.prems" c r by (subst (asm) string_body.simps) simp
    then show ?thesis by (simp add: suffix_drop)
  next
    case None
    obtain ch r1 where n: "next_char r = Ok (ch, r1)" using "1.prems" c r None by (subst (asm) string_body.simps) auto
    show ?thesis
    proof (cases "ch = [CHR 0x5C]")
      case True
      have ne: "r1 \<noteq> []" using "1.prems" c r None n True by (subst (asm) string_body.simps) (auto simp: lex_fail_def)
      obtain d r2 where n2: "next_char r1 = Ok (d, r2)" using "1.prems" c r None n True ne by (subst (asm) string_body.simps) auto
      have "string_body lx triple start (encoded @ ch @ d) r2 = Ok (e, q)"
        using "1.prems" c r None n True ne n2 by (subst (asm) string_body.simps) simp
      then have "suffix q r2" by (rule "1.IH"(1) [OF r c None n refl True ne n2 refl])
      then show ?thesis using next_char_suffix [OF n] next_char_suffix [OF n2] by (meson suffix_order.trans)
    next
      case False
      have "string_body lx triple start (encoded @ escape_triple triple ch) r1 = Ok (e, q)"
        using "1.prems" c r None n False by (subst (asm) string_body.simps) simp
      then have "suffix q r1" by (rule "1.IH"(2) [OF r c None n refl False])
      then show ?thesis using next_char_suffix [OF n] by (meson suffix_order.trans)
    qed
  qed
qed

lemma regex_body_suffix: "regex_body lx start pattern r = Ok (e, q) \<Longrightarrow> suffix q r"
proof (induction lx start pattern r rule: regex_body.induct)
  case (1 lx start pattern r)
  have r: "r \<noteq> []" using "1.prems" by (subst (asm) regex_body.simps) (auto simp: lex_fail_def split: if_splits)
  obtain ch r1 where n: "next_char r = Ok (ch, r1)" using "1.prems" r by (subst (asm) regex_body.simps) auto
  have s: "suffix r1 r" by (rule next_char_suffix [OF n])
  consider (close) "ch = ''/''" | (line) "ch \<noteq> ''/''" "ch = [CHR 0x0D] \<or> ch = [CHR 0x0A]"
    | (escape) "ch \<noteq> ''/''" "\<not> (ch = [CHR 0x0D] \<or> ch = [CHR 0x0A])" "ch = [CHR 0x5C]"
    | (plain) "ch \<noteq> ''/''" "\<not> (ch = [CHR 0x0D] \<or> ch = [CHR 0x0A])" "ch \<noteq> [CHR 0x5C]"
    by blast
  then show ?case
  proof cases
    case close
    then show ?thesis using "1.prems" r n s by (subst (asm) regex_body.simps) simp
  next
    case line
    then show ?thesis using "1.prems" r n by (subst (asm) regex_body.simps) (auto simp: lex_fail_def)
  next
    case escape
    have ne: "r1 \<noteq> []" using "1.prems" r n escape by (subst (asm) regex_body.simps) (auto simp: lex_fail_def)
    obtain d r2 where n2: "next_char r1 = Ok (d, r2)" using "1.prems" r n escape ne by (subst (asm) regex_body.simps) auto
    have l: "\<not> (d = [CHR 0x0D] \<or> d = [CHR 0x0A])"
      using "1.prems" r n escape ne n2 by (subst (asm) regex_body.simps) (auto simp: lex_fail_def)
    have "regex_body lx start (pattern @ (if d \<noteq> ''/'' then [CHR 0x5C] else []) @ d) r2 = Ok (e, q)"
      using "1.prems" r n escape ne n2 l by (subst (asm) regex_body.simps) simp
    then have "suffix q r2" by (rule "1.IH"(1) [OF r n refl escape ne n2 refl l])
    then show ?thesis using s next_char_suffix [OF n2] by (meson suffix_order.trans)
  next
    case plain
    have "regex_body lx start (pattern @ ch) r1 = Ok (e, q)"
      using "1.prems" r n plain by (subst (asm) regex_body.simps) simp
    then have "suffix q r1" by (rule "1.IH"(2) [OF r n refl plain])
    then show ?thesis using s by (meson suffix_order.trans)
  qed
qed

lemma str_range_Ok: "str_range r q = Ok w \<longleftrightarrow> boundary r \<and> boundary q \<and> w = take (length r - length q) r"
  by (auto simp: str_range_def)

lemma string_token_parts:
  assumes "string_token lx r = Ok (t, q)"
  obtains triple e doc s where "triple = starts_with quotes r" "boundary r"
    "string_body lx triple r [CHR 0x22] (drop (if triple then 3 else 1) r) = Ok (e, q)"
    "json_new (lx_engine lx) (lx_limits lx) (e @ [CHR 0x22]) = Ok doc" "json_data doc = VText s"
    "t = (if triple then TripleString s else StringToken s)"
proof -
  have is_text: "(case v of VText s \<Rightarrow> Some s | _ \<Rightarrow> None) = Some s \<longleftrightarrow> v = VText s" for v s by (cases v) auto
  show thesis using assms that unfolding string_token_def str_from_def Let_def attempt_eq_Ok map_err_eq_Ok
    by (auto simp: is_text split: if_splits)
qed

lemma regex_token_parts:
  assumes "regex_token lx r = Ok (t, q)"
  obtains pattern r1 where "regex_body lx r [] (drop 1 r) = Ok (pattern, r1)" "q = dropWhile is_alphabetic r1"
    "t = Regex pattern (takeWhile is_alphabetic r1)" "set (takeWhile is_alphabetic r1) \<subseteq> set ''ims''" "distinct (takeWhile is_alphabetic r1)"
proof -
  have tk: "take (length r1 - length (dropWhile P r1)) r1 = takeWhile P r1" for P and r1 :: bytes
    by (metis append_eq_conv_conj diff_add_inverse2 length_append takeWhile_dropWhile_id)
  obtain pattern r1 where b: "regex_body lx r [] (drop 1 r) = Ok (pattern, r1)"
    and rest: "(let r2 = dropWhile is_alphabetic r1 in
     attempt (str_range r1 r2) (\<lambda>flags.
     if \<not> set flags \<subseteq> set ''ims'' \<or> \<not> distinct flags then
       map_err (with_code ''C_REGEX'') (lex_fail lx ''invalid or repeated regex flag'' r r2)
     else Ok (Regex pattern flags, r2))) = Ok (t, q)"
    using assms unfolding regex_token_def by auto
  have "set (takeWhile is_alphabetic r1) \<subseteq> set ''ims'' \<and> distinct (takeWhile is_alphabetic r1) \<and>
      t = Regex pattern (takeWhile is_alphabetic r1) \<and> q = dropWhile is_alphabetic r1"
    using rest unfolding Let_def attempt_eq_Ok str_range_Ok tk by (auto simp: lex_fail_def simp del: set_takeWhileD split: if_splits)
  then show thesis using b that by blast
qed

lemma number_fraction_suffix: "suffix (number_fraction r) r"
  by (auto simp: number_fraction_def split: list.splits intro!: suffix_ConsI suffix_dropWhile)

lemma number_exponent_suffix: "number_exponent lx start r = Ok q \<Longrightarrow> suffix q r"
proof (cases r)
  case (Cons c s)
  assume e: "number_exponent lx start r = Ok q"
  define ds where "ds = (case s of x # q1 \<Rightarrow> if x = CHR ''+'' \<or> x = CHR ''-'' then q1 else s | [] \<Rightarrow> [])"
  have "suffix ds s" by (auto simp: ds_def suffix_ConsI split: list.splits)
  then have "suffix (dropWhile is_digit ds) r" by (simp add: Cons suffix_ConsI) (meson suffix_ConsI suffix_dropWhile suffix_order.trans)
  moreover have "q = r \<or> q = dropWhile is_digit ds"
    using e by (auto simp: number_exponent_def Cons Let_def lex_fail_def ds_def split: if_splits)
  ultimately show ?thesis by auto
qed (simp add: number_exponent_def)

text \<open>A number after its sign and its integral part.\<close>

definition after_sign :: "bytes \<Rightarrow> bytes" where
  "after_sign r = (if starts_with ''-'' r then drop 1 r else r)"

definition after_whole :: "bytes \<Rightarrow> bytes" where
  "after_whole r = (if starts_with ''0'' r then drop 1 r else dropWhile is_digit r)"

lemma starts_with_byte: "r \<noteq> [] \<Longrightarrow> starts_with [c] r \<longleftrightarrow> hd r = c"
  by (cases r) (auto simp: starts_with_def)

lemma number_token_alt:
  "number_token lx r =
     (if r = [] \<or> after_sign r = [] then Panic
      else attempt (number_exponent lx r (number_fraction (after_whole (after_sign r)))) (\<lambda>r3.
        if r3 \<noteq> [] \<and> is_word_char (hd r3) then lex_fail lx ''invalid numeric token'' r r3
        else attempt (str_range r r3) (\<lambda>w. Ok (Number w, r3))))"
proof (cases r)
  case (Cons c q)
  have sign: "(if c = CHR ''-'' then drop 1 r else r) = after_sign r" by (simp add: after_sign_def starts_with_byte Cons)
  have whole: "(if d = CHR ''0'' then drop 1 (d # s) else dropWhile is_digit (d # s)) = after_whole (d # s)" for d s
    by (simp only: after_whole_def starts_with_byte [OF list.distinct(2)] list.sel(1))
  have "number_token lx r = attempt (byte_at (after_sign r)) (\<lambda>d.
     attempt (number_exponent lx r (number_fraction
       (if d = CHR ''0'' then drop 1 (after_sign r) else dropWhile is_digit (after_sign r)))) (\<lambda>r3.
     if r3 \<noteq> [] \<and> is_word_char (hd r3) then lex_fail lx ''invalid numeric token'' r r3
     else attempt (str_range r r3) (\<lambda>w. Ok (Number w, r3))))"
    using sign by (simp only: number_token_def Let_def byte_at_def Cons list.case attempt_simps)
  then show ?thesis using Cons by (cases "after_sign r") (simp_all only: byte_at_def list.case attempt_simps whole simp_thms if_True if_False list.distinct)
qed (simp add: number_token_def byte_at_def)

lemma number_token_parts:
  assumes "number_token lx r = Ok (t, q)"
  shows "number_exponent lx r (number_fraction (after_whole (after_sign r))) = Ok q" "q = [] \<or> \<not> is_word_char (hd q)"
    "t = Number (take (length r - length q) r)" "boundary r" "boundary q"
  using assms by (auto simp: number_token_alt lex_fail_def str_range_def split: if_splits)

lemma number_token_rest:
  assumes "number_token lx r = Ok (t, q)" "number_start r"
  shows "strict_suffix q r"
proof -
  obtain c0 q0 where r: "r = c0 # q0" using assms(2) by (cases r) (auto simp: number_start_def)
  have "\<not> is_digit CHR ''-''" by (simp add: is_digit_def)
  then have "(c0 = CHR ''-'' \<and> (\<exists>d q. q0 = d # q \<and> is_digit d)) \<or> (c0 \<noteq> CHR ''-'' \<and> is_digit c0)"
    using assms(2) by (cases q0) (auto simp: number_start_def r)
  then obtain c s where c: "after_sign r = c # s" "is_digit c" "suffix (after_sign r) r"
    by (auto simp: after_sign_def starts_with_def r suffix_ConsI)
  have "suffix (after_whole (after_sign r)) s"
    using c by (auto simp: after_whole_def suffix_dropWhile)
  then have "suffix q s"
    using number_exponent_suffix [OF number_token_parts(1) [OF assms(1)]] number_fraction_suffix by (meson suffix_order.trans)
  moreover have "strict_suffix s (after_sign r)" unfolding c(1) using strict_suffix_drop [of "c # s" 1] by simp
  ultimately have "strict_suffix q (after_sign r)" by (rule suffix_order.le_less_trans)
  then show ?thesis using c(3) by (rule suffix_order.less_le_trans)
qed

lemma lex_token_rest:
  assumes "lex_token lx r = Ok (t, q)" "r \<noteq> []"
  shows "strict_suffix q r"
proof -
  obtain c s where r: "r = c # s" using assms(2) by (cases r) auto
  consider (string) "string_token lx r = Ok (t, q)" | (regex) "regex_token lx r = Ok (t, q)"
    | (word) "is_alphabetic c" "q = dropWhile is_word_char r"
    | (number) "number_token lx r = Ok (t, q)" "number_start r" | (symbol) "symbol_token lx r = Ok (t, q)"
    using assms by (auto simp: lex_token_def word_token_def Let_def r split: if_splits)
  then show ?thesis
  proof cases
    case string
    then obtain n e where "string_body lx (starts_with quotes r) r [CHR 0x22] (drop n r) = Ok (e, q)" "0 < n"
      by (auto elim!: string_token_parts split: if_splits)
    then show ?thesis using string_body_suffix strict_suffix_drop [OF assms(2)] by (meson suffix_order.le_less_trans)
  next
    case regex
    then obtain e r1 where "regex_body lx r [] (drop 1 r) = Ok (e, r1)" "q = dropWhile is_alphabetic r1"
      by (auto elim!: regex_token_parts)
    then show ?thesis
      using regex_body_suffix strict_suffix_drop [OF assms(2)] suffix_dropWhile [of is_alphabetic r1]
      by (meson suffix_order.le_less_trans suffix_order.trans zero_less_one)
  next
    case word
    then have "suffix q s" by (simp add: r is_word_char_def suffix_dropWhile)
    then show ?thesis using strict_suffix_drop [OF assms(2), of 1] by (simp add: r)
  next
    case number
    then show ?thesis by (rule number_token_rest)
  next
    case symbol
    then show ?thesis using strict_suffix_drop [OF assms(2)] by (auto simp: symbol_token_def str_range_def lex_fail_def split: if_splits)
  qed
qed

lemma after_close_split:
  "after_close r = Some q \<Longrightarrow> \<exists>body. r = body @ '']]'' @ q \<and> after_close (body @ '']]'') = Some []"
proof (induction r rule: after_close.induct)
  case (2 c r)
  show ?case
  proof (cases "starts_with '']]'' (c # r)")
    case True
    then obtain s where "c # r = '']]'' @ s" by (metis append_take_drop_id starts_with_def)
    then show ?thesis using "2.prems" True by (intro exI [of _ "[]"]) (auto simp: starts_with_def)
  next
    case False
    then obtain body where b: "r = body @ '']]'' @ q" "after_close (body @ '']]'') = Some []" using 2 by auto
    have "\<not> starts_with '']]'' (c # body @ '']]'')"
      using False b(1) by (cases body) (auto simp: starts_with_def)
    then show ?thesis using b by (intro exI [of _ "c # body"]) simp
  qed
qed simp

lemma skip_trivia_rest:
  assumes "skip_trivia lx r = Ok (Some q)"
  shows "strict_suffix q r"
proof -
  obtain c s where r: "r = c # s" using assms by (cases r) (auto simp: skip_trivia_def)
  consider "q = s" | "after_close (drop 4 r) = Some q" | "starts_with ''--'' r" "q = dropWhile (\<lambda>c. \<not> is_line_end c) r"
    using assms by (auto simp: skip_trivia_def r lex_fail_def str_from_def split: if_splits option.splits)
  then have "suffix q s"
  proof cases
    case 2
    then obtain body where "drop 4 r = body @ '']]'' @ q" using after_close_split by blast
    then have "suffix q (drop 4 r)" by (auto simp: suffix_def)
    then show ?thesis by (simp add: r) (rule suffix_of_drop)
  next
    case 3
    then have "\<not> is_line_end c" by (auto simp: r starts_with_def is_line_end_def)
    then show ?thesis using 3 by (simp add: r suffix_dropWhile)
  qed simp
  then show ?thesis using strict_suffix_drop [of r 1] by (simp add: r)
qed

section \<open>The loop\<close>

text \<open>\<open>lex_inner\<close> from a rest with the tokens so far.\<close>

function lex_loop :: "lexer \<Rightarrow> nat \<Rightarrow> bool \<Rightarrow> token located list \<Rightarrow> bytes \<Rightarrow>
    (compilation_failure, token located list) result" where
  "lex_loop lx max_tokens header found r =
     attempt (skip_trivia lx r) (\<lambda>trivia.
     case trivia of
       Some q \<Rightarrow> lex_loop lx max_tokens header found q
     | None \<Rightarrow>
         if r = [] then Ok found
         else
           attempt (lex_token lx r) (\<lambda>(t, q).
           if length found = max_tokens then
             map_err (with_code ''C_SOURCE_LIMIT'') (lex_fail lx ''token limit exceeded'' r q)
           else
             let found1 = found @ [\<lparr>item = t, item_span =
               \<lparr>span_source = lx_location lx, start_byte = lex_position lx r, end_byte = lex_position lx q\<rparr>\<rparr>] in
             if header \<and> length found1 = 3 then Ok found1 else lex_loop lx max_tokens header found1 q))"
  by pat_completeness auto
termination
  by (relation "measure (\<lambda>(lx, max_tokens, header, tokens, r). length r)") (auto dest!: skip_trivia_rest lex_token_rest intro: suffix_length_less)

declare lex_loop.simps [simp del]

definition lexer_of :: "json_engine \<Rightarrow> limits \<Rightarrow> source_location \<Rightarrow> bytes \<Rightarrow> lexer" where
  "lexer_of eng lim location source =
     \<lparr>lx_engine = eng, lx_limits = lim, lx_location = location, lx_length = length source\<rparr>"

definition lex_inner :: "json_engine \<Rightarrow> limits \<Rightarrow> source_location \<Rightarrow> nat \<Rightarrow> bool \<Rightarrow> bytes \<Rightarrow>
    (compilation_failure, token located list) result" where
  "lex_inner eng lim location max_tokens header source = lex_loop (lexer_of eng lim location source) max_tokens header [] source"

definition lex :: "json_engine \<Rightarrow> limits \<Rightarrow> source_location \<Rightarrow> nat \<Rightarrow> bytes \<Rightarrow> (compilation_failure, token located list) result" where
  "lex eng lim location max_tokens source = lex_inner eng lim location max_tokens False source"

definition check_header :: "json_engine \<Rightarrow> limits \<Rightarrow> source_location \<Rightarrow> bytes \<Rightarrow> (compilation_failure, unit) result" where
  "check_header eng lim location source =
     attempt (lex_inner eng lim location 3 True source) (\<lambda>found.
     if map item found = [Word ''ir_version'', Symbol ''='', StringToken ''0.1''] then Ok ()
     else Err (with_code ''C_VERSION'' (failure_at (''source requires ir_version = '' @ [CHR 0x22] @ ''0.1'' @ [CHR 0x22]) location 0 0)))"

end
