(* ===== verification/Json_Tokens.thy ===== *)
theory Json_Tokens
  imports Json
begin

text \<open>
  The formats of written JSON strings and numbers as their documented grammars, and that the
  parser reads such tokens back: string literals unit by unit, integers within the safe range,
  and the shortest decimals of floats.
\<close>

section \<open>The formats of the libraries\<close>

text \<open>A unit of a written string literal stands for one byte: the byte itself, a short escape,
  or the escape of a control character.\<close>

inductive literal_unit :: "bytes \<Rightarrow> bool" where
  raw: "31 < (of_char c :: nat) \<Longrightarrow> c \<noteq> CHR 0x22 \<Longrightarrow> c \<noteq> CHR 0x5C \<Longrightarrow> literal_unit [c]"
| short: "d \<in> set [CHR 0x22, CHR 0x5C, CHR ''/'', CHR ''b'', CHR ''f'', CHR ''n'', CHR ''r'', CHR ''t''] \<Longrightarrow>
    literal_unit [CHR 0x5C, d]"
| control: "h = CHR ''0'' \<or> h = CHR ''1'' \<Longrightarrow> hex_digit d \<noteq> None \<Longrightarrow>
    literal_unit [CHR 0x5C, CHR ''u'', CHR ''0'', CHR ''0'', h, d]"

definition string_literal :: "bytes \<Rightarrow> bytes \<Rightarrow> bool" where
  "string_literal s t \<longleftrightarrow>
     (\<exists>us. t = CHR 0x22 # concat us @ [CHR 0x22] \<and> length us = length s \<and> (\<forall>u \<in> set us. literal_unit u))"

text \<open>\<open>Number::toString\<close> of ECMAScript on a number that is not an integer.\<close>

definition decimal_token :: "bytes \<Rightarrow> bool" where
  "decimal_token t \<longleftrightarrow>
     (\<exists>negative whole part ex.
        t = (if negative then ''-'' else []) @ whole @ (if part = [] then [] else CHR ''.'' # part) @
          (if ex = 0 then [] else CHR ''e'' # CHR ''-'' # dec_digits ex) \<and>
        canonical_decimal whole \<and> list_all is_digit part \<and> (part \<noteq> [] \<or> 0 < ex) \<and> ex < 2 ^ 62 \<and>
        length part < 2 ^ 62 \<and> last (whole @ part) \<noteq> CHR ''0'')"

definition string_law :: "json_engine \<Rightarrow> bool" where
  "string_law eng \<longleftrightarrow>
     (\<forall>s. utf8_valid s \<longrightarrow> string_literal s (quote eng s) \<and> utf8_valid (quote eng s) \<and> unquote eng (quote eng s) = Some s) \<and>
     (\<forall>t s. unquote eng t = Some s \<longrightarrow> utf8_valid s)"

definition integer_law :: "json_engine \<Rightarrow> bool" where
  "integer_law eng \<longleftrightarrow> (\<forall>i. nat \<bar>i\<bar> \<le> safe \<longrightarrow> shortest eng (f64_of_int i) = int_to_string i)"

definition float_law :: "json_engine \<Rightarrow> f64 \<Rightarrow> bool" where
  "float_law eng x \<longleftrightarrow> decimal_token (shortest eng x) \<and> f64_parse (shortest eng x) = Some x"

fun floats_of :: "value \<Rightarrow> f64 set" where
  "floats_of (VFloat f) = {float_get f}"
| "floats_of (VArray vs) = (\<Union>v \<in> set vs. floats_of v)"
| "floats_of (VMap m) = (\<Union>p \<in> set m. floats_of (snd p))"
| "floats_of _ = {}"

definition engine_laws :: "json_engine \<Rightarrow> value \<Rightarrow> bool" where
  "engine_laws eng v \<longleftrightarrow> string_law eng \<and> integer_law eng \<and> (\<forall>x \<in> floats_of v. float_law eng x)"

text \<open>The values that parsing produces.\<close>

fun json_normal :: "value \<Rightarrow> bool" where
  "json_normal (VFloat f) = (wf_float f \<and> \<not> f64_is_integral (float_get f))"
| "json_normal (VInteger i) = (nat \<bar>sint i\<bar> \<le> safe)"
| "json_normal (VText s) = utf8_valid s"
| "json_normal (VBytes b) = False"
| "json_normal (VArray vs) = (\<forall>v \<in> set vs. json_normal v)"
| "json_normal (VMap m) = (map_canonical m \<and> (\<forall>p \<in> set m. utf8_valid (fst p) \<and> json_normal (snd p)))"
| "json_normal _ = True"

section \<open>UTF-8\<close>

lemma utf8_valid_append: "utf8_valid a \<Longrightarrow> utf8_valid (a @ b) \<longleftrightarrow> utf8_valid b"
proof (induction a rule: utf8_error_at.induct)
  case (2 a r)
  show ?case
    using 2 by (auto simp: utf8_error_at.simps(2) [of a] Let_def split: if_splits list.splits)
qed simp

section \<open>Reading strings\<close>

lemma json_add_Ok [simp]: "json_add a b m k = Ok t \<longleftrightarrow> t = a + b \<and> a + b \<le> m \<and> a + b < usize_bound"
  by (auto simp: json_add_def json_check_def)

lemma json_append_Ok [simp]:
  "json_append lim b out = Ok out1 \<longleftrightarrow> out1 = out @ b \<and> length out + length b \<le> max_document_bytes lim \<and>
    length out + length b < usize_bound"
  by (auto simp: json_append_def)

lemma hex_digit_bound: "hex_digit c = Some d \<Longrightarrow> d < 16"
  by (auto simp: hex_digit_def Let_def split: if_splits)

lemma hex_digit_01: "hex_digit CHR ''0'' = Some 0" "hex_digit CHR ''1'' = Some 1"
  by code_simp+

lemma hex4_control:
  "hex_digit h = Some i \<Longrightarrow> hex_digit d = Some k \<Longrightarrow> hex4 n (CHR ''0'' # CHR ''0'' # h # d # r) = Ok (16 * i + k, r)"
  by (simp add: hex4_def eval_nat_numeral hex_digit_01)

lemma unicode_control:
  "hex_digit h = Some i \<Longrightarrow> i < 2 \<Longrightarrow> hex_digit d = Some k \<Longrightarrow>
    unicode_escape n (CHR ''0'' # CHR ''0'' # h # d # r) = Ok (1, r)"
  using hex_digit_bound [of d k] by (simp add: unicode_escape_def hex4_control len_utf8_def)

lemma string_unit_short:
  "d \<in> set [CHR 0x22, CHR 0x5C, CHR ''/'', CHR ''b'', CHR ''f'', CHR ''n'', CHR ''r'', CHR ''t''] \<Longrightarrow>
    string_unit n (CHR 0x5C) (d # r) = Ok (1, r)"
  unfolding string_unit_def by (simp only: list.case if_True) simp

lemma string_unit_unicode: "string_unit n (CHR 0x5C) (CHR ''u'' # r) = unicode_escape n r"
  by (simp add: string_unit_def)

lemma string_unit_literal:
  assumes "literal_unit u"
  obtains c r where "u = c # r" "c \<noteq> CHR 0x22" "\<And>r'. string_unit n c (r @ r') = Ok (1, r')"
  using assms
proof cases
  case (raw c)
  then show thesis by (intro that [of c "[]"]) (auto simp: string_unit_def)
next
  case (short d)
  then show thesis using string_unit_short [of d n] by (intro that [of "CHR 0x5C" "[d]"]) auto
next
  case (control h d)
  then obtain k i where k: "hex_digit d = Some k" "hex_digit h = Some i" "i < 2" using hex_digit_01 by fastforce
  then show thesis
    using control by (intro that [of "CHR 0x5C" "[CHR ''u'', CHR ''0'', CHR ''0'', h, d]"]) (auto simp: string_unit_unicode unicode_control)
qed

lemma units_length: "\<forall>u \<in> set us. literal_unit u \<Longrightarrow> length us \<le> length (concat us)"
proof (induction us)
  case (Cons u us)
  have "u \<noteq> []" using Cons.prems by (auto elim: literal_unit.cases)
  then have "1 \<le> length u" by (cases u) auto
  then show ?case using Cons by simp
qed simp

lemma scan_units:
  assumes "\<forall>u \<in> set us. literal_unit u" "decoded + length us \<le> max_document_bytes lim"
    "max_document_bytes lim < usize_bound"
  shows "scan_string lim n decoded (concat us @ CHR 0x22 # r) = Ok r"
  using assms(1,2)
proof (induction us arbitrary: decoded)
  case (Cons u us)
  obtain c q where u: "u = c # q" "c \<noteq> CHR 0x22" "\<And>r'. string_unit n c (q @ r') = Ok (1, r')"
    using string_unit_literal [of u n] Cons.prems(1) by (metis list.set_intros(1))
  have "json_add decoded 1 (max_document_bytes lim) DocumentBytes = Ok (decoded + 1)"
    using Cons.prems(2) assms(3) by simp
  then show ?case using Cons u by simp
qed simp

lemma space_id [simp]: "\<not> is_space c \<Longrightarrow> space (c # r) = c # r" "space [] = []"
  by (simp_all add: space_def)

lemma is_space_simps [simp]:
  "\<not> is_space CHR 0x22" "\<not> is_space CHR ''[''" "\<not> is_space CHR '']''" "\<not> is_space CHR ''{''" "\<not> is_space CHR ''}''"
  "\<not> is_space CHR '',''" "\<not> is_space CHR '':''" "\<not> is_space CHR ''t''" "\<not> is_space CHR ''f''" "\<not> is_space CHR ''n''"
  "\<not> is_space CHR ''-''"
  by (simp_all add: is_space_def)

lemma eat_hit [simp]: "\<not> is_space b \<Longrightarrow> eat n b (b # r) = Ok r"
  by (simp add: eat_def)

lemma json_string_reads:
  assumes laws: "string_law eng" and s: "utf8_valid s"
    and "length (quote eng s) \<le> max_document_bytes lim" "max_document_bytes lim < usize_bound"
  shows "json_string eng lim n (quote eng s @ r) = Ok (s, r)"
proof -
  obtain us where q: "quote eng s = CHR 0x22 # concat us @ [CHR 0x22]" and us: "length us = length s" "\<forall>u \<in> set us. literal_unit u"
    using laws s unfolding string_law_def string_literal_def by blast
  have "length us \<le> length (concat us)"
    using us(2) by (rule units_length)
  then have scan: "scan_string lim n 0 (concat us @ CHR 0x22 # r) = Ok r"
    using scan_units [of us 0 lim n r] us(2) assms(3,4) by (simp add: q)
  have "quote eng s @ r = CHR 0x22 # concat us @ CHR 0x22 # r" by (simp add: q)
  moreover have "take (length (quote eng s @ r) - length r) (quote eng s @ r) = quote eng s" by simp
  moreover have "unquote eng (quote eng s) = Some s" using laws s by (simp add: string_law_def)
  ultimately show ?thesis by (simp add: json_string_def scan Let_def del: take_append)
qed

section \<open>Reading numbers\<close>

definition number_ends :: "bytes \<Rightarrow> bool" where
  "number_ends r \<longleftrightarrow> (case r of [] \<Rightarrow> True | c # _ \<Rightarrow> c = CHR '','' \<or> c = CHR '']'' \<or> c = CHR ''}'')"

definition no_digit_next :: "bytes \<Rightarrow> bool" where
  "no_digit_next r \<longleftrightarrow> (case r of [] \<Rightarrow> True | c # _ \<Rightarrow> \<not> is_digit c \<and> c \<noteq> CHR ''.'')"

abbreviation sign_text :: "bool \<Rightarrow> bytes" where
  "sign_text negative \<equiv> (if negative then ''-'' else [])"

abbreviation part_text :: "bytes \<Rightarrow> bytes" where
  "part_text part \<equiv> (if part = [] then [] else CHR ''.'' # part)"

abbreviation exponent_text :: "nat \<Rightarrow> bytes" where
  "exponent_text ex \<equiv> (if ex = 0 then [] else CHR ''e'' # CHR ''-'' # dec_digits ex)"

lemma is_digit_simps [simp]:
  "\<not> is_digit CHR ''-''" "\<not> is_digit CHR ''.''" "\<not> is_digit CHR ''e''" "\<not> is_digit CHR ''+''"
  "\<not> is_digit CHR '',''" "\<not> is_digit CHR '']''" "\<not> is_digit CHR ''}''" "is_digit CHR ''0''"
  by (simp_all add: is_digit_def)

lemma number_ends_stop: "number_ends r \<Longrightarrow> no_digit_next r"
  by (auto simp: number_ends_def no_digit_next_def split: list.splits)

lemma no_digit_next_exponent: "number_ends r \<Longrightarrow> no_digit_next (exponent_text ex @ r)"
  by (auto simp: number_ends_stop) (simp add: no_digit_next_def)

lemma digits_stop:
  assumes "list_all is_digit ds" "no_digit_next r \<or> (\<exists>q. r = CHR ''.'' # q)"
  shows "takeWhile is_digit (ds @ r) = ds" "dropWhile is_digit (ds @ r) = r"
proof -
  have t: "takeWhile is_digit r = []" using assms(2) by (cases r) (auto simp: no_digit_next_def)
  then have "dropWhile is_digit r = r" by (metis append_Nil takeWhile_dropWhile_id)
  then show "takeWhile is_digit (ds @ r) = ds" "dropWhile is_digit (ds @ r) = r"
    using assms(1) t by (auto simp: list_all_iff takeWhile_append dropWhile_append)
qed

lemma canonical_first:
  assumes "canonical_decimal w"
  obtains c q where "w = c # q" "is_digit c" "list_all is_digit q" "c = CHR ''0'' \<Longrightarrow> q = []"
  using assms by (cases w) (auto simp: canonical_decimal_def list_all_iff)

lemma digit_not_sign: "is_digit c \<Longrightarrow> c \<noteq> CHR ''-''" "is_digit c \<Longrightarrow> c \<noteq> CHR ''+''"
  by auto

lemma mantissa_reads:
  assumes w: "canonical_decimal whole" and p: "list_all is_digit part" and r: "no_digit_next r"
  shows "json_mantissa n (sign_text negative @ whole @ part_text part @ r) = Ok r"
proof -
  obtain c q where c: "whole = c # q" "is_digit c" "list_all is_digit q" "c = CHR ''0'' \<Longrightarrow> q = []"
    using canonical_first [OF w] by blast
  define tail where "tail = part_text part @ r"
  have stop: "no_digit_next tail \<or> (\<exists>q. tail = CHR ''.'' # q)" using r by (auto simp: tail_def)
  have first: "(if c = CHR ''0'' then Ok (q @ tail)
      else if is_digit c then Ok (dropWhile is_digit (c # q @ tail)) else syntax_at n (c # q @ tail))
      = (Ok tail :: (json_error, bytes) result)"
    using c digits_stop [OF c(3) stop] by simp
  have rest: "(case tail of
        c # r3 \<Rightarrow> if c = CHR ''.'' then (let r4 = dropWhile is_digit r3 in if r4 = r3 then syntax_at n r4 else Ok r4)
          else Ok tail
      | [] \<Rightarrow> Ok tail) = (Ok r :: (json_error, bytes) result)"
  proof (cases "part = []")
    case True
    then show ?thesis using r by (cases r) (auto simp: no_digit_next_def tail_def)
  next
    case False
    have "dropWhile is_digit (part @ r) = r" using digits_stop [OF p] r by blast
    moreover have "part @ r \<noteq> r" using False by simp
    ultimately show ?thesis using False by (simp add: Let_def tail_def)
  qed
  have sign: "(case sign_text negative @ whole @ tail of c # r' \<Rightarrow> if c = CHR ''-'' then r' else
      sign_text negative @ whole @ tail | [] \<Rightarrow> []) = c # q @ tail"
    using c(1) digit_not_sign(1) [OF c(2)] by simp
  show ?thesis unfolding json_mantissa_def Let_def tail_def [symmetric] sign using first rest unfolding Let_def by simp
qed

lemma saturate_id: "- (2 ^ 63) \<le> i \<Longrightarrow> i < 2 ^ 63 \<Longrightarrow> saturate i = i"
  by (simp add: saturate_def)

lemma decimal_value_mono: "decimal_value ds \<le> decimal_value (ds @ [c])"
  by simp

lemma saturated_digits:
  assumes "decimal_value ds < 2 ^ 63"
  shows "foldl (\<lambda>k d. saturate (saturate (k * 10) + int (of_char d - 48))) 0 ds = int (decimal_value ds)"
  using assms
proof (induction ds rule: rev_induct)
  case (snoc c ds)
  have "saturate (int (decimal_value ds) * 10) = int (decimal_value ds) * 10"
    using snoc.prems by (intro saturate_id) auto
  moreover have "saturate (int (decimal_value ds) * 10 + int (of_char c - 48)) = int (decimal_value (ds @ [c]))"
    using snoc.prems by (subst saturate_id) auto
  ultimately show ?case using snoc by simp
qed (simp add: decimal_value_def)

lemma exponent_reads:
  assumes "ex < 2 ^ 62" "number_ends r"
  shows "json_exponent n (exponent_text ex @ r) = Ok (- int ex, r)"
proof (cases "ex = 0")
  case True
  then show ?thesis using assms(2) by (auto simp: json_exponent_def number_ends_def split: list.splits)
next
  case False
  have d: "list_all is_digit (dec_digits ex)" using dec_digits_digits by (auto simp: list_all_iff)
  note s = digits_stop [OF d disjI1 [OF number_ends_stop [OF assms(2)]]]
  have "foldl (\<lambda>k d. saturate (saturate (k * 10) + int (of_char d - 48))) 0 (dec_digits ex) = int ex"
    using saturated_digits [of "dec_digits ex"] assms(1) by simp
  then show ?thesis using False s by (simp add: json_exponent_def sign_split_def Let_def)
qed

text \<open>The integral check and the conversion.\<close>

lemma token_parts:
  assumes "canonical_decimal whole" "list_all is_digit part"
  shows "filter is_digit (sign_text negative @ whole @ part_text part) = whole @ part"
    "drop 1 (dropWhile (\<lambda>c. c \<noteq> CHR ''.'') (sign_text negative @ whole @ part_text part)) = part"
proof -
  have w: "\<forall>c \<in> set whole. is_digit c" using assms(1) by (simp add: canonical_decimal_def)
  then have "filter is_digit whole = whole" "\<forall>c \<in> set whole. c \<noteq> CHR ''.''" by (auto simp: filter_id_conv)
  moreover have "filter is_digit part = part" using assms(2) by (simp add: list_all_iff filter_id_conv)
  ultimately show "filter is_digit (sign_text negative @ whole @ part_text part) = whole @ part"
    "drop 1 (dropWhile (\<lambda>c. c \<noteq> CHR ''.'') (sign_text negative @ whole @ part_text part)) = part"
    by (auto simp: dropWhile_append1 dropWhile_append2)
qed

lemma write_digits_pad:
  assumes "length ds \<le> 16"
  shows "write_digits ds = Ok (ds @ replicate (16 - length ds) (CHR ''0''))"
proof -
  have "fold_result (\<lambda>(i, c) decimal. if i < length decimal then Ok (decimal[i := c]) else Panic) (enumerate (length pre) ds)
      (pre @ replicate m (CHR ''0'')) = Ok (pre @ ds @ replicate (m - length ds) (CHR ''0''))"
    if "length ds \<le> m" for pre ds :: bytes and m
    using that
  proof (induction ds arbitrary: pre m)
    case (Cons c ds)
    then obtain k where m: "m = Suc k" by (cases m) auto
    have "length (pre @ [c]) = Suc (length pre)" by simp
    then show ?case using Cons.IH [of k "pre @ [c]"] Cons.prems by (simp add: m list_update_append)
  qed simp
  from this [of ds 16 "[]"] assms show ?thesis by (simp add: write_digits_def)
qed

lemma check_integral_token_pad:
  "check_integral_token mantissa exponent =
     (let fraction = int (length (drop 1 (dropWhile (\<lambda>c. c \<noteq> CHR ''.'') mantissa)));
          digits = filter is_digit mantissa;
          leading = length (takeWhile (\<lambda>c. c = CHR ''0'') digits);
          significant = rev (dropWhile (\<lambda>c. c = CHR ''0'') (rev (drop leading digits))) in
      if significant = [] then Ok ()
      else
        let trailing = length digits - leading - length significant;
            shift = saturate (saturate (exponent - fraction) + int trailing);
            width = saturate (int (length significant) + shift) in
        if shift < 0 then Ok ()
        else if width > 16 then Err JsonUnsafeNumber
        else if width = 16 \<and> significant @ replicate (16 - length significant) (CHR ''0'') > ''9007199254740991''
        then Err JsonUnsafeNumber
        else Ok ())"
proof -
  have len: "n \<le> 16" if "saturate (int n + k) = 16" "\<not> k < 0" for n k
    using that by (auto simp: saturate_def min_def max_def split: if_splits)
  have core: "(if k < 0 then Ok () else if saturate (int (length ds) + k) > 16 then Err JsonUnsafeNumber
      else if saturate (int (length ds) + k) = 16 then
        attempt (write_digits ds) (\<lambda>decimal. if decimal > lim then Err JsonUnsafeNumber else Ok ()) else Ok ()) =
    (if k < 0 then Ok () else if saturate (int (length ds) + k) > 16 then Err JsonUnsafeNumber
      else if saturate (int (length ds) + k) = 16 \<and> ds @ replicate (16 - length ds) (CHR ''0'') > lim
      then Err JsonUnsafeNumber else Ok ())" for k ds lim
    using len [of "length ds" k] write_digits_pad [of ds] by (cases "saturate (int (length ds) + k) = 16") simp_all
  show ?thesis unfolding check_integral_token_def Let_def core ..
qed

section \<open>Numeric tokens are ASCII\<close>

definition is_ascii :: "byte \<Rightarrow> bool" where
  "is_ascii c \<longleftrightarrow> (of_char c :: nat) < 0x80"

lemma digit_ascii: "is_digit c \<Longrightarrow> is_ascii c"
  by (simp add: is_digit_def is_ascii_def char_le_iff)

definition ascii_before :: "bytes \<Rightarrow> bytes \<Rightarrow> bool" where
  "ascii_before r r1 \<longleftrightarrow> (\<exists>t. r = t @ r1 \<and> list_all is_ascii t)"

lemma ascii_before_refl: "ascii_before r r"
  by (simp add: ascii_before_def)

lemma ascii_before_Cons: "is_ascii c \<Longrightarrow> ascii_before r r1 \<Longrightarrow> ascii_before (c # r) r1"
  unfolding ascii_before_def by (metis append_Cons list.pred_inject(2))

lemma ascii_before_trans: "ascii_before r r1 \<Longrightarrow> ascii_before r1 r2 \<Longrightarrow> ascii_before r r2"
  unfolding ascii_before_def by (metis append.assoc list_all_append)

lemma ascii_before_digits: "ascii_before r (dropWhile is_digit r)"
  unfolding ascii_before_def
  by (intro exI [of _ "takeWhile is_digit r"]) (auto simp: list_all_iff digit_ascii dest: set_takeWhileD)

lemma ascii_before_valid: "ascii_before r r1 \<Longrightarrow> utf8_valid (take (length r - length r1) r)"
  by (auto simp: ascii_before_def is_ascii_def list_all_iff intro!: utf8_valid_ascii)

lemma mantissa_ascii:
  assumes "json_mantissa n r = Ok r2"
  shows "ascii_before r r2"
proof -
  define r1 where "r1 = (case r of c # r' \<Rightarrow> if c = CHR ''-'' then r' else r | [] \<Rightarrow> [])"
  have sign: "ascii_before r r1"
    by (auto simp: r1_def is_ascii_def intro: ascii_before_refl ascii_before_Cons split: list.splits)
  obtain q where q: "(case r1 of [] \<Rightarrow> syntax_at n r1
        | c # r' \<Rightarrow> if c = CHR ''0'' then Ok r' else if is_digit c then Ok (dropWhile is_digit r1) else syntax_at n r1) = Ok q"
    and r2: "(case q of c # r3 \<Rightarrow> if c = CHR ''.'' then
            (let r4 = dropWhile is_digit r3 in if r4 = r3 then syntax_at n r4 else Ok r4) else Ok q | [] \<Rightarrow> Ok q) = Ok r2"
    using assms unfolding json_mantissa_def Let_def r1_def [symmetric] attempt_eq_Ok by blast
  have "ascii_before r1 q"
    using q by (auto simp: syntax_at_def is_ascii_def [of "CHR ''0''"] intro: ascii_before_refl ascii_before_Cons ascii_before_digits digit_ascii split: list.splits if_splits)
  moreover have "ascii_before q r2"
    using r2 by (auto simp: syntax_at_def is_ascii_def Let_def intro: ascii_before_refl ascii_before_Cons ascii_before_digits split: list.splits if_splits)
  ultimately show ?thesis using sign by (blast intro: ascii_before_trans)
qed

lemma sign_split_ascii: "sign_split r = (b, r1) \<Longrightarrow> ascii_before r r1"
  by (auto simp: sign_split_def is_ascii_def intro: ascii_before_refl ascii_before_Cons split: list.splits if_splits)

lemma exponent_ascii:
  assumes "json_exponent n r = Ok (e, r2)"
  shows "ascii_before r r2"
proof (cases r)
  case (Cons c q)
  obtain b s where s: "sign_split q = (b, s)" by fastforce
  have "ascii_before q (dropWhile is_digit s)" using sign_split_ascii [OF s] ascii_before_digits by (rule ascii_before_trans)
  then have "ascii_before (c # q) (dropWhile is_digit s)" if "c = CHR ''e'' \<or> c = CHR ''E''"
    using that by (intro ascii_before_Cons) (auto simp: is_ascii_def)
  moreover have "r2 = r \<or> ((c = CHR ''e'' \<or> c = CHR ''E'') \<and> r2 = dropWhile is_digit s)"
    using assms by (auto simp: json_exponent_def Cons s Let_def syntax_at_def split: if_splits)
  ultimately show ?thesis using Cons ascii_before_refl by auto
qed (use assms in \<open>simp add: json_exponent_def ascii_before_refl\<close>)

lemma number_ascii:
  assumes "json_mantissa n r = Ok r1" "json_exponent n r1 = Ok (e, r2)"
  shows "ascii_token (take (length r - length r2) r) = Ok (take (length r - length r2) r)"
  using ascii_before_valid [OF ascii_before_trans [OF mantissa_ascii [OF assms(1)] exponent_ascii [OF assms(2)]]]
  by (simp add: ascii_token_def)

section \<open>Integral tokens\<close>

lemma fraction_passes:
  assumes w: "canonical_decimal whole" and p: "list_all is_digit part" and nz: "last (whole @ part) \<noteq> CHR ''0''"
    and x: "part \<noteq> [] \<or> 0 < ex" "ex < 2 ^ 62" "length part < 2 ^ 62"
  shows "check_integral_token (sign_text negative @ whole @ part_text part) (- int ex) = Ok ()"
proof -
  define ds where "ds = whole @ part"
  define k where "k = length (takeWhile (\<lambda>c. c = CHR ''0'') ds)"
  have ne: "ds \<noteq> []" using w by (auto simp: ds_def canonical_decimal_def)
  have "drop k ds = dropWhile (\<lambda>c. c = CHR ''0'') ds" by (simp add: k_def dropWhile_eq_drop)
  moreover have "last ds \<in> set ds" by (rule last_in_set [OF ne])
  moreover have "last ds \<noteq> CHR ''0''" using nz by (simp add: ds_def)
  ultimately have dne: "drop k ds \<noteq> []" by (auto simp: dropWhile_eq_Nil_conv simp del: drop_eq_Nil)
  then have "hd (rev (drop k ds)) \<noteq> CHR ''0''" using nz by (simp add: hd_rev last_drop flip: ds_def)
  then have sig: "rev (dropWhile (\<lambda>c. c = CHR ''0'') (rev (drop k ds))) = drop k ds"
    using dne by (cases "rev (drop k ds)") (auto simp: rev_eq_Cons_iff)
  have neg: "saturate (saturate (- int ex - int (length part)) + int 0) < 0"
  proof -
    have "0 < ex + length part" using x(1) by auto
    then have "- int ex < int (length part)" by linarith
    then show ?thesis using x(2,3) by (simp add: saturate_def)
  qed
  show ?thesis
    unfolding check_integral_token_pad token_parts [OF w p] Let_def
    using neg dne by (simp add: sig flip: ds_def k_def)
qed

lemma f64_fields:
  assumes "e < 2048" "m < 2 ^ 52" "s < 2" "x = (word_of_nat (e * 2 ^ 52 + m + s * 2 ^ 63) :: f64)"
  shows "f64_exponent x = e" "unat (take_bit 52 x) = m" "f64_is_sign_negative x \<longleftrightarrow> s = 1"
proof -
  have lt: "e * 2 ^ 52 + m + s * 2 ^ 63 < 2 ^ 64" using assms(1-3) by simp
  then have u: "unat x = e * 2 ^ 52 + m + s * 2 ^ 63" unfolding assms(4) by (subst unat_word_of_nat) simp_all
  have "unat (take_bit 52 x) = take_bit 52 (unat x)" by (simp only: unsigned_take_bit_eq)
  moreover have "e * 2 ^ 52 + m + s * 2 ^ 63 = m + (e + s * 2 ^ 11) * 2 ^ 52" by simp
  ultimately show "unat (take_bit 52 x) = m"
    using assms(2) by (simp only: u take_bit_eq_mod mod_mult_self1 mod_less)
  have "unat x = m + (e + s * 2 ^ 11) * 2 ^ 52" by (simp add: u)
  then have "unat x div 2 ^ 52 = e + s * 2 ^ 11" using assms(2) by simp
  then show "f64_exponent x = e" using assms(1) by (simp add: f64_exponent_unpack unpack_def)
  have "e * 2 ^ 52 + m < 2 ^ 63" using assms(1,2) by simp
  then show "f64_is_sign_negative x \<longleftrightarrow> s = 1"
    using assms(3) unfolding f64_is_sign_negative_def bit_63_iff u by (cases s) auto
qed

lemma f64_of_int_safe:
  assumes "nat \<bar>i\<bar> \<le> safe"
  shows "f64_is_finite (f64_of_int i)" "f64_is_integral (f64_of_int i)" "f64_integral_abs (f64_of_int i) = nat \<bar>i\<bar>"
    "f64_to_int (f64_of_int i) = i"
proof -
  define p where "p = nat \<bar>i\<bar>"
  define s :: nat where "s = (if i < 0 then 1 else 0)"
  define x where "x = f64_of_int i"
  have fields: "f64_is_finite x \<and> f64_is_integral x \<and> f64_integral_abs x = p \<and> (p \<noteq> 0 \<longrightarrow> f64_is_sign_negative x = (i < 0))"
  proof (cases "p = 0")
    case True
    then have "i = 0" by (simp add: p_def)
    then have "x = 0" by (simp add: x_def f64_of_int_def f64_of_ratio_def Let_def)
    then show ?thesis using True by (simp add: f64_is_integral_def f64_integral_abs_def f64_significand_def f64_exponent_def f64_scale_def)
  next
    case False
    have b: "2 ^ top_bit p \<le> p" "p < 2 * 2 ^ top_bit p" using top_bit_bounds [of p] False by auto
    have t: "top_bit p < 53" using top_bit_less [of p 53] False assms by (simp add: safe_def p_def)
    define k where "k = 52 - top_bit p"
    have k: "int k = 52 - int (top_bit p)" "k \<le> 52" "2 ^ 52 = 2 ^ top_bit p * (2 ^ k :: nat)"
      using t by (simp_all add: k_def flip: power_add)
    have "top_bit (Suc 0) = 0" by (subst top_bit.simps) simp
    then have e: "ratio_exponent p 1 = int (top_bit p)" using b by (simp add: ratio_exponent_def Let_def)
    define m where "m = p * 2 ^ k"
    have "2 ^ top_bit p * 2 ^ k \<le> p * 2 ^ k" "p * 2 ^ k < 2 * 2 ^ top_bit p * 2 ^ k"
      using b by simp_all
    then have m: "2 ^ 52 \<le> m" "m < 2 * 2 ^ 52"
      unfolding k(3) m_def by simp_all
    have kk: "min (52 - ratio_exponent p 1) 1074 = int k" unfolding e using k(1) by simp
    have r: "round_div (p * 2 ^ k) 1 = m" by (simp add: round_div_def m_def)
    have "nat (1074 - int k) = 1074 - k" using k(2) by simp
    moreover have "x = f64_of_ratio (i < 0) p 1" by (simp add: x_def f64_of_int_def p_def)
    ultimately have bits: "x = word_of_nat (min ((1074 - k) * 2 ^ 52 + m) (2047 * 2 ^ 52) + s * 2 ^ 63)"
      unfolding f64_of_ratio_def Let_def kk using False r by (simp add: s_def)
    have "(1074 - k) * 2 ^ 52 + m = (1075 - k) * 2 ^ 52 + (m - 2 ^ 52)"
      using k(2) m by (simp add: algebra_simps diff_mult_distrib)
    moreover have "(1075 - k) * 2 ^ 52 + (m - 2 ^ 52) \<le> 2047 * 2 ^ 52" using m by (simp add: algebra_simps)
    ultimately have "x = word_of_nat ((1075 - k) * 2 ^ 52 + (m - 2 ^ 52) + s * 2 ^ 63)" by (simp add: bits)
    note f = f64_fields [OF _ _ _ this]
    have "f64_exponent x = 1075 - k" "unat (take_bit 52 x) = m - 2 ^ 52" "f64_is_sign_negative x \<longleftrightarrow> s = 1"
      using f m by (simp_all add: s_def)
    moreover have "1 \<le> 1075 - k" "1075 - k < 2047" using k(2) by auto
    ultimately have "f64_significand x = m" "f64_scale x = - int k" "f64_is_finite x" "f64_is_sign_negative x \<longleftrightarrow> i < 0"
      using m k(2) by (auto simp: f64_significand_def f64_scale_def f64_is_finite_def s_def Let_def)
    then show ?thesis by (simp add: f64_is_integral_def f64_integral_abs_def m_def)
  qed
  then show "f64_is_finite (f64_of_int i)" "f64_is_integral (f64_of_int i)" "f64_integral_abs (f64_of_int i) = nat \<bar>i\<bar>"
    by (simp_all add: x_def p_def)
  show "f64_to_int (f64_of_int i) = i"
    unfolding x_def [symmetric] f64_to_int_def using fields by (cases "p = 0") (auto simp: p_def)
qed

lemma digits_order:
  assumes "length a = length b" "\<forall>c \<in> set a. is_digit c" "\<forall>c \<in> set b. is_digit c" "a < b"
  shows "decimal_value a < decimal_value b"
  using assms
proof (induction a arbitrary: b rule: rev_induct)
  case (snoc c a)
  then obtain d b' where b: "b = b' @ [d]" "length b' = length a" by (cases b rule: rev_cases) auto
  have "is_digit c" "is_digit d" using snoc.prems(2,3) b by simp_all
  then have digits: "of_char c - 48 < (10 :: nat)" "of_char d - 48 < (10 :: nat)" by (auto simp: is_digit_def)
  from snoc.prems(4) b have "a < b' \<or> a = b' \<and> c < d"
  proof (cases "a = b'")
    case True
    then show ?thesis using snoc.prems(4) b by simp
  next
    case False
    then have "a < b' \<or> b' < a" by auto
    then show ?thesis using list_less_same_length_append [of b' a "[d]" "[c]"] snoc.prems(4) b by auto
  qed
  then show ?case
  proof
    assume "a < b'"
    then have "decimal_value a < decimal_value b'" using snoc b by auto
    then show ?thesis using digits b by simp
  next
    assume "a = b' \<and> c < d"
    then have "(of_char c :: nat) < of_char d" by (simp add: char_less_iff)
    moreover have "48 \<le> (of_char c :: nat)" using snoc.prems(2) by (simp add: is_digit_def)
    ultimately show ?thesis using \<open>a = b' \<and> c < d\<close> b by simp
  qed
qed simp

text \<open>The whole token.\<close>

lemma int_to_string_text: "int_to_string i = sign_text (i < 0) @ dec_digits (nat \<bar>i\<bar>)"
  by (simp add: int_to_string_def)

lemma int_to_string_parts:
  "int_to_string i = sign_text (i < 0) @ dec_digits (nat \<bar>i\<bar>) @ part_text [] @ exponent_text 0"
  by (simp add: int_to_string_text)

lemma decimal_value_Cons: "decimal_value (c # s) = (of_char c - 48) * 10 ^ length s + decimal_value s"
  by (induction s rule: rev_induct) (auto simp: decimal_value_def algebra_simps)

lemma leading_digit:
  assumes "s \<noteq> []" "hd s \<noteq> CHR ''0''" "is_digit (hd s)"
  shows "10 ^ (length s - 1) \<le> decimal_value s"
proof (cases s)
  case (Cons c q)
  have "(of_char c :: nat) \<noteq> of_char (CHR ''0'')" using assms(2) Cons by (simp only: of_char_eq_iff) simp
  moreover have "48 \<le> (of_char c :: nat)" using assms(3) Cons by (simp add: is_digit_def)
  ultimately have "1 \<le> (of_char c - 48 :: nat)" by simp
  then have "1 * 10 ^ length q \<le> (of_char c - 48) * (10 :: nat) ^ length q" by (rule mult_right_mono) simp
  then have "10 ^ length q \<le> (of_char c - 48) * 10 ^ length q + decimal_value q" by linarith
  then show ?thesis by (simp only: Cons decimal_value_Cons list.size add_Suc_right add_0_right diff_Suc_1' One_nat_def)
qed (use assms in simp)

lemma integer_passes:
  assumes "nat \<bar>i\<bar> \<le> safe"
  shows "check_integral_token (int_to_string i) 0 = Ok ()"
proof (cases "i = 0")
  case True
  then show ?thesis by (simp add: int_to_string_def dec_digits.simps dec_digit_def check_integral_token_def) code_simp
next
  case False
  define ds where "ds = dec_digits (nat \<bar>i\<bar>)"
  have c: "canonical_decimal ds" unfolding ds_def by (rule canonical_decimal_digits)
  have P: "filter is_digit (int_to_string i) = ds"
    and Q: "drop 1 (dropWhile (\<lambda>c. c \<noteq> CHR ''.'') (int_to_string i)) = []"
    using token_parts [OF c, of "[]" "i < 0"] by (simp_all add: int_to_string_text ds_def)
  define lim where "lim = ''9007199254740991''"
  have lim: "decimal_value lim = safe" "\<forall>c \<in> set lim. is_digit c" "length lim = 16"
    by (simp_all add: lim_def safe_def decimal_value_def is_digit_def)
  have v: "decimal_value ds \<le> safe" using assms by (simp add: ds_def)
  have first: "takeWhile (\<lambda>c. c = CHR ''0'') ds = []"
  proof -
    have "hd ds \<noteq> CHR ''0''"
    proof
      assume z: "hd ds = CHR ''0''"
      then have "ds = [CHR ''0'']" using c by (cases ds) (auto simp: canonical_decimal_def)
      then have "decimal_value ds = 0" by (simp add: decimal_value_def)
      then show False using False by (simp add: ds_def)
    qed
    then show ?thesis by (cases ds) auto
  qed
  have len: "length ds \<le> 16"
  proof (rule ccontr)
    assume "\<not> length ds \<le> 16"
    moreover have "10 ^ (length ds - 1) \<le> decimal_value ds"
      using c first by (intro leading_digit) (auto simp: canonical_decimal_def takeWhile_eq_Nil_iff)
    moreover have "(10 :: nat) ^ 16 \<le> 10 ^ (length ds - 1)" using calculation(1) by (intro power_increasing) auto
    ultimately show False using v by (simp add: safe_def)
  qed
  define sig where "sig = rev (dropWhile (\<lambda>c. c = CHR ''0'') (rev ds))"
  define zeros where "zeros = takeWhile (\<lambda>c. c = CHR ''0'') (rev ds)"
  have "rev ds = zeros @ rev sig" by (simp add: zeros_def sig_def)
  then have "ds = sig @ rev zeros" by (metis rev_append rev_rev_ident)
  moreover have "\<forall>c \<in> set zeros. c = CHR ''0''" unfolding zeros_def by (auto dest: set_takeWhileD)
  then have "replicate (length zeros) (CHR ''0'') = zeros" by (rule replicate_length_same)
  then have "rev zeros = replicate (length zeros) (CHR ''0'')" by (metis rev_replicate)
  ultimately have ds: "ds = sig @ replicate (length zeros) (CHR ''0'')" by (simp only:)
  then have k: "length ds = length sig + length zeros" by (metis length_append length_replicate)
  have "\<not> lim < ds" if "length ds = 16"
    using digits_order [of lim ds] lim v c that by (auto simp: canonical_decimal_def)
  then have "\<not> lim < sig @ replicate (16 - length sig) (CHR ''0'')" if "length ds = 16"
    using that ds k by (metis diff_add_inverse)
  moreover have "saturate (saturate (0 - int (length ([] :: bytes))) + int (length zeros)) = int (length zeros)"
    "saturate (int (length sig) + int (length zeros)) = int (length ds)"
    using len k by (auto simp: saturate_def)
  moreover have "length ds - 0 - length sig = length zeros" using k by simp
  ultimately show ?thesis
    using len unfolding check_integral_token_pad Let_def P Q first list.size(3) drop_0 sig_def [symmetric] lim_def
    by auto
qed

lemma sign_split_text: "canonical_decimal w \<Longrightarrow> sign_split (sign_text negative @ w @ r) = (negative, w @ r)"
proof -
  assume "canonical_decimal w"
  then obtain c q where "w = c # q" "is_digit c" using canonical_first by metis
  then show ?thesis using digit_not_sign [of c] by (cases negative) (simp_all add: sign_split_def)
qed

lemma f64_parse_integer: "f64_parse (int_to_string i) = Some (f64_of_int i)"
proof -
  define ds where "ds = dec_digits (nat \<bar>i\<bar>)"
  have c: "canonical_decimal ds" unfolding ds_def by (rule canonical_decimal_digits)
  have "list_all is_digit ds" using c by (simp add: canonical_decimal_def list_all_iff)
  from digits_stop [OF this, of "[]"] have d: "takeWhile is_digit ds = ds" "dropWhile is_digit ds = []" "ds \<noteq> []"
    using c by (auto simp: no_digit_next_def canonical_decimal_def)
  have s: "sign_split (int_to_string i) = (i < 0, ds)" using sign_split_text [OF c, of "i < 0" "[]"] by (simp add: int_to_string_text ds_def)
  have "decimal_value ds = nat \<bar>i\<bar>" by (simp add: ds_def)
  then show ?thesis
    unfolding f64_parse_def Let_def s prod.case d list.case append_Nil2 using d(3) by (simp add: exponent_parse_def f64_of_int_def)
qed

lemma integer_reads:
  assumes "nat \<bar>i\<bar> \<le> safe" "number_ends r"
  shows "json_number n (int_to_string i @ r) = Ok (VInteger (word_of_int i), r)"
proof -
  have m: "json_mantissa n (int_to_string i @ r) = Ok r"
    using mantissa_reads [OF canonical_decimal_digits [of "nat \<bar>i\<bar>"], of "[]" r n "i < 0"] number_ends_stop [OF assms(2)]
    by (simp add: int_to_string_text)
  moreover have x: "json_exponent n r = Ok (0, r)" using exponent_reads [of 0 r n] assms(2) by simp
  moreover have "ascii_token (int_to_string i) = Ok (int_to_string i)" using number_ascii [OF m x] by simp
  moreover have "native_number (f64_of_int i) = Ok (VInteger (word_of_int i))"
    using f64_of_int_safe [OF assms(1)] assms(1) by (simp add: native_number_def)
  ultimately show ?thesis
    using integer_passes [OF assms(1)] by (simp add: json_number_def f64_parse_integer)
qed

lemma float_reads:
  assumes "float_law eng x" "native_number x = Ok v" "number_ends r"
  shows "json_number n (shortest eng x @ r) = Ok (v, r)"
proof -
  obtain negative whole part ex where t: "shortest eng x = sign_text negative @ whole @ part_text part @ exponent_text ex"
    and c: "canonical_decimal whole" "list_all is_digit part" "part \<noteq> [] \<or> 0 < ex" "ex < 2 ^ 62" "length part < 2 ^ 62"
      "last (whole @ part) \<noteq> CHR ''0''"
    using assms(1) unfolding float_law_def decimal_token_def by blast
  have f: "f64_parse (shortest eng x) = Some x" using assms(1) by (simp add: float_law_def)
  define m where "m = sign_text negative @ whole @ part_text part"
  define e where "e = exponent_text ex"
  have te: "shortest eng x = m @ e" by (simp only: t m_def e_def append_assoc)
  have 1: "json_mantissa n (m @ e @ r) = Ok (e @ r)"
    using mantissa_reads [OF c(1,2) no_digit_next_exponent [OF assms(3)], of n negative ex] by (simp only: m_def e_def append_assoc)
  have 2: "json_exponent n (e @ r) = Ok (- int ex, r)" unfolding e_def by (rule exponent_reads [OF c(4) assms(3)])
  have 3: "check_integral_token m (- int ex) = Ok ()" unfolding m_def by (rule fraction_passes [OF c(1,2,6,3-5)])
  have 4: "take (length (m @ e @ r) - length (e @ r)) (m @ e @ r) = m"
    "take (length (m @ e @ r) - length r) (m @ e @ r) = m @ e" by simp_all
  have 5: "ascii_token (m @ e) = Ok (m @ e)" using number_ascii [OF 1 2] by simp
  show ?thesis
    using f assms(2) unfolding json_number_def te append_assoc 1 attempt_simps prod.case 2 4 3 5 by simp
qed

end
