(* ===== verification/Json_Properties.thy ===== *)
theory Json_Properties
  imports Json_Tokens
begin

text \<open>
  JSON documents are stable: what the writer produces for a parsed document is read back as
  the same document, and parsing and writing always end. A reference engine instantiates the
  two libraries.
\<close>

section \<open>Reading what was written\<close>

definition value_start :: "bytes \<Rightarrow> bool" where
  "value_start w \<longleftrightarrow> (case w of [] \<Rightarrow> False | c # _ \<Rightarrow> \<not> is_space c \<and> c \<noteq> CHR '']'' \<and> c \<noteq> CHR ''}'')"

definition reads :: "(bytes \<Rightarrow> (json_error, value \<times> bytes) result) \<Rightarrow> value \<Rightarrow> bytes \<Rightarrow> bool" where
  "reads member v w \<longleftrightarrow> value_start w \<and> (\<forall>r. number_ends r \<longrightarrow> member (w @ r) = Ok (v, r))"

text \<open>The loop after a member.\<close>

definition items_rest :: "(bytes \<Rightarrow> (json_error, value \<times> bytes) result) \<Rightarrow> nat \<Rightarrow> nat \<Rightarrow> value list \<Rightarrow> bytes \<Rightarrow>
    (json_error, value list \<times> bytes) result" where
  "items_rest member n fuel acc s =
     (if take 1 s = '']'' then Ok (acc, drop 1 s) else attempt (eat n (CHR '','') s) (json_items member n fuel acc))"

lemma json_items_Suc:
  "json_items member n (Suc fuel) acc r = attempt (member r) (\<lambda>(v, r1). items_rest member n fuel (acc @ [v]) (space r1))"
  by (simp add: items_rest_def Let_def)

declare json_items.simps(2) [simp del]

lemma value_start_space: "value_start w \<Longrightarrow> space (w @ r) = w @ r"
  by (cases w) (auto simp: value_start_def)

lemma value_start_append: "value_start q \<Longrightarrow> value_start (q @ s)"
  by (auto simp: value_start_def split: list.splits)

lemma number_ends_space: "number_ends r \<Longrightarrow> space r = r"
  by (cases r) (auto simp: number_ends_def)

lemma json_comma_Ok:
  "json_comma lim i out = Ok out1 \<Longrightarrow> out1 = out @ (if i = 0 then [] else '','')"
  by (auto simp: json_comma_def split: if_splits)

lemma items_read:
  assumes step: "\<And>x o1 o2. x \<in> set xs \<Longrightarrow> wr x o1 = Ok o2 \<Longrightarrow> \<exists>w. o2 = o1 @ w \<and> reads member x w"
    and run: "fold_result (\<lambda>(i, x) o1. attempt (json_comma lim i o1) (wr x)) (enumerate (Suc i) xs) o1 = Ok o2"
  shows "\<exists>w. o2 = o1 @ w \<and> length xs \<le> length w \<and> (\<forall>r. number_ends (w @ CHR '']'' # r)) \<and>
    (\<forall>acc fuel r. length xs \<le> fuel \<longrightarrow> items_rest member n fuel acc (w @ CHR '']'' # r) = Ok (acc @ xs, r))"
  using assms
proof (induction xs arbitrary: i o1)
  case Nil
  then show ?case by (auto simp: items_rest_def number_ends_def)
next
  case (Cons x xs)
  from Cons.prems(2) obtain o3 where x: "wr x (o1 @ '','') = Ok o3"
    and rest: "fold_result (\<lambda>(i, x) o1. attempt (json_comma lim i o1) (wr x)) (enumerate (Suc (Suc i)) xs) o3 = Ok o2"
    by (auto dest!: json_comma_Ok)
  obtain wx where wx: "o3 = o1 @ '','' @ wx" "reads member x wx" using Cons.prems(1) [OF _ x] by auto
  obtain w where w: "o2 = o3 @ w" "length xs \<le> length w" "\<And>r. number_ends (w @ CHR '']'' # r)"
      "\<And>acc fuel r. length xs \<le> fuel \<Longrightarrow> items_rest member n fuel acc (w @ CHR '']'' # r) = Ok (acc @ xs, r)"
    using Cons.IH [OF Cons.prems(1) rest] by auto
  have "items_rest member n fuel acc ('','' @ wx @ w @ CHR '']'' # r) = Ok (acc @ x # xs, r)"
    if len: "length (x # xs) \<le> fuel" for acc fuel r
  proof -
    obtain k where k: "fuel = Suc k" "length xs \<le> k" using len by (cases fuel) auto
    have "member (wx @ w @ CHR '']'' # r) = Ok (x, w @ CHR '']'' # r)" using wx(2) w(3) by (simp add: reads_def)
    then show ?thesis
      using w(4) [OF k(2), of "acc @ [x]" r] number_ends_space [OF w(3)] by (simp add: k(1) items_rest_def [of member n "Suc k"] json_items_Suc)
  qed
  then show ?case using w wx by (intro exI [of _ "'','' @ wx @ w"]) (auto simp: number_ends_def)
qed

lemma list_reads:
  assumes step: "\<And>x o1 o2. x \<in> set xs \<Longrightarrow> wr x o1 = Ok o2 \<Longrightarrow> \<exists>w. o2 = o1 @ w \<and> reads member x w"
    and run: "fold_result (\<lambda>(i, x) o1. attempt (json_comma lim i o1) (wr x)) (enumerate 0 xs) o1 = Ok o2"
  shows "\<exists>w. o2 = o1 @ w \<and> (\<forall>r. json_list member n (CHR ''['' # w @ CHR '']'' # r) = Ok (VArray xs, r))"
proof (cases xs)
  case Nil
  then show ?thesis using run by (auto simp: json_list_def)
next
  case (Cons x ys)
  from run obtain o3 where x: "wr x o1 = Ok o3"
    and rest: "fold_result (\<lambda>(i, x) o1. attempt (json_comma lim i o1) (wr x)) (enumerate (Suc 0) ys) o3 = Ok o2"
    by (auto simp: Cons dest!: json_comma_Ok)
  obtain wx where wx: "o3 = o1 @ wx" "reads member x wx" using step [OF _ x] Cons by auto
  have "\<exists>w. o2 = o3 @ w \<and> length ys \<le> length w \<and> (\<forall>r. number_ends (w @ CHR '']'' # r)) \<and>
    (\<forall>acc fuel r. length ys \<le> fuel \<longrightarrow> items_rest member n fuel acc (w @ CHR '']'' # r) = Ok (acc @ ys, r))"
    by (rule items_read [OF _ rest]) (use step Cons in auto)
  then obtain w where w: "o2 = o3 @ w" "length ys \<le> length w" "\<And>r. number_ends (w @ CHR '']'' # r)"
      "\<And>acc fuel r. length ys \<le> fuel \<Longrightarrow> items_rest member n fuel acc (w @ CHR '']'' # r) = Ok (acc @ ys, r)"
    by blast
  have "json_list member n (CHR ''['' # wx @ w @ CHR '']'' # r) = Ok (VArray xs, r)" for r
  proof -
    define s where "s = wx @ w @ CHR '']'' # r"
    have s: "space s = s" "take 1 s \<noteq> '']''" "member s = Ok (x, w @ CHR '']'' # r)" "length ys \<le> length s"
      using wx(2) w(2,3) value_start_space [of wx] by (auto simp: reads_def s_def value_start_def split: list.splits)
    then show ?thesis
      using w(4) [OF s(4), of "[x]" r] number_ends_space [OF w(3)]
      by (simp add: json_list_def Let_def json_items_Suc Cons flip: s_def)
  qed
  then show ?thesis using w(1) wx(1) by (intro exI [of _ "wx @ w"]) simp
qed

text \<open>Objects: the entries arrive in the writer's order and are inserted one by one.\<close>

definition entry_reads :: "json_engine \<Rightarrow> limits \<Rightarrow> nat \<Rightarrow> (bytes \<Rightarrow> (json_error, value \<times> bytes) result) \<Rightarrow> bytes \<times> value \<Rightarrow> bytes \<Rightarrow> bool" where
  "entry_reads eng lim n member p w \<longleftrightarrow>
     (\<exists>q wx. w = q @ CHR '':'' # wx \<and> value_start q \<and> (\<forall>r. json_string eng lim n (q @ r) = Ok (fst p, r)) \<and>
       reads member (snd p) wx)"

definition insert_entry :: "cbor_map \<Rightarrow> bytes \<times> value \<Rightarrow> cbor_map" where
  "insert_entry acc p = insort_key fst p acc"

definition fields_rest :: "json_engine \<Rightarrow> limits \<Rightarrow> nat \<Rightarrow> (bytes \<Rightarrow> (json_error, value \<times> bytes) result) \<Rightarrow> nat \<Rightarrow> nat \<Rightarrow> cbor_map \<Rightarrow>
    bytes \<Rightarrow> (json_error, cbor_map \<times> bytes) result" where
  "fields_rest eng lim room member n fuel acc s =
     (if take 1 s = ''}'' then Ok (acc, drop 1 s)
      else attempt (eat n (CHR '','') s) (json_fields eng lim room member n fuel acc))"

lemma json_fields_Suc:
  "json_fields eng lim room member n (Suc fuel) acc r =
     attempt (json_enter lim room) (\<lambda>_.
     attempt (json_string eng lim n (space r)) (\<lambda>(k, r1).
     if k \<in> fst ` set acc then Err (JsonDuplicateKey (n - length (space r)))
     else
       attempt (eat n (CHR '':'') r1) (\<lambda>r2.
       attempt (member r2) (\<lambda>(v, r3). fields_rest eng lim room member n fuel (insert_entry acc (k, v)) (space r3)))))"
  by (simp add: fields_rest_def insert_entry_def Let_def cong: if_cong)

lemma fields_step:
  assumes e: "entry_reads eng lim n member p w" and r: "number_ends r" and room: "room \<noteq> 0" and new: "fst p \<notin> fst ` set acc"
  shows "json_fields eng lim room member n (Suc fuel) acc (w @ r) = fields_rest eng lim room member n fuel (insert_entry acc p) r"
proof -
  obtain q wx where w: "w = q @ CHR '':'' # wx" and q: "value_start q" "\<And>r. json_string eng lim n (q @ r) = Ok (fst p, r)"
    and x: "reads member (snd p) wx"
    using e by (auto simp: entry_reads_def)
  have "member (wx @ r) = Ok (snd p, r)" using x r by (simp add: reads_def)
  moreover have "space (q @ CHR '':'' # wx @ r) = q @ CHR '':'' # wx @ r" by (rule value_start_space [OF q(1)])
  ultimately show ?thesis
    using room new q(2) [of "CHR '':'' # wx @ r"] number_ends_space [OF r]
    by (simp add: w json_enter_def fields_rest_def insert_entry_def Let_def)
qed

declare json_fields.simps(2) [simp del]

lemma set_insert_entry [simp]: "set (insert_entry acc p) = insert p (set acc)"
  by (simp add: insert_entry_def set_insort_key)

lemma entries_read:
  assumes step: "\<And>p o1 o2. p \<in> set ps \<Longrightarrow> wr p o1 = Ok o2 \<Longrightarrow> \<exists>w. o2 = o1 @ w \<and> entry_reads eng lim n member p w"
    and run: "fold_result (\<lambda>(i, p) o1. attempt (json_comma lim i o1) (wr p)) (enumerate (Suc i) ps) o1 = Ok o2"
    and room: "room \<noteq> 0" and new: "distinct (map fst ps)" 
  shows "\<exists>w. o2 = o1 @ w \<and> length ps \<le> length w \<and> (\<forall>r. number_ends (w @ CHR ''}'' # r)) \<and>
    (\<forall>acc fuel r. length ps \<le> fuel \<longrightarrow> fst ` set ps \<inter> fst ` set acc = {} \<longrightarrow>
      fields_rest eng lim room member n fuel acc (w @ CHR ''}'' # r) = Ok (foldl insert_entry acc ps, r))"
  using assms(1,2,4)
proof (induction ps arbitrary: i o1)
  case Nil
  then show ?case by (auto simp: fields_rest_def number_ends_def)
next
  case (Cons x xs)
  from Cons.prems(2) obtain o3 where x: "wr x (o1 @ '','') = Ok o3"
    and rest: "fold_result (\<lambda>(i, x) o1. attempt (json_comma lim i o1) (wr x)) (enumerate (Suc (Suc i)) xs) o3 = Ok o2"
    by (auto dest!: json_comma_Ok)
  obtain wx where wx: "o3 = o1 @ '','' @ wx" "entry_reads eng lim n member x wx" using Cons.prems(1) [OF _ x] by auto
  obtain w where w: "o2 = o3 @ w" "length xs \<le> length w" "\<And>r. number_ends (w @ CHR ''}'' # r)"
      "\<And>acc fuel r. length xs \<le> fuel \<Longrightarrow> fst ` set xs \<inter> fst ` set acc = {} \<Longrightarrow>
        fields_rest eng lim room member n fuel acc (w @ CHR ''}'' # r) = Ok (foldl insert_entry acc xs, r)"
    using Cons.IH [OF Cons.prems(1) rest] Cons.prems(3) by auto
  have "fields_rest eng lim room member n fuel acc ('','' @ wx @ w @ CHR ''}'' # r) = Ok (foldl insert_entry acc (x # xs), r)"
    if len: "length (x # xs) \<le> fuel" "fst ` set (x # xs) \<inter> fst ` set acc = {}" for acc fuel r
  proof -
    obtain k where k: "fuel = Suc k" "length xs \<le> k" using len(1) by (cases fuel) auto
    have "fst ` set xs \<inter> fst ` set (insert_entry acc x) = {}" using len(2) Cons.prems(3) by auto
    then show ?thesis
      using w(4) [OF k(2), of "insert_entry acc x" r] fields_step [OF wx(2) w(3) room, of acc k r] len(2)
      by (simp add: k(1) fields_rest_def [of eng lim room member n "Suc k"])
  qed
  then show ?case using w wx by (intro exI [of _ "'','' @ wx @ w"]) (auto simp: number_ends_def)
qed

lemma insert_entries: "mset (foldl insert_entry acc ps) = mset ps + mset acc"
  by (induction ps arbitrary: acc) (auto simp: insert_entry_def)

lemma map_of_entries_any_order:
  assumes "map_canonical m" "mset es = mset m"
  shows "map_try_from_entries es = Ok m"
proof -
  have "distinct (map fst es)"
    using map_canonical_distinct [OF assms(1)] assms(2) by (metis mset_eq_imp_distinct_iff mset_map)
  moreover have "sort_key (\<lambda>p. canon_key (fst p)) es = m"
  proof (rule sort_key_inj_key_eq [OF assms(2)])
    show "inj_on (\<lambda>p. canon_key (fst p)) (set es)"
      using \<open>distinct (map fst es)\<close> by (auto simp: distinct_map inj_on_def)
    show "sorted (map (\<lambda>p. canon_key (fst p)) m)"
      using assms(1) by (simp add: map_canonical_def strictly_sorted_iff)
  qed
  ultimately show ?thesis by (simp add: map_try_from_entries_Ok)
qed

lemma object_reads:
  assumes step: "\<And>p o1 o2. p \<in> set m \<Longrightarrow> wr p o1 = Ok o2 \<Longrightarrow> \<exists>w. o2 = o1 @ w \<and> entry_reads eng lim n member p w"
    and run: "fold_result (\<lambda>(i, p) o1. attempt (json_comma lim i o1) (wr p)) (enumerate 0 (utf16_sorted m)) o1 = Ok o2"
    and room: "m \<noteq> [] \<Longrightarrow> room \<noteq> 0" and m: "map_canonical m"
  shows "\<exists>w. o2 = o1 @ w \<and> (\<forall>r. json_object eng lim room member n (CHR ''{'' # w @ CHR ''}'' # r) = Ok (VMap m, r))"
proof (cases "utf16_sorted m")
  case Nil
  then have "m = []" by (metis length_0_conv length_sort utf16_sorted_def)
  then show ?thesis using run by (auto simp: json_object_def utf16_sorted_def)
next
  case (Cons x ys)
  have ms: "mset (utf16_sorted m) = mset m" by (simp add: utf16_sorted_def)
  have sm: "set (utf16_sorted m) = set m" by (simp add: utf16_sorted_def)
  have dist: "distinct (map fst (x # ys))"
    using map_canonical_distinct [OF m] ms by (metis Cons mset_eq_imp_distinct_iff mset_map)
  have ne: "m \<noteq> []" using Cons by (auto simp: utf16_sorted_def)
  from run obtain o3 where x: "wr x o1 = Ok o3"
    and rest: "fold_result (\<lambda>(i, x) o1. attempt (json_comma lim i o1) (wr x)) (enumerate (Suc 0) ys) o3 = Ok o2"
    by (auto simp: Cons dest!: json_comma_Ok)
  have mem: "p \<in> set m" if "p \<in> set (x # ys)" for p using that sm Cons by auto
  obtain wx where wx: "o3 = o1 @ wx" "entry_reads eng lim n member x wx" using step [OF mem x] by auto
  have "\<exists>w. o2 = o3 @ w \<and> length ys \<le> length w \<and> (\<forall>r. number_ends (w @ CHR ''}'' # r)) \<and>
    (\<forall>acc fuel r. length ys \<le> fuel \<longrightarrow> fst ` set ys \<inter> fst ` set acc = {} \<longrightarrow>
      fields_rest eng lim room member n fuel acc (w @ CHR ''}'' # r) = Ok (foldl insert_entry acc ys, r))"
    by (rule entries_read [OF _ rest room [OF ne]]) (use step mem dist in auto)
  then obtain w where w: "o2 = o3 @ w" "length ys \<le> length w" "\<And>r. number_ends (w @ CHR ''}'' # r)"
      "\<And>acc fuel r. length ys \<le> fuel \<Longrightarrow> fst ` set ys \<inter> fst ` set acc = {} \<Longrightarrow>
        fields_rest eng lim room member n fuel acc (w @ CHR ''}'' # r) = Ok (foldl insert_entry acc ys, r)"
    by blast
  have "json_object eng lim room member n (CHR ''{'' # wx @ w @ CHR ''}'' # r) = Ok (VMap m, r)" for r
  proof -
    define s where "s = wx @ w @ CHR ''}'' # r"
    have "value_start wx" using wx(2) value_start_append by (auto simp: entry_reads_def)
    then have s: "space s = s" "take (Suc 0) s \<noteq> ''}''" "length ys \<le> length s"
      using w(2) value_start_space [of wx] by (auto simp: s_def value_start_def split: list.splits)
    have f: "json_fields eng lim room member n (Suc (length s)) [] s = Ok (foldl insert_entry [] (x # ys), r)"
      using fields_step [OF wx(2) w(3) room [OF ne], of "[]" "length s" r] w(4) [OF s(3), of "insert_entry [] x" r] dist
      by (auto simp: s_def)
    have "mset (foldl insert_entry [] (x # ys)) = mset m" using insert_entries [of "[]" "x # ys"] ms Cons by simp
    then have "map_try_from_entries (foldl insert_entry [] (x # ys)) = Ok m" by (rule map_of_entries_any_order [OF m])
    then show ?thesis
      unfolding json_object_def s_def [symmetric] by (simp add: Let_def s f del: foldl_Cons)
  qed
  then show ?thesis using w(1) wx(1) by (intro exI [of _ "wx @ w"]) simp
qed

section \<open>Values\<close>

lemma json_enter_Ok [simp]: "json_enter lim room = Ok u \<longleftrightarrow> room \<noteq> 0"
  by (auto simp: json_enter_def)

lemma value_start_digit: "is_digit c \<Longrightarrow> value_start (c # s)"
  by (auto simp: value_start_def is_space_def is_digit_def)

lemma token_start:
  assumes "canonical_decimal whole"
  shows "value_start (sign_text negative @ whole @ s)"
    "\<exists>c q. sign_text negative @ whole @ s = c # q \<and> (c = CHR ''-'' \<or> is_digit c)"
proof -
  obtain c q where "whole = c # q" "is_digit c" using canonical_first [OF assms] by metis
  then show "value_start (sign_text negative @ whole @ s)"
    "\<exists>c q. sign_text negative @ whole @ s = c # q \<and> (c = CHR ''-'' \<or> is_digit c)"
    by (cases negative; auto simp: value_start_digit; simp add: value_start_def)+
qed

lemma number_dispatch:
  assumes "value_start w" "w = c # q" "c = CHR ''-'' \<or> is_digit c"
  shows "json_value eng lim n (Suc k) (w @ r) = json_number n (w @ r)"
proof -
  have "c \<noteq> CHR 0x22 \<and> c \<noteq> CHR ''['' \<and> c \<noteq> CHR ''{'' \<and> c \<noteq> CHR ''t'' \<and> c \<noteq> CHR ''f'' \<and> c \<noteq> CHR ''n''"
    using assms(3) by (auto simp: is_digit_def)
  moreover have "space (w @ r) = c # q @ r" using value_start_space [OF assms(1)] assms(2) by simp
  ultimately show ?thesis using assms(2,3) by (simp add: Let_def)
qed

lemma quote_start:
  assumes "string_law eng" "utf8_valid s"
  shows "value_start (quote eng s)" "\<exists>q. quote eng s = CHR 0x22 # q"
proof -
  show "\<exists>q. quote eng s = CHR 0x22 # q" using assms unfolding string_law_def string_literal_def by blast
  then show "value_start (quote eng s)" by (auto simp: value_start_def)
qed

lemma scalar_reads:
  assumes w: "json_scalar eng lim v out = Ok out'" and v: "json_normal v" and l: "engine_laws eng v" and u: "usize_limits lim"
  shows "\<exists>w. out' = out @ w \<and> reads (json_value eng lim n (Suc k)) v w"
proof (cases v)
  case VNull
  then show ?thesis using w by (auto simp: json_scalar_def reads_def value_start_def json_word_def)
next
  case (VBool b)
  then show ?thesis using w by (cases b) (auto simp: json_scalar_def reads_def value_start_def json_word_def)
next
  case (VInteger i)
  have e: "shortest eng (f64_of_int (sint i)) = int_to_string (sint i)"
    using l v by (simp add: engine_laws_def integer_law_def VInteger)
  have s: "nat \<bar>sint i\<bar> \<le> safe" using v by (simp add: VInteger)
  note t = token_start [OF canonical_decimal_digits [of "nat \<bar>sint i\<bar>"], of "sint i < 0" "[]", folded append_assoc,
    unfolded append_Nil2, folded int_to_string_text]
  obtain c q where "int_to_string (sint i) = c # q" "c = CHR ''-'' \<or> is_digit c" using t(2) by blast
  then have "reads (json_value eng lim n (Suc k)) v (int_to_string (sint i))"
    using integer_reads [OF s] t(1) number_dispatch [OF t(1)] by (simp add: reads_def VInteger)
  then show ?thesis using w s by (auto simp: json_scalar_def VInteger e)
next
  case (VFloat f)
  have f: "wf_float f" "\<not> f64_is_integral (float_get f)" using v by (simp_all add: VFloat)
  have fl: "float_law eng (float_get f)" using l by (simp add: engine_laws_def VFloat)
  obtain negative whole part ex where tk: "shortest eng (float_get f) = sign_text negative @ whole @ part_text part @ exponent_text ex"
    "canonical_decimal whole"
    using fl unfolding float_law_def decimal_token_def by blast
  note t = token_start [OF tk(2), of negative "part_text part @ exponent_text ex", folded tk(1)]
  have nz: "\<not> f64_is_zero (float_get f)"
  proof
    assume "f64_is_zero (float_get f)"
    then have "float_get f = 0" using f(1) by (simp add: wf_float_def)
    then show False using f(2) by (simp add: f64_is_integral_def f64_scale_def f64_significand_def f64_exponent_def)
  qed
  then have nn: "native_number (float_get f) = Ok (VFloat f)"
    using f by (cases f) (auto simp: native_number_def wf_float_def finite_float_new_def)
  obtain c q where "shortest eng (float_get f) = c # q" "c = CHR ''-'' \<or> is_digit c" using t(2) by blast
  then have "reads (json_value eng lim n (Suc k)) v (shortest eng (float_get f))"
    using float_reads [OF fl nn] t(1) number_dispatch [OF t(1)] by (simp add: reads_def VFloat)
  then show ?thesis using w nn by (auto simp: json_scalar_def VFloat)
next
  case (VText s)
  have sl: "string_law eng" "utf8_valid s" using l v by (simp_all add: engine_laws_def VText)
  obtain q where q: "quote eng s = CHR 0x22 # q" using quote_start(2) [OF sl] by blast
  have a: "json_append lim (quote eng s) out = Ok out'" using w by (simp add: json_scalar_def VText)
  then have "length (quote eng s) \<le> max_document_bytes lim" by simp
  note sr = json_string_reads [OF sl this, of n] 
  have "reads (json_value eng lim n (Suc k)) v (quote eng s)"
    unfolding reads_def using sr u quote_start(1) [OF sl] q by (simp add: VText usize_limits_def)
  then show ?thesis using a by auto
qed (use w v in \<open>simp_all add: json_scalar_def\<close>)

lemma engine_laws_parts:
  "engine_laws eng (VArray vs) \<Longrightarrow> x \<in> set vs \<Longrightarrow> engine_laws eng x"
  "engine_laws eng (VMap m) \<Longrightarrow> p \<in> set m \<Longrightarrow> engine_laws eng (snd p)"
  by (auto simp: engine_laws_def)

lemma write_reads:
  assumes "json_write eng lim room v out = Ok out'" "json_normal v" "engine_laws eng v" "usize_limits lim"
  shows "\<exists>w. out' = out @ w \<and> reads (json_value eng lim n room) v w"
  using assms
proof (induction v arbitrary: room out out' rule: measure_induct_rule [where f = size])
  case (less v)
  have room: "\<exists>k. room = Suc k" using less.prems(1) by (cases v; cases room) auto
  then obtain k where k: "room = Suc k" by blast
  show ?case
  proof (cases v)
    case (VArray vs)
    obtain out2 where out: "out' = out2 @ '']''"
      and run: "fold_result (\<lambda>(i, x) o1. attempt (json_comma lim i o1) (json_write eng lim k x)) (enumerate 0 vs) (out @ ''['') = Ok out2"
      using less.prems(1) by (auto simp: VArray k)
    have step: "\<exists>w. o2 = o1 @ w \<and> reads (json_value eng lim n k) x w" if "x \<in> set vs" "json_write eng lim k x o1 = Ok o2" for x o1 o2
      using that less.prems engine_laws_parts(1) by (intro less.IH) (auto simp: VArray size_list_estimation less_Suc_eq_le size_list_estimation')
    obtain w where w: "out2 = (out @ ''['') @ w" "\<And>r. json_list (json_value eng lim n k) n (CHR ''['' # w @ CHR '']'' # r) = Ok (VArray vs, r)"
      using list_reads [OF step run, of n] by auto
    show ?thesis
      by (intro exI [of _ "CHR ''['' # w @ '']''"]) (use w in \<open>auto simp: VArray out k reads_def value_start_def\<close>)
  next
    case (VMap m)
    define wr where "wr = (\<lambda>p o2. attempt (json_enter lim k) (\<lambda>_. attempt (json_append lim (quote eng (fst p)) o2) (\<lambda>o3.
        attempt (json_append lim '':'' o3) (json_write eng lim k (snd p)))))"
    obtain out2 where out: "out' = out2 @ ''}''"
      and run: "fold_result (\<lambda>(i, p) o1. attempt (json_comma lim i o1) (wr p)) (enumerate 0 (utf16_sorted m)) (out @ ''{'') = Ok out2"
      using less.prems(1) by (auto simp: VMap k wr_def split_def)
    have step: "\<exists>w. o2 = o1 @ w \<and> entry_reads eng lim n (json_value eng lim n k) p w" if p: "p \<in> set m" "wr p o1 = Ok o2" for p o1 o2
    proof -
      have sl: "string_law eng" "utf8_valid (fst p)" using p(1) less.prems(2,3) by (auto simp: VMap engine_laws_def)
      obtain o3 where o3: "o3 = o1 @ quote eng (fst p) @ '':''" "json_write eng lim k (snd p) o3 = Ok o2"
        and len: "length (quote eng (fst p)) \<le> max_document_bytes lim"
        using p(2) by (auto simp: wr_def)
      have "\<exists>w. o2 = o3 @ w \<and> reads (json_value eng lim n k) (snd p) w"
      proof (rule less.IH [OF _ o3(2)])
        show "size (snd p) < size v"
          using size_list_estimation' [OF p(1), of "size (snd p)" "size_prod (\<lambda>b. 0) size"] by (cases p) (simp add: VMap)
      qed (use p(1) less.prems(2-4) engine_laws_parts(2) in \<open>auto simp: VMap\<close>)
      then obtain w where w: "o2 = o3 @ w" "reads (json_value eng lim n k) (snd p) w" by blast
      have "entry_reads eng lim n (json_value eng lim n k) p (quote eng (fst p) @ CHR '':'' # w)"
        using quote_start(1) [OF sl] json_string_reads [OF sl len] less.prems(4) w(2)
        by (auto simp: entry_reads_def usize_limits_def)
      then show ?thesis using w(1) o3(1) by auto
    qed
    have ne: "k \<noteq> 0" if some: "m \<noteq> []"
    proof -
      obtain p ps where "utf16_sorted m = p # ps" using some by (cases "utf16_sorted m") (auto simp: utf16_sorted_def dest: arg_cong [where f = set])
      then show ?thesis using run by (auto simp: wr_def)
    qed
    obtain w where w: "out2 = (out @ ''{'') @ w"
        "\<And>r. json_object eng lim k (json_value eng lim n k) n (CHR ''{'' # w @ CHR ''}'' # r) = Ok (VMap m, r)"
      using object_reads [OF step run ne] less.prems(2) by (auto simp: VMap)
    show ?thesis
      by (intro exI [of _ "CHR ''{'' # w @ ''}''"]) (use w in \<open>auto simp: VMap out k reads_def value_start_def\<close>)
  qed (use less.prems(1) scalar_reads [OF _ less.prems(2-4), of out out' n k] k in \<open>auto simp del: json_value.simps\<close>)
qed

section \<open>Parsed values\<close>

lemma json_string_utf8: "json_string eng lim n r = Ok (s, r') \<Longrightarrow> string_law eng \<Longrightarrow> utf8_valid s"
  by (auto simp: json_string_def string_law_def Let_def)

lemma native_number_normal: "native_number x = Ok v \<Longrightarrow> json_normal v"
proof (cases "f64_is_integral x")
  case True
  assume "native_number x = Ok v"
  then have v: "v = VInteger (word_of_int (f64_to_int x))" "f64_integral_abs x \<le> safe"
    using True by (auto simp: native_number_def split: if_splits)
  then have "\<bar>f64_to_int x\<bar> \<le> int safe" by (auto simp: f64_to_int_def)
  then have "sint (word_of_int (f64_to_int x) :: i64) = f64_to_int x"
    by (simp add: safe_def signed_of_int signed_take_bit_int_eq_self)
  then show ?thesis using v(2) by (simp add: v(1) f64_to_int_def)
next
  case False
  assume a: "native_number x = Ok v"
  then obtain f where f: "v = VFloat f" "finite_float_new x = Ok f" using False by (auto simp: native_number_def split: if_splits)
  have "\<not> f64_is_zero x"
  proof
    assume z: "f64_is_zero x"
    have "take_bit 52 x = take_bit 52 (take_bit 63 x)" by simp
    also have "\<dots> = 0" using z by (simp only: f64_is_zero_def take_bit_of_0)
    finally have "take_bit 52 x = 0" .
    have "take_bit 11 (drop_bit 52 x) = take_bit 11 (drop_bit 52 (take_bit 63 x))" by (simp add: drop_bit_take_bit)
    also have "\<dots> = 0" using z by (simp only: f64_is_zero_def drop_bit_of_0 take_bit_of_0)
    finally have "f64_exponent x = 0" by (simp add: f64_exponent_def)
    with \<open>take_bit 52 x = 0\<close> show False using False by (simp add: f64_is_integral_def f64_significand_def)
  qed
  then show ?thesis
    using f False finite_float_new_wf [OF f(2)] by (auto simp: finite_float_new_def split: if_splits)
qed

lemma json_number_normal: "json_number n r = Ok (v, r') \<Longrightarrow> json_normal v"
  by (auto simp: json_number_def dest: native_number_normal)

lemma json_items_normal:
  assumes "\<And>r v r'. member r = Ok (v, r') \<Longrightarrow> json_normal v"
  shows "json_items member n fuel acc r = Ok (vs, r') \<Longrightarrow> \<forall>v \<in> set acc. json_normal v \<Longrightarrow> \<forall>v \<in> set vs. json_normal v"
proof (induction fuel arbitrary: acc r)
  case (Suc fuel)
  then show ?case using assms by (fastforce simp: json_items_Suc items_rest_def split: if_splits)
qed simp

lemma json_fields_normal:
  assumes "\<And>r v r'. member r = Ok (v, r') \<Longrightarrow> json_normal v" "string_law eng"
  shows "json_fields eng lim room member n fuel acc r = Ok (m, r') \<Longrightarrow>
    \<forall>p \<in> set acc. utf8_valid (fst p) \<and> json_normal (snd p) \<Longrightarrow> \<forall>p \<in> set m. utf8_valid (fst p) \<and> json_normal (snd p)"
proof (induction fuel arbitrary: acc r)
  case (Suc fuel)
  from Suc.prems(1) obtain k r1 r2 v r3 where
    k: "json_string eng lim n (space r) = Ok (k, r1)" "member r2 = Ok (v, r3)" and
    rest: "(if take 1 (space r3) = ''}'' then Ok (insort_key fst (k, v) acc, drop 1 (space r3))
       else attempt (eat n (CHR '','') (space r3)) (json_fields eng lim room member n fuel (insort_key fst (k, v) acc))) = Ok (m, r')"
    by (auto simp: json_fields.simps(2) Let_def split: if_splits)
  have "\<forall>p \<in> set (insort_key fst (k, v) acc). utf8_valid (fst p) \<and> json_normal (snd p)"
    using Suc.prems(2) assms(1) [OF k(2)] json_string_utf8 [OF k(1) assms(2)] by (simp add: set_insort_key)
  then show ?case using rest Suc.IH by (auto split: if_splits)
qed simp

lemma json_value_normal:
  assumes "string_law eng"
  shows "json_value eng lim n room r = Ok (v, r') \<Longrightarrow> json_normal v"
proof (induction room arbitrary: r v r')
  case (Suc room)
  note items = json_items_normal [of "json_value eng lim n room", OF Suc.IH]
    and fields = json_fields_normal [of "json_value eng lim n room", OF Suc.IH assms]
  have l: "json_normal v" if "json_list (json_value eng lim n room) n s = Ok (v, r')" for s
    using that items [where acc = "[]"] by (auto simp: json_list_def Let_def split: if_splits)
  have o: "json_normal v" if "json_object eng lim room (json_value eng lim n room) n s = Ok (v, r')" for s
    using that fields [where acc = "[]"] map_try_from_entries_canonical map_try_from_entries_set
    by (auto simp: json_object_def Let_def split: if_splits)
  have "(\<exists>t r1. json_string eng lim n (space r) = Ok (t, r1) \<and> v = VText t) \<or>
      json_list (json_value eng lim n room) n (space r) = Ok (v, r') \<or>
      json_object eng lim room (json_value eng lim n room) n (space r) = Ok (v, r') \<or>
      v = VBool True \<or> v = VBool False \<or> v = VNull \<or> json_number n (space r) = Ok (v, r')"
  proof (cases "space r")
    case Nil
    then show ?thesis using Suc.prems by (simp add: syntax_at_def)
  next
    case (Cons c q)
    then show ?thesis using Suc.prems by (simp add: Let_def syntax_at_def split: if_splits; blast)
  qed
  then show ?case using l o json_string_utf8 [OF _ assms] json_number_normal by (elim disjE exE conjE) auto
qed (simp add: json_enter_def)

section \<open>Written documents are UTF-8\<close>

lemma fold_result_invariant:
  "fold_result f xs s = Ok t \<Longrightarrow> I s \<Longrightarrow> (\<And>x s s'. x \<in> set xs \<Longrightarrow> I s \<Longrightarrow> f x s = Ok s' \<Longrightarrow> I s') \<Longrightarrow> I t"
proof (induction xs arbitrary: s)
  case (Cons x xs)
  then obtain u where "f x s = Ok u" "fold_result f xs u = Ok t" by auto
  then show ?case using Cons.IH [of u] Cons.prems(2,3) by (metis list.set_intros)
qed simp

lemma decimal_token_utf8: "decimal_token t \<Longrightarrow> utf8_valid t"
proof -
  assume "decimal_token t"
  then obtain negative whole part ex where t: "t = sign_text negative @ whole @ part_text part @ exponent_text ex"
    and c: "canonical_decimal whole" "list_all is_digit part"
    unfolding decimal_token_def by blast
  have d: "(of_char c :: nat) < 0x80" if "is_digit c" for c using that by (simp add: is_digit_def)
  have "\<forall>c \<in> set t. (of_char c :: nat) < 0x80"
    using c d dec_digits_digits [of _ ex] by (auto simp: t canonical_decimal_def list_all_iff split: if_splits)
  then show ?thesis by (rule utf8_valid_ascii)
qed

lemma int_to_string_utf8: "utf8_valid (int_to_string i)"
  using dec_digits_digits by (intro utf8_valid_ascii) (fastforce simp: int_to_string_text is_digit_def)

lemma utf8_literals [simp]:
  "utf8_valid ''[''" "utf8_valid '']''" "utf8_valid ''{''" "utf8_valid ''}''" "utf8_valid '',''" "utf8_valid '':''"
  "utf8_valid ''null''" "utf8_valid ''true''" "utf8_valid ''false''"
  by simp_all

lemma append_utf8: "json_append lim b out = Ok out1 \<Longrightarrow> utf8_valid out \<Longrightarrow> utf8_valid b \<Longrightarrow> utf8_valid out1"
  by (simp add: utf8_valid_append)

lemma comma_utf8: "json_comma lim i out = Ok out1 \<Longrightarrow> utf8_valid out \<Longrightarrow> utf8_valid out1"
  by (auto dest!: json_comma_Ok simp: utf8_valid_append)

lemma scalar_utf8:
  assumes "json_scalar eng lim v out = Ok out'" "engine_laws eng v" "json_normal v" "utf8_valid out"
  shows "utf8_valid out'"
proof -
  have t: "utf8_valid (quote eng s)" if "v = VText s" for s using assms(2,3) that by (simp add: engine_laws_def string_law_def)
  have i: "utf8_valid (shortest eng (f64_of_int (sint k)))" if "v = VInteger k" for k
    using assms(2,3) that by (simp add: engine_laws_def integer_law_def int_to_string_utf8)
  have f: "utf8_valid (shortest eng (float_get x))" if "v = VFloat x" for x
    using assms(2) that by (simp add: engine_laws_def float_law_def decimal_token_utf8)
  show ?thesis
    using assms(1,4) t i f by (auto simp: json_scalar_def utf8_valid_append split: value_splits bool.splits if_splits)
qed

lemma write_utf8:
  assumes "json_write eng lim room v out = Ok out'" "engine_laws eng v" "json_normal v" "utf8_valid out"
  shows "utf8_valid out'"
  using assms
proof (induction v arbitrary: room out out' rule: measure_induct_rule [where f = size])
  case (less v)
  show ?case
  proof (cases v)
    case (VArray vs)
    obtain out2 where out: "out' = out2 @ '']''"
      and run: "fold_result (\<lambda>(i, x) o1. attempt (json_comma lim i o1) (json_write eng lim (room - 1) x)) (enumerate 0 vs) (out @ ''['') = Ok out2"
      using less.prems(1) by (auto simp: VArray)
    have "utf8_valid out2"
    proof (rule fold_result_invariant [OF run])
      show "utf8_valid (out @ ''['')" using less.prems(4) by (simp add: utf8_valid_append)
      fix p s s'
      assume a: "p \<in> set (enumerate 0 vs)" "utf8_valid s"
        "(\<lambda>(i, x) o1. attempt (json_comma lim i o1) (json_write eng lim (room - 1) x)) p s = Ok s'"
      obtain i x where p: "p = (i, x)" by (cases p)
      have x: "x \<in> set vs" "size x < size v" using a(1) p enumerate_size [of i x 0 vs] by (auto simp: VArray in_set_enumerate_eq)
      obtain s1 where "json_comma lim i s = Ok s1" "json_write eng lim (room - 1) x s1 = Ok s'" using a(3) p by auto
      then show "utf8_valid s'"
        using less.IH [OF x(2)] comma_utf8 a(2) x(1) less.prems(2,3) engine_laws_parts(1) [of eng vs x] by (auto simp: VArray)
    qed
    then show ?thesis by (simp add: out utf8_valid_append)
  next
    case (VMap m)
    obtain out2 where out: "out' = out2 @ ''}''"
      and run: "fold_result (\<lambda>(i, k, x) o1. attempt (json_comma lim i o1) (\<lambda>o2. attempt (json_enter lim (room - 1)) (\<lambda>_.
         attempt (json_append lim (quote eng k) o2) (\<lambda>o3. attempt (json_append lim '':'' o3) (json_write eng lim (room - 1) x)))))
         (enumerate 0 (utf16_sorted m)) (out @ ''{'') = Ok out2"
      using less.prems(1) by (auto simp: VMap)
    have "utf8_valid out2"
    proof (rule fold_result_invariant [OF run])
      show "utf8_valid (out @ ''{'')" using less.prems(4) by (simp add: utf8_valid_append)
      fix p s s'
      assume a: "p \<in> set (enumerate 0 (utf16_sorted m))" "utf8_valid s"
        "(\<lambda>(i, k, x) o1. attempt (json_comma lim i o1) (\<lambda>o2. attempt (json_enter lim (room - 1)) (\<lambda>_.
         attempt (json_append lim (quote eng k) o2) (\<lambda>o3. attempt (json_append lim '':'' o3) (json_write eng lim (room - 1) x))))) p s = Ok s'"
      obtain i k x where p: "p = (i, k, x)" by (cases p)
      have "(k, x) \<in> set (utf16_sorted m)" using a(1) p nth_mem [of i "utf16_sorted m"] by (auto simp: in_set_enumerate_eq)
      then have x: "(k, x) \<in> set m" "size x < size v" using a(1) p entry_size [of i k x 0 m] by (auto simp: VMap utf16_sorted_def)
      obtain s1 where s: "json_comma lim i s = Ok s1" "json_write eng lim (room - 1) x (s1 @ quote eng k @ '':'') = Ok s'"
        using a(3) p by auto
      have "utf8_valid (s1 @ quote eng k @ '':'')"
        using comma_utf8 [OF s(1) a(2)] less.prems(2,3) x(1) by (auto simp: VMap utf8_valid_append engine_laws_def string_law_def)
      then show "utf8_valid s'"
        using less.IH [OF x(2) s(2)] x(1) less.prems(2,3) engine_laws_parts(2) [of eng m "(k, x)"] by (auto simp: VMap)
    qed
    then show ?thesis by (simp add: out utf8_valid_append)
  qed (use less.prems in \<open>auto dest!: scalar_utf8\<close>)
qed

lemma write_length:
  assumes "json_write eng lim room v out = Ok out'"
  shows "length out' \<le> max_document_bytes lim"
  using assms by (cases v) (auto simp: json_scalar_def split: bool.splits if_splits)

lemma json_stable_aux:
  assumes n: "json_new eng lim b = Ok d" and u: "usize_limits lim" and l: "engine_laws eng (json_data d)"
  shows "json_decode eng lim (json_bytes d) = Ok d"
proof -
  obtain r where v: "json_value eng lim (length b) (json_room lim) b = Ok (json_data d, r)"
    and e: "encode_json eng lim (json_data d) = Ok (json_bytes d)"
    and lv: "limits_validate lim = Ok ()"
    using n by (auto simp: json_new_def syntax_at_def split: option.splits if_splits)
  have sl: "string_law eng" using l by (simp add: engine_laws_def)
  have nv: "json_normal (json_data d)" by (rule json_value_normal [OF sl v])
  have w: "json_write eng lim (json_room lim) (json_data d) [] = Ok (json_bytes d)" using e by (simp add: encode_json_def)
  have "utf8_valid (json_bytes d)" by (rule write_utf8 [OF w l nv]) simp
  moreover have "length (json_bytes d) \<le> max_document_bytes lim" by (rule write_length [OF w])
  moreover have R: "reads (json_value eng lim (length (json_bytes d)) (json_room lim)) (json_data d) (json_bytes d)"
    using write_reads [OF w nv l u] by simp
  have "number_ends []" by (simp add: number_ends_def)
  with R have "json_value eng lim (length (json_bytes d)) (json_room lim) (json_bytes d @ []) = Ok (json_data d, [])"
    unfolding reads_def by blast
  then have "json_value eng lim (length (json_bytes d)) (json_room lim) (json_bytes d) = Ok (json_data d, [])"
    by (simp only: append_Nil2)
  ultimately show ?thesis using e lv by (simp add: json_decode_def json_new_def json_check_def)
qed

section \<open>Parsing ends\<close>

lemma space_length: "length (space r) \<le> length r"
  by (simp add: space_def length_dropWhile_le)

lemma eat_length: "eat n b r = Ok r' \<Longrightarrow> length r' < length r"
  using space_length [of r] by (auto simp: eat_def syntax_at_def split: list.splits if_splits)

lemma scan_string_length: "scan_string lim n d r = Ok r' \<Longrightarrow> length r' \<le> length r"
proof (induction lim n d r rule: scan_string.induct)
  case (2 lim n d c r)
  show ?case
  proof (cases "c = CHR 0x22")
    case False
    then obtain k r1 d1 where u: "string_unit n c r = Ok (k, r1)" "json_add d k (max_document_bytes lim) DocumentBytes = Ok d1"
      and s: "scan_string lim n d1 r1 = Ok r'"
      using "2.prems" by (auto split: if_splits)
    show ?thesis using "2.IH" [OF False u(1) refl u(2) s] string_unit_length [OF u(1)] by simp
  qed (use "2.prems" in simp)
qed (simp add: syntax_at_def)

lemma json_string_length: "json_string eng lim n r = Ok (s, r') \<Longrightarrow> length r' < length r"
  using space_length [of r] by (auto simp: json_string_def Let_def dest!: eat_length scan_string_length)

lemma json_mantissa_length: "json_mantissa n r = Ok r' \<Longrightarrow> length r' \<le> length r"
proof -
  assume m: "json_mantissa n r = Ok r'"
  have dw: "length (dropWhile is_digit s) \<le> length s" for s by (rule length_dropWhile_le)
  have dc: "length (dropWhile is_digit s) \<le> Suc (length s)" for s using dw [of s] by simp
  define r1 where "r1 = (case r of c # r' \<Rightarrow> if c = CHR ''-'' then r' else r | [] \<Rightarrow> [])"
  have 1: "length r1 \<le> length r" by (auto simp: r1_def split: list.splits)
  obtain r2 where 2: "(case r1 of [] \<Rightarrow> syntax_at n r1
      | c # r' \<Rightarrow> if c = CHR ''0'' then Ok r' else if is_digit c then Ok (dropWhile is_digit r1) else syntax_at n r1) = Ok r2"
    and 3: "(case r2 of c # r3 \<Rightarrow> if c = CHR ''.'' then (if dropWhile is_digit r3 = r3 then syntax_at n (dropWhile is_digit r3)
        else Ok (dropWhile is_digit r3)) else Ok r2 | [] \<Rightarrow> Ok r2) = Ok r'"
    using m unfolding json_mantissa_def Let_def r1_def [symmetric] attempt_eq_Ok by blast
  have "length r2 \<le> length r1" using 2 dw [of r1] by (auto simp: syntax_at_def split: list.splits if_splits)
  moreover have "length r' \<le> length r2"
    using 3 dc [of "tl r2"] by (auto simp: syntax_at_def Let_def split: list.splits if_splits)
  ultimately show ?thesis using 1 by simp
qed

lemma sign_split_length: "sign_split s = (b, r) \<Longrightarrow> length r \<le> length s"
  by (auto simp: sign_split_def split: list.splits if_splits)

lemma json_exponent_length: "json_exponent n r = Ok (e, r') \<Longrightarrow> length r' \<le> length r"
proof (cases r)
  case (Cons c q)
  assume e: "json_exponent n r = Ok (e, r')"
  obtain b s where s: "sign_split q = (b, s)" by fastforce
  show ?thesis
    using e sign_split_length [OF s] length_dropWhile_le [of is_digit s]
    by (auto simp: json_exponent_def Cons s Let_def syntax_at_def split: if_splits)
qed (simp add: json_exponent_def)

lemma json_number_length: "json_number n r = Ok (v, r') \<Longrightarrow> length r' \<le> length r"
  by (auto simp: json_number_def simp del: not_None_eq dest!: json_mantissa_length json_exponent_length)

lemma json_word_length: "json_word n w r = Ok r' \<Longrightarrow> length r' \<le> length r"
  by (auto simp: json_word_def syntax_at_def split: if_splits)

lemma json_items_length:
  assumes "\<And>r v r'. member r = Ok (v, r') \<Longrightarrow> length r' \<le> length r"
  shows "json_items member n fuel acc r = Ok (vs, r') \<Longrightarrow> length r' \<le> length r"
proof (induction fuel arbitrary: acc r)
  case (Suc fuel)
  from Suc.prems obtain v r1 where m: "member r = Ok (v, r1)" "items_rest member n fuel (acc @ [v]) (space r1) = Ok (vs, r')"
    by (auto simp: json_items_Suc)
  have "length r' \<le> length (space r1)"
    using m(2) Suc.IH by (fastforce simp: items_rest_def split: if_splits dest: eat_length)
  then show ?case using assms [OF m(1)] space_length [of r1] by simp
qed simp

lemma json_items_ends:
  assumes "\<And>r v r'. member r = Ok (v, r') \<Longrightarrow> length r' \<le> length r" "\<And>r. member r \<noteq> Panic"
  shows "length r < fuel \<Longrightarrow> json_items member n fuel acc r \<noteq> Panic"
proof (induction fuel arbitrary: acc r)
  case (Suc fuel)
  have "items_rest member n fuel (acc @ [v]) (space r1) \<noteq> Panic" if m: "member r = Ok (v, r1)" for v r1
  proof -
    have "length (space r1) \<le> length r" using assms(1) [OF m] space_length [of r1] by simp
    then have "json_items member n fuel (acc @ [v]) r2 \<noteq> Panic" if e: "eat n (CHR '','') (space r1) = Ok r2" for r2
      using eat_length [OF e] Suc.prems by (intro Suc.IH) simp
    moreover have "eat n (CHR '','') (space r1) \<noteq> Panic" by (auto simp: eat_def syntax_at_def split: list.splits)
    ultimately show ?thesis by (auto simp: items_rest_def attempt_eq_Panic)
  qed
  then show ?case using assms(2) [of r] by (auto simp: json_items_Suc attempt_eq_Panic)
qed simp

lemma json_fields_length:
  assumes "\<And>r v r'. member r = Ok (v, r') \<Longrightarrow> length r' \<le> length r"
  shows "json_fields eng lim room member n fuel acc r = Ok (m, r') \<Longrightarrow> length r' \<le> length r"
proof (induction fuel arbitrary: acc r)
  case (Suc fuel)
  from Suc.prems obtain k r1 r2 v r3 acc1 where
    k: "json_string eng lim n (space r) = Ok (k, r1)" "eat n (CHR '':'') r1 = Ok r2" "member r2 = Ok (v, r3)" and
    rest: "fields_rest eng lim room member n fuel acc1 (space r3) = Ok (m, r')"
    by (auto simp: json_fields_Suc split: if_splits)
  have "length r' \<le> length (space r3)"
    using rest Suc.IH by (fastforce simp: fields_rest_def split: if_splits dest: eat_length)
  then show ?case
    using space_length [of r3] assms [OF k(3)] eat_length [OF k(2)] json_string_length [OF k(1)] space_length [of r] by simp
qed simp

lemma syntax_not_Panic [simp]: "syntax_at n r \<noteq> Panic"
  by (simp add: syntax_at_def)

lemma json_add_not_Panic [simp]: "json_add a b m k \<noteq> Panic" "json_check n m k \<noteq> Panic" "json_enter lim room \<noteq> Panic"
  by (auto simp: json_add_def json_check_def json_enter_def attempt_eq_Panic)

lemma eat_not_Panic [simp]: "eat n b r \<noteq> Panic"
  by (auto simp: eat_def split: list.splits)

lemma hex_digits_not_Panic [simp]: "hex_digits n k acc r \<noteq> Panic"
  by (induction n k acc r rule: hex_digits.induct) (auto split: list.splits option.splits)

lemma string_unit_not_Panic [simp]: "string_unit n c r \<noteq> Panic"
  by (auto simp: string_unit_def unicode_escape_def hex4_def attempt_eq_Panic split: list.splits)

lemma scan_string_not_Panic [simp]: "scan_string lim n d r \<noteq> Panic"
  by (induction lim n d r rule: scan_string.induct) (auto simp: attempt_eq_Panic)

lemma json_string_not_Panic [simp]: "json_string eng lim n r \<noteq> Panic"
  by (auto simp: json_string_def Let_def attempt_eq_Panic)

lemma native_number_not_Panic [simp]: "native_number x \<noteq> Panic"
  by (auto simp: native_number_def attempt_eq_Panic finite_float_new_def)

lemma json_number_not_Panic [simp]: "json_number n r \<noteq> Panic"
proof -
  have "json_mantissa n s \<noteq> Panic" for s by (auto simp: json_mantissa_def Let_def attempt_eq_Panic split: list.splits)
  moreover have "json_exponent n s \<noteq> Panic" for s by (auto simp: json_exponent_def Let_def split: list.splits prod.splits)
  moreover have "check_integral_token t e \<noteq> Panic" for t e unfolding check_integral_token_pad Let_def by simp
  ultimately show ?thesis by (auto simp: json_number_def attempt_eq_Panic dest: number_ascii)
qed

lemma json_word_not_Panic [simp]: "json_word n w r \<noteq> Panic"
  by (simp add: json_word_def)

lemma json_fields_ends:
  assumes "\<And>r v r'. member r = Ok (v, r') \<Longrightarrow> length r' \<le> length r" "\<And>r. member r \<noteq> Panic"
  shows "length r < fuel \<Longrightarrow> json_fields eng lim room member n fuel acc r \<noteq> Panic"
proof (induction fuel arbitrary: acc r)
  case (Suc fuel)
  have "fields_rest eng lim room member n fuel acc1 (space r3) \<noteq> Panic"
    if m: "json_string eng lim n (space r) = Ok (k, r1)" "eat n (CHR '':'') r1 = Ok r2" "member r2 = Ok (v, r3)" for k r1 r2 v r3 acc1
  proof -
    have "length (space r3) \<le> length r"
      using assms(1) [OF m(3)] space_length [of r3] space_length [of r] eat_length [OF m(2)] json_string_length [OF m(1)] by simp
    then have "json_fields eng lim room member n fuel acc1 r4 \<noteq> Panic" if e: "eat n (CHR '','') (space r3) = Ok r4" for r4
      using eat_length [OF e] Suc.prems by (intro Suc.IH) simp
    then show ?thesis by (auto simp: fields_rest_def attempt_eq_Panic)
  qed
  then show ?case using assms(2) by (auto simp: json_fields_Suc attempt_eq_Panic split: if_splits)
qed simp

lemma json_value_ends:
  "json_value eng lim n room r \<noteq> Panic \<and> (json_value eng lim n room r = Ok (v, r') \<longrightarrow> length r' \<le> length r)"
proof (induction room arbitrary: r v r')
  case (Suc room)
  let ?m = "json_value eng lim n room"
  have m: "\<And>r v r'. ?m r = Ok (v, r') \<Longrightarrow> length r' \<le> length r" "\<And>r. ?m r \<noteq> Panic" using Suc.IH by blast+
  have l: "json_list ?m n s \<noteq> Panic" for s
    using json_items_ends [OF m] by (auto simp: json_list_def Let_def attempt_eq_Panic)
  have l2: "length r' \<le> length s" if j: "json_list ?m n s = Ok (v, r')" for s v r'
  proof -
    obtain r1 where e: "eat n (CHR ''['') s = Ok r1" using j by (auto simp: json_list_def)
    have "length r' \<le> length (space r1)"
      using j e json_items_length [OF m(1)] by (auto simp: json_list_def Let_def split: if_splits)
    then show ?thesis using eat_length [OF e] space_length [of r1] by simp
  qed
  have o: "json_object eng lim room ?m n s \<noteq> Panic" for s
    using json_fields_ends [OF m] by (auto simp: json_object_def Let_def attempt_eq_Panic)
  have o2: "length r' \<le> length s" if j: "json_object eng lim room ?m n s = Ok (v, r')" for s v r'
  proof -
    obtain r1 where e: "eat n (CHR ''{'') s = Ok r1" using j by (auto simp: json_object_def)
    have "length r' \<le> length (space r1)"
      using j e json_fields_length [OF m(1)] by (auto simp: json_object_def Let_def split: if_splits)
    then show ?thesis using eat_length [OF e] space_length [of r1] by simp
  qed
  show ?case
  proof (cases "space r")
    case Nil
    then show ?thesis by (simp add: syntax_at_def)
  next
    case (Cons c q)
    have len: "length (c # q) \<le> length r" using space_length [of r] Cons by simp
    have p: "json_value eng lim n (Suc room) r \<noteq> Panic"
      using l [of "c # q"] o [of "c # q"] by (auto simp: Cons Let_def attempt_eq_Panic)
    have "length r' \<le> length (c # q)" if j: "json_value eng lim n (Suc room) r = Ok (v, r')"
      using j json_string_length [of eng lim n "c # q" _ r'] json_word_length [of n _ "c # q" r'] json_number_length [of n "c # q" v r']
        l2 [of "c # q" v r'] o2 [of "c # q" v r']
      by (auto simp: Cons Let_def syntax_at_def split: if_splits)
    then show ?thesis using p len by auto
  qed
qed (simp add: json_enter_def)

section \<open>Writing ends\<close>

lemma fold_result_not_Panic: "(\<And>x s. x \<in> set xs \<Longrightarrow> f x s \<noteq> Panic) \<Longrightarrow> fold_result f xs s \<noteq> Panic"
  by (induction xs arbitrary: s) (auto simp: attempt_eq_Panic)

lemma json_append_not_Panic [simp]: "json_append lim b out \<noteq> Panic" "json_comma lim i out \<noteq> Panic"
  by (auto simp: json_append_def json_comma_def attempt_eq_Panic)

lemma json_scalar_not_Panic: "json_scalar eng lim v out \<noteq> Panic"
  by (auto simp: json_scalar_def attempt_eq_Panic split: value_splits bool.splits)

lemma json_write_ends: "json_write eng lim room v out \<noteq> Panic"
proof (induction v arbitrary: room out rule: measure_induct_rule [where f = size])
  case (less v)
  show ?case
  proof (cases v)
    case (VArray vs)
    have "fold_result (\<lambda>(i, x) o1. attempt (json_comma lim i o1) (json_write eng lim (room - 1) x)) (enumerate 0 vs) out1 \<noteq> Panic"
      for out1
      using less.IH enumerate_size by (intro fold_result_not_Panic) (force simp: VArray attempt_eq_Panic)
    then show ?thesis by (auto simp: VArray attempt_eq_Panic)
  next
    case (VMap m)
    have "fold_result (\<lambda>(i, k, x) o1. attempt (json_comma lim i o1) (\<lambda>o2. attempt (json_enter lim (room - 1)) (\<lambda>_.
         attempt (json_append lim (quote eng k) o2) (\<lambda>o3. attempt (json_append lim '':'' o3) (json_write eng lim (room - 1) x)))))
         (enumerate 0 (utf16_sorted m)) out1 \<noteq> Panic" for out1
      using less.IH entry_size by (intro fold_result_not_Panic) (force simp: VMap attempt_eq_Panic)
    then show ?thesis by (auto simp: VMap attempt_eq_Panic)
  qed (auto simp: attempt_eq_Panic json_scalar_not_Panic)
qed

lemma encode_json_ends: "encode_json eng lim v \<noteq> Panic"
  by (auto simp: encode_json_def attempt_eq_Panic json_write_ends)

lemma json_new_ends: "json_new eng lim b \<noteq> Panic"
  using json_value_ends encode_json_ends by (auto simp: json_new_def attempt_eq_Panic split: option.splits)

section \<open>A reference engine\<close>

definition hex_char :: "nat \<Rightarrow> byte" where
  "hex_char d = char_of (if d < 10 then 48 + d else 87 + d)"

definition escape_byte :: "byte \<Rightarrow> bytes" where
  "escape_byte c =
     (let k = (of_char c :: nat) in
      if k < 32 then [CHR 0x5C, CHR ''u'', CHR ''0'', CHR ''0'', hex_char (k div 16), hex_char (k mod 16)]
      else if c = CHR 0x22 \<or> c = CHR 0x5C then [CHR 0x5C, c] else [c])"

definition reference_quote :: "bytes \<Rightarrow> bytes" where
  "reference_quote s = CHR 0x22 # concat (map escape_byte s) @ [CHR 0x22]"

fun unescape :: "bytes \<Rightarrow> bytes option" where
  "unescape [] = None"
| "unescape (c # r) =
     (if c = CHR 0x22 then (if r = [] then Some [] else None)
      else if c = CHR 0x5C then
        (case r of
           d # r1 \<Rightarrow>
             if d = CHR ''u'' then
               (case r1 of
                  a # b # h # l # r2 \<Rightarrow>
                    (case (hex_digit h, hex_digit l) of
                       (Some i, Some j) \<Rightarrow> map_option ((#) (char_of (16 * i + j))) (unescape r2)
                     | _ \<Rightarrow> None)
                | _ \<Rightarrow> None)
             else map_option ((#) d) (unescape r1)
         | [] \<Rightarrow> None)
      else map_option ((#) c) (unescape r))"

definition reference_unquote :: "bytes \<Rightarrow> bytes option" where
  "reference_unquote t =
     (case t of c # r \<Rightarrow> (case unescape r of Some s \<Rightarrow> if utf8_valid s then Some s else None | None \<Rightarrow> None) | [] \<Rightarrow> None)"

definition reference_json :: json_engine where
  "reference_json =
     \<lparr>unquote = reference_unquote, quote = reference_quote,
      shortest = (\<lambda>x. if f64_is_integral x then int_to_string (f64_to_int x) else ''1.5'')\<rparr>"

lemma hex_char_digit: "d < 16 \<Longrightarrow> hex_digit (hex_char d) = Some d"
  by (auto simp: hex_char_def hex_digit_def Let_def)

lemma hex_char_01: "hex_char 0 = CHR ''0''" "hex_char 1 = CHR ''1''"
  by code_simp+

lemma unescape_escaped: "unescape (escape_byte c @ r) = map_option ((#) c) (unescape r)"
proof -
  have "(of_char c :: nat) < 32 \<Longrightarrow> (of_char c :: nat) div 16 < 16" by simp
  then show ?thesis
    by (auto simp: escape_byte_def Let_def hex_char_digit)
qed

lemma unescape_quote: "unescape (concat (map escape_byte s) @ [CHR 0x22]) = Some s"
  by (induction s) (simp_all add: unescape_escaped del: unescape.simps(2), simp)

lemma escape_literal: "literal_unit (escape_byte c)"
proof -
  consider (control) "(of_char c :: nat) < 32" | (short) "31 < (of_char c :: nat)" "c = CHR 0x22 \<or> c = CHR 0x5C"
    | (raw) "31 < (of_char c :: nat)" "c \<noteq> CHR 0x22" "c \<noteq> CHR 0x5C" by linarith
  then show ?thesis
  proof cases
    case control
    then have "(of_char c :: nat) div 16 = 0 \<or> (of_char c :: nat) div 16 = 1" by auto
    then have "hex_char (of_char c div 16) = CHR ''0'' \<or> hex_char (of_char c div 16) = CHR ''1''" using hex_char_01 by auto
    then show ?thesis using control by (auto simp: escape_byte_def Let_def hex_char_digit intro!: literal_unit.control)
  next
    case short
    then show ?thesis using literal_unit.short [of c] by (auto simp: escape_byte_def Let_def)
  next
    case raw
    then show ?thesis using literal_unit.raw [of c] by (simp add: escape_byte_def Let_def)
  qed
qed

lemma escape_ascii: "(of_char c :: nat) < 0x80 \<Longrightarrow> utf8_valid (escape_byte c)"
proof (rule utf8_valid_ascii)
  assume c: "(of_char c :: nat) < 0x80"
  have "(of_char (hex_char d) :: nat) < 0x80" if "d < 16" for d using that by (simp add: hex_char_def)
  then show "\<forall>b \<in> set (escape_byte c). (of_char b :: nat) < 0x80" using c by (auto simp: escape_byte_def Let_def)
qed

lemma escape_high: "0x80 \<le> (of_char c :: nat) \<Longrightarrow> escape_byte c = [c]"
  by (auto simp: escape_byte_def Let_def)

lemma escape_utf8: "utf8_valid s \<Longrightarrow> utf8_valid (concat (map escape_byte s))"
proof (induction s rule: utf8_error_at.induct)
  case (2 a r)
  show ?case
  proof (cases "(of_char a :: nat) < 0x80")
    case True
    then have "utf8_valid r" using "2.prems" by simp
    then show ?thesis using "2.IH"(1) [OF refl] True escape_ascii [OF True] by (simp add: utf8_valid_append)
  next
    case False
    have h: "continuation b \<Longrightarrow> escape_byte b = [b]" "second_of_three n b \<Longrightarrow> escape_byte b = [b]"
      "second_of_four n b \<Longrightarrow> escape_byte b = [b]" for n b
      by (auto simp: continuation_def second_of_three_def second_of_four_def intro: escape_high)
    show ?thesis
      using False 2 by (auto simp: utf8_error_at.simps(2) [of a] Let_def h escape_high split: if_splits list.splits)
  qed
qed simp

lemma reference_strings: "string_law reference_json"
proof -
  have "string_literal s (reference_quote s)" for s
    unfolding string_literal_def reference_quote_def
    by (intro exI [of _ "map escape_byte s"]) (auto simp: escape_literal)
  moreover have "utf8_valid (reference_quote s)" if "utf8_valid s" for s
    using escape_utf8 [OF that] by (simp add: reference_quote_def utf8_valid_append)
  moreover have "reference_unquote (reference_quote s) = Some s" if "utf8_valid s" for s
    using that by (simp add: reference_unquote_def reference_quote_def unescape_quote)
  moreover have "utf8_valid s" if "reference_unquote t = Some s" for t s
    using that by (auto simp: reference_unquote_def split: list.splits option.splits if_splits)
  ultimately show ?thesis by (simp add: string_law_def reference_json_def)
qed

lemma reference_integers: "integer_law reference_json"
  using f64_of_int_safe by (simp add: integer_law_def reference_json_def)

definition sample_json :: bytes where
  "sample_json = ''{ '' @ [CHR 0x22] @ ''b'' @ [CHR 0x22] @ '' : [1.50, true], '' @ [CHR 0x22] @ ''a'' @ [CHR 0x22] @ '':null }''"

definition sample_data :: "value" where
  "sample_data = VMap [(''a'', VNull), (''b'', VArray [VFloat (FiniteFloat 4609434218613702656), VBool True])]"

lemma reference_float: "float_law reference_json 4609434218613702656"
proof -
  have "f64_parse ''1.5'' = Some 4609434218613702656" by code_simp
  moreover have "\<not> f64_is_integral 4609434218613702656" by code_simp
  moreover have "decimal_token ''1.5''"
    unfolding decimal_token_def by (intro exI [of _ False] exI [of _ "''1''"] exI [of _ "''5''"] exI [of _ 0]) (simp add: canonical_decimal_def is_digit_def)
  ultimately show ?thesis by (simp add: float_law_def reference_json_def)
qed

lemma sample_laws: "engine_laws reference_json sample_data"
  using reference_strings reference_integers reference_float by (simp add: engine_laws_def sample_data_def)

lemma sample_parses:
  "json_new reference_json default_limits sample_json =
     Ok \<lparr>json_bytes = ''{'' @ [CHR 0x22] @ ''a'' @ [CHR 0x22] @ '':null,'' @ [CHR 0x22] @ ''b'' @ [CHR 0x22] @ '':[1.5,true]}'',
       json_data = sample_data\<rparr>"
  by code_simp

section \<open>The properties\<close>

text \<open>C9. JSON documents are stable: whenever a text is accepted, the canonical bytes produced
  for it are accepted as canonical and denote the same document.\<close>

theorem json_stable:
  assumes "json_new eng lim b = Ok d" "usize_limits lim" "engine_laws eng (json_data d)"
  shows "json_decode eng lim (json_bytes d) = Ok d"
  using json_stable_aux [OF assms] .

theorem json_stable_witness:
  "json_decode reference_json default_limits
     (''{'' @ [CHR 0x22] @ ''a'' @ [CHR 0x22] @ '':null,'' @ [CHR 0x22] @ ''b'' @ [CHR 0x22] @ '':[1.5,true]}'') =
   Ok \<lparr>json_bytes = ''{'' @ [CHR 0x22] @ ''a'' @ [CHR 0x22] @ '':null,'' @ [CHR 0x22] @ ''b'' @ [CHR 0x22] @ '':[1.5,true]}'',
     json_data = sample_data\<rparr>"
  using json_stable [OF sample_parses] sample_laws usize_default_limits by simp

text \<open>C25. Reading and writing JSON always ends in a document or an error: no input makes the
  parser, the writer or the canonical check run on or panic.\<close>

theorem json_total:
  "json_new eng lim b \<noteq> Panic \<and> json_decode eng lim b \<noteq> Panic \<and> json_from_value eng lim v \<noteq> Panic"
  by (simp add: json_decode_def json_from_value_def attempt_eq_Panic json_new_ends encode_json_ends)

end
