(* ===== verification/Lexical_Grammar.thy ===== *)
theory Lexical_Grammar
  imports Lexer Json_Properties
begin

text \<open>
  The lexical rules of the source language, section 2 of the syntax reference, stated without
  the lexer: which texts spell a token, which texts separate tokens, and the reading of a source
  as its longest tokens in turn. Also what slicing a UTF-8 string preserves.
\<close>

section \<open>Spelling\<close>

definition letter :: "byte \<Rightarrow> bool" where
  "letter c \<longleftrightarrow> (CHR ''a'' \<le> c \<and> c \<le> CHR ''z'') \<or> (CHR ''A'' \<le> c \<and> c \<le> CHR ''Z'')"

definition numeral_char :: "byte \<Rightarrow> bool" where
  "numeral_char c \<longleftrightarrow> CHR ''0'' \<le> c \<and> c \<le> CHR ''9''"

definition name_text :: "bytes \<Rightarrow> bool" where
  "name_text w \<longleftrightarrow> w \<noteq> [] \<and> letter (hd w) \<and> (\<forall>c \<in> set w. letter c \<or> numeral_char c \<or> c = CHR ''_'')"

definition digits_text :: "bytes \<Rightarrow> bool" where
  "digits_text ds \<longleftrightarrow> ds \<noteq> [] \<and> list_all numeral_char ds"

definition fraction_text :: "bytes \<Rightarrow> bool" where
  "fraction_text f \<longleftrightarrow> f = [] \<or> (\<exists>ds. f = CHR ''.'' # ds \<and> digits_text ds)"

definition exponent_part :: "bytes \<Rightarrow> bool" where
  "exponent_part x \<longleftrightarrow> x = [] \<or>
     (\<exists>e sign ds. x = e # sign @ ds \<and> e \<in> {CHR ''e'', CHR ''E''} \<and> sign \<in> {[], ''+'', ''-''} \<and> digits_text ds)"

definition number_text :: "bytes \<Rightarrow> bool" where
  "number_text n \<longleftrightarrow>
     (\<exists>sign whole fraction exponent. n = sign @ whole @ fraction @ exponent \<and> sign \<in> {[], ''-''} \<and>
        digits_text whole \<and> (hd whole = CHR ''0'' \<longrightarrow> whole = ''0'') \<and> fraction_text fraction \<and> exponent_part exponent)"

definition symbol_texts :: "bytes set" where
  "symbol_texts = {''=='', ''!='', ''<='', ''>='', ''{'', ''}'', ''('', '')'', ''['', '']'', ''='', '','', ''.'', ''&'', ''@'', ''<'', ''>''}"

text \<open>The text of a string literal: complete escapes and no quote outside them.\<close>

fun unquoted :: "bytes \<Rightarrow> bool" where
  "unquoted [] = True"
| "unquoted (c # r) =
     (if c = CHR 0x22 then False
      else if c = CHR 0x5C then (case r of [] \<Rightarrow> False | _ # q \<Rightarrow> unquoted q)
      else unquoted r)"

text \<open>The text of a triple string: the first unescaped terminator is the one after it.\<close>

fun untripled :: "bytes \<Rightarrow> bool" where
  "untripled [] = True"
| "untripled (c # r) =
     (\<not> prefix [CHR 0x22, CHR 0x22, CHR 0x22] (c # r @ [CHR 0x22, CHR 0x22, CHR 0x22]) \<and>
      (if c = CHR 0x5C then (case r of [] \<Rightarrow> False | _ # q \<Rightarrow> untripled q) else untripled r))"

text \<open>The JSON spelling of a triple string: line endings and quotes are escaped.\<close>

fun json_spelling :: "bytes \<Rightarrow> bytes" where
  "json_spelling [] = []"
| "json_spelling (c # r) =
     (if c = CHR 0x5C then (case r of [] \<Rightarrow> [c] | d # q \<Rightarrow> c # d # json_spelling q)
      else if c = CHR 0x0A then CHR 0x5C # CHR ''n'' # json_spelling r
      else if c = CHR 0x0D then CHR 0x5C # CHR ''r'' # json_spelling r
      else if c = CHR 0x22 then CHR 0x5C # c # json_spelling r
      else c # json_spelling r)"

text \<open>The text of a regular expression: complete escapes, no line ending and no slash outside
  them; \<open>\/\<close> denotes a slash and other escapes stay.\<close>

fun unslashed :: "bytes \<Rightarrow> bool" where
  "unslashed [] = True"
| "unslashed (c # r) =
     (if c \<in> {CHR ''/'', CHR 0x0D, CHR 0x0A} then False
      else if c = CHR 0x5C then (case r of [] \<Rightarrow> False | d # q \<Rightarrow> d \<notin> {CHR 0x0D, CHR 0x0A} \<and> unslashed q)
      else unslashed r)"

fun regex_pattern :: "bytes \<Rightarrow> bytes" where
  "regex_pattern [] = []"
| "regex_pattern (c # r) =
     (if c = CHR 0x5C then (case r of [] \<Rightarrow> [c] | d # q \<Rightarrow> (if d = CHR ''/'' then [d] else [c, d]) @ regex_pattern q)
      else c # regex_pattern r)"

definition json_text :: "json_engine \<Rightarrow> limits \<Rightarrow> bytes \<Rightarrow> bytes \<Rightarrow> bool" where
  "json_text eng lim b s \<longleftrightarrow> (\<exists>d. json_new eng lim b = Ok d \<and> json_data d = VText s)"

definition spells :: "json_engine \<Rightarrow> limits \<Rightarrow> token \<Rightarrow> bytes \<Rightarrow> bool" where
  "spells eng lim t w \<longleftrightarrow>
     (case t of
        Word n \<Rightarrow> w = n \<and> name_text n
      | Number n \<Rightarrow> w = n \<and> number_text n
      | Symbol s \<Rightarrow> w = s \<and> s \<in> symbol_texts
      | Regex pattern flags \<Rightarrow>
          \<exists>body. w = ''/'' @ body @ ''/'' @ flags \<and> unslashed body \<and> pattern = regex_pattern body \<and>
            distinct flags \<and> set flags \<subseteq> set ''ims''
      | StringToken s \<Rightarrow> \<exists>body. w = CHR 0x22 # body @ [CHR 0x22] \<and> unquoted body \<and> json_text eng lim w s
      | TripleString s \<Rightarrow>
          \<exists>body. w = [CHR 0x22, CHR 0x22, CHR 0x22] @ body @ [CHR 0x22, CHR 0x22, CHR 0x22] \<and> untripled body \<and>
            json_text eng lim (CHR 0x22 # json_spelling body @ [CHR 0x22]) s)"

section \<open>Reading a source\<close>

text \<open>The text between two tokens, or around them, where \<open>rest\<close> follows: white space, block
  comments up to the first \<open>]]\<close>, and line comments up to a line ending or the end of the source.\<close>

inductive trivia :: "bytes \<Rightarrow> bytes \<Rightarrow> bool" for rest where
  none: "trivia rest []"
| blank: "c \<in> {CHR '' '', CHR 0x09, CHR 0x0D, CHR 0x0A} \<Longrightarrow> trivia rest s \<Longrightarrow> trivia rest (c # s)"
| block: "\<not> sublist '']]'' (body @ '']'') \<Longrightarrow> trivia rest s \<Longrightarrow> trivia rest (''--[['' @ body @ '']]'' @ s)"
| line: "\<not> prefix ''[['' (body @ s @ rest) \<Longrightarrow> CHR 0x0D \<notin> set body \<Longrightarrow> CHR 0x0A \<notin> set body \<Longrightarrow>
    s @ rest = [] \<or> hd (s @ rest) \<in> {CHR 0x0D, CHR 0x0A} \<Longrightarrow> trivia rest s \<Longrightarrow> trivia rest (''--'' @ body @ s)"

text \<open>No longer start of the same text spells a token.\<close>

definition longest :: "json_engine \<Rightarrow> limits \<Rightarrow> bytes \<Rightarrow> bytes \<Rightarrow> bool" where
  "longest eng lim w q \<longleftrightarrow> (\<forall>t' w' q'. w' @ q' = w @ q \<and> spells eng lim t' w' \<longrightarrow> length w' \<le> length w)"

text \<open>Three quotes always open a triple string, no letter follows the flags of a regular
  expression, and no letter, digit or underscore follows a number.\<close>

definition delimited :: "token \<Rightarrow> bytes \<Rightarrow> bytes \<Rightarrow> bool" where
  "delimited t w q \<longleftrightarrow>
     (case t of
        StringToken _ \<Rightarrow> \<not> prefix [CHR 0x22, CHR 0x22, CHR 0x22] (w @ q)
      | Regex _ _ \<Rightarrow> q = [] \<or> \<not> letter (hd q)
      | Number _ \<Rightarrow> q = [] \<or> \<not> (letter (hd q) \<or> numeral_char (hd q) \<or> hd q = CHR ''_'')
      | _ \<Rightarrow> True)"

text \<open>The tokens of a source of \<open>n\<close> bytes from where \<open>r\<close> is left, each with its span.\<close>

inductive tiled :: "json_engine \<Rightarrow> limits \<Rightarrow> source_location \<Rightarrow> nat \<Rightarrow> bytes \<Rightarrow> token located list \<Rightarrow> bool" for eng lim location n where
  end_of_source: "trivia [] r \<Longrightarrow> tiled eng lim location n r []"
| token: "trivia (w @ q) gap \<Longrightarrow> spells eng lim t w \<Longrightarrow> longest eng lim w q \<Longrightarrow> delimited t w q \<Longrightarrow>
    tiled eng lim location n q ts \<Longrightarrow>
    tiled eng lim location n (gap @ w @ q) (\<lparr>item = t, item_span = \<lparr>span_source = location,
      start_byte = n - length (w @ q), end_byte = n - length q\<rparr>\<rparr> # ts)"

section \<open>Slices of UTF-8\<close>

definition high :: "byte \<Rightarrow> bool" where
  "high c \<longleftrightarrow> 0x80 \<le> (of_char c :: nat)"

lemma continuation_high: "continuation c \<Longrightarrow> high c"
  by (simp add: continuation_def high_def)

lemma utf8_char:
  assumes "utf8_valid (c # r)"
  shows "\<not> continuation c \<and> (\<exists>t q. r = t @ q \<and> length t + 1 = char_width c \<and> list_all continuation t \<and> utf8_valid q \<and> (high c \<or> t = []))"
proof -
  let ?n = "of_char c :: nat"
  consider "?n < 0x80" | "0xC2 \<le> ?n" "?n \<le> 0xDF" | "0xE0 \<le> ?n" "?n \<le> 0xEF" | "0xF0 \<le> ?n" "?n \<le> 0xF4"
    using assms by (auto simp: utf8_error_at.simps(2) Let_def split: if_splits)
  then show ?thesis
  proof cases
    case 1
    then show ?thesis using assms by (intro conjI exI [of _ "[]"] exI [of _ r]) (auto simp: continuation_def char_width_def)
  next
    case 2
    then obtain b q where "r = b # q" "continuation b" "utf8_valid q"
      using assms by (auto simp: utf8_error_at.simps(2) Let_def split: list.splits if_splits)
    then show ?thesis using 2 by (intro conjI exI [of _ "[b]"] exI [of _ q]) (auto simp: continuation_def char_width_def high_def)
  next
    case 3
    then obtain b d q where "r = b # d # q" "continuation b" "continuation d" "utf8_valid q"
      using assms by (auto simp: utf8_error_at.simps(2) Let_def second_of_three_def split: list.splits if_splits)
    then show ?thesis using 3 by (intro conjI exI [of _ "[b, d]"] exI [of _ q]) (auto simp: continuation_def char_width_def high_def)
  next
    case 4
    then obtain b d e q where "r = b # d # e # q" "continuation b" "continuation d" "continuation e" "utf8_valid q"
      using assms by (auto simp: utf8_error_at.simps(2) Let_def second_of_four_def split: list.splits if_splits)
    then show ?thesis using 4 by (intro conjI exI [of _ "[b, d, e]"] exI [of _ q]) (auto simp: continuation_def char_width_def high_def)
  qed
qed

lemma utf8_boundary: "utf8_valid r \<Longrightarrow> boundary r"
  using utf8_char by (auto simp: boundary_def split: list.splits)

lemma utf8_suffix: "utf8_valid (a @ r) \<Longrightarrow> boundary r \<Longrightarrow> utf8_valid r"
proof (induction a rule: measure_induct_rule [where f = length])
  case (less a)
  show ?case
  proof (cases a)
    case (Cons c b)
    obtain t q where t: "b @ r = t @ q" "list_all continuation t" "utf8_valid q"
      using utf8_char [of c "b @ r"] less.prems(1) Cons by auto
    show ?thesis
    proof (cases "length t \<le> length b")
      case True
      then obtain u where "b = t @ u" "q = u @ r" using t(1) by (auto simp: append_eq_append_conv2)
      then show ?thesis using less.IH [of u] t(3) less.prems(2) Cons by simp
    next
      case False
      then obtain x u where "t = b @ x # u" "r = (x # u) @ q" using t(1) by (auto simp: append_eq_append_conv2 Cons_eq_append_conv neq_Nil_conv)
      then have False using t(2) less.prems(2) by (simp add: boundary_def)
      then show ?thesis ..
    qed
  qed (use less.prems in simp)
qed

lemma utf8_tl: "utf8_valid (c # r) \<Longrightarrow> \<not> high c \<Longrightarrow> utf8_valid r"
  by (simp add: high_def)

lemma utf8_dropWhile: "(\<And>c. P c \<Longrightarrow> \<not> high c) \<Longrightarrow> utf8_valid r \<Longrightarrow> utf8_valid (dropWhile P r)"
  by (induction r) (auto simp: utf8_tl)

lemma next_char_valid:
  assumes "utf8_valid r" "r \<noteq> []"
  obtains c t q where "next_char r = Ok (c # t, q)" "r = c # t @ q" "list_all high t" "high c \<or> t = []" "utf8_valid q"
proof -
  obtain c s where r: "r = c # s" using assms(2) by (cases r) auto
  obtain t q where t: "s = t @ q" "length t + 1 = char_width c" "list_all continuation t" "utf8_valid q" "high c \<or> t = []"
    using utf8_char assms(1) r by blast
  have "next_char r = Ok (c # t, q)"
    using utf8_boundary [OF assms(1)] by (simp add: next_char_def str_from_def r t(1) flip: t(2))
  moreover have "list_all high t" using t(3) by (auto simp: list_all_iff continuation_high)
  ultimately show thesis using that r t by simp
qed

end
