(* ===== verification/Lexer_Properties.thy ===== *)
theory Lexer_Properties
  imports Lexical_Grammar
begin

text \<open>
  The lexer reads a UTF-8 source exactly by the lexical rules: each token is the longest text
  that spells one, at its span, white space and comments make up the rest, and every source
  that can be read so is accepted. It never slices inside a character nor reads past the end.
\<close>

section \<open>Scanners of literals\<close>

lemma high_not [simp]:
  "high c \<Longrightarrow> c \<noteq> CHR 0x22" "high c \<Longrightarrow> c \<noteq> CHR 0x5C" "high c \<Longrightarrow> c \<noteq> CHR ''/''" "high c \<Longrightarrow> c \<noteq> CHR 0x0D" "high c \<Longrightarrow> c \<noteq> CHR 0x0A"
  by (auto simp: high_def)

lemma high_constants [simp]:
  "\<not> high (CHR 0x22)" "\<not> high (CHR 0x5C)" "\<not> high (CHR ''/'')" "\<not> high (CHR 0x0D)" "\<not> high (CHR 0x0A)"
  by (simp_all add: high_def)

lemma high_append [simp]:
  assumes "list_all high t"
  shows "unquoted (t @ b) = unquoted b" "untripled (t @ b) = untripled b" "json_spelling (t @ b) = t @ json_spelling b"
    "unslashed (t @ b) = unslashed b" "regex_pattern (t @ b) = t @ regex_pattern b"
  using assms by (induction t) (auto dest: high_not)

lemma starts_with_prefix: "starts_with w r \<longleftrightarrow> prefix w r"
  unfolding starts_with_def by (metis append_eq_conv_conj prefix_def)

lemma string_end_valid:
  assumes "utf8_valid r"
  shows "string_end triple r =
    Ok (if triple then (if starts_with quotes r then Some 3 else None) else if take 1 r = [CHR 0x22] then Some 1 else None)"
  using utf8_boundary [OF assms] by (simp add: string_end_def str_from_def)

lemma string_body_Nil [simp]: "string_body lx triple start e [] = lex_fail lx ''unterminated string'' start []"
  by (simp add: string_body.simps)

lemma string_body_close:
  "utf8_valid r \<Longrightarrow> r \<noteq> [] \<Longrightarrow> string_end triple r = Ok (Some n) \<Longrightarrow> string_body lx triple start e r = Ok (e, drop n r)"
  by (simp add: string_body.simps)

lemma string_body_char:
  assumes "utf8_valid (c # t @ r)" "next_char (c # t @ r) = Ok (c # t, r)" "string_end triple (c # t @ r) = Ok None" "c \<noteq> CHR 0x5C"
  shows "string_body lx triple start e (c # t @ r) = string_body lx triple start (e @ escape_triple triple (c # t)) r"
  using assms by (subst string_body.simps) simp

lemma string_body_escape:
  assumes "next_char (CHR 0x5C # r) = Ok ([CHR 0x5C], r)" "string_end triple (CHR 0x5C # r) = Ok None"
    "next_char r = Ok (d # u, q)"
  shows "string_body lx triple start e (CHR 0x5C # r) = string_body lx triple start (e @ CHR 0x5C # d # u) q"
proof -
  have "r \<noteq> []" using next_char_rest [OF assms(3)] by blast
  then show ?thesis using assms by (subst string_body.simps) simp
qed

lemma string_body_open:
  assumes "next_char [CHR 0x5C] = Ok ([CHR 0x5C], [])" "string_end triple [CHR 0x5C] = Ok None"
  shows "string_body lx triple start e [CHR 0x5C] = lex_fail lx ''unterminated escape'' start []"
  using assms by (subst string_body.simps) simp

text \<open>The cases of a string scanner on a valid rest.\<close>

lemma string_body_cases:
  assumes "utf8_valid r"
  obtains (empty) "r = []" "string_body lx triple start e r = lex_fail lx ''unterminated string'' start []"
  | (close) n where "string_end triple r = Ok (Some n)" "string_body lx triple start e r = Ok (e, drop n r)"
  | (open_escape) "r = [CHR 0x5C]" "string_end triple r = Ok None" "string_body lx triple start e r = lex_fail lx ''unterminated escape'' start []"
  | (escape) d u q where "r = CHR 0x5C # d # u @ q" "string_end triple r = Ok None" "list_all high u" "utf8_valid q"
      "string_body lx triple start e r = string_body lx triple start (e @ CHR 0x5C # d # u) q"
  | (char) c t q where "r = c # t @ q" "string_end triple r = Ok None" "c \<noteq> CHR 0x5C" "list_all high t" "high c \<or> t = []" "utf8_valid q"
      "string_body lx triple start e r = string_body lx triple start (e @ escape_triple triple (c # t)) q"
proof (cases "r = []")
  case True
  then show thesis using empty by simp
next
  case False
  obtain closing where e: "string_end triple r = Ok closing" using string_end_valid [OF assms] by blast
  show thesis
  proof (cases closing)
    case (Some n)
    then show thesis using close string_body_close [OF assms False] e by simp
  next
    case None
    obtain c t q where n: "next_char r = Ok (c # t, q)" and r: "r = c # t @ q" and t: "list_all high t" "high c \<or> t = []" "utf8_valid q"
      using next_char_valid [OF assms False] by metis
    show thesis
    proof (cases "c = CHR 0x5C")
      case True
      then have tn: "t = []" using t(2) high_not(2) by blast
      show thesis
      proof (cases "q = []")
        case True
        then show thesis
          using open_escape string_body_open [of triple lx start e] n r e None tn \<open>c = CHR 0x5C\<close> by simp
      next
        case False
        obtain d u q1 where m: "next_char q = Ok (d # u, q1)" "q = d # u @ q1" "list_all high u" "utf8_valid q1"
          using next_char_valid [OF t(3) False] by metis
        have "string_body lx triple start e r = string_body lx triple start (e @ CHR 0x5C # d # u) q1"
          using string_body_escape [of q triple d u q1 lx start e] n r e None tn m(1) \<open>c = CHR 0x5C\<close> by simp
        then show thesis using escape [of d u q1] r e None tn m True \<open>c = CHR 0x5C\<close> by simp
      qed
    next
      case False
      have "string_body lx triple start e r = string_body lx triple start (e @ escape_triple triple (c # t)) q"
        using string_body_char [of c t q triple lx start e] assms n r e None False by simp
      then show thesis using char r e None False t by blast
    qed
  qed
qed

lemma plain_body:
  "utf8_valid r \<Longrightarrow> string_body lx False start e r = Ok (e1, q) \<Longrightarrow>
    \<exists>body. r = body @ CHR 0x22 # q \<and> unquoted body \<and> e1 = e @ body \<and> utf8_valid q"
proof (induction r arbitrary: e rule: measure_induct_rule [where f = length])
  case (less r)
  from less.prems(1) show ?case
  proof (cases rule: string_body_cases [where lx = lx and triple = False and start = start and e = e])
    case empty
    then show ?thesis using less.prems(2) by (simp add: lex_fail_def)
  next
    case (close n)
    then have n: "take 1 r = [CHR 0x22]" "n = 1" using string_end_valid [OF less.prems(1), of False] by (auto split: if_splits)
    then obtain s where s: "r = CHR 0x22 # s" by (cases r) auto
    then have "q = s" "e1 = e" using close(2) less.prems(2) n by auto
    then show ?thesis using s less.prems(1) utf8_tl [of "CHR 0x22" s] by (intro exI [of _ "[]"]) (simp add: high_def)
  next
    case open_escape
    then show ?thesis using less.prems(2) by (simp add: lex_fail_def)
  next
    case (escape d u q1)
    have "length q1 < length r" by (simp add: escape(1))
    moreover have "string_body lx False start (e @ CHR 0x5C # d # u) q1 = Ok (e1, q)" using escape(5) less.prems(2) by simp
    ultimately obtain body where "q1 = body @ CHR 0x22 # q" "unquoted body" "e1 = (e @ CHR 0x5C # d # u) @ body" "utf8_valid q"
      using less.IH escape(4) by blast
    then show ?thesis using escape(1,3) by (intro exI [of _ "CHR 0x5C # d # u @ body"]) simp
  next
    case (char c t q1)
    have c: "c \<noteq> CHR 0x22" using char(1,2) string_end_valid [OF less.prems(1), of False] by auto
    have "length q1 < length r" by (simp add: char(1))
    moreover have "string_body lx False start (e @ c # t) q1 = Ok (e1, q)"
      using char(7) less.prems(2) by (simp add: escape_triple_def)
    ultimately obtain body where "q1 = body @ CHR 0x22 # q" "unquoted body" "e1 = (e @ c # t) @ body" "utf8_valid q"
      using less.IH char(6) by blast
    then show ?thesis using char(1,3,4) c by (intro exI [of _ "c # t @ body"]) simp
  qed
qed

lemma prefix_before: "prefix w (x @ w) \<longleftrightarrow> prefix w ((x @ w) @ q)"
proof
  show "prefix w (x @ w) \<Longrightarrow> prefix w ((x @ w) @ q)" by (rule prefix_prefix)
  show "prefix w ((x @ w) @ q) \<Longrightarrow> prefix w (x @ w)" by (rule prefix_length_prefix [where xs = "(x @ w) @ q"]) simp_all
qed

lemma triple_body:
  "utf8_valid r \<Longrightarrow> string_body lx True start e r = Ok (e1, q) \<Longrightarrow>
    \<exists>body. r = body @ quotes @ q \<and> untripled body \<and> e1 = e @ json_spelling body \<and> utf8_valid q"
proof (induction r arbitrary: e rule: measure_induct_rule [where f = length])
  case (less r)
  have "\<not> prefix quotes (b @ quotes)" if "r = b @ quotes @ y" "string_end True r = Ok None" for b y
    using that string_end_valid [OF less.prems(1), of True] prefix_before [of quotes b y]
    by (auto simp: starts_with_prefix split: if_splits)
  note open_at = this [unfolded quotes_def]
  from less.prems(1) show ?case
  proof (cases rule: string_body_cases [where lx = lx and triple = True and start = start and e = e])
    case empty
    then show ?thesis using less.prems(2) by (simp add: lex_fail_def)
  next
    case (close n)
    then have n: "starts_with quotes r" "n = 3" using string_end_valid [OF less.prems(1), of True] by (auto split: if_splits)
    then obtain s where s: "r = quotes @ s" by (auto simp: starts_with_prefix prefix_def)
    then have "q = s" "e1 = e" using close(2) less.prems(2) n by (auto simp: quotes_def)
    then show ?thesis using s less.prems(1) by (intro exI [of _ "[]"]) (auto simp: quotes_def)
  next
    case open_escape
    then show ?thesis using less.prems(2) by (simp add: lex_fail_def)
  next
    case (escape d u q1)
    have "length q1 < length r" by (simp add: escape(1))
    moreover have "string_body lx True start (e @ CHR 0x5C # d # u) q1 = Ok (e1, q)" using escape(5) less.prems(2) by simp
    ultimately obtain body where b: "q1 = body @ quotes @ q" "untripled body" "e1 = (e @ CHR 0x5C # d # u) @ json_spelling body" "utf8_valid q"
      using less.IH escape(4) by blast
    then have "\<not> prefix [CHR 0x22, CHR 0x22, CHR 0x22] ((CHR 0x5C # d # u @ body) @ [CHR 0x22, CHR 0x22, CHR 0x22])"
      using escape(1,2) b(1) by (intro open_at) (simp_all add: quotes_def)
    then show ?thesis using b escape(1,3) by (intro exI [of _ "CHR 0x5C # d # u @ body"]) simp
  next
    case (char c t q1)
    have "length q1 < length r" by (simp add: char(1))
    moreover have "string_body lx True start (e @ escape_triple True (c # t)) q1 = Ok (e1, q)" using char(7) less.prems(2) by simp
    ultimately obtain body where b: "q1 = body @ quotes @ q" "untripled body" "e1 = (e @ escape_triple True (c # t)) @ json_spelling body" "utf8_valid q"
      using less.IH char(6) by blast
    have "\<not> prefix [CHR 0x22, CHR 0x22, CHR 0x22] ((c # t @ body) @ [CHR 0x22, CHR 0x22, CHR 0x22])"
      using char(1,2) b(1) by (intro open_at) (simp_all add: quotes_def)
    moreover have "escape_triple True (c # t) @ json_spelling body = json_spelling (c # t @ body)"
      using char(3-5) by (auto simp: escape_triple_def)
    ultimately show ?thesis using b char(1,3,4) by (intro exI [of _ "c # t @ body"]) auto
  qed
qed

lemma regex_body_reads:
  "utf8_valid r \<Longrightarrow> regex_body lx start pattern r = Ok (e, q) \<Longrightarrow>
    \<exists>body. r = body @ CHR ''/'' # q \<and> unslashed body \<and> e = pattern @ regex_pattern body \<and> utf8_valid q"
proof (induction r arbitrary: pattern rule: measure_induct_rule [where f = length])
  case (less r)
  have ne: "r \<noteq> []" using less.prems(2) by (subst (asm) regex_body.simps) (auto simp: lex_fail_def)
  obtain c t r1 where n: "next_char r = Ok (c # t, r1)" and r: "r = c # t @ r1" and t: "list_all high t" "high c \<or> t = []" "utf8_valid r1"
    using next_char_valid [OF less.prems(1) ne] by metis
  have tn: "t = []" if "c \<in> {CHR ''/'', CHR 0x0D, CHR 0x0A, CHR 0x5C}" using that t(2) high_not by blast
  consider (close) "c = CHR ''/''" | (line) "c \<noteq> CHR ''/''" "c \<in> {CHR 0x0D, CHR 0x0A}" | (escape) "c = CHR 0x5C"
    | (plain) "c \<notin> {CHR ''/'', CHR 0x0D, CHR 0x0A, CHR 0x5C}" by blast
  then show ?case
  proof cases
    case close
    then have "t = []" using tn by simp
    then have "q = r1" "e = pattern" using less.prems(2) n r ne close by (subst (asm) regex_body.simps; simp)+
    then show ?thesis using r t(3) close \<open>t = []\<close> by (intro exI [of _ "[]"]) simp
  next
    case line
    then have "t = []" using tn by auto
    then have False using less.prems(2) n r ne line by (subst (asm) regex_body.simps) (auto simp: lex_fail_def)
    then show ?thesis ..
  next
    case escape
    then have tz: "t = []" using tn by simp
    have ne1: "r1 \<noteq> []" using less.prems(2) n r ne escape tz by (subst (asm) regex_body.simps) (auto simp: lex_fail_def)
    obtain d u r2 where m: "next_char r1 = Ok (d # u, r2)" and r1: "r1 = d # u @ r2" and u: "list_all high u" "high d \<or> u = []" "utf8_valid r2"
      using next_char_valid [OF t(3) ne1] by metis
    have un: "u = []" if "d \<in> {CHR ''/'', CHR 0x0D, CHR 0x0A}" using that u(2) high_not by blast
    have d: "d \<notin> {CHR 0x0D, CHR 0x0A}"
      using less.prems(2) n r ne escape tz ne1 m un by (subst (asm) regex_body.simps) (auto simp: lex_fail_def)
    have "regex_body lx start (pattern @ (if d = CHR ''/'' then [] else [CHR 0x5C]) @ d # u) r2 = Ok (e, q)"
      using less.prems(2) n r ne escape tz ne1 m d un by (subst (asm) regex_body.simps) (auto split: if_splits)
    moreover have "length r2 < length r" by (simp add: r r1)
    ultimately obtain body where b: "r2 = body @ CHR ''/'' # q" "unslashed body"
        "e = (pattern @ (if d = CHR ''/'' then [] else [CHR 0x5C]) @ d # u) @ regex_pattern body" "utf8_valid q"
      using less.IH u(3) by blast
    show ?thesis using b d u un r r1 escape tz by (intro exI [of _ "CHR 0x5C # d # u @ body"]) auto
  next
    case plain
    have "regex_body lx start (pattern @ c # t) r1 = Ok (e, q)"
      using less.prems(2) n r ne plain by (subst (asm) regex_body.simps) (auto split: if_splits)
    moreover have "length r1 < length r" by (simp add: r)
    ultimately obtain body where b: "r1 = body @ CHR ''/'' # q" "unslashed body" "e = (pattern @ c # t) @ regex_pattern body" "utf8_valid q"
      using less.IH t(3) by blast
    show ?thesis using b plain t r by (intro exI [of _ "c # t @ body"]) auto
  qed
qed

section \<open>No scanner panics\<close>

lemma space_quote [simp]: "space (CHR 0x22 # b) = CHR 0x22 # b"
  by (simp add: space_def is_space_def)

lemma quoted_text:
  assumes "json_new eng lim (CHR 0x22 # b) = Ok d"
  shows "\<exists>s. json_data d = VText s"
proof -
  obtain v r where "json_value eng lim (length (CHR 0x22 # b)) (json_room lim) (CHR 0x22 # b) = Ok (v, r)" "json_data d = v"
    using assms by (auto simp: json_new_def syntax_at_def split: option.splits if_splits)
  then show ?thesis by (fastforce simp: json_room_def Let_def dest: sym)
qed

lemma lex_fail_not_Panic [simp]: "lex_fail lx m a b \<noteq> Panic"
  by (simp add: lex_fail_def)

lemma string_body_ends: "utf8_valid r \<Longrightarrow> string_body lx triple start e r \<noteq> Panic"
proof (induction r arbitrary: e rule: measure_induct_rule [where f = length])
  case (less r)
  from less.prems show ?case
    by (cases rule: string_body_cases [where lx = lx and triple = triple and start = start and e = e]) (use less.IH in auto)
qed

lemma regex_body_ends: "utf8_valid r \<Longrightarrow> regex_body lx start pattern r \<noteq> Panic"
proof (induction r arbitrary: pattern rule: measure_induct_rule [where f = length])
  case (less r)
  show ?case
  proof (cases "r = []")
    case False
    obtain c t r1 where n: "next_char r = Ok (c # t, r1)" and r: "r = c # t @ r1" and v: "utf8_valid r1"
      using next_char_valid [OF less.prems False] by metis
    have 1: "regex_body lx start x r1 \<noteq> Panic" for x using less.IH v by (simp add: r)
    have 2: "regex_body lx start x r2 \<noteq> Panic" if "next_char r1 = Ok (ch, r2)" for x ch r2
    proof -
      have "r1 \<noteq> []" using next_char_rest [OF that] by blast
      then obtain d u q where "next_char r1 = Ok (d # u, q)" "r1 = d # u @ q" "utf8_valid q" using next_char_valid [OF v] by metis
      then show ?thesis using less.IH that by (simp add: r)
    qed
    have 3: "next_char r1 \<noteq> Panic" if "r1 \<noteq> []" using next_char_valid [OF v that] by (metis result.distinct(3))
    show ?thesis using n False 1 2 3 by (subst regex_body.simps) (auto simp: attempt_eq_Panic)
  qed (simp add: regex_body.simps)
qed

lemma space_valid: "utf8_valid (c # r) \<Longrightarrow> is_space c \<Longrightarrow> utf8_valid r"
  by (erule utf8_tl) (auto simp: is_space_def high_def)

lemma word_char_low: "is_word_char c \<Longrightarrow> \<not> high c"
  by (auto simp: is_word_char_def is_alphabetic_def is_digit_def high_def Let_def char_le_iff)

lemma digit_low: "is_digit c \<Longrightarrow> \<not> high c"
  using word_char_low by (auto simp: is_word_char_def)

lemma letter_low: "is_alphabetic c \<Longrightarrow> \<not> high c"
  using word_char_low by (auto simp: is_word_char_def)

lemma starts_tl: "utf8_valid r \<Longrightarrow> starts_with [c] r \<Longrightarrow> \<not> high c \<Longrightarrow> utf8_valid (drop 1 r)"
  by (auto simp: starts_with_prefix prefix_def utf8_tl)

lemma number_valid:
  assumes "utf8_valid r"
  shows "utf8_valid (number_fraction (after_whole (after_sign r)))"
    "number_exponent lx start r = Ok q \<Longrightarrow> utf8_valid q"
proof -
  have d: "utf8_valid (dropWhile is_digit s)" if "utf8_valid s" for s
    using utf8_dropWhile [of is_digit s] digit_low that by blast
  have f: "utf8_valid (number_fraction s)" if v: "utf8_valid s" for s
  proof -
    have "utf8_valid (x # y)" if "s = CHR ''.'' # x # y" for x y using utf8_tl [of "CHR ''.''" "x # y"] v that by (simp add: high_def)
    then show ?thesis using v d by (auto simp: number_fraction_def simp del: dropWhile.simps split: list.splits)
  qed
  have s: "utf8_valid (after_sign r)" "\<And>s. utf8_valid s \<Longrightarrow> utf8_valid (after_whole s)"
    using assms d starts_tl by (auto simp: after_sign_def after_whole_def high_def)
  then show "utf8_valid (number_fraction (after_whole (after_sign r)))" using f by blast
  show "utf8_valid q" if e: "number_exponent lx start r = Ok q"
  proof (cases r)
    case (Cons c s)
    define ds where "ds = (case s of x # q1 \<Rightarrow> if x = CHR ''+'' \<or> x = CHR ''-'' then q1 else s | [] \<Rightarrow> [])"
    have "utf8_valid (dropWhile is_digit ds)" if "c = CHR ''e'' \<or> c = CHR ''E''"
    proof -
      have "utf8_valid s" using that assms utf8_tl [of c s] Cons by (auto simp: high_def)
      then have "utf8_valid ds" using utf8_tl by (auto simp: ds_def high_def split: list.splits)
      then show ?thesis by (rule d)
    qed
    moreover have "q = r \<or> ((c = CHR ''e'' \<or> c = CHR ''E'') \<and> q = dropWhile is_digit ds)"
      using e by (auto simp: number_exponent_def Cons Let_def lex_fail_def ds_def split: if_splits)
    ultimately show ?thesis using assms by auto
  qed (use e in \<open>simp add: number_exponent_def\<close>)
qed

lemma str_range_valid: "utf8_valid r \<Longrightarrow> utf8_valid q \<Longrightarrow> str_range r q = Ok (take (length r - length q) r)"
  using utf8_boundary by (simp add: str_range_def)

lemma string_token_ends:
  assumes "utf8_valid r" "take 1 r = [CHR 0x22]"
  shows "string_token lx r \<noteq> Panic"
proof -
  obtain s where r: "r = CHR 0x22 # s" using assms(2) by (cases r) auto
  have v: "utf8_valid (drop (if starts_with quotes r then 3 else 1) r)"
  proof (cases "starts_with quotes r")
    case True
    then obtain q where "r = quotes @ q" by (auto simp: starts_with_prefix prefix_def)
    then show ?thesis using assms(1) True by (simp add: quotes_def utf8_tl)
  next
    case False
    then show ?thesis using assms(1) r by (simp add: utf8_tl)
  qed
  have is_text: "\<exists>s. json_data doc = VText s"
    if body: "string_body lx triple r [CHR 0x22] (drop (if triple then 3 else 1) r) = Ok (e, q1)" and t: "triple = starts_with quotes r"
      and new: "json_new (lx_engine lx) (lx_limits lx) (e @ [CHR 0x22]) = Ok doc" for triple e q1 doc
  proof -
    obtain b where "e = CHR 0x22 # b"
      using plain_body [of "drop 1 r" lx r "[CHR 0x22]" e q1] triple_body [of "drop 3 r" lx r "[CHR 0x22]" e q1] body v t by (cases triple) auto
    then show ?thesis using quoted_text new by simp
  qed
  show ?thesis
    using is_text string_body_ends [OF v] utf8_boundary [OF assms(1)]
    by (fastforce simp: string_token_def str_from_def Let_def attempt_eq_Panic json_new_ends)
qed

section \<open>Literals end where the rules say\<close>

lemma unquoted_unique:
  "unquoted a \<Longrightarrow> unquoted b \<Longrightarrow> a @ CHR 0x22 # q = b @ CHR 0x22 # q' \<Longrightarrow> a = b"
proof (induction a arbitrary: b rule: unquoted.induct)
  case 1
  then show ?case by (cases b) auto
next
  case (2 c r)
  then obtain s where b: "b = c # s" by (cases b) auto
  show ?case
  proof (cases "c = CHR 0x5C")
    case True
    then obtain d r1 s1 where "r = d # r1" "s = d # s1" using "2.prems" b by (cases r; cases s) auto
    then show ?thesis using 2 b True by simp
  next
    case False
    then show ?thesis using 2 b by (auto split: if_splits)
  qed
qed

lemma untripled_unique:
  "untripled a \<Longrightarrow> untripled b \<Longrightarrow> a @ quotes @ q = b @ quotes @ q' \<Longrightarrow> a = b"
proof (induction a arbitrary: b rule: untripled.induct)
  case 1
  show ?case
  proof (cases b)
    case (Cons c s)
    have "prefix quotes ((b @ quotes) @ q')" using "1.prems"(3) by (simp add: prefix_def) metis
    then have "prefix quotes (b @ quotes)" using prefix_before by blast
    then show ?thesis using "1.prems"(2) Cons by (auto simp: quotes_def)
  qed simp
next
  case (2 c r)
  show ?case
  proof (cases b)
    case Nil
    have "prefix quotes (((c # r) @ quotes) @ q)" using "2.prems"(3) Nil by (simp add: prefix_def)
    then have "prefix quotes ((c # r) @ quotes)" using prefix_before by blast
    then show ?thesis using "2.prems"(1) by (auto simp: quotes_def)
  next
    case (Cons c' s)
    then have b: "b = c # s" using "2.prems"(3) by simp
    show ?thesis
    proof (cases "c = CHR 0x5C")
      case True
      then obtain d r1 d' s1 where "r = d # r1" "s = d' # s1" using "2.prems"(1,2) b by (cases r; cases s) auto
      then show ?thesis using 2 b True by simp
    next
      case False
      then show ?thesis using 2 b by simp
    qed
  qed
qed

lemma unslashed_unique:
  "unslashed a \<Longrightarrow> unslashed b \<Longrightarrow> a @ CHR ''/'' # q = b @ CHR ''/'' # q' \<Longrightarrow> a = b"
proof (induction a arbitrary: b rule: unslashed.induct)
  case 1
  then show ?case by (cases b) auto
next
  case (2 c r)
  then obtain s where b: "b = c # s" by (cases b) auto
  show ?case
  proof (cases "c = CHR 0x5C")
    case True
    then obtain d r1 s1 where "r = d # r1" "s = d # s1" using "2.prems" b by (cases r; cases s) auto
    then show ?thesis using 2 b True by simp
  next
    case False
    then show ?thesis using 2 b by (auto split: if_splits)
  qed
qed

section \<open>Numbers\<close>

lemma classes: "is_alphabetic c \<longleftrightarrow> letter c" "is_digit c \<longleftrightarrow> numeral_char c"
  by (auto simp: is_alphabetic_def letter_def is_digit_def numeral_char_def Let_def char_le_iff)

lemma numeral_not [simp]: "\<not> numeral_char CHR ''.''" "\<not> numeral_char CHR ''e''" "\<not> numeral_char CHR ''E''"
  "\<not> numeral_char CHR ''+''" "\<not> numeral_char CHR ''-''" "numeral_char CHR ''0''"
  by (simp_all add: numeral_char_def)

lemma digits_run: "digits_text ds \<Longrightarrow> dropWhile numeral_char (ds @ r) = dropWhile numeral_char r"
  by (simp add: digits_text_def dropWhile_append2 list_all_iff)

lemma digits_hd: "digits_text ds \<Longrightarrow> \<exists>c s. ds = c # s \<and> numeral_char c"
  by (cases ds) (auto simp: digits_text_def)

lemma is_digit_numeral: "is_digit = numeral_char"
  by (rule ext) (rule classes(2))

abbreviation after_mantissa :: "bytes \<Rightarrow> bytes" where
  "after_mantissa r \<equiv> number_fraction (after_whole (after_sign r))"

lemma number_scan:
  assumes n: "number_text n"
  obtains x where "exponent_part x" "after_mantissa (n @ q') = x @ q' \<or> (x = [] \<and> suffix (after_mantissa (n @ q')) q')"
proof -
  obtain sign whole f x where parts: "n = sign @ whole @ f @ x" "sign \<in> {[], ''-''}" "digits_text whole"
      "hd whole = CHR ''0'' \<longrightarrow> whole = ''0''" "fraction_text f" "exponent_part x"
    using n unfolding number_text_def by blast
  obtain c s where c: "whole = c # s" "numeral_char c" using digits_hd [OF parts(3)] by blast
  have 1: "after_sign (n @ q') = whole @ f @ x @ q'"
    using parts(1,2) c by (auto simp: after_sign_def starts_with_def)
  have stop: "dropWhile numeral_char (f @ x @ q') = f @ x @ q' \<or> (f = [] \<and> x = [])"
    using parts(5,6) by (auto simp: fraction_text_def exponent_part_def)
  have 2: "after_whole (whole @ f @ x @ q') = f @ x @ q' \<or> (f = [] \<and> x = [] \<and> suffix (after_whole (whole @ f @ x @ q')) q')"
  proof (cases "c = CHR ''0''")
    case True
    then show ?thesis using parts(4) c by (simp add: after_whole_def starts_with_def)
  next
    case False
    then have "after_whole (whole @ f @ x @ q') = dropWhile numeral_char (f @ x @ q')"
      using digits_run [OF parts(3)] c by (simp add: after_whole_def starts_with_def is_digit_numeral)
    then show ?thesis using stop suffix_dropWhile [of numeral_char q'] by auto
  qed
  define a where "a = after_whole (whole @ f @ x @ q')"
  have 3: "number_fraction a = x @ q' \<or> (x = [] \<and> suffix (number_fraction a) q')"
  proof (cases "a = f @ x @ q'")
    case True
    show ?thesis
    proof (cases "f = []")
      case True
      have "number_fraction (x @ q') = x @ q'" if "x \<noteq> []"
        using parts(6) that by (auto simp: exponent_part_def number_fraction_def split: list.splits)
      then show ?thesis using \<open>a = f @ x @ q'\<close> True number_fraction_suffix [of q'] by (cases "x = []") auto
    next
      case False
      then obtain ds where f: "f = CHR ''.'' # ds" "digits_text ds" using parts(5) by (auto simp: fraction_text_def)
      then have "number_fraction (f @ x @ q') = dropWhile numeral_char (x @ q')"
        using digits_hd [OF f(2)] digits_run [OF f(2), of "x @ q'"] by (auto simp: number_fraction_def is_digit_numeral)
      moreover have "dropWhile numeral_char (x @ q') = x @ q' \<or> x = []" using parts(6) by (auto simp: exponent_part_def)
      ultimately show ?thesis using True suffix_dropWhile [of numeral_char q'] by auto
    qed
  next
    case False
    then have "x = []" "suffix a q'" using 2 by (auto simp: a_def)
    then show ?thesis using number_fraction_suffix [of a] by (meson suffix_order.trans)
  qed
  then show thesis using that [OF parts(6)] 1 by (simp add: a_def)
qed

lemma exponent_scan:
  assumes "exponent_part x" "x \<noteq> []"
  shows "number_exponent lx st (x @ q) = Ok (dropWhile numeral_char q)"
proof -
  obtain y sg ds where x: "x = y # sg @ ds" "y \<in> {CHR ''e'', CHR ''E''}" "sg \<in> {[], ''+'', ''-''}" "digits_text ds"
    using assms by (auto simp: exponent_part_def)
  obtain d u where d: "ds = d # u" "numeral_char d" using digits_hd [OF x(4)] by blast
  have "(case sg @ ds @ q of x # q1 \<Rightarrow> if x = CHR ''+'' \<or> x = CHR ''-'' then q1 else sg @ ds @ q | [] \<Rightarrow> []) = ds @ q"
    using x(3) d by auto
  moreover have "dropWhile numeral_char q \<noteq> ds @ q"
    using d length_dropWhile_le [of numeral_char q] by (auto dest!: arg_cong [where f = length])
  ultimately show ?thesis using x(1,2) digits_run [OF x(4), of q]
    by (auto simp: number_exponent_def Let_def is_digit_numeral)
qed

lemma number_longest:
  assumes n: "number_text n" and e: "number_exponent lx st (after_mantissa (n @ q')) = Ok q"
  shows "suffix q q'"
proof -
  obtain x where x: "exponent_part x" "after_mantissa (n @ q') = x @ q' \<or> (x = [] \<and> suffix (after_mantissa (n @ q')) q')"
    using number_scan [OF n] by blast
  show ?thesis
  proof (cases "x = []")
    case True
    then have "suffix (after_mantissa (n @ q')) q'" using x(2) by auto
    then show ?thesis using number_exponent_suffix [OF e] by (meson suffix_order.trans)
  next
    case False
    then have "q = dropWhile numeral_char q'" using e x exponent_scan [OF x(1) False] by simp
    then show ?thesis by (simp add: suffix_dropWhile)
  qed
qed

lemma number_mantissa:
  assumes "number_start r"
  obtains sign whole f where "r = sign @ whole @ f @ after_mantissa r" "sign \<in> {[], ''-''}" "digits_text whole"
    "hd whole = CHR ''0'' \<longrightarrow> whole = ''0''" "fraction_text f"
proof -
  obtain c0 q0 where r: "r = c0 # q0" using assms(1) by (cases r) (auto simp: number_start_def)
  obtain sign c s where sign: "r = sign @ after_sign r" "sign \<in> {[], ''-''}" and c: "after_sign r = c # s" "numeral_char c"
  proof (cases "c0 = CHR ''-''")
    case True
    then obtain d u where "q0 = d # u" "numeral_char d"
      using assms(1) by (cases q0) (auto simp: number_start_def r is_digit_numeral)
    then show thesis using that [of "''-''" d u] True by (simp add: r after_sign_def starts_with_def)
  next
    case False
    then show thesis using that [of "[]" c0 q0] assms(1) by (simp add: r after_sign_def starts_with_def number_start_def is_digit_numeral)
  qed
  obtain whole where whole: "after_sign r = whole @ after_whole (after_sign r)" "digits_text whole" "hd whole = CHR ''0'' \<longrightarrow> whole = ''0''"
  proof (cases "c = CHR ''0''")
    case True
    then show thesis using that [of "''0''"] c by (simp add: after_whole_def starts_with_def digits_text_def)
  next
    case False
    then have "after_sign r = takeWhile numeral_char (c # s) @ after_whole (after_sign r)"
      using c by (simp add: after_whole_def starts_with_def is_digit_numeral)
    then show thesis using that [of "takeWhile numeral_char (c # s)"] c False
      by (simp add: digits_text_def list_all_iff) (metis set_takeWhileD)
  qed
  define a where "a = after_whole (after_sign r)"
  have run: "\<exists>ds. digits_text ds \<and> d # u = ds @ dropWhile numeral_char (d # u)" if "numeral_char d" for d u
    using that by (intro exI [of _ "takeWhile numeral_char (d # u)"])
      (auto simp: digits_text_def list_all_iff dest: set_takeWhileD)
  obtain f where f: "a = f @ number_fraction a" "fraction_text f"
  proof (cases "\<exists>d u. a = CHR ''.'' # d # u \<and> numeral_char d")
    case True
    then obtain d u where a: "a = CHR ''.'' # d # u" "numeral_char d" by blast
    then obtain ds where "digits_text ds" "d # u = ds @ dropWhile numeral_char (d # u)" using run by blast
    then show thesis using that [of "CHR ''.'' # ds"] a
      by (auto simp: number_fraction_def fraction_text_def is_digit_numeral simp del: dropWhile.simps)
  next
    case False
    then have "number_fraction a = a" by (auto simp: number_fraction_def is_digit_numeral split: list.splits)
    then show thesis using that [of "[]"] by (simp add: fraction_text_def)
  qed
  show thesis using that [of sign whole f] sign whole f by (metis a_def append.assoc)
qed

lemma number_reads:
  assumes "number_start r" "number_exponent lx st (after_mantissa r) = Ok q"
  shows "\<exists>n. r = n @ q \<and> number_text n"
proof -
  obtain sign whole f where m: "r = sign @ whole @ f @ after_mantissa r" "sign \<in> {[], ''-''}" "digits_text whole"
    "hd whole = CHR ''0'' \<longrightarrow> whole = ''0''" "fraction_text f"
    using number_mantissa [OF assms(1)] .
  have run: "\<exists>ds. digits_text ds \<and> d # u = ds @ dropWhile numeral_char (d # u)" if "numeral_char d" for d u
    using that by (intro exI [of _ "takeWhile numeral_char (d # u)"])
      (auto simp: digits_text_def list_all_iff dest: set_takeWhileD)
  define b where "b = after_mantissa r"
  have e: "number_exponent lx st b = Ok q" using assms(2) by (simp add: b_def)
  obtain x where x: "b = x @ q" "exponent_part x"
  proof (cases "q = b")
    case True
    then show thesis using that [of "[]"] by (simp add: exponent_part_def)
  next
    case False
    then obtain y t where y: "b = y # t" "y \<in> {CHR ''e'', CHR ''E''}" using e by (cases b) (auto simp: number_exponent_def split: if_splits)
    define ds where "ds = (case t of x # q1 \<Rightarrow> if x = CHR ''+'' \<or> x = CHR ''-'' then q1 else t | [] \<Rightarrow> [])"
    have q: "q = dropWhile numeral_char ds" "q \<noteq> ds"
      using e y by (auto simp: number_exponent_def Let_def lex_fail_def is_digit_numeral ds_def [symmetric] split: if_splits)
    then obtain d u where "ds = d # u" "numeral_char d" by (cases ds) (auto split: if_splits)
    then obtain es where es: "digits_text es" "ds = es @ q" using run q(1) by metis
    have "\<exists>sg. t = sg @ ds \<and> sg \<in> {[], ''+'', ''-''}"
    proof (cases t)
      case (Cons h u)
      then show ?thesis by (cases "h = CHR ''+'' \<or> h = CHR ''-''") (auto simp: ds_def)
    qed (simp add: ds_def)
    then obtain sg where "t = sg @ ds" "sg \<in> {[], ''+'', ''-''}" by blast
    then show thesis using that [of "y # sg @ es"] y es by (auto simp: exponent_part_def)
  qed
  show ?thesis
    unfolding number_text_def
    using m x by (intro exI [of _ "sign @ whole @ f @ x"]) (metis append.assoc b_def)
qed

section \<open>One token\<close>

lemma number_text_start: "number_text w \<Longrightarrow> number_start (w @ q)"
proof -
  assume "number_text w"
  then obtain sign whole f x where w: "w = sign @ whole @ f @ x" "sign \<in> {[], ''-''}" "digits_text whole"
    unfolding number_text_def by blast
  obtain c s where "whole = c # s" "numeral_char c" using digits_hd [OF w(3)] by blast
  then show ?thesis using w by (auto simp: number_start_def is_digit_numeral)
qed

lemma symbol_hd: "s \<in> symbol_texts \<Longrightarrow> s \<noteq> [] \<and> hd s \<in> set ''{}()[]=,.&@<>!'' \<and> length s \<le> 2"
  by (auto simp: symbol_texts_def)

lemma symbol_class: "c \<in> set ''{}()[]=,.&@<>!'' \<Longrightarrow> \<not> letter c \<and> c \<noteq> CHR ''/'' \<and> c \<noteq> CHR 0x22 \<and> \<not> numeral_char c \<and> c \<noteq> CHR ''-''"
  by (auto simp: letter_def numeral_char_def)

text \<open>The first byte decides what a text can spell.\<close>

lemma spells_first:
  assumes "spells eng lim t w"
  obtains c s where "w = c # s"
    "c = CHR 0x22 \<longleftrightarrow> (case t of StringToken _ \<Rightarrow> True | TripleString _ \<Rightarrow> True | _ \<Rightarrow> False)"
    "c = CHR ''/'' \<longleftrightarrow> (case t of Regex _ _ \<Rightarrow> True | _ \<Rightarrow> False)"
    "letter c \<longleftrightarrow> (case t of Word _ \<Rightarrow> True | _ \<Rightarrow> False)"
    "\<And>q. number_start (w @ q) \<longleftrightarrow> (case t of Number _ \<Rightarrow> True | _ \<Rightarrow> False)"
proof -
  have l: "\<not> letter CHR 0x22" "\<not> letter CHR ''/''" "\<not> letter CHR ''-''" "\<not> numeral_char CHR 0x22" "\<not> numeral_char CHR ''/''"
    by (simp_all add: letter_def numeral_char_def)
  have ln: "\<not> (letter c \<and> numeral_char c)" for c by (auto simp: letter_def numeral_char_def char_le_iff)
  show thesis
  proof (cases t)
    case (Word n)
    then obtain c s where "w = c # s" "letter c" using assms by (cases w) (auto simp: spells_def name_text_def)
    then show thesis using that [of c s] Word l ln [of c] by (auto simp: number_start_def is_digit_numeral)
  next
    case (Number n)
    then have n: "number_text w" using assms by (simp add: spells_def)
    then obtain c s where w: "w = c # s" using number_text_start [of w "[]"] by (cases w) (auto simp: number_start_def)
    then have "numeral_char c \<or> c = CHR ''-''" using number_text_start [OF n, of "[]"] by (auto simp: number_start_def is_digit_numeral)
    then show thesis using that [of c s] w Number l ln [of c] number_text_start [OF n] by auto
  next
    case (Symbol x)
    then have "w \<in> symbol_texts" using assms by (simp add: spells_def)
    then obtain c s where "w = c # s" "c \<in> set ''{}()[]=,.&@<>!''" using symbol_hd [of w] by (cases w) auto
    then show thesis using that [of c s] Symbol symbol_class [of c] by (auto simp: number_start_def is_digit_numeral)
  next
    case (Regex a b)
    then obtain s where "w = CHR ''/'' # s" using assms by (auto simp: spells_def)
    then show thesis using that [of "CHR ''/''" s] Regex l by (auto simp: number_start_def is_digit_numeral)
  next
    case (StringToken x)
    then obtain s where "w = CHR 0x22 # s" using assms by (auto simp: spells_def)
    then show thesis using that [of "CHR 0x22" s] StringToken l by (auto simp: number_start_def is_digit_numeral)
  next
    case (TripleString x)
    then obtain s where "w = CHR 0x22 # s" using assms by (auto simp: spells_def)
    then show thesis using that [of "CHR 0x22" s] TripleString l by (auto simp: number_start_def is_digit_numeral)
  qed
qed

definition reads_token :: "lexer \<Rightarrow> bytes \<Rightarrow> token \<Rightarrow> bytes \<Rightarrow> bool" where
  "reads_token lx r t q \<longleftrightarrow>
     (\<exists>w. r = w @ q \<and> spells (lx_engine lx) (lx_limits lx) t w \<and> longest (lx_engine lx) (lx_limits lx) w q \<and>
        delimited t w q) \<and> utf8_valid q"

lemma reads_tokenI:
  assumes "r = w @ q" "spells (lx_engine lx) (lx_limits lx) t w" "delimited t w q" "utf8_valid q"
    "\<And>t' w' q'. r = w' @ q' \<Longrightarrow> spells (lx_engine lx) (lx_limits lx) t' w' \<Longrightarrow> length q \<le> length q'"
  shows "reads_token lx r t q"
proof -
  have "length w' \<le> length w" if "w' @ q' = w @ q" "spells (lx_engine lx) (lx_limits lx) t' w'" for t' w' q'
  proof -
    have "length w' + length q' = length w + length q" by (metis length_append that(1))
    then show ?thesis using assms(5) [of w' q' t'] that assms(1) by simp
  qed
  then show ?thesis using assms unfolding reads_token_def longest_def by blast
qed

lemma string_token_reads:
  assumes v: "utf8_valid r" and r: "take 1 r = [CHR 0x22]" and t: "string_token lx r = Ok (t, q)"
  shows "reads_token lx r t q"
proof -
  obtain triple e doc s where p: "triple = starts_with quotes r" "string_body lx triple r [CHR 0x22] (drop (if triple then 3 else 1) r) = Ok (e, q)"
    "json_new (lx_engine lx) (lx_limits lx) (e @ [CHR 0x22]) = Ok doc" "json_data doc = VText s"
    "t = (if triple then TripleString s else StringToken s)"
    using string_token_parts [OF t] by metis
  have kind: "(\<exists>b. t' = StringToken b) \<or> (\<exists>b. t' = TripleString b)"
    if w: "r = w' @ q'" "spells (lx_engine lx) (lx_limits lx) t' w'" for t' w' q'
  proof -
    obtain c x where "w' = c # x" "c = CHR 0x22 \<longleftrightarrow> (case t' of StringToken _ \<Rightarrow> True | TripleString _ \<Rightarrow> True | _ \<Rightarrow> False)"
      using spells_first [OF w(2)] by metis
    then show ?thesis using r w(1) by (cases t') auto
  qed
  show ?thesis
  proof (cases triple)
    case True
    then obtain u where u: "r = quotes @ u" using p(1) by (auto simp: starts_with_prefix prefix_def)
    then have "utf8_valid u" using v by (simp add: quotes_def)
    moreover have "string_body lx True r [CHR 0x22] u = Ok (e, q)" using p(2) u True by (simp add: quotes_def)
    ultimately obtain body where b: "u = body @ quotes @ q" "untripled body" "e = [CHR 0x22] @ json_spelling body" "utf8_valid q"
      using triple_body by blast
    show ?thesis
    proof (rule reads_tokenI)
      show "r = (quotes @ body @ quotes) @ q" using u b(1) by simp
      show "spells (lx_engine lx) (lx_limits lx) t (quotes @ body @ quotes)"
        using b p(3-5) True by (auto simp: spells_def quotes_def json_text_def intro!: exI [of _ body])
      show "delimited t (quotes @ body @ quotes) q" using p(5) True by (simp add: delimited_def)
      fix t' w' q' assume w: "r = w' @ q'" "spells (lx_engine lx) (lx_limits lx) t' w'"
      consider (plain) b' where "w' = CHR 0x22 # b' @ [CHR 0x22]" "unquoted b'" | (triple) b' where "w' = quotes @ b' @ quotes" "untripled b'"
        using kind [OF w] w(2) by (auto simp: spells_def quotes_def)
      then show "length q \<le> length q'"
      proof cases
        case plain
        then have "b' @ CHR 0x22 # q' = CHR 0x22 # CHR 0x22 # u" using w(1) u by (simp add: quotes_def)
        then have "b' = []" using plain(2) by (cases b') auto
        then have "q' = CHR 0x22 # u" using plain w(1) u by (simp add: quotes_def)
        then show ?thesis using b(1) by simp
      next
        case triple
        then have "b' @ quotes @ q' = body @ quotes @ q" using w(1) u b(1) by simp
        then have "b' = body" using untripled_unique triple(2) b(2) by blast
        then show ?thesis using triple w(1) u b(1) by simp
      qed
    qed (rule b(4))
  next
    case False
    then obtain u where u: "r = CHR 0x22 # u" using r by (cases r) auto
    then have "utf8_valid u" using v utf8_tl by auto
    moreover have "string_body lx False r [CHR 0x22] u = Ok (e, q)" using p(2) u False by simp
    ultimately obtain body where b: "u = body @ CHR 0x22 # q" "unquoted body" "e = [CHR 0x22] @ body" "utf8_valid q"
      using plain_body by blast
    show ?thesis
    proof (rule reads_tokenI)
      show "r = (CHR 0x22 # body @ [CHR 0x22]) @ q" using u b(1) by simp
      show "spells (lx_engine lx) (lx_limits lx) t (CHR 0x22 # body @ [CHR 0x22])"
        using b p(3-5) False by (auto simp: spells_def json_text_def)
      have "\<not> prefix quotes r" using p(1) False by (simp add: starts_with_prefix)
      then show "delimited t (CHR 0x22 # body @ [CHR 0x22]) q" using p(5) False u b(1) by (simp add: delimited_def quotes_def)
      fix t' w' q' assume w: "r = w' @ q'" "spells (lx_engine lx) (lx_limits lx) t' w'"
      have "\<not> prefix quotes w'" using p(1) False w(1) by (auto simp: starts_with_prefix)
      then obtain b' where "w' = CHR 0x22 # b' @ [CHR 0x22]" "unquoted b'"
        using kind [OF w] w(2) by (auto simp: spells_def quotes_def)
      moreover have "b' = body" if "b' @ CHR 0x22 # q' = body @ CHR 0x22 # q" using unquoted_unique [OF calculation(2) b(2) that] .
      ultimately show "length q \<le> length q'" using w(1) u b(1) by auto
    qed (rule b(4))
  qed
qed

lemma regex_token_reads:
  assumes v: "utf8_valid r" and r: "take 1 r = ''/''" and t: "regex_token lx r = Ok (t, q)"
  shows "reads_token lx r t q"
proof -
  obtain u where u: "r = CHR ''/'' # u" using r by (cases r) auto
  then have vu: "utf8_valid u" using v utf8_tl by auto
  obtain pattern r1 where p: "regex_body lx r [] u = Ok (pattern, r1)" "q = dropWhile is_alphabetic r1"
    "t = Regex pattern (takeWhile is_alphabetic r1)" "set (takeWhile is_alphabetic r1) \<subseteq> set ''ims''" "distinct (takeWhile is_alphabetic r1)"
    using regex_token_parts [OF t] u by (metis drop0 drop_Suc_Cons One_nat_def)
  obtain body where b: "u = body @ CHR ''/'' # r1" "unslashed body" "pattern = regex_pattern body" "utf8_valid r1"
    using regex_body_reads [OF vu p(1)] by auto
  show ?thesis
  proof (rule reads_tokenI)
    show "r = (''/'' @ body @ ''/'' @ takeWhile is_alphabetic r1) @ q" using u b(1) p(2) by simp
    show "spells (lx_engine lx) (lx_limits lx) t (''/'' @ body @ ''/'' @ takeWhile is_alphabetic r1)"
      using b p by (auto simp: spells_def)
    show "delimited t (''/'' @ body @ ''/'' @ takeWhile is_alphabetic r1) q"
      using p(2,3) hd_dropWhile [of is_alphabetic r1] by (auto simp: delimited_def classes)
    show "utf8_valid q" unfolding p(2) using utf8_dropWhile [of is_alphabetic r1] letter_low b(4) by blast
    fix t' w' q' assume w: "r = w' @ q'" "spells (lx_engine lx) (lx_limits lx) t' w'"
    obtain c x where "w' = c # x" "c = CHR ''/'' \<longleftrightarrow> (case t' of Regex _ _ \<Rightarrow> True | _ \<Rightarrow> False)" using spells_first [OF w(2)] by metis
    then obtain b' fl where w': "w' = ''/'' @ b' @ ''/'' @ fl" "unslashed b'" "set fl \<subseteq> set ''ims''"
      using w u by (cases t') (auto simp: spells_def)
    then have "b' @ CHR ''/'' # fl @ q' = body @ CHR ''/'' # r1" using w(1) u b(1) by simp
    then have "b' = body" using unslashed_unique w'(2) b(2) by blast
    then have "r1 = fl @ q'" using w' w(1) u b(1) by simp
    moreover have "\<forall>c \<in> set fl. is_alphabetic c" using w'(3) by (auto simp: is_alphabetic_def)
    ultimately have "q = dropWhile is_alphabetic q'" by (simp add: p(2) dropWhile_append2)
    then show "length q \<le> length q'" by (simp add: length_dropWhile_le)
  qed
qed

lemma take_range: "r = w @ q \<Longrightarrow> take (length r - length q) r = w"
  by simp

lemma lex_token_reads:
  assumes v: "utf8_valid r" and ne: "r \<noteq> []" and t: "lex_token lx r = Ok (t, q)"
  shows "reads_token lx r t q"
proof -
  obtain c s where r: "r = c # s" using ne by (cases r) auto
  consider (string) "c = CHR 0x22" "string_token lx r = Ok (t, q)" | (regex) "c = CHR ''/''" "regex_token lx r = Ok (t, q)"
    | (word) "letter c" "q = dropWhile is_word_char r" "t = Word (take (length r - length q) r)"
    | (number) "number_start r" "number_token lx r = Ok (t, q)"
    | (symbol) "c \<noteq> CHR 0x22" "c \<noteq> CHR ''/''" "\<not> letter c" "\<not> number_start r" "symbol_token lx r = Ok (t, q)"
    using t by (auto simp: lex_token_def word_token_def Let_def r classes str_range_def split: if_splits)
  then show ?thesis
  proof cases
    case string
    then show ?thesis using string_token_reads v r by simp
  next
    case regex
    then show ?thesis using regex_token_reads v r by simp
  next
    case word
    have q: "r = takeWhile is_word_char r @ q" using word(2) by simp
    show ?thesis
    proof (rule reads_tokenI [OF q])
      have "takeWhile is_word_char r \<noteq> [] \<and> letter (hd (takeWhile is_word_char r))"
        using word(1) by (simp add: r is_word_char_def classes)
      then show "spells (lx_engine lx) (lx_limits lx) t (takeWhile is_word_char r)"
        using word(3) take_range [OF q] by (auto simp: spells_def name_text_def is_word_char_def classes dest: set_takeWhileD)
      show "delimited t (takeWhile is_word_char r) q" by (simp add: delimited_def word(3))
      show "utf8_valid q" unfolding word(2) using utf8_dropWhile [of is_word_char r] word_char_low v by blast
      fix t' w' q' assume w: "r = w' @ q'" "spells (lx_engine lx) (lx_limits lx) t' w'"
      obtain c' x where "w' = c' # x" "letter c' \<longleftrightarrow> (case t' of Word _ \<Rightarrow> True | _ \<Rightarrow> False)" using spells_first [OF w(2)] by metis
      then have "name_text w'" using w word(1) r by (cases t') (auto simp: spells_def)
      then have "\<forall>c \<in> set w'. is_word_char c" by (auto simp: name_text_def is_word_char_def classes)
      then have "q = dropWhile is_word_char q'" by (simp add: word(2) w(1) dropWhile_append2)
      then show "length q \<le> length q'" by (simp add: length_dropWhile_le)
    qed
  next
    case number
    note n = number_token_parts [OF number(2)]
    obtain w0 where w0: "r = w0 @ q" "number_text w0" using number_reads [OF number(1) n(1)] by blast
    show ?thesis
    proof (rule reads_tokenI [OF w0(1)])
      show "spells (lx_engine lx) (lx_limits lx) t w0" using n(3) take_range [OF w0(1)] w0(2) by (simp add: spells_def)
      show "delimited t w0 q" using n(2,3) by (auto simp: delimited_def is_word_char_def classes)
      show "utf8_valid q" using number_valid(2) [OF number_valid(1) [OF v] n(1)] .
      fix t' w' q' assume w: "r = w' @ q'" "spells (lx_engine lx) (lx_limits lx) t' w'"
      have "number_start (w' @ q') \<longleftrightarrow> (case t' of Number _ \<Rightarrow> True | _ \<Rightarrow> False)" using spells_first [OF w(2)] by metis
      then have "number_text w'" using w number(1) by (cases t') (auto simp: spells_def)
      then have "suffix q q'" using number_longest n(1) w(1) by blast
      then show "length q \<le> length q'" by (rule suffix_length_le)
    qed
  next
    case symbol
    have kind: "w' \<in> symbol_texts" if w: "r = w' @ q'" "spells (lx_engine lx) (lx_limits lx) t' w'" for t' w' q'
    proof -
      obtain c' x where f: "w' = c' # x"
        "c' = CHR 0x22 \<longleftrightarrow> (case t' of StringToken _ \<Rightarrow> True | TripleString _ \<Rightarrow> True | _ \<Rightarrow> False)"
        "c' = CHR ''/'' \<longleftrightarrow> (case t' of Regex _ _ \<Rightarrow> True | _ \<Rightarrow> False)"
        "letter c' \<longleftrightarrow> (case t' of Word _ \<Rightarrow> True | _ \<Rightarrow> False)"
        "\<And>q. number_start (w' @ q) \<longleftrightarrow> (case t' of Number _ \<Rightarrow> True | _ \<Rightarrow> False)"
        by (rule spells_first [OF w(2)], rule that, assumption+)
      have "c' = c" using f(1) w(1) r by simp
      then show ?thesis using f(2-4) f(5) [of q'] symbol(1-4) w by (cases t') (auto simp: spells_def)
    qed
    have two: "take 2 r \<in> {''=='', ''!='', ''<='', ''>=''}" if w: "w' \<in> symbol_texts" "length w' = 2" "prefix w' r" for w'
    proof -
      have "take 2 r = w'" using w(2,3) by (simp add: starts_with_def flip: starts_with_prefix)
      then show ?thesis using w(1,2) by (auto simp: symbol_texts_def)
    qed
    show ?thesis
    proof (cases "take 2 r \<in> {''=='', ''!='', ''<='', ''>=''}")
      case True
      then have tq: "t = Symbol (take 2 r)" "q = drop 2 r" using symbol(5) by (auto simp: symbol_token_def)
      show ?thesis
      proof (rule reads_tokenI [of r "take 2 r"])
        show "r = take 2 r @ q" by (simp add: tq(2))
        show "spells (lx_engine lx) (lx_limits lx) t (take 2 r)" using True by (auto simp: spells_def tq(1) symbol_texts_def)
        show "delimited t (take 2 r) q" by (simp add: tq(1) delimited_def)
        obtain a b x where "r = a # b # x" "\<not> high a" "\<not> high b" using True by (cases s) (auto simp: r high_def)
        then show "utf8_valid q" using v by (auto simp: tq(2) dest!: utf8_tl)
        fix t' w' q' assume w: "r = w' @ q'" "spells (lx_engine lx) (lx_limits lx) t' w'"
        then have "length w' \<le> 2" using kind symbol_hd by blast
        then show "length q \<le> length q'" using w(1) by (simp add: tq(2))
      qed
    next
      case False
      then have tq: "t = Symbol [c]" "q = s" "c \<in> set ''{}()[]=,.&@<>''"
        using symbol(5) by (auto simp: symbol_token_def r str_range_def lex_fail_def split: if_splits)
      show ?thesis
      proof (rule reads_tokenI [of r "[c]"])
        show "r = [c] @ q" by (simp add: tq(2) r)
        show "spells (lx_engine lx) (lx_limits lx) t [c]" using tq(3) by (auto simp: spells_def tq(1) symbol_texts_def)
        show "delimited t [c] q" by (simp add: tq(1) delimited_def)
        have "\<not> high c" using tq(3) by (auto simp: high_def)
        then show "utf8_valid q" using v r tq(2) utf8_tl [of c s] by simp
        fix t' w' q' assume w: "r = w' @ q'" "spells (lx_engine lx) (lx_limits lx) t' w'"
        then have m: "w' \<in> symbol_texts" by (rule kind)
        have "prefix w' r" using w(1) by simp
        then have "length w' \<noteq> 2" using False two m by blast
        then have "length w' \<le> 1" using symbol_hd [OF m] by simp
        then show "length q \<le> length q'" using w(1) r by (cases w') (auto simp: tq(2))
      qed
    qed
  qed
qed

lemma lex_token_ends:
  assumes v: "utf8_valid r" and ne: "r \<noteq> []"
  shows "lex_token lx r \<noteq> Panic"
proof -
  obtain c s where r: "r = c # s" using ne by (cases r) auto
  have range: "str_range r q \<noteq> Panic" if "utf8_valid q" for q using str_range_valid [OF v that] by simp
  have "regex_token lx r \<noteq> Panic" if "c = CHR ''/''"
  proof -
    have vs: "utf8_valid s" using v that r utf8_tl [of c s] by simp
    have "str_range r1 (dropWhile is_alphabetic r1) \<noteq> Panic" if "regex_body lx r [] s = Ok (e, r1)" for e r1
    proof -
      have v1: "utf8_valid r1" using regex_body_reads [OF vs that] by blast
      then have "utf8_valid (dropWhile is_alphabetic r1)" using utf8_dropWhile [of is_alphabetic r1] letter_low by blast
      then show ?thesis using str_range_valid [OF v1] by simp
    qed
    then show ?thesis using regex_body_ends [OF vs] r by (auto simp: regex_token_def Let_def attempt_eq_Panic)
  qed
  moreover have "word_token r \<noteq> Panic"
    using range utf8_dropWhile [of is_word_char r] word_char_low v by (auto simp: word_token_def Let_def attempt_eq_Panic)
  moreover have "number_token lx r \<noteq> Panic" if n: "number_start r"
  proof -
    have "after_sign r \<noteq> []" using n by (auto simp: number_start_def after_sign_def r starts_with_def is_digit_def split: list.splits)
    moreover have "number_exponent lx r z \<noteq> Panic" for z by (auto simp: number_exponent_def Let_def split: list.splits)
    ultimately show ?thesis
      using range number_valid [OF number_valid(1) [OF v]] number_valid(2) [OF number_valid(1) [OF v]] ne
      by (auto simp: number_token_alt attempt_eq_Panic)
  qed
  moreover have "symbol_token lx r \<noteq> Panic"
  proof -
    have "utf8_valid s" if "c \<in> set ''{}()[]=,.&@<>''" using that v r utf8_tl [of c s] by (auto simp: high_def)
    moreover have "next_char r \<noteq> Panic" using next_char_valid [OF v ne] by (metis result.distinct(3))
    ultimately show ?thesis using range by (auto simp: symbol_token_def r attempt_eq_Panic)
  qed
  moreover have "string_token lx r \<noteq> Panic" if "c = CHR 0x22" using string_token_ends [OF v] that r by simp
  ultimately show ?thesis by (auto simp: lex_token_def r)
qed

section \<open>Skipped text\<close>

lemma first_close: "after_close (body @ '']]'') = Some [] \<Longrightarrow> \<not> sublist '']]'' (body @ '']'')"
proof (induction body)
  case (Cons c b)
  have "\<not> starts_with '']]'' (c # b @ '']]'')" using Cons.prems by (cases b) (auto split: if_splits)
  then have "\<not> prefix '']]'' (c # b @ '']'')"
    using prefix_prefix [of "'']]''" "c # b @ '']''" "'']''"] by (auto simp: starts_with_prefix)
  moreover have "\<not> sublist '']]'' (b @ '']'')" using Cons by (cases "starts_with '']]'' (c # b @ '']]'')") auto
  ultimately show ?case by (simp add: sublist_Cons_right)
qed (simp add: sublist_Cons_right)

lemma skip_cases:
  assumes v: "utf8_valid r" and s: "skip_trivia lx r = Ok (Some p)"
  obtains (blank) c where "r = c # p" "is_space c" "utf8_valid p"
  | (block) body where "r = ''--[['' @ body @ '']]'' @ p" "\<not> sublist '']]'' (body @ '']'')" "utf8_valid p"
  | (line) body where "r = ''--'' @ body @ p" "\<not> prefix ''[['' (body @ p)" "\<forall>c \<in> set body. \<not> is_line_end c"
      "p = [] \<or> is_line_end (hd p)" "utf8_valid p"
proof -
  obtain c s1 where r: "r = c # s1" using s by (cases r) (auto simp: skip_trivia_def)
  consider (1) "is_space c" "p = s1"
    | (2) "starts_with ''--[['' r" "after_close (drop 4 r) = Some p"
    | (3) "\<not> starts_with ''--[['' r" "starts_with ''--'' r" "p = dropWhile (\<lambda>c. \<not> is_line_end c) r"
    using s by (auto simp: skip_trivia_def r lex_fail_def str_from_def split: if_splits option.splits)
  then show thesis
  proof cases
    case 1
    then show thesis using blank [of c] r v space_valid [of c s1] by simp
  next
    case 2
    then obtain u where u: "r = ''--[['' @ u" by (auto simp: starts_with_prefix prefix_def)
    then have "after_close u = Some p" using 2(2) by simp
    then obtain body where b: "u = body @ '']]'' @ p" "after_close (body @ '']]'') = Some []" using after_close_split by blast
    have "utf8_valid ('']]'' @ p)"
      by (rule utf8_suffix [of "''--[['' @ body"]) (use v u b in \<open>auto simp: boundary_def continuation_def\<close>)
    then show thesis using block [of body] u b first_close by simp
  next
    case 3
    then obtain u where u: "r = ''--'' @ u" by (auto simp: starts_with_prefix prefix_def)
    define body where "body = takeWhile (\<lambda>c. \<not> is_line_end c) u"
    have p: "p = dropWhile (\<lambda>c. \<not> is_line_end c) u" using 3(3) u by (simp add: is_line_end_def)
    then have d: "u = body @ p" by (simp add: body_def)
    have e: "p = [] \<or> is_line_end (hd p)" using p hd_dropWhile [of "\<lambda>c. \<not> is_line_end c" u] by auto
    have "utf8_valid p"
    proof (rule utf8_suffix [of "''--'' @ body"])
      show "utf8_valid ((''--'' @ body) @ p)" using v u d by simp
      show "boundary p" using e by (cases p) (auto simp: boundary_def is_line_end_def continuation_def)
    qed
    moreover have "\<not> prefix ''[['' (body @ p)" using 3(1) u d by (simp add: starts_with_prefix)
    moreover have "\<forall>c \<in> set body. \<not> is_line_end c" by (auto simp: body_def dest: set_takeWhileD)
    ultimately show thesis using line [of body] u d e by simp
  qed
qed

lemma skip_valid: "utf8_valid r \<Longrightarrow> skip_trivia lx r = Ok (Some p) \<Longrightarrow> utf8_valid p"
  by (erule (1) skip_cases)

lemma skip_trivia_ends: "utf8_valid r \<Longrightarrow> skip_trivia lx r \<noteq> Panic"
proof -
  assume v: "utf8_valid r"
  have "boundary (drop 4 r)" if b: "starts_with ''--[['' r"
  proof -
    obtain u where "r = ''--[['' @ u" using b by (auto simp: starts_with_prefix prefix_def)
    then show ?thesis using v utf8_boundary [of u] by simp
  qed
  then show ?thesis using utf8_boundary [OF v]
    by (auto simp: skip_trivia_def str_from_def attempt_eq_Panic split: list.splits option.splits)
qed

section \<open>The loop\<close>

lemma lex_loop_ends: "utf8_valid r \<Longrightarrow> lex_loop lx max_tokens header found r \<noteq> Panic"
proof (induction r arbitrary: found rule: measure_induct_rule [where f = length])
  case (less r)
  have 1: "lex_loop lx max_tokens header found q \<noteq> Panic" if q: "skip_trivia lx r = Ok (Some q)" for q
  proof -
    have "utf8_valid q" using skip_valid [OF less.prems q] .
    then show ?thesis using less.IH suffix_length_less [OF skip_trivia_rest [OF q]] by blast
  qed
  have 2: "lex_loop lx max_tokens header f q \<noteq> Panic" if q: "r \<noteq> []" "lex_token lx r = Ok (t, q)" for f t q
  proof -
    have "utf8_valid q" using lex_token_reads [OF less.prems q] by (simp add: reads_token_def)
    then show ?thesis using less.IH suffix_length_less [OF lex_token_rest [OF q(2,1)]] by blast
  qed
  show ?case
    using skip_trivia_ends [OF less.prems] lex_token_ends [OF less.prems] 1 2
    by (subst lex_loop.simps) (auto simp: attempt_eq_Panic Let_def split: option.splits)
qed




section \<open>Every reading is found\<close>














section \<open>The properties\<close>


definition sample_source :: bytes where
  "sample_source = ''--[[ a ]] x >= -1.5e3 -- b'' @ [CHR 0x0A] @ [CHR 0x22] @ ''q'' @ [CHR 0x22] @ '' /a'' @ [CHR 0x5C] @ ''/b/im''"




text \<open>C26. On UTF-8 text lexing always ends in tokens or a failure: neither the lexer nor the check
  of the version header slices inside a character, reads past the end or runs on, whatever the
  JSON parser of its literals is built from.\<close>

theorem lex_total:
  assumes "utf8_valid source"
  shows "lex eng lim location max_tokens source \<noteq> Panic \<and> check_header eng lim location source \<noteq> Panic"
  using lex_loop_ends [OF assms] by (simp add: lex_def check_header_def lex_inner_def attempt_eq_Panic)

theorem lex_total_witness:
  "lex reference_json default_limits Inline 9 sample_source \<noteq> Panic"
proof -
  have "utf8_valid sample_source" by code_simp
  then show ?thesis using lex_total by blast
qed

end
