(* ===== verification/Spec2Isabelle.thy ===== *)
theory Spec2Isabelle
  imports Cbor_Properties Options Type_Properties Json_Pointer Context_Properties Evaluator_Properties Binding Scope_Properties
    Lexer_Properties
begin

text \<open>
  A model of the deterministic core of \<open>htlk\<close>: a workflow language whose compiled
  executables are canonical CBOR records, and the pure parts of the runtime that runs them.

  The program. \<open>htlk-executable\<close> defines the records: every type, port, expression,
  template, graph scope and option is written to one canonical CBOR array by \<open>to_value\<close> under
  a budget (\<open>RecordAccounting\<close>), read back strictly by \<open>from_value\<close>, and named by the
  SHA-256 digest of a domain-separated array. \<open>htlk-compiler\<close> produces these records from
  source text, \<open>htlk-analyzer\<close> checks their meaning, \<open>htlk-runtime\<close> evaluates their
  expressions, selects the source of every binding, admits invocations and stores the outcome.
  The components call one another in the order of the theories below.

  Conventions. A fallible function returns \<open>('e, 'a) result\<close> with \<open>Ok\<close>, \<open>Err\<close> and \<open>Panic\<close>
  (a failed \<open>expect\<close> or \<open>unreachable!\<close>, an index out of range, a \<open>str\<close> cut inside a
  character, or overflow); \<open>attempt\<close> is the operator \<open>?\<close>. A string is
  the list of its UTF-8 bytes, \<open>usize\<close> is \<open>nat\<close> below \<open>usize_bound\<close> with the checked
  operations written out, floats and binary16 are bit patterns (\<open>64 word\<close>, \<open>16 word\<close>). A budget
  threaded by reference is a number passed and returned. A definition has the name of the
  function it models, with the component's prefix where the name occurs twice.

  Theories and code (paths under \<open>src/crates\<close>; \<open>E\<close> is \<open>htlk-executable/src\<close>, \<open>A\<close> is
  \<open>htlk-analyzer/src\<close>, \<open>K\<close> is \<open>htlk-compiler/src\<close>, \<open>R\<close> is \<open>htlk-runtime/src\<close>).
  \<^item> \<open>Prelude\<close>: the result type, checked arithmetic, UTF-8, sorted lists, folds that may fail.
  \<^item> \<open>Cbor_Model\<close>, \<open>Cbor_Encode\<close>, \<open>Cbor_Decode\<close>: \<open>E/cbor\<close>: limits and accounting, values and
    maps, the encoder and the strict decoder. \<open>Cbor_Roundtrip\<close>, \<open>Cbor_Codec\<close> and
    \<open>Cbor_Properties\<close> show that the encoder writes the canonical form of RFC 8949, that the
    decoder accepts exactly the canonical documents within the limits, that both round trips
    hold and that no input panics. \<open>Floats\<close> and \<open>Cbor_Reference\<close> give an IEEE 754 instance of
    the parameter \<open>cbor2\<close>, on which the witnesses run.
  \<^item> \<open>Record_Accounting\<close>: \<open>E/record_accounting.rs\<close>: the charge of a value is the length of its
    encoding. \<open>Record_Codec\<close> is the locale \<open>record_codec\<close> of the shape all records share
    (builder, parser, invariant); its laws give the byte-level round trip of each record, and
    \<open>Options\<close>, \<open>Type_Records\<close> interpret it on their own definitions.
  \<^item> \<open>Identifiers\<close>, \<open>Digests\<close>, \<open>Json_Pointer\<close>, \<open>Options\<close>: the files of the same names in \<open>E\<close>:
    accepted languages, error offsets, text round trips, lookup, normal forms, and that
    different records never have the same preimage.
  \<^item> \<open>Types\<close>, \<open>Type_Codec\<close>, \<open>Type_Records\<close>, \<open>Type_Properties\<close>: \<open>E/types\<close>: the builder that
    normalises a type description, the canonical parser, and that both agree with \<open>type_wire\<close>.
  \<^item> \<open>Expressions\<close>, \<open>Templates\<close>: \<open>E/expression\<close>; \<open>Templates\<close> and \<open>Context_Properties\<close> also hold
    \<open>A/context.rs\<close>: which expression may stand where, against the table of allowed roots of the
    syntax reference, and the first diagnostic reported.
  \<^item> \<open>Evaluator\<close>: \<open>R/evaluate.rs\<close> and the regular expression checks of \<open>A/regex.rs\<close>.
    \<open>Evaluator_Semantics\<close> defines \<open>denote\<close>, the meaning of an expression without meter or
    limits, proves the evaluator against it in the locale \<open>evaluation_interface\<close> (what a frame
    promises) and interprets that locale on the concrete frame; \<open>Evaluator_Properties\<close> states
    the results, the bounds on usage and the short circuits.
  \<^item> \<open>Failures\<close>: \<open>R/failure.rs\<close> and \<open>R/execution/retry.rs\<close>: classification and retry decision.
  \<^item> \<open>Graph\<close>: \<open>E/graph\<close>: port tables, edges, operations, nodes and scopes with their records.
  \<^item> \<open>Runtime_Identity\<close>: \<open>R/identity.rs\<close>: streamed identities against the canonical encoding,
    and their separation. \<open>Runtime_Records\<close>: \<open>R/records.rs\<close>: lifecycles as transition relations,
    security labels as sets, manifests and their checkpoints.
  \<^item> \<open>Binding\<close>: \<open>R/binding.rs\<close>: selection among guarded edges refines \<open>binding_meaning\<close>, and an
    invocation is admitted only when its inputs are there.
  \<^item> \<open>Wait_Order\<close>, \<open>Scope_Graph\<close>: \<open>A/graph_verify.rs\<close>: the checker of one scope use, which
    declares the events of ports, nodes and edges, their waits, the candidate edges of every
    destination and the guards that exclude each other, then orders the events (Kahn's
    algorithm) and looks for nodes nobody observes. \<open>Scope_Waits\<close> specifies the waits without
    the checker's state; \<open>Scope_Properties\<close> shows that an accepted plan is exactly that graph,
    that it can always proceed, and that cycles, unobserved nodes and conflicts are rejected.
  \<^item> \<open>Json\<close>: \<open>E/json.rs\<close>: the JSON reader and the canonical (JCS) writer on the CBOR values.
    \<open>Json_Tokens\<close> and \<open>Json_Properties\<close> show that canonical text is stable, and totality.
  \<^item> \<open>Diagnostics\<close>, \<open>Lexer\<close>: \<open>K/diagnostic.rs\<close> and \<open>K/lexer.rs\<close>: reports, and tokens with
    their spans. \<open>Lexical_Grammar\<close> states the lexical rules of the syntax reference without the
    lexer; \<open>Lexer_Properties\<close> shows that the lexer reads a UTF-8 source exactly by them and never
    panics there, so that no token boundary falls inside a character.

  Bounds. Recursion is structural or has a measure; only the decoder and the
  JSON reader and writer follow a depth, which the code bounds as well (\<open>max_depth\<close>, at most
  \<open>max_supported_depth\<close>), and the members of a JSON list or object are counted by the bytes
  left (\<open>json_items\<close>, \<open>json_fields\<close>), where running out is a panic that \<open>json_total\<close> excludes. Limits are arbitrary in the theorems, with \<open>usize_limits\<close> where a length must be a
  \<open>usize\<close>.

  Parameters. SHA-256 (\<open>sha256\<close>, a function whose result has 32 bytes), the header functions of
  \<open>cbor2\<close> (documented behaviour \<open>cbor2_documented\<close>, satisfied by \<open>Cbor_Reference\<close>), \<open>f16\<close> of the
  crate \<open>half\<close>, the engine of the crate \<open>regex\<close> (\<open>regex_build\<close>), the string literals of
  \<open>serde_json\<close> and the shortest decimals of \<open>ryu_js\<close> (\<open>json_engine\<close>, laws \<open>engine_laws\<close>,
  satisfied by \<open>reference_json\<close>), and, for \<open>Scope_Graph\<close>, the type checker, the manifests of
  the libraries and the sizes of stored analyses. Separation of identities
  is therefore stated for what is hashed; collision resistance is not assumed.

  Not modelled. Failed allocation and most prose of error messages. The compiler after its
  lexer; the analyzer's type checker, JSON Schema inference and the iteration of
  graph verification over a linked document; executable envelopes and document metadata; the checked evaluator's callbacks. In the runtime the
  SQLite store, the MCP client and its protocol, the asynchronous coordinator and host
  extensions: their behaviour is that of a database, a network peer and an executor, which the
  sources only call. The manifest lists each with its reason.
\<close>

end
